(* ===== verification/Prelude.thy ===== *)
theory Prelude
  imports Main "HOL-Library.Word" "HOL-Library.Multiset"
begin

text \<open>
  Shared vocabulary of the development: names for the machine words the sources use
  (\<open>uint8_t\<close>, \<open>ap_uint<40>\<close> and so on), the value carried by an AXI stream package
  (\<open>ap_axiu\<close>: data and the end-of-stream flag), FIFO streams as lists whose head is the
  oldest element, and the generic lemmas and collections the component theories share.
\<close>

unbundle bit_operations_syntax

named_theorems step_simps \<open>equations of the one-iteration functions of the kernels\<close>

type_synonym u8 = "8 word"
type_synonym u16 = "16 word"
type_synonym u32 = "32 word"
type_synonym u64 = "64 word"

text \<open>\<open>hls::stream<T>\<close>: the head of the list is the next element to be read.\<close>

type_synonym 'a stream = "'a list"

text \<open>\<open>ap_axiu<W,0,0,0>\<close>: what the kernels use of it is the data and the last flag.\<close>

record 'a pkg =
  data :: 'a
  last :: bool

subsection \<open>Lists\<close>

lemma sum_list_map_zero [simp]: "sum_list (map (\<lambda>_. 0::nat) xs) = 0"
  by (induction xs) auto

lemma nth_append_single [simp]: "(xs @ [x]) ! length xs = x"
  by simp

lemma upt_mult_Suc: "[0..<k * Suc n] = [0..<k * n] @ [k * n..<k * n + k]"
proof -
  have "[0..<k * n + k] = [0..<k * n] @ [k * n..<k * n + k]"
    by (rule upt_add_eq_append) simp
  then show ?thesis by (simp add: algebra_simps)
qed

subsection \<open>Iteration\<close>

lemma funpow_mult_apply: "((f :: 'a \<Rightarrow> 'a) ^^ (m * n)) x = ((f ^^ m) ^^ n) x"
  by (simp only: Nat.funpow_mult)

lemma funpow_add_apply: "(f ^^ (m + n)) x = (f ^^ m) ((f ^^ n) x)"
  by (simp add: funpow_add)

lemma funpow_fixed: "f x = x \<Longrightarrow> (f ^^ n) x = x"
  by (induction n) auto

lemma funpow_period_mod:
  assumes "(f ^^ d) x = x"
  shows "(f ^^ n) x = (f ^^ (n mod d)) x"
proof -
  have "(f ^^ (n mod d + d * (n div d))) x = (f ^^ (n mod d)) (((f ^^ d) ^^ (n div d)) x)"
    by (simp only: funpow_add_apply funpow_mult_apply)
  also have "((f ^^ d) ^^ (n div d)) x = x"
    using assms by (rule funpow_fixed)
  finally show ?thesis by simp
qed

subsection \<open>Words\<close>

lemma unat_less: "unat (w :: 'a::len word) < 2 ^ LENGTH('a)"
  by (rule unsigned_less)

lemma unat_less_64: "unat (w :: u64) < 18446744073709551616"
  using unat_less [of w] by simp

lemma unat_less_32: "unat (w :: u32) < 4294967296"
  using unat_less [of w] by simp

lemma unat_less_8: "unat (w :: u8) < 256"
  using unat_less [of w] by simp

lemma word_and_mask_le_iff [simp]: "(x :: u8) AND y AND y = x AND y"
  by (simp add: and.assoc)

end
