(* ===== verification/Xor32_Table.thy ===== *)
theory Xor32_Table
  imports Prelude
begin

text \<open>
  The seed table \<open>tmp_xor32_s\<close> of \<open>src/irsgu/xor32s.h\<close> (included by \<open>sou_function.h\<close>): the 4096
  initial xorshift states, in the order of the file, in consecutive pieces.
\<close>

definition tmp_xor32_s_00 :: "u32 list" where
  "tmp_xor32_s_00 = [
    0xa0f16c6d, 0xe4f4bd4c, 0x56539039, 0x263ac600, 0x00726cdd, 0x38dad260, 0xb2552483, 0xa389e885,
    0xe11450c8, 0x942031e2, 0xdc1a44d6, 0x8a9545dd, 0xc4edb11a, 0x8acb85f0, 0x66c07a3c, 0x6e3bea66,
    0x6070b9a2, 0x5971ffbc, 0x1ec267b8, 0x9943bc0f, 0xd11bd221, 0x881b91f8, 0xe4fb40a7, 0x373f3fc8,
    0x55d9eb50, 0x96cba2e1, 0xa990af76, 0x9855c8fa, 0x01965e09, 0xbad919cb, 0xac74832e, 0xb22e2a2f,
    0x1b4f3e05, 0xaee607da, 0x90b1c3e8, 0x9de49f4c, 0xe4e8194b, 0x9a562f3d, 0x94eee422, 0xf4c7f97b,
    0xe840f52c, 0x1543e3e9, 0xe364da38, 0x7c8fcd87, 0x6f7dbc2e, 0xd38e0bf0, 0x71d04758, 0x626c376a,
    0x7dd07995, 0x152804aa, 0x6691d88e, 0x3f6d0745, 0xf66cfc03, 0xece113f0, 0x0c1fc921, 0xde567d77,
    0x8245172b, 0xef9bff3b, 0x13ca0faa, 0x6817e3c1, 0x64f3a372, 0xdc8925e7, 0x64619ba9, 0x9c4d767f,
    0x6d9bf3b5, 0xc362e501, 0x614442d4, 0xf5bb4d95, 0x5533751d, 0xd78a707e, 0x25c54816, 0x6fb878f7,
    0xf173f841, 0x057315fd, 0x99df1404, 0xf255b0c6, 0x5dafc4b5, 0x546506b9, 0xb8e1ce8c, 0x0938461c,
    0xfa9f252d, 0xdfb7585d, 0xa2e47e01, 0xec604025, 0x9d3f18d5, 0xbc1bcab9, 0x0e9d13b2, 0x63a4df1c,
    0xc1deb2c3, 0x2be007d8, 0x5e905b14, 0xa7895086, 0x21cfec15, 0x86266af1, 0x0a2349ca, 0x3aea3295,
    0x0ee22351, 0xe7c0db33, 0x0ab5043a, 0x99202ebb, 0x47dc4f0a, 0xfe1305ed, 0xcb1512a1, 0x94d0e56b,
    0x632c08ce, 0xcb286486, 0x6f6252e2, 0xd2c2b1ab, 0x623e7fa7, 0x9f0c9e4c, 0x707bfb06, 0xe6f4c53a,
    0x0df6c14e, 0xfa5a20b9, 0x755ca3ed, 0x799c8251, 0xb782a852, 0xfdf262c4, 0xb5c1f63a, 0x9fa8279f,
    0x15a282ea, 0x62c4f0ef, 0x0dc334a2, 0x188ec581, 0x38183657, 0x1737b3e4, 0x398b8b2f, 0x8bac6da9,
    0xb04c90c4, 0x5f0ae767, 0xa69959ea, 0x57dffbff, 0x7f832f90, 0x05dc0621, 0x497e3f51, 0x373010e5,
    0x6a08f158, 0x6f5ec8f8, 0x2c4bb4e4, 0xc14eb35c, 0x33a43d89, 0x546869fd, 0x051a12bf, 0x02d4abf9,
    0x64816f0b, 0x5b05c29f, 0xa4074af0]"

definition tmp_xor32_s_01 :: "u32 list" where
  "tmp_xor32_s_01 = [
    0x9c6910f8, 0x77d43176, 0x1725a9b5, 0xfdef6a05, 0xe8ca6f3b, 0x065d7bb6, 0xfc0a891f, 0x739af4e8,
    0x8d11bf78, 0x23844290, 0x832e11ca, 0x03c73e4a, 0x360609ab, 0x09e78319, 0xc1c52be0, 0xdc8a8eb9,
    0x160f4ff4, 0x8bfcf907, 0x69729879, 0xd050cfb4, 0xdc0a20b7, 0xdf404ff1, 0xaeb814f4, 0x0f71ae4a,
    0x0bc841b3, 0x2205b886, 0x8687b8f0, 0xb1fc9ea9, 0x6fafdedb, 0xbebf2c5f, 0xcfb5877a, 0xa076740c,
    0xc97aff27, 0x0430adf4, 0xbaf34d94, 0xd2d2b4b8, 0x1cd694ae, 0xb9e00b43, 0xcfe0d12a, 0x53aa8501,
    0x73a6923d, 0xcfd2cfff, 0x27730a3d, 0xae4a54cd, 0x8a270484, 0xc95aaac4, 0xf6388124, 0x7349ec6e,
    0xc01c7379, 0xc7ce5f7e, 0x6b7329bf, 0x45d5f516, 0x7616b64c, 0xb61b2f66, 0x4402b8c4, 0x86370844,
    0xde8642c7, 0x7728b55b, 0x28755b38, 0x56ef562d, 0xcc76c520, 0x40e9d104, 0xb985ff44, 0x861213fa,
    0xdecf1bba, 0xff2ccea4, 0xff8872e1, 0xb2ed26d1, 0x1bbed76b, 0xedf37824, 0x7b39c09e, 0xf271e3c3,
    0x8453bbc0, 0xe6aaf313, 0x0642a0f7, 0xc9e1ed56, 0x0351e8c3, 0x377418f0, 0x30acad3f, 0x56b0f020,
    0x0dd81c77, 0x42ece3a4, 0xed6ed80b, 0x2a25cf10, 0x6a209228, 0xa62726d3, 0x7a923dd8, 0x96479b0e,
    0x7ee2ce17, 0x3640076c, 0x5a6f913b, 0x1c1cca95, 0x0869fc90, 0x31a835c1, 0x90838d9d, 0x2f8443fa,
    0x42b74a41, 0x8126b7ca, 0x85066524, 0x9fdf3f21, 0xb64c0314, 0x20417f57, 0x61494ff8, 0x77700f8a,
    0x45885e9b, 0x54085565, 0x88d56573, 0x253f96a9, 0x005f66a6, 0xeb50b560, 0xff8e92fe, 0x45117ff5,
    0xa1a750b5, 0x737a5af3, 0x0eb7a3bd, 0xe192cfe1, 0xa1f9b155, 0xf5ee7d62, 0xff6180f8, 0x27c84cf6,
    0x15218a32, 0xb2b0a384, 0x2908e133, 0x7a725885, 0x39694ce9, 0xb7791f15, 0x64822ac3, 0xd0608f6b,
    0xfc21c538, 0x1ccd1107, 0x39517540, 0xafe7bf21, 0x290d0cf1, 0x058c1243, 0x03d96b7d, 0xf85e3643,
    0xda1fd444, 0x01167fef, 0x336f335e, 0x0bf8ed0c, 0x6ca7c653, 0xebf64b67, 0xc7d3455a, 0xfa08be49,
    0x9e815ea6, 0x589dceb4, 0xc506aebf]"

definition tmp_xor32_s_02 :: "u32 list" where
  "tmp_xor32_s_02 = [
    0x5b97c55b, 0x8fdbda54, 0x3798c33a, 0xeaf7adbb, 0xd0686126, 0x993d7a1c, 0x0983f74e, 0x43d6b3c0,
    0x09413a29, 0x9a379f83, 0x1cd30b5b, 0xff565101, 0x3d114e88, 0xdedc297e, 0x51b125d3, 0x774e556b,
    0xd1f17b5e, 0xe1866742, 0x7b44c2ed, 0x09a97d0a, 0xd4555398, 0xc6bd94e5, 0x3de89bcb, 0xcfab9dba,
    0x4b23f428, 0xdf8cab30, 0x303caa37, 0x1030885c, 0xc95c3489, 0x52d101c4, 0xd1c817c7, 0xd19f50f4,
    0x99b2d2d2, 0x88288778, 0xca443d85, 0x2899e1c0, 0x68cc673c, 0xf72df35a, 0x95ae4e7e, 0x3b911a22,
    0x07a2dbc1, 0xf47b9b16, 0xfd2d615c, 0xa24d6f53, 0xd411f6cf, 0x56afbcc7, 0xca4f154d, 0x5d09ecb4,
    0xa32f9d84, 0xd9ea4242, 0xa6eb1ab7, 0xb328787f, 0x68511a31, 0x9aa12358, 0x91ef21d1, 0x59bcfcca,
    0xd90222b2, 0xa8409c86, 0xf7228983, 0x126b3465, 0xb467f345, 0x6721e29e, 0xebbaf5b0, 0x9a4a10bb,
    0xe8d32d94, 0xfcf79dfc, 0xb299fdc0, 0x09512b8f, 0xf6095c7d, 0x77296903, 0xee75e6e3, 0x8035629c,
    0xf7b2fdd7, 0xa10b95fa, 0x3ed6b59a, 0x57cd8d15, 0xb64d4b95, 0xbd653cdd, 0xb1a0179e, 0x7341fb9e,
    0x702c872f, 0x33551b5c, 0xdfe1399a, 0x4e085fc2, 0x09ac0827, 0xf1d9f5fa, 0x7fd0f73a, 0x8784b81e,
    0x68e28665, 0x8ddb6059, 0xc68af1aa, 0x61f57634, 0x253367fe, 0x04fe0a1e, 0x7abbbb95, 0xa98472fd,
    0x99394bb3, 0x03f80675, 0x4033eb1c, 0x75c0d03a, 0x171cc320, 0x8f4fc3a2, 0x55110edd, 0x0caf6510,
    0x31e335df, 0xb7f79b8a, 0x4a8ee029, 0x772cce37, 0x1288b015, 0x425f5a63, 0x85092889, 0x4c2bfa7f,
    0xbe59febc, 0x0741d0d6, 0xcba6b7c0, 0xbdc0f664, 0x82ed220b, 0x4e1a4439, 0x32aa0f97, 0xb033ddde,
    0x050fc686, 0x79b18d11, 0x8697092c, 0x67df1eab, 0xf7757d38, 0xd8ffcccd, 0xec23e10c, 0x941aa37b,
    0xdd7554d5, 0xe67599e9, 0x0c892279, 0x8073ca50, 0xe665ff73, 0xde964b33, 0xfac959e7, 0x0fc94f00,
    0x92092b17, 0x1278c1b8, 0x18be7fd2, 0xde918b15, 0xd88712ca, 0xba53580e, 0x873768ca, 0x35f6f277,
    0x66519f3e, 0x5ec028b9, 0x1dd3f89d]"

definition tmp_xor32_s_03 :: "u32 list" where
  "tmp_xor32_s_03 = [
    0xa600637c, 0x4c5c1eee, 0xb4d3500d, 0x1868d950, 0x06aadfb3, 0x540bec1e, 0x8786a3ad, 0xa4b53ae1,
    0xe2a0563c, 0xdd1ed37f, 0x50aed327, 0x5fcb592f, 0x7e0435b8, 0xd16d8345, 0x1f8fe6a5, 0xfe14c2a5,
    0x23f6268e, 0x988d2e19, 0x8f977397, 0xd4c45bea, 0x5d3482bc, 0x03b9c824, 0x2a0b0299, 0x36d4e6be,
    0x1285bcc2, 0xb3a12762, 0x1620c326, 0xe8124400, 0xbeacf753, 0x3778f6e8, 0xd0170c81, 0x495c6ed5,
    0xf108918b, 0xd39f9d09, 0xf503049e, 0x4716ca31, 0xe043a57d, 0xad1efad4, 0xf7da1d3b, 0xe66dc307,
    0xc6984270, 0xba31324f, 0xbce6a2bb, 0x123f6b75, 0x0e55c5e2, 0x13c1e0ff, 0x353f0c70, 0x2adcb4c5,
    0x613261f9, 0x8447d69f, 0x0d9feebd, 0x8e15380f, 0x2b19ee23, 0x3b4482fa, 0x922d9756, 0xa16576fd,
    0x285be792, 0x52cd1d1b, 0x92b4a447, 0x0640926f, 0x70666c4d, 0x88c0e5d8, 0x3aae78a0, 0xe3dace60,
    0xd9cf08e6, 0x5eeccc67, 0x4255e9c6, 0xb26af9d0, 0xda7b766a, 0x11b5640c, 0xc2d64320, 0x9749418a,
    0x210b7d8c, 0x26efa23c, 0x2e343934, 0x704510ec, 0x1b764e14, 0x0e78c53f, 0xaef6af7e, 0x262746f6,
    0x4e54234d, 0xc1153913, 0xd1cd79fc, 0x7a821cfd, 0x9fc446ba, 0x4e440970, 0xcc2859e0, 0x2c78dde6,
    0xc8524412, 0x0d0ef4ee, 0x3c557534, 0x12697ec6, 0xa119d9a0, 0x95f66b45, 0x0e753021, 0x74637c12,
    0x3a0cfb5e, 0x58e2b2f5, 0x4833d941, 0xf68b8c3d, 0xf0f77ed3, 0x48000df8, 0x5a9a4079, 0xbd200c32,
    0xe273b342, 0x7cee1bc0, 0xc58ded9f, 0x3632854d, 0xd1ff557d, 0xda80fa02, 0xa6cc766d, 0x8b75dcf6,
    0x0a9c9d19, 0x641d7f34, 0x70d3a467, 0x6f754eec, 0x173a39de, 0xad7e13c8, 0xd8a9b4e3, 0x5d600023,
    0x4f38caad, 0x386e10c1, 0xfa5c2254, 0x937199a9, 0x2ca9e976, 0xef669e92, 0x85626201, 0x39dc683c,
    0x76ccbaa6, 0xe7a14d28, 0xdf343326, 0x5b63f016, 0x5e991035, 0x5b16ef42, 0x53f8cd5c, 0x2ee7839d,
    0xaf67266d, 0x622d842f, 0xccef8ecc, 0x49d0c9cc, 0x2957c28a, 0x6044fa35, 0xd9df03f9, 0x95527900,
    0x55409ead, 0x85175c59, 0x23ce761f]"

definition tmp_xor32_s_04 :: "u32 list" where
  "tmp_xor32_s_04 = [
    0xb2e3660b, 0xf59a349c, 0xb08279de, 0x8f0ea392, 0xc0d8b82e, 0xb875eb31, 0xae72b753, 0x6dd78285,
    0xca782768, 0x839fee15, 0x11c85b89, 0xf315453f, 0xa1c4771d, 0x5c1bcec3, 0x7b564416, 0xae6e3f48,
    0xa452947c, 0xca5647a6, 0xc3ae94ae, 0x8a5bbff4, 0x1f87e360, 0xf28c1ecd, 0x61101496, 0x55842610,
    0xa71acaaf, 0xe69ea055, 0x8b0f4ef3, 0xc1087b4d, 0x205f42fa, 0xa4b86551, 0xa17a40e2, 0x67324183,
    0x3a8a70e3, 0x59096fcf, 0x7202e96b, 0x23c3f331, 0x9080f4a3, 0x6a94e3b9, 0xb152f1fd, 0x381f9852,
    0xb1e4b97b, 0x1ce1fd00, 0xa55caad9, 0x411b4c21, 0x9271b0b7, 0x68abc41d, 0x2f00fac8, 0x0a615484,
    0x05911181, 0x38195fc3, 0x184921ed, 0x18644d83, 0x6ec29cd0, 0xb6f9bd82, 0x03b3c772, 0xb57556e6,
    0xff77ffb1, 0xff33a89d, 0xbbf8006e, 0xe18a7b9f, 0x214b0325, 0xe50863b5, 0xd4d42b95, 0x63bc0015,
    0xbb5c7298, 0xa6266eaa, 0xf5360595, 0x8c3fc7b0, 0x5a19a257, 0xdf9eb5a7, 0xd65af9ad, 0x4201668d,
    0x09a1c47b, 0x8ebaa23f, 0x3fc36a0a, 0x3338836b, 0x097eb2e5, 0x9317dd79, 0xd12d804d, 0xcae2f312,
    0xd137232b, 0x288478ff, 0xdf26aeb3, 0x1ebdef3c, 0x7eb4678a, 0x5181d954, 0x86f395b0, 0xd22958b7,
    0x931a525e, 0xb08cd3f7, 0x0593d0f3, 0x6c33ee98, 0x86c10d0c, 0xe907b748, 0x3a600545, 0x7f3179e7,
    0xf23fb54c, 0x7ab7516c, 0xfe715f59, 0x8c6221b4, 0x72bb2b78, 0xf06941a7, 0xe388aa61, 0x4e4b600b,
    0x7d99f084, 0xc80c704e, 0x8aeb6ad8, 0x4f6e7874, 0x38b2ccae, 0xbc8e15bd, 0xa9da1e12, 0x8bc44d75,
    0xc1a97632, 0xcb9edb1d, 0x6342fa87, 0x9ca1c473, 0x24182b00, 0xdd9af79e, 0x91ba9f61, 0x9a06bf4d,
    0x687c7f6f, 0x7a703b5b, 0xe4bffa4e, 0x150b895f, 0x86768abc, 0x1e0ff2d6, 0xc6fc01b0, 0x1ce67e15,
    0x90ae2ec6, 0x9a2521d9, 0x6a79d3ee, 0x604170e4, 0xb4cbc1dd, 0x9279c578, 0xd8543c33, 0x04e1746e,
    0xbd61f6a0, 0x02547129, 0x1562c174, 0xf27e2cd9, 0x3dfc8dad, 0x9bc475a3, 0xdd661822, 0xf25c0e90,
    0x333e10d0, 0x19e249e5, 0xadaa305e]"

definition tmp_xor32_s_05 :: "u32 list" where
  "tmp_xor32_s_05 = [
    0x4fbfb725, 0x02478aa7, 0xf5299a24, 0xaee6f86b, 0x0724168b, 0x231c4cfe, 0xa18e2b3a, 0xe4d5d23c,
    0x7227d37c, 0x38e19959, 0x433362e9, 0x9e9430f1, 0xf446369b, 0x524a126d, 0x64241aa5, 0x75703d32,
    0x3ee3746f, 0x6eb97cc6, 0xc198e644, 0xac81f591, 0x3230a285, 0x210715ca, 0xdd7a6756, 0x5ee87b91,
    0x622f0470, 0xcbeeb32c, 0xb24063d8, 0xefce139f, 0xa952cfd5, 0x46a217e8, 0x9ade7c69, 0xc344429e,
    0x6560bec3, 0x842a3964, 0xb19aaf4c, 0x98271c39, 0xb4d0d749, 0xdc2eef20, 0xc6d2f45f, 0x111df459,
    0x0ad7480f, 0x0d1229ef, 0x2d790974, 0xebc02adc, 0x4e4cc66e, 0x4783ac27, 0x5c39d480, 0xdd72e3ee,
    0x5cfe0d0a, 0xf6803a51, 0x63c6a9fb, 0xbb789b3f, 0x8be68170, 0x67df4de3, 0x162633b0, 0xdae6fe95,
    0x464c6903, 0x3dffc99c, 0x84c80578, 0xf2fb5181, 0x39d397b2, 0x5a64d065, 0xf484f5dd, 0x8ad64726,
    0x9f7a84fa, 0x9015ea18, 0x76228413, 0xd8ad9c41, 0x4b6e2292, 0x190251f7, 0x74b3392d, 0xdc0322a2,
    0x0232ae38, 0x979b0e4d, 0x9c249061, 0xbc46a94a, 0x57390072, 0xdb91ef7b, 0x9aa4a13c, 0xc699e968,
    0xfa6cdbc2, 0x0557c033, 0x32e383b4, 0xcb344730, 0x5e1dc570, 0x3de83ac0, 0x59ec3450, 0xfae4e376,
    0x267f9a84, 0x2ed36be7, 0x18768bf3, 0xf783e6af, 0x008c65a5, 0xf28a54cb, 0x257240d3, 0x779c8015,
    0x7b45f2d3, 0x1288105b, 0xc9402c30, 0xe9c48ac3, 0x3c51acea, 0x156ef887, 0xdcda8f8d, 0x3ae52d71,
    0xbaacee6f, 0x50e6d670, 0xec3b233d, 0x618f5398, 0x6a1d6b4a, 0xd74f5068, 0xb3210911, 0xd58f1cb1,
    0xd6574f71, 0xd9142960, 0xd1217c4f, 0xc5865fc5, 0x53ba80ef, 0xc9bd789b, 0xc2d7961a, 0x2eb2dd3d,
    0x7fef7725, 0x6c482dea, 0xbb5f3127, 0x66a93bf4, 0x99479222, 0x9e7f93fd, 0x20e71605, 0x1a08a4ad,
    0xf961a425, 0x52a6fdf0, 0xdf098e57, 0x4dccb600, 0xc4bca029, 0x1d983a29, 0xd99c03cc, 0xfa8a29a0,
    0xb0fe8ce5, 0xf181c20d, 0x669bbd49, 0xf8cb4527, 0xf0bf9c02, 0x30ef61e0, 0x895c0ae5, 0x7a9f5cdb,
    0xf24fe3a6, 0x217a2bfb, 0xa7dded43]"

definition tmp_xor32_s_06 :: "u32 list" where
  "tmp_xor32_s_06 = [
    0x1f608778, 0x260a9cd8, 0xe9b41f6c, 0xd920ec98, 0xadd0ab19, 0x5fb336ee, 0xe08a5fb0, 0x515e3183,
    0x78990bb8, 0x0ff3476f, 0xbcacec60, 0xe3a86bb4, 0x055d8ba9, 0x4d96a20b, 0xa070c683, 0x6d58a0de,
    0x955820d0, 0xcb3a5876, 0xa24e224c, 0xe96c25d4, 0x81d0ef61, 0x0dc67223, 0xff370486, 0x62484dcc,
    0x69cfec46, 0x7651daf0, 0x0bc70a69, 0xba1b6572, 0xbac55d27, 0x0418649a, 0xf13bd687, 0x095bd22f,
    0xf309c096, 0x47858355, 0xa029cf24, 0x561e4de0, 0xed59073b, 0xe294f51c, 0xa5c6cf9b, 0x7a656202,
    0x97810816, 0x1ebc60ec, 0xe8aa88ad, 0x51d80b14, 0x366d0d13, 0xdd11bfda, 0xc0dd9cd2, 0x771af4cf,
    0x2e4b9793, 0x07ae9418, 0x12ad96fa, 0x634969a6, 0x75c6d63c, 0x67186cb2, 0x3418098f, 0x73fbb590,
    0x2ebc5db7, 0xcc6eb29a, 0x8268a6dc, 0x1db36b2b, 0xe8018db3, 0xa5a67bf7, 0x3011ee93, 0x808178ff,
    0xb28cee7e, 0xba7eccd3, 0x5540d7a7, 0xb49f2e37, 0x13e27be6, 0x7df39dd5, 0xa97f13ef, 0xa4559498,
    0xed7cde8b, 0x34aa1910, 0x64155536, 0x5e0c8106, 0x6c7f343b, 0x6744626d, 0x9fe0c625, 0x51740e8c,
    0x694370af, 0x07cb96fa, 0x656f97bb, 0xb32e7f04, 0xa6c00da9, 0xe2f78c10, 0x3f734db2, 0x5532a18d,
    0x91130a53, 0x59ad6809, 0xe9d12def, 0x392dab25, 0x28e91cae, 0x2b24f247, 0x0faa0796, 0xec46d0dc,
    0xebe3630b, 0x9e06f9cf, 0x5eaa1ffe, 0x1531da8a, 0x8d88a137, 0xad56a81f, 0xa1b2a39d, 0x1ec72874,
    0x52767933, 0x2869dca9, 0xe3f2eccf, 0x707a087d, 0x4369928e, 0xf1f15f62, 0xc5482130, 0xfa3b51ad,
    0x5176664b, 0x32ac48c6, 0x18c84bc5, 0xc058cbf0, 0x7e4d56b3, 0x396215c4, 0x98da7a65, 0xf4a819dc,
    0xa573d36f, 0x14b59182, 0xde12cac8, 0xce6f506b, 0xab191dac, 0x4fd64614, 0xab494b62, 0x5e2a3db6,
    0xc780767d, 0xc7a71952, 0x09cdfbf1, 0xc36815f9, 0x5f2e9ad1, 0xa70b4fe8, 0x0763584d, 0x645711ed,
    0xe7ca42a0, 0x6d24efac, 0xa925a122, 0x23c39f55, 0x1ae634e1, 0x403ac7be, 0x24281165, 0x5d566fbb,
    0x208632a0, 0x9f00abc0, 0xd470b263]"

definition tmp_xor32_s_07 :: "u32 list" where
  "tmp_xor32_s_07 = [
    0xf5a7a155, 0x0dd5b0f7, 0xbd24fa3f, 0x5252bf56, 0xf19db012, 0xd18f2444, 0xc184cabf, 0x6104aa35,
    0xa0f39ea4, 0x82512996, 0x1ef13fe6, 0x76406507, 0x88d448ab, 0xb442bda4, 0xa6f77b82, 0x8a7be534,
    0x0fc0c1e8, 0xec9bfce3, 0xfbd03398, 0x71d1bd19, 0x70e1b042, 0xc869488c, 0x205a273a, 0x7beeff20,
    0x147f9bd5, 0xaa47c5ed, 0x9e1698c1, 0xb3c47040, 0xe8f497db, 0xd1fbb22d, 0x8feb0fee, 0xc1c84f13,
    0x48b0065e, 0xde4cc953, 0x639ef02a, 0xf0ddea96, 0x8521d55a, 0x52dcb651, 0xc54ad58f, 0x55f3ee54,
    0x5de1f9e3, 0xff494424, 0x43c43554, 0x32b48d8c, 0x301684f1, 0x0fc9b52b, 0xbfef81b4, 0x000565e5,
    0xad46a6ea, 0x7accc5c4, 0x5a9a3ca6, 0x70e451be, 0x70fa0b42, 0x8ff87b88, 0x617a3ed3, 0x96e0513d,
    0x5c1e883a, 0xf0673212, 0x1b0f033f, 0xa0d68356, 0x0fe43e4a, 0x38e2a25d, 0x514d508d, 0xae0360b2,
    0x54a517cb, 0x43f9ea85, 0x6c5d523f, 0x7502759d, 0xeae309e3, 0xaa867d8a, 0xc58a1dc9, 0xc0a181a8,
    0x611f9e64, 0xf8d91fce, 0x0a7008e3, 0x1f47d130, 0x3f86c649, 0xb0e0cf0f, 0x708371b5, 0x6937136e,
    0x5c667d67, 0x0b6200e1, 0x3d52d365, 0x9b260118, 0x61c20a42, 0x54596c24, 0x2454502d, 0x022387b9,
    0x92427254, 0xc4c73094, 0x8e72fc17, 0x64da306c, 0x537480d5, 0x9cfce7f1, 0xb6e6790b, 0x9d65daa0,
    0x7b485789, 0x4f7e83db, 0xc5e9e630, 0x18562233, 0x3e20b72c, 0x157cf1e1, 0x472431c9, 0xd69fb520,
    0x7d2ce456, 0x46f84e92, 0xe62e0b02, 0x682c62a4, 0x5d81782a, 0xe3c24ba9, 0x09ace412, 0x47f3fec5,
    0xe12850fe, 0x14dcdcdc, 0xf2532a4e, 0xbe9fc75d, 0x43f83f19, 0xbc650f6f, 0x45c40cb9, 0x0ef617cf,
    0xd06c85c3, 0xf524196a, 0x37d5308d, 0x996a42ab, 0xd5a5b4d4, 0x1673177d, 0xeb7e8ce7, 0xdb157c22,
    0x9c180eae, 0xc48315b0, 0x61135b8a, 0xfdb3edaa, 0xaa1bab88, 0x6dcbc4a6, 0xd4dc9615, 0x4f884715,
    0x68d32d8f, 0xbae89581, 0x14e6a19a, 0x85a02e41, 0xc1041d4d, 0x80be1082, 0xf07207f5, 0xb3e80e20,
    0x91c69ab9, 0xb9679a9e, 0x28c5d630]"

definition tmp_xor32_s_08 :: "u32 list" where
  "tmp_xor32_s_08 = [
    0x1dacdbe9, 0xa795b20a, 0x033aa721, 0x2c4b9549, 0x8ed1c9a8, 0xf9093006, 0xee7e0c43, 0xfb5c070a,
    0xcf3e4119, 0xf3df579e, 0xbad194ac, 0xda2f05c6, 0x746c7161, 0x0fdd9658, 0xa6815a3b, 0xe07fe8bf,
    0x9da5b087, 0xc6e34268, 0x6a6411d6, 0xf9468488, 0xc5017609, 0xce17bf71, 0x56b469d1, 0xbac661dd,
    0x6356df85, 0x7d8d4c86, 0x9506585d, 0x8ae628d7, 0xcc84ea8f, 0x88c185fb, 0xec809764, 0x5faf7f45,
    0x65ea40e7, 0xd5423352, 0x2ea34736, 0x1fd37383, 0x895cccbe, 0x54ac9cdb, 0x0b62d6c3, 0x02d290ee,
    0xfa9f7a91, 0x69a31a65, 0x05a0b62e, 0xc11425a8, 0x344d635d, 0xb0154c35, 0x5174f0b5, 0x428b0794,
    0x4127bf7d, 0x8128a10d, 0x765bc84b, 0xbd05320f, 0x5cb26301, 0xe5c7d021, 0x61cd6156, 0x894b19be,
    0x44333dd8, 0x705c3e33, 0xfedb1b40, 0xdb1920d7, 0x47214cd4, 0x610aaf73, 0xa46297ff, 0x61f398fc,
    0xb4a16c38, 0xef7593f7, 0x2e8aaaed, 0x4d898155, 0x79ee14df, 0xce366792, 0xb2eba5f6, 0xd9cc8f0f,
    0x508911b5, 0x78b8cc57, 0xa528a746, 0x24d02b65, 0x62c5c912, 0x31f5c121, 0xf6d639cc, 0x32b0686b,
    0xbf3d90d7, 0x08fe9e11, 0x6d5989b8, 0x4aaf0e6e, 0xb3f4eefd, 0xcff52110, 0xec219372, 0x6875ed8b,
    0xbe999cd9, 0x651cd7c9, 0x857b27af, 0x95e90493, 0x5bbece93, 0x7b1ec7f8, 0x22b10350, 0x3b93e214,
    0x45d6a5e3, 0x53f87117, 0x5b3fadcc, 0xcb3f2032, 0x7b3e6a13, 0xcc76db71, 0x149b03f3, 0xaf436537,
    0xbda975f2, 0xad360533, 0x28be4da3, 0x5ca6970e, 0xbc048764, 0x89f50a6b, 0x5b2bec84, 0x866abe24,
    0xd524cdf7, 0x66ece032, 0xfbfcec0c, 0xbd0b1a0f, 0x767a4507, 0x4c7e5e73, 0x0c10b1ca, 0x2ba8500a,
    0xa958670e, 0x524da164, 0x7ce2152d, 0xf5597e01, 0x8d9625fa, 0x3e755024, 0xe45075b2, 0x1ecf8658,
    0x3da5bd61, 0xe5ab72b3, 0xb770b222, 0xe8f10015, 0xa6b47e1b, 0x898efdca, 0x2d3fc1fc, 0x031a8ba2,
    0xdbe4a74e, 0xb6aeb94e, 0x7fa0c40e, 0x9f371e93, 0x77fefc79, 0xdb75d4c8, 0x33782741, 0x7afdac32,
    0x9d174483, 0x3f30b394, 0x9426d929]"

definition tmp_xor32_s_09 :: "u32 list" where
  "tmp_xor32_s_09 = [
    0xf825b2a5, 0x3b9e3027, 0x7ea20cb2, 0x7e15405d, 0x20bcdc28, 0x9775aa16, 0x8b4cb73c, 0x8596c876,
    0xc05fab34, 0x9fb8b3e6, 0x6ac286f5, 0xa0b1d3ab, 0xec3a3006, 0xd9f0fcee, 0xf87dc3e9, 0xa9d3f22a,
    0x17a3afda, 0x08fdd134, 0xe4241638, 0x29c79730, 0x3625c056, 0xecb2f17e, 0x07c0725c, 0x8a37b58f,
    0x5e8e7456, 0x8f6f6d14, 0x51b1011c, 0x90222b98, 0x7d4805e6, 0x8bc471e1, 0x83a60ff7, 0x4bffa877,
    0x4cb3f26e, 0x1128c71b, 0xc4f87765, 0x826e1660, 0x492d503d, 0xade0b1dd, 0x0641f342, 0xd7b5a6c5,
    0x8c320b84, 0x8867782c, 0x50fa3a71, 0x8717c92a, 0xafd92578, 0x33c44e06, 0xe984fb7a, 0x1dd42ecd,
    0xb29f0473, 0xba34189f, 0x62bca5d8, 0x8d4e7f10, 0xedb5816a, 0xeb06a013, 0xe18f92c8, 0x17bc20e6,
    0xbbd844bf, 0x6afa5b50, 0xd8a0ece5, 0x3ff0da34, 0x9255242d, 0x7eb35b9c, 0xec2ae42f, 0x4b2ecc40,
    0x9c11033d, 0xf7a60a7e, 0x65f45f20, 0x2bb15b5a, 0x60b2e978, 0x17e74712, 0xe06ee27d, 0x47cf95d9,
    0x857c4473, 0x874d9cfe, 0xabd9ad62, 0x08580324, 0x41ed4690, 0x16007465, 0xe247e38c, 0xbd6f7e85,
    0x6b459d7a, 0x9b2ad1c0, 0x69c358cc, 0xd587bfdd, 0xa5a70b99, 0xc68eb773, 0x3b8de4c7, 0x22790ca8,
    0x08ee3267, 0x6caccd4a, 0x1914eb1c, 0xe6830970, 0xa279473b, 0x16bcaf98, 0x7543c554, 0x43e43c1a,
    0xc145b628, 0x9db16656, 0xeb28aee7, 0xa00abb08, 0x5c078b02, 0x637ff1a5, 0xff066412, 0xda3e1485,
    0xae253074, 0xe3eebfba, 0x08938fa9, 0x71400a40, 0x01694271, 0xde96aa10, 0xedb873bf, 0xf726fc22,
    0xae0aaedb, 0x35d6e1ce, 0x88f6529e, 0x0b7dfd72, 0xce99bbee, 0xc8a3b1c2, 0x08c249dd, 0x60a86f58,
    0x2c3723dd, 0xcab0c360, 0xb5eeea29, 0x802ba09d, 0x740b5935, 0x183bc7a2, 0xcf1a9034, 0x08f14e05,
    0x7d2e91ea, 0x389ea74b, 0xb6f23907, 0x4fefa886, 0x783a6d71, 0x631625ee, 0x788764a7, 0xdae32fd9,
    0x9b4f7971, 0x43bd9d90, 0x880e4ac1, 0xbc691f5c, 0xa87ee2b0, 0x8399f3f5, 0x3be67e4a, 0x2d342fc7,
    0x44e9d71c, 0xf2c7aedc, 0x7f0590ea]"

definition tmp_xor32_s_10 :: "u32 list" where
  "tmp_xor32_s_10 = [
    0xdadcb914, 0xc8cd0371, 0x49f94e62, 0x620f3527, 0x34b7b908, 0xcb5cf43b, 0xd5573496, 0xc903f74d,
    0x20bb466d, 0xa06a761b, 0x2555405d, 0xa0519890, 0x3dd1d237, 0xe7bc3265, 0x27e0b019, 0xf8819d2f,
    0x8bfa5247, 0x87340a4f, 0x345453fd, 0xd03add48, 0xc9adec2d, 0xfbeeedd5, 0x3df0b71a, 0xda2e13de,
    0x29223929, 0x7af1f259, 0x7cb189b4, 0xb4a5b660, 0xd12dceda, 0x80a7affc, 0x06fa8b86, 0xc23df4da,
    0xfba0a8eb, 0x512e85cc, 0x0d7a801b, 0x7d5e156b, 0xf7cd8387, 0x9fbdc229, 0x9ddb9d35, 0x97206acc,
    0xb82e4acc, 0x327b39ad, 0x9c9abdbc, 0x3c928caf, 0xfb5b4a7a, 0x3375e91a, 0xc420aab7, 0x96600b08,
    0x5ebb1453, 0x57077f52, 0xd9799101, 0x3b14b2da, 0x51a610d8, 0x1696f65f, 0xa1254f4c, 0xdb64608b,
    0xfc7100ef, 0x334031ec, 0x94b2d8c3, 0xc1a5d09d, 0x1575acb3, 0x5b19d847, 0x06224d24, 0x802cde4a,
    0xe995bc16, 0x584e5f3f, 0xdbd9a4cc, 0xf88d5367, 0xe443fdc3, 0xb4d4bf64, 0xa052bc4d, 0xc78090fc,
    0x39f90260, 0x1d99f386, 0x213d3100, 0xa91d9122, 0x560b283c, 0x9f7a8592, 0x396612c7, 0x741d7c4e,
    0x59c66d6d, 0xdb5e1098, 0x8047c48f, 0x5fbd46cd, 0xe0c7173f, 0x4c6bd4e8, 0x7109caeb, 0xf63bf471,
    0x2997d540, 0x96efb946, 0x59da46c6, 0xcc131c5d, 0xd07b12db, 0xf1ea6e8c, 0x5501e301, 0x115619c4,
    0x37b1db1c, 0x75cce1c4, 0xde1fc19e, 0x17066b4b, 0x7e71b5dd, 0x572d7d00, 0x7b33d2b2, 0xca015585,
    0x724d65fd, 0x86938b72, 0x01121194, 0x221d0de3, 0x602e6f19, 0xd8a3423f, 0x43eb1b39, 0x7ce83c72,
    0x7f3f2a30, 0x07106c57, 0x42f81c66, 0x16b86ea8, 0x1aaa8ec1, 0xd8d06f28, 0x7931c538, 0xd845d3fc,
    0x38ed88a2, 0xdd91fe08, 0x1ad5b963, 0xc56e3152, 0x2081e4b6, 0xf77257af, 0xb611c5f7, 0xad303091,
    0x5cb49ea9, 0x143016dd, 0xc1776e9b, 0xb2e534b1, 0x309a4531, 0x51381e11, 0xcca8168e, 0x58d816b3,
    0x6088a314, 0x4f664678, 0xbca55bf7, 0x4d722532, 0x4fbe4152, 0x119c1f7a, 0xc57e83a1, 0x512a1d9b,
    0xd7c94937, 0xff8eb07c, 0xad067c2e]"

definition tmp_xor32_s_11 :: "u32 list" where
  "tmp_xor32_s_11 = [
    0xd36be041, 0xe6b3aa54, 0xd3519cc1, 0x97cb8c9e, 0xd02b9ebb, 0xe459ed16, 0x121d180c, 0x7ddd880d,
    0x22fab5c6, 0xbad71ef8, 0x24b475fa, 0x110c5bea, 0xedc9949d, 0x64aca796, 0x8ded5194, 0x4adc4c0d,
    0x3622967b, 0xf2cd49e3, 0xeaa992af, 0x5de3a85a, 0xf669d6b6, 0x8feef8b8, 0xad9d542a, 0xd1da79b0,
    0xbfd76463, 0xbc7ad72d, 0xe10b0530, 0x690bd3de, 0x424fdb08, 0x0795836e, 0x10409f52, 0x344bf6a5,
    0xda619a30, 0xc473661c, 0x49e464ab, 0x887c7af5, 0x1efb4319, 0x1e16f2c9, 0x3457a0d5, 0x5072f7f9,
    0x5a9402c9, 0xe9d44953, 0xda69bad7, 0x2e8f8af4, 0x615c5b50, 0x627a20d7, 0xb0374ed1, 0x1447625d,
    0xc748dce6, 0xef670861, 0xdef94872, 0x37241af9, 0x9d078e19, 0x0bee097b, 0xe88e87a4, 0xd131daab,
    0x9bcc0619, 0xc12ffa97, 0x19c39e0b, 0x7a4ae4ff, 0xa0667920, 0xd29fcbbb, 0x4752b547, 0xfd02da07,
    0x51616cbe, 0xafc541c0, 0x405eee69, 0x1787cc36, 0xfefd3f84, 0x36e95209, 0xf54e186e, 0x3bb1dca9,
    0xe3ef332f, 0x7344962e, 0xf22671df, 0x17494780, 0xf470b0c8, 0x0e7f413d, 0xbfa6d0e9, 0xdb8d9896,
    0x3adeca4f, 0x9c2403f9, 0x7eb80d4e, 0xc3d1fbd2, 0x79938ea8, 0xd952653d, 0x0fac767d, 0xd03cc0ba,
    0xc54af162, 0xf1a0d465, 0x2bc057d8, 0xf8e48c8e, 0x5de5e977, 0xb6987242, 0xea599041, 0xc4630d11,
    0xc62fd3cb, 0xc1139698, 0x0dc138ef, 0x5e55f77f, 0xec85eb78, 0x6ed323fe, 0x018ef1fd, 0x99a8e5b5,
    0x8789cff0, 0x26460ed3, 0x00e0ff04, 0xad9be900, 0x5a17af05, 0xb9810fdf, 0xea706e4a, 0xeda28277,
    0x56fb5d71, 0xf0521fb0, 0x182b6da1, 0x6259ce5d, 0x9b34b54a, 0xd62d206c, 0xeb53910d, 0x1e2160bf,
    0xb0038f0f, 0x5f9a5d3c, 0x96015be6, 0x0af13955, 0x12b7b4ad, 0xd22bca14, 0xdd427380, 0x4965a0c2,
    0x0bd2e503, 0xd70be71e, 0x0afa7a51, 0x2509513d, 0x3b08fa06, 0x4b34ae49, 0xb55ec413, 0x8cf4f990,
    0x9e73ddf3, 0x83a83018, 0xa8a9093f, 0x0ec8ea74, 0x8e731c65, 0x8eb814d5, 0x5b57b233, 0x26fb2baa,
    0xc2b0ddfc, 0x53b5588f, 0xd06245a9]"

definition tmp_xor32_s_12 :: "u32 list" where
  "tmp_xor32_s_12 = [
    0xb0e558ee, 0x54bb98d4, 0x444eaa41, 0xd4e3663c, 0xef1ad8f5, 0x5d781638, 0xb3874b21, 0xa0761ba6,
    0x733d2f44, 0x1cb61ee8, 0x2f6737a9, 0x582cbb5f, 0x516e054c, 0x24c00c14, 0xe1147b47, 0x9ffee6b2,
    0xfcce16ac, 0x71ce6f68, 0xd37d1d5b, 0x15c9ae6a, 0x63c28fd7, 0x81742915, 0x3dacbd38, 0x95c238cf,
    0xa0ba904d, 0x29f68d20, 0x3ed1c8d6, 0x22d1e872, 0xf4144eb6, 0xdbd64c05, 0x01eb2f20, 0x07491531,
    0xd774e32f, 0x47935ca4, 0x94de76f6, 0x2b54d4ec, 0x84a5a3b2, 0xb9603415, 0x858d4046, 0x68a95b30,
    0xb9a517f5, 0x808576d3, 0xfebd781c, 0x9f908a6f, 0x2810104b, 0x0cd8f93e, 0xbd6cb5b5, 0x6522b5c2,
    0xacca6268, 0xaafa3ad8, 0xaa7b1ab7, 0x683d03f7, 0xdb5d3e08, 0xa265de07, 0xb1a7f5ab, 0x84027698,
    0xc2fe1ee3, 0x79e2c1d7, 0x926683a0, 0x8a5fc385, 0x20bfea09, 0x247df4e3, 0x57705e18, 0x77376f0c,
    0x6bcd3b7d, 0xae1913cf, 0x787f479a, 0x9cf326b4, 0xd114cabd, 0x84c552a9, 0xaf6f22ea, 0x42c2ffa7,
    0x4652c7b0, 0xf750c025, 0x86b914fc, 0xdd8e6300, 0x97df375f, 0x8daf2208, 0xa7067d18, 0x3a26f4a2,
    0x86367b56, 0xe49ab9bd, 0x217278c5, 0x10ba6ee4, 0xbd355da4, 0x20fbfeb5, 0xc8ba28ad, 0xecfce4a0,
    0x62e2c3b0, 0xd7ea242d, 0x2ff4f31f, 0xecbfb70d, 0x9cb1fb51, 0xc491859e, 0x4fb58e65, 0x411c808e,
    0x5d833a41, 0x7625a6ba, 0x51c97967, 0x1f9156bb, 0x26bd2bcd, 0x6cca499b, 0x35627deb, 0xd14804a3,
    0x4f827ebb, 0x4b352d0c, 0x9da6824e, 0x8619b8f3, 0xdc7177b2, 0x16025791, 0x59fbd4a8, 0xa21c4af1,
    0x20d18ac4, 0xe63eedd2, 0xe40ad06b, 0x279c40a4, 0x6f27ebd1, 0x209cc645, 0xae7fbd80, 0x18ab7a68,
    0x1680eea4, 0x33d89a7b, 0x3355ccc6, 0x39caa407, 0xd9525db5, 0x3e1e820d, 0x71038bc8, 0xd172a456,
    0x39fb60c8, 0xdd3ad76e, 0xd4f9bfdf, 0x3f793158, 0x2a827696, 0xecae7f15, 0xb4800456, 0xab1f034e,
    0x765b3d9e, 0x123cd1a8, 0x9c3a9ea3, 0x6f14c94a, 0x32dfadbd, 0x7f615da1, 0x36610d44, 0xf0c58970,
    0x04e4f886, 0x2149acb3, 0xb5ddf771]"

definition tmp_xor32_s_13 :: "u32 list" where
  "tmp_xor32_s_13 = [
    0x1b677c8c, 0x722430e9, 0x4ca365f6, 0x0d1ef672, 0x1fb98831, 0x070b1dd5, 0xc836c4b4, 0xd4ddf51a,
    0x5bf5e046, 0xe88c0f9b, 0x4af9b177, 0xd1037eec, 0x7edf65c4, 0x32120270, 0xe67e51c1, 0xbe905df8,
    0x2ee69392, 0xd2e5e0cc, 0xfcddb90d, 0xfec72dc6, 0x54a55c7f, 0xec8d5155, 0x5cdc3630, 0x3b178875,
    0x3e3df7af, 0x74efa4a2, 0xc2734e85, 0x70336997, 0xcc5e4418, 0xa2d8f509, 0xcff20f86, 0x20af4cd5,
    0xd9faca8c, 0xdbeef411, 0xa6b63993, 0x4815eb93, 0x468c4482, 0xdee17a4a, 0xab16ed1d, 0xd26b4a2e,
    0xce6156c9, 0x1aad5be9, 0x5438e35c, 0xf31572d5, 0x3ffb6e0c, 0xabd179f0, 0x9398f33d, 0x6f84fb87,
    0x4986c09e, 0x390695ac, 0x85d737c8, 0x325dedc5, 0x14d5383a, 0x9c907e7a, 0x980cc787, 0xbb19403f,
    0x0c1a2822, 0x456a3d27, 0xf2278131, 0x2fc5c05d, 0x7f940698, 0x296bb6c7, 0x540c492e, 0x91c03313,
    0x93f962fa, 0x8c0a0122, 0xed7c04f2, 0x7112bfb8, 0xae4ddcf7, 0xefb239cb, 0xc4d1e9fa, 0x227a1c15,
    0xc710e0cd, 0x172baac0, 0x2925e2a5, 0x5f1fb189, 0xdc811a72, 0x1f39a79c, 0xc581c1c7, 0xba28111f,
    0x03310885, 0xc431f7f7, 0x1d948072, 0xaf8c7fd3, 0x604bd01f, 0xf3a8f1dd, 0x3420e940, 0xeca3b66d,
    0x1ffdccf4, 0x19119cac, 0x9c4b11e7, 0xb143b599, 0x4f41ae25, 0x5b23bc0e, 0x8af89890, 0x5e41c19e,
    0x761f53cb, 0x3517abf9, 0x00303bf1, 0x6fcb52dc, 0xe888b17e, 0x3d4ce2da, 0xaf163656, 0x8d8d5b4d,
    0x24c9f7c3, 0xb4ed1ea6, 0xbd68d7fc, 0x21f2d06b, 0xd3e828db, 0x4dabe7fb, 0x90a490d4, 0x54f16859,
    0xe14df6e0, 0x3444fc61, 0x11798689, 0x1795a8bf, 0x36e3d262, 0x8c623a20, 0x657e0fe6, 0x9efbf366,
    0xa9aed4d9, 0x3346fcf4, 0x00d54d83, 0xb0ffd7ee, 0x38890ff6, 0xe3bd249b, 0x40b255d3, 0x05d35ac7,
    0x0dfd729a, 0x9027cc93, 0xf0399246, 0x35917618, 0x51604b6a, 0xab09d1b7, 0x57f1cfbb, 0x5ce8bc8a,
    0xaf662a0d, 0xab299503, 0x61d4035f, 0x9bf0da24, 0x99f2d3c3, 0x28fda91f, 0xfb8aee78, 0x0327d22a,
    0xaf0c6470, 0x89db5a02, 0x8e308767]"

definition tmp_xor32_s_14 :: "u32 list" where
  "tmp_xor32_s_14 = [
    0xf90ec99d, 0x4a69c059, 0xcd3efa34, 0xa2c0569c, 0xd22a7359, 0x4a912470, 0x9922f52c, 0x286930d9,
    0x4cee4d28, 0xfec0f016, 0x3d226bb3, 0xc2ec71dd, 0x983d78e5, 0xeb4280cb, 0x6c139706, 0x98e82deb,
    0x3dae3d0a, 0xe9adf2f9, 0x7525e08d, 0x9c0e32bf, 0xc30282ef, 0xea52978c, 0xc5a5e729, 0x6c93b357,
    0x1f065fd8, 0xe992698e, 0xcf5863c1, 0x7aaad3de, 0xdb77a081, 0x4bb8a1ab, 0xdc7cebdc, 0xf719a796,
    0x9394cc1e, 0xe18eb217, 0x648823b8, 0x2b43307f, 0x347c5327, 0x740cc66b, 0x69d89b22, 0x98447b86,
    0x8865df21, 0xebbdb2f6, 0xb7216640, 0x84093a78, 0x976d9106, 0x86a7a8c8, 0x572bf03c, 0xfcad965c,
    0x7395450a, 0x9ca7c32a, 0xa9b6785a, 0x7f548855, 0x52c92d0b, 0x704bf333, 0xe6177d3d, 0xc9347a92,
    0xe673b5e6, 0xbe9da8ce, 0x962b1df0, 0xf083d81f, 0x7419dbc0, 0xea8830d9, 0x4a2c3c80, 0xccce8058,
    0x4aacd605, 0x1be05d74, 0x2964faa7, 0x229384f0, 0x71836b21, 0xf8cb5443, 0x34bf31c0, 0xb4f10b35,
    0x501f53ce, 0x256d4feb, 0x20564e86, 0x71c936dd, 0x97533151, 0x90edb042, 0x04baebf0, 0x766230e1,
    0xe271b8a3, 0xa6894879, 0x88643e27, 0xfbf60631, 0x1c9d4a71, 0x260ef59f, 0xdbe7b6ef, 0x2e647624,
    0x68cfafb5, 0x52f71f64, 0x7afab0eb, 0xe737e21f, 0xdeaa4a4e, 0x12fe3b4d, 0x8945214e, 0x45fc7ce5,
    0x044fc60b, 0x720f64a0, 0x35128109, 0x7a097a61, 0xde0b9078, 0x0a172846, 0xa9721306, 0x92c6e091,
    0xeb474e02, 0xc5204fca, 0x58e268b6, 0x491a1a6b, 0xd6f1d3cf, 0x2c2675a8, 0xf1d1d23b, 0x56ffaf9d,
    0xf73d9fbe, 0x9fef3281, 0xfbc8a777, 0x4dab2eae, 0xe8f379ea, 0xa54453a1, 0x42093b37, 0xb3a3ce8b,
    0x284a8a09, 0x746f79db, 0xf95ffbd5, 0xa1444174, 0x7715f55b, 0xe893fd20, 0xf89dfde1, 0xc19cf012,
    0x633711bf, 0x65d51722, 0x17e0eb8b, 0x9b7e659e, 0xb8905a83, 0x47665b3c, 0x18e2881d, 0x6a66e46f,
    0xe14805c0, 0x61ede562, 0x9213d5db, 0xc4a65019, 0xaaab95dc, 0x801d5cc4, 0x9327c745, 0x9a5f3e26,
    0x374c0ebf, 0x2c918178, 0x04006014]"

definition tmp_xor32_s_15 :: "u32 list" where
  "tmp_xor32_s_15 = [
    0x6b47f502, 0x2c2f3a87, 0x583ad8c6, 0xd1f9e584, 0x97286bcc, 0xf36f15ac, 0xc581c9bc, 0x449457db,
    0x069ff29e, 0xde332de0, 0x65043058, 0x0fde2939, 0x99567399, 0x7bad865c, 0x9edfbb25, 0xf013abca,
    0xefee3c7e, 0x267835d8, 0xc602d660, 0x41b6ae42, 0xc991b46e, 0xecefcfbf, 0x137a9654, 0x9b1ca7fa,
    0x37779ad8, 0x298acf65, 0x85131d39, 0xf2ecc57e, 0xede39ef2, 0x44b73981, 0xed5f3d35, 0xfdcd872e,
    0x1af0d362, 0xb0a3f3ea, 0xc6e5c181, 0x6cc805eb, 0xe5698c72, 0x8dc3e0c8, 0xfa8b7cdb, 0xf4dce192,
    0x3b751e6d, 0xb593f5bf, 0x947449b0, 0x1bfbfdab, 0x159517c8, 0x68acc5b5, 0x51ce9428, 0x40f1179c,
    0xf22048f0, 0xda0b1cb0, 0x86e8a488, 0x8110f79f, 0xe9987dec, 0x9d889917, 0xd68aede5, 0x272ec70a,
    0x0407e824, 0x2fb5d181, 0xc5712c41, 0x7fe5688b, 0x1e0a0553, 0xbfaa0df8, 0xf51bae12, 0x2c661139,
    0x69399a66, 0x8532c333, 0x9757b7a7, 0xca97cba3, 0x4ac183f6, 0xa8d51fd1, 0xf0b4a340, 0x31b407f1,
    0x978eef7b, 0x4ab2a66e, 0xecfcaecf, 0x1ac0018d, 0x4a4856ca, 0x47254823, 0xf97ddcfb, 0xd106a266,
    0x725f7218, 0xde9bc339, 0xfb5b9457, 0x0c0e094a, 0xcee0df49, 0xf899385a, 0x537ab812, 0xc9eaa2db,
    0xd953cc88, 0x75435d4b, 0xcd2db084, 0x98f5a501, 0xd73dda44, 0xdf166cbd, 0x8c432413, 0x72fae540,
    0xb5cb1615, 0x1f89a60b, 0xa158ee4c, 0x2ae2c9b2, 0xacb4a4ce, 0xbfefd555, 0xab993042, 0xd7535217,
    0xf2133bd5, 0xbe993b33, 0xb484db20, 0x603ed8c8, 0xcebe6fa5, 0xf47ee10b, 0x9ea0c263, 0x68803418,
    0x1a158f41, 0x656ca20d, 0x7a6bf3a9, 0xf936cab3, 0x64c0dea0, 0x7a161675, 0x292e2cf7, 0xb6a4b737,
    0xb7c7c047, 0xb0c0a62c, 0x9aa0874c, 0x608ae353, 0x1cbc969d, 0x15a2bf08, 0x3dbe1b65, 0xda145f5d,
    0x43efcd6d, 0x07771628, 0xbeded18e, 0xebb21352, 0x25c68673, 0x9df5505f, 0xbb217565, 0x72ecfcff,
    0xb8e92f12, 0x5ad0975a, 0xe211d7d2, 0x92f9c883, 0xd6e58cd2, 0x61f570a8, 0xd8170f96, 0x5e356df9,
    0x34f3cce7, 0x2a42bc2a, 0x7cb14006]"

definition tmp_xor32_s_16 :: "u32 list" where
  "tmp_xor32_s_16 = [
    0xe8f37d80, 0xcfe2393a, 0xf9a9f101, 0x9860698d, 0xc30a5ba4, 0x96903922, 0x5cec07bb, 0xd87686fd,
    0xfd4c8809, 0x73ed9c4b, 0x62225824, 0x3d11eaec, 0xf020e506, 0x77e6da32, 0x57745c7f, 0x80ab26f0,
    0xc584da83, 0xf51b3fb3, 0x3f43c81e, 0xcd8d8574, 0x068312cb, 0x38334170, 0x051e293a, 0x8ad5ec9b,
    0x9de13b98, 0xf9c44942, 0x316ae3da, 0x8db2c43a, 0xbe53919b, 0xd2b72155, 0x07bf5adf, 0x6d26e09d,
    0x237d3146, 0x1a0813dc, 0xcb3873f1, 0x21754851, 0xe34db801, 0x4f4b0c0d, 0xf9d2b266, 0x0203078a,
    0x98d2237c, 0xd1fd4db7, 0x0c279e74, 0xc599d99c, 0xae4b4c51, 0xda0cc59b, 0xb8d33c2f, 0x61552317,
    0xccfafdce, 0x1172f68d, 0xaabaf261, 0xb60adc41, 0x83af2718, 0xe5fd3d19, 0x86b98c72, 0x6e5d2a6e,
    0xbbeb1a40, 0x0d63f7eb, 0x24d709cb, 0xda8e546d, 0x705b7b78, 0x33692537, 0x1872b078, 0x0a11f1e0,
    0x8c2384f4, 0x3a3d6d45, 0x94e5a7a2, 0xe98599ce, 0xb5d96630, 0x406871d3, 0x161d5f8a, 0x1b91d41c,
    0x11e95e96, 0x2e912070, 0xdfcdb3ea, 0xfb53a27a, 0x59122b16, 0x0f1b82b2, 0x136c2b8c, 0xdd19633d,
    0xd0327a22, 0x29120601, 0x01b94b2c, 0x80851c49, 0x05854444, 0xc4578e91, 0xe54ea12f, 0x1db95b01,
    0x129abd0b, 0x95ceb630, 0x06bc29a6, 0x53751783, 0xcf1148bc, 0x9f3fbcb2, 0xdf6d7cd5, 0x0919ac75,
    0xcf50f62d, 0xd94a74c9, 0xc53177be, 0xa4217c9d, 0xe063ee7d, 0xf7c6b648, 0xf7d8e00f, 0x67cc2f61,
    0xd8849a1a, 0xb68ba8f5, 0xaee40e7d, 0xc6aa2228, 0x1a3121da, 0x88e30455, 0x03758271, 0x49b6f97e,
    0xe54ee75d, 0x634ee77f, 0xb0d04c41, 0xca38c1f7, 0x2e6ecd85, 0xfcb7f772, 0x3b69e0f6, 0x4f68de05,
    0xe2e34155, 0x057d85a3, 0xf1ceb992, 0x7e747b61, 0x82de735a, 0xa58c4b8b, 0xcd5471d1, 0x8e682829,
    0x074fce97, 0x02b45dc4, 0xb15dcdbb, 0xc44b6525, 0x97f738b6, 0x0a430dce, 0xf0981cc9, 0x4e0fc144,
    0xcac21cf2, 0x8fef26ea, 0xba6bd924, 0xbde00432, 0x58b98b9b, 0xb63445f9, 0xfa305099, 0x10c10830,
    0xfc28c6d3, 0x64f9b5b8, 0x629867e2]"

definition tmp_xor32_s_17 :: "u32 list" where
  "tmp_xor32_s_17 = [
    0x8d997f16, 0x8be7c82e, 0x79593e65, 0xfaf69d04, 0x61f8d37a, 0xeda48722, 0xb90b752e, 0x8d4fcf30,
    0xf2899452, 0xb6d2562f, 0xd65ab837, 0x3bfb22e5, 0x52bf4c01, 0x8704a136, 0xac0bc3e0, 0x1f6134ec,
    0x82c32cf3, 0x9d503fe5, 0xf8f717f3, 0x6e72d92e, 0x3e331796, 0xdbf7daa4, 0x095ae348, 0xa62a1adf,
    0x263aaf63, 0x9fb244b3, 0x4a930c3e, 0x1b17f749, 0x0531f467, 0x789b5220, 0xd7d860f8, 0x40814cf8,
    0x7110fe84, 0xf0aaffc8, 0xe0875e29, 0xc9109c15, 0x4c2765dc, 0x7f928d26, 0xe7d7f0d1, 0xe2dade8e,
    0xc499139f, 0x1dcc4e18, 0xc7883821, 0xd060598c, 0xa49fe0af, 0x48967615, 0x86952844, 0x01a0a4f3,
    0x3233f039, 0x7f81034c, 0xffcf1518, 0x15173501, 0x084c30bf, 0x742adb64, 0x1b6a89e5, 0x332d3722,
    0xba140278, 0x04d96746, 0xdfdca488, 0xd7885a18, 0x35393e64, 0x229825f9, 0x7443ee4f, 0x21044200,
    0xbe6e068b, 0xab15cfd8, 0xffe2e5a8, 0xfe55a225, 0xadc120f7, 0x070060c7, 0xd442bf0d, 0x3223efdf,
    0xfb631c70, 0xd510b139, 0xf1b7442b, 0x466e388f, 0x3dfc530f, 0x2da33a93, 0xf7abb322, 0xa31ea51a,
    0xabc61b05, 0x9ba200cf, 0xd3d305d8, 0x4a963295, 0x13459484, 0x7603763e, 0x7e80116e, 0x44a0cb14,
    0xc1e44d7c, 0x8c9e7079, 0xd085d843, 0x891e229d, 0xc95d3b12, 0x187106ef, 0xa15446b6, 0x0b33220b,
    0x14f4dd4f, 0xd9f2bcc8, 0x4206b6c6, 0xaf3d7f81, 0x12e84eed, 0x07525eb0, 0x41710015, 0xcbebae6b,
    0x48deb0c1, 0x893c3f17, 0x4e901186, 0x4d66b354, 0xabcabbb2, 0x92919a2c, 0x05f9e3f1, 0x5d008343,
    0x3df54e7a, 0x47bc330b, 0x6b937290, 0xfee3637a, 0xfec1ecff, 0x312e992e, 0x2d2ee5c0, 0xde1376ae,
    0x7ab6fb58, 0x8ceed75a, 0x57ccccc6, 0x3164553d, 0xeb45d968, 0x5a00ca61, 0x58b980b1, 0x302086c1,
    0xcdfdb66d, 0xaa1b9320, 0xf81a7625, 0x5b520ba6, 0x5acfcf91, 0xcc712812, 0xa5725d48, 0x635113a7,
    0xdc3f6b21, 0x5face246, 0xa7043019, 0xc677ef2d, 0x985a49d8, 0xdf03dd19, 0x1ec63fe9, 0xa32df2b6,
    0x54d5d915, 0x917e703a, 0xd647583d]"

definition tmp_xor32_s_18 :: "u32 list" where
  "tmp_xor32_s_18 = [
    0x511565d8, 0x7aee8bde, 0x8ae7658e, 0xc3ca0444, 0xf1be3bad, 0x0f3c7307, 0x2bc23f10, 0x541fd743,
    0x474ba982, 0x76a2660d, 0xe4115d2e, 0xd723f643, 0x1a39a78f, 0x7f0260c5, 0xc240397b, 0xe77ea78c,
    0x1ea71971, 0xa30ac919, 0xd882cbdb, 0x8e27039b, 0xb759f664, 0xd73626ff, 0xe9c0d2df, 0xd9325376,
    0x901effa6, 0xb7a1dd75, 0x5065fb02, 0x621897ef, 0x1a469b64, 0xea555a7c, 0xf7fd9117, 0x6b846416,
    0x8456d550, 0x343c1f68, 0x9f92dc9a, 0xa8a2b919, 0xa3ad382d, 0xb62f8a9e, 0x5a4f5519, 0x9617a921,
    0xbaec0324, 0xda2b06cf, 0x992b8b92, 0xc6986983, 0x89931bfd, 0xe2195717, 0x0af39667, 0xccfde3bf,
    0x8793e8c2, 0x0ef8d13f, 0xdb21e7ff, 0xa9b230ac, 0x51c23383, 0xce805cb2, 0x962960b1, 0xbdf9f016,
    0x61f8b692, 0x78846ca6, 0x947fd89b, 0x236adf31, 0xec751949, 0x5d84ecab, 0x582368f3, 0x6823ea11,
    0xfe27c004, 0xf4f6ccc3, 0x5ec1f142, 0x40ea6ebc, 0xb236d85b, 0x89828708, 0xf37bafab, 0x9e8e57ca,
    0x7b2a1fbf, 0x9e705023, 0xabf95096, 0xcccc5ba1, 0x3bac6fb8, 0x0359e12f, 0x0c3b8f74, 0xd24f7f7b,
    0xab873537, 0x2dc066c3, 0x545afd58, 0x6c15cae2, 0x055c9f75, 0x05f096cf, 0xcee98ada, 0x20813e56,
    0x49eb2f0a, 0x193121ba, 0x49c3cf68, 0xb265b99c, 0x4d408a30, 0xb08b1450, 0x0f4addff, 0x9fe8ba48,
    0x2f3dcbba, 0x1e0614b8, 0xe09daba4, 0x511c728a, 0x82c3558a, 0x1dde33fb, 0x49eae857, 0xf5ee7d0f,
    0x840f772e, 0x09c79622, 0x6640e4b8, 0x8675dc5d, 0x7ef68adc, 0x444ff473, 0x18286f88, 0x49e38d77,
    0x2dbd1907, 0xcb35c6c2, 0xaca562e7, 0x573669e7, 0x0a9d4cb5, 0xf134bb3e, 0xce1c801a, 0xb7306147,
    0xea3b2930, 0xc2722c12, 0x19865621, 0x9453c933, 0x6c659642, 0xb7cdc5f8, 0x795269c6, 0xf95768ef,
    0x11a24777, 0x267787e6, 0xc15c829f, 0x2dc350db, 0xc618f797, 0xde40dbbf, 0xf9797257, 0xd2f60e0e,
    0x9a29f785, 0x98f2c848, 0x8beec24a, 0x7bf080a4, 0x22ae285e, 0x1b321a3a, 0x59103385, 0x93d024bd,
    0xc1db3d58, 0x8c5f9cf5, 0x01e21120]"

definition tmp_xor32_s_19 :: "u32 list" where
  "tmp_xor32_s_19 = [
    0x64bb7270, 0x3bf4e1c0, 0xaefa40ed, 0x1f1a74a8, 0x2de769c7, 0xff0f49c6, 0x96a34795, 0xb3d9847a,
    0x38b74ebd, 0x706409a3, 0xe096e33c, 0x48e0af78, 0x1249a5eb, 0x004da7a2, 0x584e936c, 0x34af9657,
    0x21bdbace, 0x7444f911, 0x1713cc06, 0x92ac17d8, 0xc543f07d, 0xf94a7018, 0x654beee9, 0xd3819f74,
    0x1db392db, 0xe22077e4, 0x44cdd589, 0x8c1a8b0c, 0x75c699ca, 0xc092e0f7, 0x817422cd, 0x885f1c0b,
    0x8c4b8f1b, 0xc937be75, 0x8a14badd, 0x15a7efea, 0xfb30b695, 0x0288a881, 0xf75b02c5, 0x44a88592,
    0x879c32a7, 0x31c5bf7c, 0x165efdf2, 0x6a1cea4e, 0x42e4dc15, 0x66a1eb2c, 0xcc424e53, 0x2507321d,
    0x55ddd848, 0x46f0b210, 0xca46e5ee, 0xf5a7f04d, 0x12c73d6b, 0x3074163b, 0x330476d7, 0xdf7f35d5,
    0xa907111e, 0xeef7e85f, 0xcacf805c, 0xdfb9ca99, 0xa49e153b, 0xdf47d48f, 0x5bdfeb93, 0xf6604dab,
    0x2881a26a, 0x35512c7b, 0x091424ec, 0x1484fc5c, 0x5b200af7, 0x3f08e9a8, 0x731593ff, 0x485c74a5,
    0x212ec5c0, 0xd07733fc, 0xf331658e, 0x5ecd90f1, 0x4a36049a, 0x5a637ca8, 0xd5b0d1d2, 0x35efaad1,
    0x2085bf67, 0x47eb89aa, 0x85027b87, 0xa54e0122, 0xb468ba5e, 0x3c64398e, 0x2d35f00d, 0x2ed7c2f7,
    0x46af7c61, 0xa6c738af, 0x6d483ec8, 0x7174384e, 0xe38828d2, 0x70e4dad9, 0x99f86ba6, 0xadc3f835,
    0x44e9d309, 0xc5c60b1d, 0x3ec5d340, 0x7163305b, 0x9b5e524a, 0x8c6c61d6, 0x415a63f8, 0x96b3d318,
    0x4cf6a9be, 0xb1b5daa1, 0xb7b124b9, 0x53525f7e, 0xc335d3bc, 0xbb9c14f0, 0xf4d4ed34, 0xca91d0e0,
    0x0f29d1b7, 0x27650ccf, 0xa02ea2fd, 0xb550a397, 0x4c59fd1c, 0x89426af7, 0x9c302ceb, 0x597f5660,
    0x626852f3, 0x9dc08399, 0x8d55e758, 0xd677c16c, 0x25ed62e4, 0x2f7a338b, 0xa2da6c0a, 0x58d13868,
    0x2ffecfd8, 0xc44a99cc, 0x495ce259, 0x7adc38c1, 0x8cbb49ce, 0xe5336464, 0xc2c1d752, 0x2d39e59b,
    0xebfc4cd4, 0x6c1ff1b5, 0x462cfea1, 0xc678b11b, 0x5c900bc3, 0xd2fd9c07, 0x1578cda5, 0x28f7e03a,
    0x988435f0, 0x18ac1267, 0x1237fdbf]"

definition tmp_xor32_s_20 :: "u32 list" where
  "tmp_xor32_s_20 = [
    0x4e8133ae, 0xd578f109, 0x650f90cd, 0x23227d53, 0x09d12adf, 0x563b6985, 0x63b1c8ef, 0x8d1b01ae,
    0x08e95e85, 0x4d9a0057, 0xef1c05bb, 0x8bdb25a4, 0x715549b5, 0xc2318665, 0x68f0cba8, 0xac2745c7,
    0x42cd7e6b, 0xf87a4e0a, 0xdcab51ad, 0xc3dc22dc, 0x3449a625, 0xf66529f9, 0xab78b932, 0xbcd30d8b,
    0x0950ca43, 0x7668ed02, 0xecdac463, 0x9eda2c23, 0xf02a6075, 0x2ded4949, 0x74b7bda9, 0x3b07de95,
    0x1998c8e1, 0xeffabefa, 0xef25759b, 0xcc34a886, 0x31878ee0, 0xe87b3b42, 0x4f48b55b, 0x42aa53de,
    0x5cbce68b, 0x72cf85eb, 0xc25bde49, 0xe99f1621, 0x3bd1c831, 0x181d60ab, 0xc70bd18a, 0x19b5cab2,
    0xa9c7448b, 0xf267d520, 0xb74ba7f2, 0x734ee143, 0xc1a18e5e, 0xa7acda4f, 0xf1d30156, 0x3b7969c7,
    0x15ac465c, 0xe5f520aa, 0x9b69704a, 0xdf5658ed, 0x3bb39a0e, 0x756d7540, 0xfea3b2e0, 0x2f35ef5d,
    0xd41d1d44, 0x48db4acd, 0x19b887e5, 0xc1315e93, 0xfec3b607, 0x76dc7482, 0x9df5f274, 0x7dfac604,
    0x7ee7cb10, 0x0bc8c3bb, 0xa4b4989b, 0xdd069edd, 0xec918fef, 0x01118cc7, 0xee239710, 0xa26771f1,
    0x8a54f72c, 0x943a60dd, 0xa99a0b28, 0xf3c9edb1, 0xcd58f164, 0xe1d554cc, 0xd83cc7b5, 0xf56a361a,
    0x841f512b, 0x703fb409, 0x6bd4ddfc, 0x946df081, 0x05540ec1, 0x4e1c253c, 0x91d1125a, 0x16b9d915,
    0x7e5bb579, 0x62e53c40, 0x6b4d983c, 0x8c61f0d4, 0x8ace07aa, 0x21d39ee6, 0xb6d3fb67, 0x48a177ba,
    0x8dfd40a3, 0x1bf84a03, 0x285cca15, 0x29ae97f0, 0xe0620832, 0xb86c4327, 0xde4308f3, 0xc7316373,
    0xf22ea8c5, 0xe7dc30aa, 0xcc27bac5, 0x51ef353d, 0xad3c78c5, 0x003a8778, 0x4df3ee79, 0xacd8e375,
    0x7fa3d0a1, 0x56e711a1, 0x58e81629, 0xbafb32ff, 0xebcc6626, 0x9ddde0b1, 0xe060aa26, 0xa28b491c,
    0xe31bbd08, 0x2522be08, 0xb7a08dd3, 0x505e415c, 0xe002658d, 0xb853a69d, 0x7fa2c7a6, 0x39467591,
    0xc5675053, 0xfed110d0, 0x6665c618, 0xbfd5b998, 0xfa50a0ac, 0xd3507d70, 0xad51f08a, 0x4591bc05,
    0x781a0a26, 0x50eb3a7a, 0xaff23112]"

definition tmp_xor32_s_21 :: "u32 list" where
  "tmp_xor32_s_21 = [
    0x68a3030e, 0x430caee5, 0xe57055d7, 0x1ab996b1, 0xbfeb7065, 0x862ba448, 0x468c17f9, 0x3f9f7934,
    0x23b372c4, 0x851da505, 0x60bad8d2, 0xd9c468bf, 0x02e71a20, 0xe5839ff2, 0x0efa0d45, 0x65ea1a52,
    0x0363c96b, 0xa4cfc082, 0x64e9970f, 0xc7251266, 0xdf8d5e7d, 0x93890610, 0x5938b19a, 0x10526262,
    0x1f31235b, 0x9a307806, 0xd4e7a6a2, 0x2b653c1b, 0x75da8f86, 0x5ed67dd0, 0xe7e75754, 0xebf959de,
    0xbe6353f6, 0x4eb44d81, 0x5031b703, 0x907bf305, 0xaa38337f, 0xb14503d1, 0x4be670e5, 0x8b7ef561,
    0x82a66ca5, 0xb667306a, 0xbb8d1c58, 0x946e6efc, 0xec65de94, 0x4456aea7, 0xe382c807, 0x051922bb,
    0x13ba059a, 0xa9bf5a85, 0xb3de8813, 0xa6d55faa, 0xbd6e118e, 0xfcc456a3, 0x64455ec1, 0xa10e2729,
    0x3d1f56c6, 0x30ac6cd3, 0x864a419f, 0xd9700f7f, 0xb60fdf86, 0xdf1c33b6, 0x11772249, 0xeb03a55f,
    0xb0a2acea, 0x8ceac32b, 0xfda73f5b, 0x0354e4e0, 0x09ea662b, 0xd240eb62, 0x68317758, 0x59eeabfb,
    0xa1e1895f, 0xec081d9f, 0x7a324e30, 0x3c871f35, 0x08f8b0cd, 0x3adf3d67, 0x72556aec, 0x5776a12d,
    0xd9841705, 0x6120a5cd, 0x76261ca8, 0x85ff5df6, 0xb273366d, 0x6565ea5f, 0xbd638d53, 0x63fa2796,
    0x0136a8c2, 0x45336837, 0x286a580a, 0xf74aa419, 0xcc0519f9, 0x9798194e, 0xe9af1b00, 0x8ada931f,
    0x20355a6e, 0x1b7ccd13, 0x7a427f56, 0x3d29789d, 0x6c8412cf, 0xcbd8cbc1, 0x8a9af32e, 0x42517d10,
    0x435eeada, 0xe343f56e, 0xbf847512, 0x4dee1cc5, 0x614d710a, 0x40640c3a, 0x1bc2e407, 0x2f808ba7,
    0xa5b1431c, 0x9781472a, 0x291ce911, 0x6d8922be, 0x78d4a7a8, 0xa80ffabf, 0xaad4d947, 0x22f9f709,
    0xd4859239, 0x7a401ca0, 0x82a79334, 0xf0bb01fe, 0xb75e98cb, 0xd99c73de, 0x41432ca6, 0xe94336eb,
    0x8b08059f, 0xbe6f77e2, 0x68cb9b00, 0x9cf75d5b, 0xf03adcec, 0x319e3399, 0xdf4de671, 0x75f99d1a,
    0xfdfbfd3e, 0x16486b22, 0x68e04d44, 0xb584e3d1, 0x3dd4bee0, 0x3bd15fee, 0x046e8952, 0x3776ad55,
    0x98969a6a, 0x2499a4c6, 0x9335c340]"

definition tmp_xor32_s_22 :: "u32 list" where
  "tmp_xor32_s_22 = [
    0xdc3a7793, 0xa3945e6c, 0x37ab697a, 0x6c781849, 0x1a8187b5, 0x1b6b1fbb, 0xa295f6f3, 0x4e797ec0,
    0xbd461528, 0x40695676, 0x3ae5508a, 0x8391c990, 0xb08cb230, 0xe323fb34, 0xeaa5d6b4, 0xee3427f4,
    0xb517696a, 0x5df801e9, 0xc0f04a98, 0x38203227, 0x96c5ae51, 0x399338d9, 0x6735b18c, 0x8675b67f,
    0x580b1df3, 0x242363c8, 0x8e3fbe3f, 0x95d5ce0f, 0x74459575, 0xe85fae40, 0x2498b23f, 0x59d2e206,
    0x235f39f2, 0x5695825f, 0xaf66e562, 0x4799d5b2, 0xa4882ccd, 0xd84ef17b, 0x7252dfa4, 0xd2048191,
    0x063e29fa, 0x2b38a3b6, 0xad2e2c7e, 0x34e0f7d7, 0xf711cb98, 0x1c9ca9d2, 0xcacc981e, 0xc407dbd2,
    0x6e0d2ba4, 0x362948d2, 0x93910223, 0xc8f24300, 0xeff5d1bd, 0x79db3ea0, 0x799af73c, 0x66bfda34,
    0x13368b73, 0xd7083897, 0x84842802, 0xde19a642, 0x506fb436, 0x9272895e, 0x8f22e472, 0x4a0d2fa0,
    0xac6231f1, 0xe6f3efa2, 0x940cabd0, 0xbee46cee, 0xd8ffd63b, 0x73f22481, 0x1c62bc1f, 0xe5a5f63d,
    0x70e2db68, 0x1735b58b, 0x3b111475, 0xb548ef73, 0x88e54fd5, 0x8ed92441, 0xe675108c, 0xf24669b5,
    0x08545364, 0x8051eb63, 0x978c8b44, 0xd4d5c0ab, 0xd7443a07, 0x3e0a01ae, 0x297c8040, 0x2dec28ba,
    0xd62f01c5, 0xbee604a8, 0x7f9f111f, 0x39339282, 0xec98cadf, 0x99053645, 0x7c2f9abf, 0x14501fff,
    0x2cc6c352, 0xed8d608e, 0x77b3ba39, 0xa7804201, 0x5bc0fe95, 0x490d413c, 0x6e13fe13, 0x3662a907,
    0x70817f16, 0xbfc00223, 0x592a0b29, 0x178d2d30, 0x9a6da5f6, 0x01747967, 0x48fbd2cf, 0xfc0a5e74,
    0xc38d3ac6, 0xb044c265, 0xa48a847c, 0xc9cfe279, 0x9582b8ee, 0xd1eca5fc, 0xcecf5ef1, 0x02505ad8,
    0x9c986408, 0x620ead2e, 0xbd69e6ff, 0x4b03d580, 0xfcc6a58b, 0x9127d674, 0xaead482d, 0x26ce00a3,
    0x6869df1d, 0xd0573fd8, 0x6e0841d0, 0x858252db, 0xe18e428e, 0xb2b2d2c6, 0xd6a1dde9, 0x05f256b2,
    0x69b92d44, 0x76ec65c6, 0xb91f671b, 0x92cc1988, 0xb1054a17, 0xbe451ed1, 0x428cdbf5, 0xb5b77ed3,
    0x393483c9, 0x1d1fc801, 0xaa327877]"

definition tmp_xor32_s_23 :: "u32 list" where
  "tmp_xor32_s_23 = [
    0x96f1d626, 0xd16de12a, 0x119000d0, 0xf012cab6, 0xc46a2f72, 0x8394311b, 0x9fbe9746, 0x024625ae,
    0xd6819f89, 0xc78d3973, 0x15ace82a, 0xeabe3d38, 0x59b05395, 0x20d38038, 0xe9ea9022, 0xb56927ea,
    0x18d231c1, 0xf10caa35, 0x9d888c60, 0x9623ae36, 0x87c3080d, 0x8380a4d6, 0xf6be91ac, 0x8d90be8d,
    0xfa842533, 0xe1456c01, 0xa41b43f0, 0x83ec7161, 0x1b0bfaa5, 0xbdb27871, 0xef77f689, 0xf9415a70,
    0x3a2140b3, 0x4d46ecf2, 0x478ad4dc, 0x7b88eb0f, 0xd68628cd, 0x20a162ca, 0x15c5799e, 0x897770da,
    0xbc7eb74f, 0x52c92536, 0xf21a2e97, 0x77b0f6c3, 0x5dcec494, 0x5aa48dd2, 0x5cc44c1f, 0x431e23b6,
    0x5df71a58, 0x8cfaf2d7, 0x3ffceb53, 0xa077f89e, 0x83829ef9, 0x9207181b, 0x56d32ea4, 0xca8f06c5,
    0xa35c9852, 0xa6c797f6, 0x351a736c, 0x55f9ba21, 0x1ce59f6d, 0x111bc062, 0x81923069, 0xedb42f0b,
    0x61dd5d61, 0x8adbab8d, 0x845f2f6b, 0xe24a0773, 0x0b81b687, 0x37a8c101, 0x98f9acf7, 0x5184e04e,
    0xc3c0cc12, 0xe9ad1afb, 0xb7310ab1, 0x99ae0652, 0x960ab16b, 0xc5b37ba5, 0xf50e452a, 0x881d9e7d,
    0x7cada757, 0x8e1fe19d, 0x2d61e880, 0x0c46046c, 0xa2cbfa53, 0x0669f199, 0x0195a776, 0x02104848,
    0xcb81ee5b, 0x92b8c297, 0xd679e6de, 0xd0708f4a, 0x24eac03b, 0x8d4935a8, 0xb290978c, 0x0b1cf2cb,
    0x9a09a412, 0x44cbcd8a, 0xf2485585, 0x9831eb39, 0xa0261960, 0x98cf73b2, 0x90dfaed0, 0x8e09cc25,
    0x4fe5affc, 0x2607ed9e, 0x6b36ca1d, 0x913d77d3, 0x8f90c524, 0xd2126d51, 0x5f2960a1, 0x412daf48,
    0xcce02c9b, 0x9ea82405, 0xfdf027f5, 0xdb895184, 0xe1e70567, 0xb35c13f5, 0xa8b6cb26, 0xfff5cdd2,
    0x9b63c96d, 0x761fae27, 0x4c8bdc1b, 0xc005ad97, 0xe8096a9e, 0x581de78e, 0x59483080, 0xe7f50ae7,
    0xea998792, 0xb7e15cab, 0x06f2b84c, 0x97a9642d, 0x98970d21, 0xa6a950a3, 0x6b2ec87b, 0x0822d921,
    0x9ef8be07, 0x4bf3fb11, 0x6e3b0ec6, 0x485bfef3, 0x4dc315c9, 0xdda49ed5, 0x745e9611, 0xa9867356,
    0xaa023810, 0x6b1f98de, 0x294b2c99]"

definition tmp_xor32_s_24 :: "u32 list" where
  "tmp_xor32_s_24 = [
    0xdd3001b7, 0x9dd33a9a, 0x10a1e6fc, 0x779bf0ae, 0x38abdfdd, 0xbc8f2bfe, 0x2f99b25a, 0x2887ece7,
    0x8c3c7bab, 0x1ae562bf, 0xcc296c9a, 0x8861b993, 0xf8d17834, 0x0627d8f3, 0x82db29ac, 0xf11d7c41,
    0x9475bc4b, 0x1018aad6, 0x12f90889, 0x809d41de, 0xf58319ab, 0x72c53188, 0x23c5e1d8, 0xdde58007,
    0xa97c49ac, 0x2e9341ff, 0x7eddf5d0, 0xa60ac264, 0x7fa430b0, 0xa1a2baac, 0x0ba4a5d5, 0x47ef5098,
    0x05e4f55d, 0xa340e6e7, 0x3dd7b86b, 0x0dbb71d6, 0xcd21683a, 0xbf95ea63, 0x828f3d24, 0xd2f7e5d9,
    0x7f43bf64, 0x8711c2a4, 0xb4880dd9, 0x9ead3331, 0xcf7880cc, 0xf61cc866, 0xac1dd595, 0xa19e7140,
    0x8a8227ac, 0xe62bc7cd, 0x8226d8a1, 0xa68dc7c4, 0x4d3a0a2d, 0x739cfd5c, 0x2240db42, 0x3afaf55f,
    0xe78a23b9, 0x6976e0bd, 0x0202e92b, 0x402a1cc6, 0x1956815c, 0xe573feaf, 0x7f1c4fcf, 0xe3d8cfa4,
    0x76c68ea2, 0xec2d8e5a, 0x34dc4370, 0xa465f78d, 0x285086f3, 0xa965d98e, 0xe621e8b9, 0xdfb52c2b,
    0x48c6e701, 0x41bb19ca, 0x0cce2d0e, 0xb941bf9d, 0x4139b5a2, 0xa3407f31, 0x42817594, 0x2d47275f,
    0x5274d23f, 0xc6a142cc, 0x4d8c2682, 0xf5e62916, 0x723c734f, 0x83f17cad, 0x72c19244, 0x98758bf9,
    0xc97ae352, 0x50445908, 0x4dabfdd7, 0x5eca6a5c, 0xcc80a366, 0x94b81255, 0x986ac4a6, 0x27d71d67,
    0xe777332d, 0x130ed826, 0xec207968, 0x2874adea, 0x492c33af, 0x16488162, 0x727c5ce0, 0xeb025a28,
    0x50f88c29, 0x1f21a3a8, 0x65644b04, 0x50de6cb0, 0x9fdb73bf, 0x1520d068, 0xf381c29a, 0xc07878c5,
    0x4de4f305, 0x20a1b0ae, 0x764f4461, 0xfc39a424, 0x98456c34, 0x2a4971f3, 0xbc1dfc41, 0xa1df6f01,
    0x8de63fd0, 0xe093cd10, 0xf0297f29, 0x564d8bfe, 0xf82e4b1c, 0xce9d1c01, 0x924c49bc, 0x36590c91,
    0x59a6f4ef, 0xa323229e, 0xc6b14d11, 0xf0c468b4, 0x42be5204, 0xaa465269, 0x5a7f1374, 0x9ae83218,
    0x78d45936, 0x68837fea, 0xf278ab45, 0x6777aa12, 0x19a07faf, 0x44e7229b, 0xe887a709, 0xa0c55d3b,
    0x3a017a67, 0xaadc87ad, 0x62d44b8c]"

definition tmp_xor32_s_25 :: "u32 list" where
  "tmp_xor32_s_25 = [
    0x30748ee8, 0x9e4fb421, 0xd3b341d5, 0xc45834bd, 0x33360d23, 0xcb77656d, 0xed9bd540, 0xb464cfec,
    0x6b648234, 0x323b836c, 0x81f2d8da, 0xebd61a21, 0x19247cc1, 0x59259ce6, 0xe3b45e3e, 0xecd1f965,
    0xf4a1fa7a, 0xd0edee87, 0xd09f2e27, 0xb47fe289, 0x0e7184ee, 0x81ac99e6, 0xbe9cbfab, 0x75f0edb2,
    0x46aed97b, 0x265fdf61, 0x90cf0be6, 0xb338ed79, 0x4ef8a415, 0x6ffc633b, 0x94f0f1e2, 0x3c65004c,
    0x83e11a64, 0xcbd520bb, 0xb7f8f493, 0xa7331132, 0x6631e6d8, 0xcbc8ed6f, 0x8ae97177, 0xd063ac51,
    0xf6691c41, 0x3e71c5f8, 0x306d0a15, 0x0e6aba1f, 0x04937bdd, 0x0d4d845d, 0x032d9f0a, 0x3a962084,
    0xf3d68cef, 0x0739d49d, 0x6bebae4c, 0x8b3affed, 0xd3b2c7d6, 0xb4c479f5, 0xe064098c, 0xc1b5feae,
    0x4d3c7979, 0x539d170d, 0x7c2608d5, 0xdb222494, 0xfd0a1823, 0x4d3dacf1, 0x16c43901, 0xfdbcc4c1,
    0x3951e6ed, 0xde9c1d03, 0x526abca8, 0xafec8822, 0x927b49a6, 0xf4d2dbf5, 0x4499f869, 0x8f02c902,
    0x08ac3944, 0x0773d284, 0xd8ecae0b, 0xb930d1f7, 0x985782bc, 0xd7b55403, 0x535d5a4a, 0xff61d62c,
    0xcf40366e, 0xde8e29fd, 0x1d3a5c54, 0x8f593a22, 0x18760042, 0xddf1eb52, 0xb35881c3, 0x9cda4ea6,
    0xe22d8ee7, 0x988d78a6, 0xafd9b509, 0x5457c489, 0x74a48f70, 0x44476eca, 0x409c21e9, 0x1af6ebb2,
    0x5a20de25, 0xa6f5f5d2, 0x5df7b702, 0x41e2a7d2, 0xc10f5bbd, 0x13c64cbc, 0x1f90b496, 0xc58aafc4,
    0xee0d38eb, 0x2151b83a, 0xe132abac, 0x2c857b5c, 0x7dd95795, 0x896664ea, 0x8dd6fb69, 0x88ca02e1,
    0x1caa3135, 0x01d63956, 0x121041b7, 0x4d91789b, 0xd2aa9893, 0xa1803f29, 0xc3353962, 0x6b0ea300,
    0xda7bf731, 0x08f0c3dc, 0x5f1d7fa0, 0x066c1272, 0xb92d8f45, 0xc690934b, 0x9baff060, 0xb4b6c5c2,
    0x403e53e3, 0x08f4e4ee, 0xd579d27b, 0x28e72449, 0xda51f19e, 0x4eae64d4, 0x051f8a87, 0x317f3536,
    0xa0ed976a, 0x17d4a2e6, 0xe972094b, 0x3d59c9d7, 0xeb9d7371, 0x15bb65de, 0x9153ac22, 0x778f9f8f,
    0xfc2f17b9, 0xe0ef0e59, 0x6d519f42]"

definition tmp_xor32_s_26 :: "u32 list" where
  "tmp_xor32_s_26 = [
    0xdf969695, 0x6ef2159c, 0xec60e697, 0x802290ad, 0x55964e48, 0x4a531762, 0x36812cf8, 0x0bcb0c31,
    0xb0adfc71, 0xa59a66e0, 0xbad321dc, 0xd4be6e32, 0x13e16c16, 0xb9184736, 0xc1c55092, 0x0f7581fb,
    0x6d90d16b, 0xc3b1707e, 0xdf338468, 0x9d28b263, 0xba25d479, 0xcb428fdc, 0xcd9cc5f2, 0xa348991e,
    0x5c089ebd, 0x7d7f15b5, 0x3d0a5940, 0x08face56, 0xd2e57613, 0xe4c02595, 0xc3f2bba2, 0xb11cf679,
    0x7da7f467, 0x80628275, 0x0bf10f56, 0x5b23bcfc, 0xb91ffa9b, 0x700590be, 0xa548e6e3, 0x92c72cf2,
    0x14eda2d3, 0x8e7da448, 0x5ffc004d, 0x3f54397c, 0xf05db126, 0x2b918afe, 0xfc2c9aac, 0xaf8008cb,
    0x3cd6d147, 0x5d575e7a, 0x1c66290e, 0x909df47b, 0x4559a80e, 0x06ab10d1, 0xddd96f3e, 0x2fc49657,
    0xe77da8e0, 0xff4da089, 0x26a39d6f, 0xed248e68, 0x0e24a3d8, 0x3390fd93, 0xfe627668, 0xdc9b4b97,
    0x3b06d767, 0xacd4bdf0, 0xfeb8173c, 0x5296a3ff, 0x57df4662, 0xcd4519b9, 0x3d238d1e, 0x7f34dc04,
    0xbfa49433, 0x07653a8b, 0xe7457d94, 0x82ec4af8, 0x1f034d4b, 0x14d7acac, 0xb13b958f, 0x50a13d12,
    0x30afdb43, 0x184efbf1, 0x86798d4b, 0x065cf393, 0xbcc4c506, 0x5b55911a, 0xfdd75bd2, 0xd89bf3a3,
    0xaf046fad, 0xa574ab58, 0x4c73e22b, 0xba879264, 0x7773c446, 0x0d9b4405, 0x3863022f, 0xf2cd001c,
    0xd9e9fa93, 0x56da3af3, 0x102efe81, 0x4660f065, 0xf1da1e30, 0x05b94243, 0x73ace065, 0x6b59a62d,
    0x35afe822, 0x65b34b72, 0x9c3f890a, 0xf249f99f, 0xeb28b9e9, 0xfe3d5548, 0x3d8c372a, 0xbec8f5fb,
    0xdbb29cd1, 0x890559a6, 0x1baf9258, 0xa13ca966, 0x989b23b7, 0x1efca1b1, 0x4680e823, 0x72e7b4af,
    0xd663f569, 0x0e3ce028, 0x41ba4515, 0x35f236b1, 0x4a226f34, 0x371cfeb8, 0x2923f419, 0xea3eb05c,
    0xaf936450, 0x50c46656, 0xc1fd7746, 0x7535e7d7, 0x998e086b, 0x2a7fe704, 0x910b6bc6, 0xe791f18a,
    0xbff711da, 0xe017ec0b, 0xe068daec, 0xe08e5b2f, 0x6434cfb5, 0xc28a2cc7, 0xf9aea679, 0x5ad23414,
    0xd32f5b49, 0x574000ac, 0x47ff3df6]"

definition tmp_xor32_s_27 :: "u32 list" where
  "tmp_xor32_s_27 = [
    0x54a429cb, 0x6f24a7c5, 0xba6f4a7a, 0x20ff796d, 0x475e30f3, 0x34b1051e, 0xb3c679bd, 0x915885da,
    0x63879bd4, 0xf4738471, 0x3440db55, 0x28b56082, 0x5c2d78fc, 0xa0e4302f, 0xd136cf99, 0xa4a36559,
    0xedb505d3, 0x24b8cf00, 0x3ff09e4b, 0x0c7bd0df, 0x73482d95, 0x95762226, 0xbaeb56ec, 0xf3f6c2c5,
    0xfc6c574b, 0xec3be468, 0x3e41b6d4, 0x2bb70156, 0xfa0ba3f0, 0xd6ed95e7, 0x9162ee90, 0xa97106cb,
    0xd3020eb0, 0x22bb09f7, 0xd65875ad, 0x6bccf7af, 0xc8ca7c1d, 0x681744ef, 0x50d2fa0e, 0x7c4cee13,
    0x87e847eb, 0x2be232bc, 0x757b5145, 0x6410919d, 0x7c3b24de, 0xb736b90e, 0x293ef280, 0x5847d4df,
    0x47f9f8b0, 0x4c6fc6d4, 0xd419445e, 0x1a7e8be0, 0x34b38c07, 0x3bab6a23, 0x5d5d272d, 0x4ce9bf7f,
    0x7a45ee63, 0xa3959469, 0xc0f99435, 0x435696b6, 0x1f8d03d1, 0xb8a3390d, 0xa5c3dbcc, 0xb2ef3eb8,
    0x72a90892, 0x01fc6c6a, 0x6625a4bb, 0x75e143b7, 0x0d888bd2, 0xcccd9d24, 0x65fe7b58, 0xe7fd61cb,
    0xf2b61ff0, 0x55b88ec3, 0x229d31cf, 0x5568173f, 0x6bc52bd0, 0xd4a9d56d, 0xbf9f7245, 0x2cfd6931,
    0xe5958836, 0x2d12be8b, 0xfbd61341, 0xd7bd7fdc, 0x197c4d16, 0x347b5c6b, 0x6c81b79f, 0xf8666b8c,
    0x5854767c, 0xfccae825, 0x1cfc2626, 0x8460863a, 0xc1034333, 0x0225b3d5, 0x26f89866, 0xe04c3a97,
    0xdcd8753e, 0x207bcce6, 0x87c293a3, 0x15e55537, 0xfbdc1de2, 0x4e654490, 0x268221f2, 0x94006103,
    0xedc7fa42, 0xfab0d64c, 0x7c8b20f1, 0x2aa3ad87, 0xcfe98d41, 0x6ab34dd4, 0x003a78fb, 0x58cc4565,
    0xe8feb54e, 0xc8a77fa3, 0xc88ba2df, 0x27d56daa, 0x95acd5f6, 0x81cbe254, 0xe7d17ac3, 0x60ac35d2,
    0x35f048f1, 0x712028cc, 0xc1e24d92, 0xfff9529c, 0x5fce81e5, 0x9d2617c0, 0x4c200b03]"

definition tmp_xor32_s :: "u32 list" where
  "tmp_xor32_s = concat [
    tmp_xor32_s_00,
    tmp_xor32_s_01,
    tmp_xor32_s_02,
    tmp_xor32_s_03,
    tmp_xor32_s_04,
    tmp_xor32_s_05,
    tmp_xor32_s_06,
    tmp_xor32_s_07,
    tmp_xor32_s_08,
    tmp_xor32_s_09,
    tmp_xor32_s_10,
    tmp_xor32_s_11,
    tmp_xor32_s_12,
    tmp_xor32_s_13,
    tmp_xor32_s_14,
    tmp_xor32_s_15,
    tmp_xor32_s_16,
    tmp_xor32_s_17,
    tmp_xor32_s_18,
    tmp_xor32_s_19,
    tmp_xor32_s_20,
    tmp_xor32_s_21,
    tmp_xor32_s_22,
    tmp_xor32_s_23,
    tmp_xor32_s_24,
    tmp_xor32_s_25,
    tmp_xor32_s_26,
    tmp_xor32_s_27]"

lemmas tmp_xor32_s_defs =
  tmp_xor32_s_00_def
  tmp_xor32_s_01_def
  tmp_xor32_s_02_def
  tmp_xor32_s_03_def
  tmp_xor32_s_04_def
  tmp_xor32_s_05_def
  tmp_xor32_s_06_def
  tmp_xor32_s_07_def
  tmp_xor32_s_08_def
  tmp_xor32_s_09_def
  tmp_xor32_s_10_def
  tmp_xor32_s_11_def
  tmp_xor32_s_12_def
  tmp_xor32_s_13_def
  tmp_xor32_s_14_def
  tmp_xor32_s_15_def
  tmp_xor32_s_16_def
  tmp_xor32_s_17_def
  tmp_xor32_s_18_def
  tmp_xor32_s_19_def
  tmp_xor32_s_20_def
  tmp_xor32_s_21_def
  tmp_xor32_s_22_def
  tmp_xor32_s_23_def
  tmp_xor32_s_24_def
  tmp_xor32_s_25_def
  tmp_xor32_s_26_def
  tmp_xor32_s_27_def

end
