(* ===== verification/Linear32.thy ===== *)
theory Linear32
  imports Prelude
begin

text \<open>
  Linear maps on 32-bit words over GF(2), represented by the list of the images of the 32
  unit vectors, and a kernel-evaluable implementation of their application and powers on
  binary numerals.  The random number generator steps a linear map (xorshift); its seed
  table and its period are facts about very high powers of that map, which are decided
  here by repeated squaring of 32-by-32 bit matrices.
\<close>

subsection \<open>Linear maps and their matrices\<close>

definition linear32 :: "(u32 \<Rightarrow> u32) \<Rightarrow> bool" where
  "linear32 f \<longleftrightarrow> (\<forall>x y. f (x XOR y) = f x XOR f y)"

lemma linear32_xor: "linear32 f \<Longrightarrow> f (x XOR y) = f x XOR f y"
  by (simp add: linear32_def)

lemma linear32_zero: "linear32 f \<Longrightarrow> f 0 = 0"
  using linear32_xor [of f 0 0] by simp

lemma linear32_id [simp]: "linear32 (\<lambda>x. x)"
  by (simp add: linear32_def)

lemma linear32_comp: "linear32 f \<Longrightarrow> linear32 g \<Longrightarrow> linear32 (f \<circ> g)"
  by (simp add: linear32_def)

lemma linear32_funpow: "linear32 f \<Longrightarrow> linear32 (f ^^ n)"
  by (induction n) (simp_all add: linear32_def)

text \<open>Application of a matrix, given by its columns, to the binary digits of an integer.\<close>

fun lini :: "u32 list \<Rightarrow> int \<Rightarrow> u32" where
  "lini [] k = 0"
| "lini (c # cs) k = (if odd k then c else 0) XOR lini cs (k div 2)"

definition cols :: "(u32 \<Rightarrow> u32) \<Rightarrow> u32 list" where
  "cols f = map (\<lambda>i. f (push_bit i 1)) [0..<32]"

lemma word_of_int_xor: "(word_of_int (a XOR b) :: u32) = word_of_int a XOR word_of_int b"
  by (rule bit_word_eqI) (auto simp: bit_word_of_int_iff bit_xor_iff)

lemma int_split: "(k :: int) = (if odd k then 1 else 0) XOR 2 * (k div 2)"
  by (subst xor_rec) (simp, presburger)

lemma word_of_int_split:
  "(word_of_int k :: u32) = (if odd k then 1 else 0) XOR push_bit 1 (word_of_int (k div 2))"
proof -
  have "(word_of_int k :: u32) = word_of_int ((if odd k then 1 else 0) XOR 2 * (k div 2))"
    by (simp only: int_split [symmetric])
  also have "\<dots> = (if odd k then 1 else 0) XOR word_of_int (2 * (k div 2))"
    by (simp add: word_of_int_xor)
  also have "(word_of_int (2 * (k div 2)) :: u32) = push_bit 1 (word_of_int (k div 2))"
    by (simp only: wi_hom_mult [symmetric] push_bit_eq_mult) simp
  finally show ?thesis .
qed

lemma push_bit_split:
  "push_bit i (word_of_int k :: u32) =
     (if odd k then push_bit i 1 else 0) XOR push_bit (Suc i) (word_of_int (k div 2))"
  using word_of_int_split [of k]
  by (cases "odd k") (simp_all only: push_bit_xor push_bit_push_bit push_bit_of_0 Suc_eq_plus1
      if_True if_False not_True_eq_False not_False_eq_True)

lemma lini_push:
  assumes "linear32 f"
  shows "lini (map (\<lambda>i. f (push_bit i 1)) [i..<i + n]) k XOR f (push_bit (i + n) (word_of_int (k div 2 ^ n)))
    = f (push_bit i (word_of_int k))"
proof (induction n arbitrary: i k)
  case 0
  then show ?case by simp
next
  case (Suc n)
  have up: "[i..<i + Suc n] = i # [Suc i..<Suc i + n]"
    by (simp add: upt_rec)
  have dv: "k div 2 ^ Suc n = k div 2 div 2 ^ n"
    by (simp add: zdiv_zmult2_eq)
  have sp: "f (push_bit i (word_of_int k)) =
      (if odd k then f (push_bit i 1) else 0) XOR f (push_bit (Suc i) (word_of_int (k div 2)))"
    using assms by (subst push_bit_split) (auto simp: linear32_xor linear32_zero)
  show ?case
    using Suc.IH [of "Suc i" "k div 2"]
    unfolding up dv list.map lini.simps sp add_Suc_shift
    by (simp only: xor.assoc refl split: if_split)
qed

lemma lini_cols: "linear32 f \<Longrightarrow> lini (cols f) k = f (word_of_int k)"
proof -
  assume lin: "linear32 f"
  have z: "push_bit 32 (w :: u32) = 0" for w
    by (rule bit_word_eqI) (simp add: bit_simps)
  show ?thesis
    using lini_push [OF lin, of 0 32 k] lin by (simp add: cols_def z linear32_zero)
qed

lemma cols_comp: "cols (f \<circ> g) = map f (cols g)"
  by (simp add: cols_def)

subsection \<open>Evaluation on binary numerals\<close>

text \<open>
  A 32-bit word \<open>w\<close> is represented by the numeral \<open>2 ^ 32 + w\<close>: its leading binary digit
  is digit 32, so all columns have the same number of digits and their exclusive or is
  a structural recursion without carries or cancellation of leading digits.
\<close>

fun digits :: "num \<Rightarrow> nat" where
  "digits num.One = 0"
| "digits (num.Bit0 n) = Suc (digits n)"
| "digits (num.Bit1 n) = Suc (digits n)"

fun xorn :: "num \<Rightarrow> num \<Rightarrow> num" where
  "xorn (num.Bit0 m) (num.Bit0 n) = num.Bit0 (xorn m n)"
| "xorn (num.Bit0 m) (num.Bit1 n) = num.Bit1 (xorn m n)"
| "xorn (num.Bit1 m) (num.Bit0 n) = num.Bit1 (xorn m n)"
| "xorn (num.Bit1 m) (num.Bit1 n) = num.Bit0 (xorn m n)"
| "xorn num.One n = n"
| "xorn m num.One = m"

lemma digits_xorn: "digits m = digits n \<Longrightarrow> digits (xorn m n) = digits n"
  by (induction m n rule: xorn.induct) auto

lemma xor_int_double:
  "(2 * a) XOR (2 * b) = 2 * (a XOR (b::int))"
  "(2 * a + 1) XOR (2 * b) = 2 * (a XOR b) + 1"
  "(2 * a) XOR (2 * b + 1) = 2 * (a XOR b) + 1"
  "(2 * a + 1) XOR (2 * b + 1) = 2 * (a XOR b)"
  by (subst xor_rec, simp)+

lemma xorn_arith:
  assumes "(z::int) = (a XOR b) + p"
  shows "2 * z = ((2 * a) XOR (2 * b)) + 2 * p"
    and "2 * z + 1 = ((2 * a + 1) XOR (2 * b)) + 2 * p"
    and "2 * z + 1 = ((2 * a) XOR (2 * b + 1)) + 2 * p"
    and "2 * z = ((2 * a + 1) XOR (2 * b + 1)) + 2 * p"
  unfolding xor_int_double using assms by simp_all

lemmas double_numeral = numeral_Bit0_eq_double numeral_Bit1_eq_inc_double

lemma numeral_xorn:
  "digits m = digits n \<Longrightarrow>
   (numeral (xorn m n) :: int) = (numeral m XOR numeral n) + 2 ^ digits n"
proof (induction m n rule: xorn.induct)
  case (1 m n)
  then have "(numeral (xorn m n) :: int) = (numeral m XOR numeral n) + 2 ^ digits n"
    by simp
  from xorn_arith(1) [OF this] show ?case
    by (simp only: xorn.simps digits.simps power_Suc double_numeral [of m] double_numeral [of n]
      double_numeral [of "xorn m n"])
next
  case (2 m n)
  then have "(numeral (xorn m n) :: int) = (numeral m XOR numeral n) + 2 ^ digits n"
    by simp
  from xorn_arith(3) [OF this] show ?case
    by (simp only: xorn.simps digits.simps power_Suc double_numeral [of m] double_numeral [of n]
      double_numeral [of "xorn m n"])
next
  case (3 m n)
  then have "(numeral (xorn m n) :: int) = (numeral m XOR numeral n) + 2 ^ digits n"
    by simp
  from xorn_arith(2) [OF this] show ?case
    by (simp only: xorn.simps digits.simps power_Suc double_numeral [of m] double_numeral [of n]
      double_numeral [of "xorn m n"])
next
  case (4 m n)
  then have "(numeral (xorn m n) :: int) = (numeral m XOR numeral n) + 2 ^ digits n"
    by simp
  from xorn_arith(4) [OF this] show ?case
    by (simp only: xorn.simps digits.simps power_Suc double_numeral [of m] double_numeral [of n]
      double_numeral [of "xorn m n"])
next
  case (5 n)
  then show ?case by (cases n) auto
qed auto

definition num32 :: "num \<Rightarrow> u32" where
  "num32 n = numeral n"

lemma num32_int: "num32 n = word_of_int (numeral n)"
  by (simp add: num32_def)

lemma num32_xorn:
  assumes "digits m = 32" and "digits n = 32"
  shows "num32 (xorn m n) = num32 m XOR num32 n"
proof -
  have "num32 (xorn m n) = word_of_int ((numeral m XOR numeral n) + 2 ^ 32)"
    using assms by (simp only: num32_int numeral_xorn)
  also have "\<dots> = word_of_int (numeral m XOR numeral n) + word_of_int (2 ^ 32)"
    by (simp only: wi_hom_add)
  also have "word_of_int (2 ^ 32) = (0 :: u32)"
    by simp
  finally have "num32 (xorn m n) = word_of_int (numeral m XOR numeral n)"
    by simp
  also have "\<dots> = word_of_int (numeral m) XOR word_of_int (numeral n)"
    by (rule word_of_int_xor)
  finally show ?thesis by (simp only: num32_int)
qed

text \<open>Application of a matrix of numerals, the square of a matrix, and powers by squaring.\<close>

definition zero32 :: num where
  "zero32 = (num.Bit0 ^^ 32) num.One"

fun linn :: "num list \<Rightarrow> num \<Rightarrow> num" where
  "linn (c # cs) num.One = c"
| "linn (c # cs) (num.Bit0 n) = linn cs n"
| "linn (c # cs) (num.Bit1 n) = xorn c (linn cs n)"
| "linn [] n = zero32"

fun powm :: "num list \<Rightarrow> num \<Rightarrow> num list \<Rightarrow> num list" where
  "powm cs num.One vs = map (linn cs) vs"
| "powm cs (num.Bit0 e) vs = powm (map (linn cs) cs) e vs"
| "powm cs (num.Bit1 e) vs = powm (map (linn cs) cs) e (map (linn cs) vs)"

lemma digits_shift: "digits ((num.Bit0 ^^ k) num.One) = k"
  by (induction k) auto

lemma numeral_shift: "(numeral ((num.Bit0 ^^ k) num.One) :: int) = 2 ^ k"
proof (induction k)
  case (Suc k)
  then show ?case
    using numeral_Bit0_eq_double [of "(num.Bit0 ^^ k) num.One", where ?'a = int] by simp
qed simp

lemma digits_zero32 [simp]: "digits zero32 = 32"
  unfolding zero32_def by (rule digits_shift)

lemma num32_zero32 [simp]: "num32 zero32 = 0"
proof -
  have "num32 zero32 = word_of_int (2 ^ 32)"
    unfolding num32_int zero32_def by (rule arg_cong [OF numeral_shift])
  then show ?thesis by simp
qed

definition full :: "num list \<Rightarrow> bool" where
  "full cs \<longleftrightarrow> list_all (\<lambda>c. digits c = 32) cs"

lemma full_simps [simp]:
  "full []"
  "full (c # cs) \<longleftrightarrow> digits c = 32 \<and> full cs"
  by (simp_all add: full_def)

lemma digits_linn: "full cs \<Longrightarrow> digits (linn cs n) = 32"
  by (induction cs n rule: linn.induct) (auto simp: digits_xorn)

lemma num32_linn: "full cs \<Longrightarrow> num32 (linn cs n) = lini (map num32 cs) (numeral n)"
proof (induction cs n rule: linn.induct)
  case (1 c cs)
  have "lini ds 0 = 0" for ds
    by (induction ds) auto
  then show ?case by simp
next
  case (3 c cs n)
  then show ?case by (simp add: num32_xorn digits_linn)
qed simp_all

lemma full_map_linn: "full cs \<Longrightarrow> full (map (linn cs) ds)"
  by (induction ds) (auto simp: digits_linn)

text \<open>\<open>represents cs f\<close>: the numerals \<open>cs\<close> are the matrix of the linear map \<open>f\<close>.\<close>

definition represents :: "num list \<Rightarrow> (u32 \<Rightarrow> u32) \<Rightarrow> bool" where
  "represents cs f \<longleftrightarrow> linear32 f \<and> full cs \<and> map num32 cs = cols f"

lemma represents_linn:
  assumes "represents cs f"
  shows "num32 (linn cs n) = f (num32 n)"
  using assms unfolding represents_def
  by (simp only: num32_linn lini_cols num32_int [of n])

lemma represents_square:
  assumes "represents cs f"
  shows "represents (map (linn cs) cs) (f ^^ 2)"
proof -
  have "map num32 (map (linn cs) cs) = map f (map num32 cs)"
    using assms by (simp add: represents_linn)
  also have "\<dots> = cols (f \<circ> f)"
    using assms by (simp add: represents_def cols_comp)
  finally show ?thesis
    using assms by (simp add: represents_def full_map_linn linear32_comp numeral_2_eq_2)
qed

lemma map_num32_powm:
  "represents cs f \<Longrightarrow> map num32 (powm cs e vs) = map (\<lambda>v. (f ^^ numeral e) (num32 v)) vs"
proof (induction cs e vs arbitrary: f rule: powm.induct)
  case (1 cs vs)
  then show ?case by (simp add: represents_linn)
next
  case (2 cs e vs)
  then have "map num32 (powm cs (num.Bit0 e) vs) = map (\<lambda>v. ((f ^^ 2) ^^ numeral e) (num32 v)) vs"
    by (simp add: represents_square)
  then show ?case
    by (simp only: funpow_mult_apply [symmetric] numeral_Bit0_eq_double [of e])
next
  case (3 cs e vs)
  have "map num32 (powm cs (num.Bit1 e) vs) =
      map (\<lambda>v. ((f ^^ 2) ^^ numeral e) ((f ^^ 1) (num32 v))) vs"
    using "3.IH" [OF represents_square [OF "3.prems"]] "3.prems"
    by (simp add: comp_def represents_linn)
  then show ?case
    by (simp only: funpow_mult_apply [symmetric] funpow_add_apply [symmetric]
        numeral_Bit1_eq_inc_double [of e])
qed

lemma num32_powm:
  "represents cs f \<Longrightarrow> powm cs e [v] = [w] \<Longrightarrow> (f ^^ numeral e) (num32 v) = num32 w"
  using map_num32_powm [of cs f e "[v]"] by simp

lemma zero32_eq: "zero32 = num.Bit0 (num.Bit0 (num.Bit0 (num.Bit0 (num.Bit0 (num.Bit0 (num.Bit0
  (num.Bit0 (num.Bit0 (num.Bit0 (num.Bit0 (num.Bit0 (num.Bit0 (num.Bit0 (num.Bit0 (num.Bit0
  (num.Bit0 (num.Bit0 (num.Bit0 (num.Bit0 (num.Bit0 (num.Bit0 (num.Bit0 (num.Bit0 (num.Bit0
  (num.Bit0 (num.Bit0 (num.Bit0 (num.Bit0 (num.Bit0 (num.Bit0 (num.Bit0 num.One)))))))))))))))))))))))))))))))"
  by (simp add: zero32_def eval_nat_numeral)

lemmas matrix_eval = list.map powm.simps linn.simps xorn.simps zero32_eq

end
