(* ===== verification/Rng.thy ===== *)
theory Rng
  imports Linear32
begin

text \<open>
  The random number generation of the accelerator: the output functions of
  \<open>src/lv_sou/sou_function.h\<close> (PCG output permutation, additive stream selection, the
  xorshift step) and the leap-frog generator kernel \<open>src/irsgu/irsgu.cpp\<close> with the constants of
  \<open>init_state.h\<close>.
\<close>

section \<open>Output functions (sou\_function.h)\<close>

definition RNG_A :: u64 where "RNG_A = 0x5851f42d4c957f2d"
definition RNG_INC :: u64 where "RNG_INC = 0x000000000000006d"
definition RNG_INC_SEEKED :: u64 where "RNG_INC_SEEKED = 0x219b40fff5054705"
definition RNG_A_SEEKED :: u64 where "RNG_A_SEEKED = 0x5b5fee90a1001dcd"

definition multi_stream :: "u64 \<Rightarrow> u64 \<Rightarrow> u64" where
  "multi_stream state seq = state + ((RNG_A * push_bit 1 seq) OR 1)"

definition output_function :: "u64 \<Rightarrow> u32" where
  "output_function oldstate =
     (let xorshifted = (ucast (drop_bit 27 (drop_bit 18 oldstate XOR oldstate)) :: u32);
          rot = (ucast (drop_bit 59 oldstate) :: u32)
      in drop_bit (unat rot) xorshifted OR push_bit (unat ((- rot) AND 31)) xorshifted)"

definition pcg_output_xsh_rs_64_32 :: "u64 \<Rightarrow> u32" where
  "pcg_output_xsh_rs_64_32 state =
     ucast (drop_bit (unat (drop_bit 61 state + 22)) (drop_bit 22 state XOR state))"

definition xorshiftjump :: "u32 \<Rightarrow> u32" where
  "xorshiftjump s =
     (let y = s;
          y = y XOR push_bit 13 y;
          y = y XOR drop_bit 17 y;
          y = y XOR push_bit 5 y
      in y)"

subsection \<open>The xorshift step is linear\<close>

lemma linear32_xorshiftjump: "linear32 xorshiftjump"
  by (simp add: linear32_def xorshiftjump_def Let_def push_bit_xor drop_bit_xor ac_simps
      xor.left_commute)

subsection \<open>The PCG output is a rotation\<close>

lemma unat_drop_59: "unat (drop_bit 59 (s :: u64)) < 32"
proof -
  have "unat (drop_bit 59 s) = unat s div 2 ^ 59"
    by (simp only: unat_drop_bit_eq) (rule drop_bit_eq_div)
  also have "\<dots> < 32"
    using unat_less_64 [of s] by (intro less_mult_imp_div_less) simp
  finally show ?thesis .
qed

lemma unat_ucast_drop_59: "unat (ucast (drop_bit 59 (s :: u64)) :: u32) = unat (drop_bit 59 s)"
proof -
  have "unat (drop_bit 59 s) < 2 ^ 32"
    using unat_drop_59 [of s] by (rule less_trans) simp
  then show ?thesis
    by (simp only: unsigned_ucast_eq take_bit_nat_eq_self len_num1 len_bit0 mult_1_right)
       (simp add: take_bit_nat_eq_self)
qed

lemma len32: "LENGTH(32) = 32"
  by simp

lemma unat_uminus: "unat (- r :: u32) = (2 ^ 32 - unat r) mod 2 ^ 32"
proof (cases "r = 0")
  case False
  then have "0 < unat r"
    by (simp add: unat_gt_0)
  moreover have "unat (0 - r) = (if unat r \<le> 0 then 0 - unat r else 0 + 2 ^ 32 - unat r)"
    using unat_sub_if_size [of 0 r] by (simp only: word_size unat_0 word_le_nat_alt len32)
  ultimately show ?thesis
    using unat_less_32 [of r] by simp
qed simp

lemma neg_and_31:
  assumes "unat (r :: u32) < 32"
  shows "unat ((- r) AND 31) = (32 - unat r) mod 32"
proof -
  have m: "(31 :: u32) = mask 5"
    by (simp add: mask_eq_exp_minus_1)
  have "unat ((- r) AND 31) = unat (- r) mod 2 ^ 5"
    by (simp only: m take_bit_eq_mask [symmetric] unsigned_take_bit_eq take_bit_nat_def)
  also have "\<dots> = (2 ^ 32 - unat r) mod 32"
    by (simp add: unat_uminus mod_mod_cancel)
  also have "\<dots> = (32 - unat r) mod 32"
  proof -
    have "(2 ^ 32 - unat r :: nat) = (32 - unat r) + 32 * 134217727"
      using assms by simp
    then show ?thesis
      by (simp only: mod_mult_self2)
  qed
  finally show ?thesis .
qed

lemma shift_or_rotate:
  assumes "k < 32"
  shows "drop_bit k (x :: u32) OR push_bit ((32 - k) mod 32) x = word_rotr k x"
proof (cases "k = 0")
  case True
  then show ?thesis
    by (auto intro!: bit_word_eqI simp: bit_word_rotr_iff bit_imp_le_length)
next
  case False
  show ?thesis
  proof (rule bit_word_eqI)
    fix n :: nat
    assume n: "n < LENGTH(32)"
    have p: "(32 - k) mod 32 = 32 - k"
      using False assms by simp
    show "bit (drop_bit k x OR push_bit ((32 - k) mod 32) x) n = bit (word_rotr k x) n"
    proof (cases "n + k < 32")
      case True
      then have "\<not> 32 - k \<le> n" by simp
      with True show ?thesis
        using n p by (simp add: bit_word_rotr_iff bit_or_iff bit_drop_bit_eq bit_push_bit_iff add.commute)
    next
      case ge: False
      then have "(n + k) mod 32 = n - (32 - k)"
        using n assms by (simp add: le_mod_geq)
      moreover have "\<not> bit x (k + n)" and "32 - k \<le> n"
        using ge by (auto dest: bit_imp_le_length)
      ultimately show ?thesis
        using n p ge assms
        by (simp add: bit_word_rotr_iff bit_or_iff bit_drop_bit_eq bit_push_bit_iff)
    qed
  qed
qed

theorem output_function_rotates:
  "output_function s =
     word_rotr (unat (drop_bit 59 s)) (ucast (drop_bit 27 (drop_bit 18 s XOR s)) :: u32)"
  unfolding output_function_def Let_def
  by (simp only: neg_and_31 shift_or_rotate unat_drop_59 unat_ucast_drop_59)

section \<open>The leap-frog generator kernel (irsgu.cpp)\<close>

text \<open>
  Nine copies of \<open>ssrng_update\<close> each step the generator nine positions at a time, starting from
  nine consecutive states; \<open>ssrng_merge\<close> interleaves them.  The kernel is a dataflow region:
  every function is a process, and the streams \<open>s[i]\<close> between them hold at most two values.
\<close>

definition BREAK_NUM :: nat where "BREAK_NUM = 9"

definition init_state_array :: "u64 list" where
  "init_state_array =
     [0x185706b82c2e03f8, 0x2b47fed88766bb05, 0x8b33296d19bf5b4e, 0xf7079824c154bf23,
      0xebbf9e97aa16f694, 0x8303569fbe80c471, 0xbeb6d0b73fdb974a, 0xed81149f2fb94e6f,
      0x0730f84eec16daf0]"

text \<open>One iteration of the loop of \<open>ssrng_update\<close>: the new state and the value written.\<close>

definition ssrng_update_step :: "u64 \<Rightarrow> u64 \<times> u64" where
  "ssrng_update_step state =
     (let oldstate = state; state = oldstate * RNG_A_SEEKED + RNG_INC_SEEKED; v = oldstate
      in (state, v))"

record irsgu_state =
  rs_state :: "u64 list"
  rs_s :: "u64 stream list"
  rs_out :: "u64 stream"

definition irsgu_init :: irsgu_state where
  "irsgu_init = \<lparr>rs_state = init_state_array, rs_s = replicate BREAK_NUM [], rs_out = []\<rparr>"

definition ssrng_update :: "nat \<Rightarrow> irsgu_state \<Rightarrow> irsgu_state" where
  "ssrng_update i s =
     (let (state, v) = ssrng_update_step (rs_state s ! i)
      in s\<lparr>rs_state := (rs_state s)[i := state], rs_s := (rs_s s)[i := rs_s s ! i @ [v]]\<rparr>)"

definition ssrng_merge :: "irsgu_state \<Rightarrow> irsgu_state" where
  "ssrng_merge s = s\<lparr>rs_s := map tl (rs_s s), rs_out := rs_out s @ map hd (rs_s s)\<rparr>"

text \<open>
  The processes run concurrently: any enabled one may take the next step.  A write to a full
  stream and a read from an empty one block.
\<close>

inductive irsgu_step :: "irsgu_state \<Rightarrow> irsgu_state \<Rightarrow> bool" where
  update: "i < BREAK_NUM \<Longrightarrow> length (rs_s s ! i) < 2 \<Longrightarrow> irsgu_step s (ssrng_update i s)"
| merge: "\<forall>q \<in> set (rs_s s). q \<noteq> [] \<Longrightarrow> irsgu_step s (ssrng_merge s)"

inductive_cases irsgu_stepE: "irsgu_step s t"

inductive irsgu_reachable :: "irsgu_state \<Rightarrow> bool" where
  init: "irsgu_reachable irsgu_init"
| step: "irsgu_reachable s \<Longrightarrow> irsgu_step s t \<Longrightarrow> irsgu_reachable t"

subsection \<open>The sequential reference generator\<close>

definition lcg :: "u64 \<Rightarrow> u64" where
  "lcg x = x * RNG_A + RNG_INC"

definition lcg_seq :: "nat \<Rightarrow> u64" where
  "lcg_seq k = (lcg ^^ k) (init_state_array ! 0)"

lemma lcg_seq_Suc: "lcg_seq (Suc k) = lcg (lcg_seq k)"
  by (simp add: lcg_seq_def)

lemma lcg_funpow: "(lcg ^^ n) x = x * RNG_A ^ n + RNG_INC * (\<Sum>i<n. RNG_A ^ i)"
proof (induction n)
  case (Suc n)
  have "(\<Sum>i<Suc n. RNG_A ^ i) = 1 + RNG_A * (\<Sum>i<n. RNG_A ^ i)"
    by (simp only: sum.lessThan_Suc_shift sum_distrib_left power_Suc power_0)
  with Suc show ?case
    by (simp only: funpow.simps comp_def lcg_def power_Suc) (simp add: algebra_simps)
qed simp

lemma nine: "(9 :: nat) = Suc (Suc (Suc (Suc (Suc (Suc (Suc (Suc (Suc 0))))))))"
  by simp

lemma RNG_A_SEEKED_eq: "RNG_A_SEEKED = RNG_A ^ 9"
  by (simp add: RNG_A_def RNG_A_SEEKED_def)

lemma RNG_INC_SEEKED_eq: "RNG_INC_SEEKED = RNG_INC * (\<Sum>i<9. RNG_A ^ i)"
  unfolding nine sum.lessThan_Suc
  by (simp add: RNG_A_def RNG_INC_def RNG_INC_SEEKED_def)

lemma ssrng_update_leaps: "fst (ssrng_update_step x) = (lcg ^^ 9) x"
  by (simp add: ssrng_update_step_def lcg_funpow RNG_A_SEEKED_eq RNG_INC_SEEKED_eq)

lemma ssrng_update_step_seq:
  "ssrng_update_step (lcg_seq k) = (lcg_seq (k + 9), lcg_seq k)"
proof -
  have "fst (ssrng_update_step (lcg_seq k)) = lcg_seq (k + 9)"
    by (simp only: ssrng_update_leaps lcg_seq_def) (simp only: add.commute [of k] funpow_add_apply)
  moreover have "snd (ssrng_update_step x) = x" for x
    by (simp add: ssrng_update_step_def Let_def)
  ultimately show ?thesis
    by (simp add: prod_eq_iff)
qed

lemma init_state_seq:
  assumes "i < 9"
  shows "init_state_array ! i = lcg_seq i"
proof -
  have "init_state_array ! Suc j = lcg (init_state_array ! j)" if "j < 8" for j
  proof -
    from that have "j = 0 \<or> j = 1 \<or> j = 2 \<or> j = 3 \<or> j = 4 \<or> j = 5 \<or> j = 6 \<or> j = 7"
      by arith
    then show ?thesis
      by (elim disjE) (simp_all add: init_state_array_def lcg_def RNG_A_def RNG_INC_def)
  qed
  with assms show ?thesis
    by (induction i) (simp_all add: lcg_seq_Suc, simp add: lcg_seq_def)
qed

subsection \<open>Invariant of the dataflow region\<close>

text \<open>
  With \<open>m\<close> rounds merged, stream \<open>i\<close> holds the outputs \<open>m .. n-1\<close> of instance \<open>i\<close>, which are
  the elements \<open>9 * j + i\<close> of the sequential generator, and the instance is at output \<open>n\<close>.
\<close>

definition irsgu_inv :: "nat \<Rightarrow> irsgu_state \<Rightarrow> bool" where
  "irsgu_inv m s \<longleftrightarrow>
     length (rs_state s) = 9 \<and> length (rs_s s) = 9 \<and> rs_out s = map lcg_seq [0..<9 * m] \<and>
     (\<forall>i<9. \<exists>n. m \<le> n \<and> n \<le> m + 2 \<and> rs_state s ! i = lcg_seq (9 * n + i) \<and>
        rs_s s ! i = map (\<lambda>j. lcg_seq (9 * j + i)) [m..<n])"

lemma irsgu_inv_init: "irsgu_inv 0 irsgu_init"
  using init_state_seq by (simp add: irsgu_inv_def irsgu_init_def BREAK_NUM_def init_state_array_def)

lemma irsgu_inv_update:
  assumes inv: "irsgu_inv m s" and i: "i < 9" and room: "length (rs_s s ! i) < 2"
  shows "irsgu_inv m (ssrng_update i s)"
proof -
  from inv i obtain n where n: "m \<le> n" "rs_state s ! i = lcg_seq (9 * n + i)"
    "rs_s s ! i = map (\<lambda>j. lcg_seq (9 * j + i)) [m..<n]"
    unfolding irsgu_inv_def by blast
  with room have "n < m + 2" by simp
  have "\<exists>n'. m \<le> n' \<and> n' \<le> m + 2 \<and> rs_state (ssrng_update i s) ! k = lcg_seq (9 * n' + k) \<and>
        rs_s (ssrng_update i s) ! k = map (\<lambda>j. lcg_seq (9 * j + k)) [m..<n']" if k: "k < 9" for k
  proof (cases "k = i")
    case True
    have e: "9 * n + i + 9 = 9 * Suc n + i" by simp
    from True n \<open>n < m + 2\<close> inv i show ?thesis
      by (intro exI [of _ "Suc n"])
         (simp only: ssrng_update_def ssrng_update_step_seq irsgu_inv_def e, simp)
  next
    case False
    with inv k show ?thesis
      by (simp add: irsgu_inv_def ssrng_update_def split: prod.split)
  qed
  with inv show ?thesis
    by (simp add: irsgu_inv_def ssrng_update_def split: prod.splits)
qed

lemma irsgu_inv_merge:
  assumes inv: "irsgu_inv m s" and ready: "\<forall>q \<in> set (rs_s s). q \<noteq> []"
  shows "irsgu_inv (Suc m) (ssrng_merge s)"
proof -
  have len: "length (rs_s s) = 9"
    using inv by (simp add: irsgu_inv_def)
  have q: "\<exists>n. m < n \<and> n \<le> m + 2 \<and> rs_state s ! i = lcg_seq (9 * n + i) \<and>
        rs_s s ! i = map (\<lambda>j. lcg_seq (9 * j + i)) [m..<n]" if i: "i < 9" for i
  proof -
    from inv i obtain n where "m \<le> n" "n \<le> m + 2" "rs_state s ! i = lcg_seq (9 * n + i)"
      and q: "rs_s s ! i = map (\<lambda>j. lcg_seq (9 * j + i)) [m..<n]"
      unfolding irsgu_inv_def by blast
    moreover have "rs_s s ! i \<noteq> []"
      using ready len i by simp
    ultimately show ?thesis
      using q by (intro exI [of _ n]) auto
  qed
  have hds: "map hd (rs_s s) = map lcg_seq [9 * m..<9 * m + 9]"
  proof (rule nth_equalityI)
    fix i assume "i < length (map hd (rs_s s))"
    with len q [of i] show "map hd (rs_s s) ! i = map lcg_seq [9 * m..<9 * m + 9] ! i"
      by (auto simp: hd_map)
  qed (simp add: len)
  have "\<exists>n. Suc m \<le> n \<and> n \<le> Suc m + 2 \<and> rs_state s ! i = lcg_seq (9 * n + i) \<and>
        map tl (rs_s s) ! i = map (\<lambda>j. lcg_seq (9 * j + i)) [Suc m..<n]" if i: "i < 9" for i
  proof -
    from q [OF i] obtain n where "m < n" "n \<le> m + 2" "rs_state s ! i = lcg_seq (9 * n + i)"
      "rs_s s ! i = map (\<lambda>j. lcg_seq (9 * j + i)) [m..<n]" by blast
    then show ?thesis
      using len i by (intro exI [of _ n]) (simp add: map_tl [symmetric] tl_upt)
  qed
  with inv hds show ?thesis
    unfolding irsgu_inv_def upt_mult_Suc [of 9 m] map_append by (simp add: ssrng_merge_def)
qed

lemma irsgu_reachable_inv: "irsgu_reachable s \<Longrightarrow> \<exists>m. irsgu_inv m s"
proof (induction rule: irsgu_reachable.induct)
  case init
  then show ?case using irsgu_inv_init by blast
next
  case (step s t)
  then show ?case
    by (auto elim!: irsgu_stepE simp: BREAK_NUM_def dest: irsgu_inv_update irsgu_inv_merge)
qed

subsection \<open>Progress\<close>

definition queued :: "irsgu_state \<Rightarrow> nat" where
  "queued s = sum_list (map length (rs_s s))"

lemma irsgu_progress:
  assumes "irsgu_reachable s"
  shows "\<exists>t. irsgu_step s t"
proof (cases "\<forall>q \<in> set (rs_s s). q \<noteq> []")
  case True
  then show ?thesis by (blast intro: irsgu_step.merge)
next
  case False
  from irsgu_reachable_inv [OF assms] obtain m where "length (rs_s s) = 9"
    by (auto simp: irsgu_inv_def)
  with False obtain i where "i < 9" "rs_s s ! i = []"
    by (auto simp: in_set_conv_nth)
  then show ?thesis
    by (intro exI) (rule irsgu_step.update, auto simp: BREAK_NUM_def)
qed

lemma sum_list_update_length:
  "i < length qs \<Longrightarrow> sum_list (map length (qs[i := qs ! i @ [v]])) = Suc (sum_list (map length qs))"
proof (induction qs arbitrary: i)
  case (Cons q qs)
  then show ?case by (cases i) auto
qed simp

lemma sum_list_length_bound:
  "\<forall>q \<in> set qs. length q \<le> k \<Longrightarrow> sum_list (map length qs) \<le> k * length qs"
  by (induction qs) auto

lemma queued_bound:
  assumes "irsgu_inv m s"
  shows "queued s \<le> 18"
proof -
  have "\<forall>q \<in> set (rs_s s). length q \<le> 2"
    using assms by (fastforce simp: irsgu_inv_def in_set_conv_nth)
  from sum_list_length_bound [OF this] assms show ?thesis
    by (simp add: queued_def irsgu_inv_def)
qed

text \<open>
  C17: the kernel \<open>irsgu\<close>, nine leap-frogging generators merged in turn, emits in every reachable
  state of its dataflow region exactly a prefix of the output of the sequential generator
  \<open>x := x * RNG_A + RNG_INC\<close> started at \<open>INIT_STATE_0\<close>, whatever the order in which its processes run.
\<close>

theorem irsgu_emits_sequential_lcg:
  assumes "irsgu_reachable s"
  shows "rs_out s = map (\<lambda>k. ((\<lambda>x. x * RNG_A + RNG_INC) ^^ k) (init_state_array ! 0)) [0..<length (rs_out s)]"
proof -
  obtain m where "irsgu_inv m s"
    using irsgu_reachable_inv [OF assms] by blast
  then have out: "rs_out s = map lcg_seq [0..<9 * m]"
    by (simp add: irsgu_inv_def)
  then have "length (rs_out s) = 9 * m"
    by simp
  with out show ?thesis
    by (simp add: lcg_seq_def lcg_def [abs_def])
qed

text \<open>\<open>irsgu_run n s t\<close>: \<open>t\<close> is reached from \<open>s\<close> in exactly \<open>n\<close> process iterations.\<close>

inductive irsgu_run :: "nat \<Rightarrow> irsgu_state \<Rightarrow> irsgu_state \<Rightarrow> bool" where
  none: "irsgu_run 0 s s"
| more: "irsgu_run n s t \<Longrightarrow> irsgu_step t u \<Longrightarrow> irsgu_run (Suc n) s u"

lemma queued_update:
  assumes "irsgu_inv m s" and "i < 9"
  shows "queued (ssrng_update i s) = Suc (queued s)"
  using assms sum_list_update_length [of i "rs_s s"]
  by (simp add: queued_def ssrng_update_def irsgu_inv_def split: prod.split)

lemma length_out_update: "rs_out (ssrng_update i s) = rs_out s"
  by (simp add: ssrng_update_def split: prod.split)

text \<open>
  A step either queues one more value (at most eighteen fit) or emits nine; so the work done
  after \<open>n\<close> steps is bounded below by the output and what is queued.
\<close>

lemma irsgu_run_work:
  "irsgu_run n s t \<Longrightarrow> irsgu_reachable s \<Longrightarrow>
     irsgu_reachable t \<and> n + queued s + 2 * length (rs_out s) \<le> queued t + 2 * length (rs_out t)"
proof (induction rule: irsgu_run.induct)
  case (more n s t u)
  then have "irsgu_reachable t" by blast
  then obtain m where inv: "irsgu_inv m t"
    using irsgu_reachable_inv by blast
  from \<open>irsgu_reachable t\<close> more.hyps have reach: "irsgu_reachable u"
    by (blast intro: irsgu_reachable.step)
  from \<open>irsgu_step t u\<close> show ?case
  proof (rule irsgu_stepE)
    fix i assume u: "u = ssrng_update i t" and "i < BREAK_NUM"
    then have "queued u = Suc (queued t)" and "rs_out u = rs_out t"
      using queued_update [OF inv] by (simp_all add: BREAK_NUM_def length_out_update)
    with more reach show ?thesis by simp
  next
    assume u: "u = ssrng_merge t" and ready: "\<forall>q\<in>set (rs_s t). q \<noteq> []"
    have "sum_list (map length qs) = sum_list (map length (map tl qs)) + length qs"
      if "\<forall>q\<in>set qs. q \<noteq> []" for qs :: "u64 stream list"
      using that by (induction qs) auto
    from this [OF ready] u inv have "queued t = queued u + 9" and "length (rs_out u) = length (rs_out t) + 9"
      by (simp_all add: queued_def ssrng_merge_def irsgu_inv_def)
    with more reach show ?thesis by simp
  qed
qed simp

text \<open>
  C26: the generator never stalls: some process of the region can always take a step, and any
  nineteen consecutive steps emit at least nine further outputs, so the output is unbounded.
\<close>

theorem irsgu_live:
  assumes "irsgu_reachable s"
  shows "(\<exists>t. irsgu_step s t) \<and> (\<forall>t. irsgu_run 19 s t \<longrightarrow> length (rs_out s) + 9 \<le> length (rs_out t))"
proof (intro conjI allI impI)
  show "\<exists>t. irsgu_step s t"
    using assms by (rule irsgu_progress)
  fix t assume "irsgu_run 19 s t"
  from irsgu_run_work [OF this assms] have t: "irsgu_reachable t"
    and le: "19 + queued s + 2 * length (rs_out s) \<le> queued t + 2 * length (rs_out t)"
    by simp_all
  obtain m k where inv: "irsgu_inv m t" and "irsgu_inv k s"
    using irsgu_reachable_inv [OF t] irsgu_reachable_inv [OF assms] by blast
  then have "length (rs_out t) = 9 * m" and "length (rs_out s) = 9 * k"
    by (simp_all add: irsgu_inv_def)
  moreover have "queued t \<le> 18"
    using inv by (rule queued_bound)
  ultimately show "length (rs_out s) + 9 \<le> length (rs_out t)"
    using le by simp presburger
qed

lemma irsgu_runs: "irsgu_reachable s \<Longrightarrow> \<exists>t. irsgu_run n s t \<and> irsgu_reachable t"
proof (induction n)
  case (Suc n)
  then obtain t where t: "irsgu_run n s t" "irsgu_reachable t" by blast
  from irsgu_progress [OF t(2)] obtain u where "irsgu_step t u" ..
  with t show ?case by (blast intro: irsgu_run.more irsgu_reachable.step)
qed (blast intro: irsgu_run.none)

theorem irsgu_live_witness: "\<exists>t. irsgu_run 19 irsgu_init t \<and> 9 \<le> length (rs_out t)"
proof -
  obtain t where t: "irsgu_run 19 irsgu_init t" using irsgu_runs [OF irsgu_reachable.init] by blast
  from irsgu_live [OF irsgu_reachable.init] t have "length (rs_out irsgu_init) + 9 \<le> length (rs_out t)" by blast
  with t show ?thesis by auto
qed

theorem irsgu_emits_sequential_lcg_witness:
  "\<exists>t. irsgu_reachable t \<and> 2 \<le> length (rs_out t) \<and> rs_out t ! 0 = init_state_array ! 0 \<and>
     rs_out t ! 1 = init_state_array ! 0 * RNG_A + RNG_INC"
proof -
  obtain t where t: "irsgu_run 21 irsgu_init t" "irsgu_reachable t" using irsgu_runs [OF irsgu_reachable.init] by blast
  obtain m where "irsgu_inv m t" using irsgu_reachable_inv [OF t(2)] by blast
  then have "queued t \<le> 18" by (rule queued_bound)
  with irsgu_run_work [OF t(1) irsgu_reachable.init] have len: "2 \<le> length (rs_out t)" by simp
  from irsgu_emits_sequential_lcg [OF t(2)]
  have "rs_out t ! k = ((\<lambda>x. x * RNG_A + RNG_INC) ^^ k) (init_state_array ! 0)" if "k < length (rs_out t)" for k
    using that by (metis (no_types, lifting) add_0 nth_map nth_upt length_map length_upt diff_zero)
  moreover have "0 < length (rs_out t)" "1 < length (rs_out t)" using len by linarith+
  ultimately have "rs_out t ! 0 = init_state_array ! 0" "rs_out t ! 1 = init_state_array ! 0 * RNG_A + RNG_INC" by force+
  with len t(2) show ?thesis by blast
qed


end
