(* ===== verification/Xor32_Jump.thy ===== *)
theory Xor32_Jump
  imports Xor32_Table Rng
begin

text \<open>
  The streams of the per-pipeline xorshift generators do not overlap.  Facts decided here by
  matrix powers over GF(2): the xorshift step has period \<open>2 ^ 32 - 1\<close> on the first seed, and every
  entry of the seed table is the previous one advanced by 1048573 steps (the comment in
  \<open>xor32s.h\<close> says 1048576).
\<close>

fun bits_num :: "nat \<Rightarrow> int \<Rightarrow> num" where
  "bits_num 0 n = num.One"
| "bits_num (Suc k) n = (if odd n then num.Bit1 (bits_num k (n div 2)) else num.Bit0 (bits_num k (n div 2)))"

definition sent :: "int \<Rightarrow> num" where
  "sent n = bits_num 32 n"

text \<open>The matrix of the xorshift step and of its 1048573rd power.\<close>

definition step_matrix :: "num list" where
  "step_matrix = map sent
    [0x00042021, 0x00084042, 0x00108084, 0x00210108, 0x00420231, 0x00840462,
     0x010808c4, 0x02101188, 0x04202310, 0x08404620, 0x10808c40, 0x21011880,
     0x42023100, 0x84046200, 0x0808c400, 0x10118800, 0x20231000, 0x40462021,
     0x808c4042, 0x01080084, 0x02100108, 0x04200210, 0x08400420, 0x10800840,
     0x21001080, 0x42002100, 0x84004200, 0x08008400, 0x10010800, 0x20021000,
     0x40042000, 0x80084000]"

definition jump_matrix :: "num list" where
  "jump_matrix = map sent
    [0x82873389, 0xe75c0231, 0x54f449e1, 0xc63b1bfd, 0xc1953abd, 0xa46346f3,
     0xcf45d0b0, 0x7e08ccc4, 0x046e7561, 0xf0912919, 0x20e7e514, 0xf7efc07f,
     0xffbc0701, 0x81d2e437, 0xe36edebc, 0xb01b12f9, 0x752aa204, 0x4edea6b0,
     0x5d048eff, 0x4f2f2a01, 0xfe2f7079, 0xbaa60e27, 0xe7a95232, 0xaa8caa94,
     0x825716d2, 0x28514bac, 0x9c9abcd5, 0x132c1db0, 0x563e2040, 0x72c26903,
     0x88507604, 0x246a1885]"

definition unit_matrix :: "num list" where
  "unit_matrix = map (\<lambda>i. sent (2 ^ i)) [0..<32]"

lemma bits_num_numeral:
  "bits_num (numeral k) n =
     (if odd n then num.Bit1 (bits_num (pred_numeral k) (n div 2))
      else num.Bit0 (bits_num (pred_numeral k) (n div 2)))"
  by (simp add: numeral_eq_Suc)

lemma bits_num_one:
  "bits_num (Suc 0) n = (if odd n then num.Bit1 num.One else num.Bit0 num.One)"
  by simp

lemmas sent_eval = sent_def bits_num_numeral bits_num_one

lemma step_matrix_eq: "step_matrix = [num.Bit1 (num.Bit0 (num.Bit0 (num.Bit0 (num.Bit0 (num.Bit1 (num.Bit0 (num.Bit0 (num.Bit0
     (num.Bit0 (num.Bit0 (num.Bit0 (num.Bit0 (num.Bit1 (num.Bit0 (num.Bit0 (num.Bit0 (num.Bit0
     (num.Bit1 (num.Bit0 (num.Bit0 (num.Bit0 (num.Bit0 (num.Bit0 (num.Bit0 (num.Bit0 (num.Bit0
     (num.Bit0 (num.Bit0 (num.Bit0 (num.Bit0 (num.Bit0 num.One))))))))))))))))))))))))))))))),
   num.Bit0 (num.Bit1 (num.Bit0 (num.Bit0 (num.Bit0 (num.Bit0 (num.Bit1 (num.Bit0 (num.Bit0
     (num.Bit0 (num.Bit0 (num.Bit0 (num.Bit0 (num.Bit0 (num.Bit1 (num.Bit0 (num.Bit0 (num.Bit0
     (num.Bit0 (num.Bit1 (num.Bit0 (num.Bit0 (num.Bit0 (num.Bit0 (num.Bit0 (num.Bit0 (num.Bit0
     (num.Bit0 (num.Bit0 (num.Bit0 (num.Bit0 (num.Bit0 num.One))))))))))))))))))))))))))))))),
   num.Bit0 (num.Bit0 (num.Bit1 (num.Bit0 (num.Bit0 (num.Bit0 (num.Bit0 (num.Bit1 (num.Bit0
     (num.Bit0 (num.Bit0 (num.Bit0 (num.Bit0 (num.Bit0 (num.Bit0 (num.Bit1 (num.Bit0 (num.Bit0
     (num.Bit0 (num.Bit0 (num.Bit1 (num.Bit0 (num.Bit0 (num.Bit0 (num.Bit0 (num.Bit0 (num.Bit0
     (num.Bit0 (num.Bit0 (num.Bit0 (num.Bit0 (num.Bit0 num.One))))))))))))))))))))))))))))))),
   num.Bit0 (num.Bit0 (num.Bit0 (num.Bit1 (num.Bit0 (num.Bit0 (num.Bit0 (num.Bit0 (num.Bit1
     (num.Bit0 (num.Bit0 (num.Bit0 (num.Bit0 (num.Bit0 (num.Bit0 (num.Bit0 (num.Bit1 (num.Bit0
     (num.Bit0 (num.Bit0 (num.Bit0 (num.Bit1 (num.Bit0 (num.Bit0 (num.Bit0 (num.Bit0 (num.Bit0
     (num.Bit0 (num.Bit0 (num.Bit0 (num.Bit0 (num.Bit0 num.One))))))))))))))))))))))))))))))),
   num.Bit1 (num.Bit0 (num.Bit0 (num.Bit0 (num.Bit1 (num.Bit1 (num.Bit0 (num.Bit0 (num.Bit0
     (num.Bit1 (num.Bit0 (num.Bit0 (num.Bit0 (num.Bit0 (num.Bit0 (num.Bit0 (num.Bit0 (num.Bit1
     (num.Bit0 (num.Bit0 (num.Bit0 (num.Bit0 (num.Bit1 (num.Bit0 (num.Bit0 (num.Bit0 (num.Bit0
     (num.Bit0 (num.Bit0 (num.Bit0 (num.Bit0 (num.Bit0 num.One))))))))))))))))))))))))))))))),
   num.Bit0 (num.Bit1 (num.Bit0 (num.Bit0 (num.Bit0 (num.Bit1 (num.Bit1 (num.Bit0 (num.Bit0
     (num.Bit0 (num.Bit1 (num.Bit0 (num.Bit0 (num.Bit0 (num.Bit0 (num.Bit0 (num.Bit0 (num.Bit0
     (num.Bit1 (num.Bit0 (num.Bit0 (num.Bit0 (num.Bit0 (num.Bit1 (num.Bit0 (num.Bit0 (num.Bit0
     (num.Bit0 (num.Bit0 (num.Bit0 (num.Bit0 (num.Bit0 num.One))))))))))))))))))))))))))))))),
   num.Bit0 (num.Bit0 (num.Bit1 (num.Bit0 (num.Bit0 (num.Bit0 (num.Bit1 (num.Bit1 (num.Bit0
     (num.Bit0 (num.Bit0 (num.Bit1 (num.Bit0 (num.Bit0 (num.Bit0 (num.Bit0 (num.Bit0 (num.Bit0
     (num.Bit0 (num.Bit1 (num.Bit0 (num.Bit0 (num.Bit0 (num.Bit0 (num.Bit1 (num.Bit0 (num.Bit0
     (num.Bit0 (num.Bit0 (num.Bit0 (num.Bit0 (num.Bit0 num.One))))))))))))))))))))))))))))))),
   num.Bit0 (num.Bit0 (num.Bit0 (num.Bit1 (num.Bit0 (num.Bit0 (num.Bit0 (num.Bit1 (num.Bit1
     (num.Bit0 (num.Bit0 (num.Bit0 (num.Bit1 (num.Bit0 (num.Bit0 (num.Bit0 (num.Bit0 (num.Bit0
     (num.Bit0 (num.Bit0 (num.Bit1 (num.Bit0 (num.Bit0 (num.Bit0 (num.Bit0 (num.Bit1 (num.Bit0
     (num.Bit0 (num.Bit0 (num.Bit0 (num.Bit0 (num.Bit0 num.One))))))))))))))))))))))))))))))),
   num.Bit0 (num.Bit0 (num.Bit0 (num.Bit0 (num.Bit1 (num.Bit0 (num.Bit0 (num.Bit0 (num.Bit1
     (num.Bit1 (num.Bit0 (num.Bit0 (num.Bit0 (num.Bit1 (num.Bit0 (num.Bit0 (num.Bit0 (num.Bit0
     (num.Bit0 (num.Bit0 (num.Bit0 (num.Bit1 (num.Bit0 (num.Bit0 (num.Bit0 (num.Bit0 (num.Bit1
     (num.Bit0 (num.Bit0 (num.Bit0 (num.Bit0 (num.Bit0 num.One))))))))))))))))))))))))))))))),
   num.Bit0 (num.Bit0 (num.Bit0 (num.Bit0 (num.Bit0 (num.Bit1 (num.Bit0 (num.Bit0 (num.Bit0
     (num.Bit1 (num.Bit1 (num.Bit0 (num.Bit0 (num.Bit0 (num.Bit1 (num.Bit0 (num.Bit0 (num.Bit0
     (num.Bit0 (num.Bit0 (num.Bit0 (num.Bit0 (num.Bit1 (num.Bit0 (num.Bit0 (num.Bit0 (num.Bit0
     (num.Bit1 (num.Bit0 (num.Bit0 (num.Bit0 (num.Bit0 num.One))))))))))))))))))))))))))))))),
   num.Bit0 (num.Bit0 (num.Bit0 (num.Bit0 (num.Bit0 (num.Bit0 (num.Bit1 (num.Bit0 (num.Bit0
     (num.Bit0 (num.Bit1 (num.Bit1 (num.Bit0 (num.Bit0 (num.Bit0 (num.Bit1 (num.Bit0 (num.Bit0
     (num.Bit0 (num.Bit0 (num.Bit0 (num.Bit0 (num.Bit0 (num.Bit1 (num.Bit0 (num.Bit0 (num.Bit0
     (num.Bit0 (num.Bit1 (num.Bit0 (num.Bit0 (num.Bit0 num.One))))))))))))))))))))))))))))))),
   num.Bit0 (num.Bit0 (num.Bit0 (num.Bit0 (num.Bit0 (num.Bit0 (num.Bit0 (num.Bit1 (num.Bit0
     (num.Bit0 (num.Bit0 (num.Bit1 (num.Bit1 (num.Bit0 (num.Bit0 (num.Bit0 (num.Bit1 (num.Bit0
     (num.Bit0 (num.Bit0 (num.Bit0 (num.Bit0 (num.Bit0 (num.Bit0 (num.Bit1 (num.Bit0 (num.Bit0
     (num.Bit0 (num.Bit0 (num.Bit1 (num.Bit0 (num.Bit0 num.One))))))))))))))))))))))))))))))),
   num.Bit0 (num.Bit0 (num.Bit0 (num.Bit0 (num.Bit0 (num.Bit0 (num.Bit0 (num.Bit0 (num.Bit1
     (num.Bit0 (num.Bit0 (num.Bit0 (num.Bit1 (num.Bit1 (num.Bit0 (num.Bit0 (num.Bit0 (num.Bit1
     (num.Bit0 (num.Bit0 (num.Bit0 (num.Bit0 (num.Bit0 (num.Bit0 (num.Bit0 (num.Bit1 (num.Bit0
     (num.Bit0 (num.Bit0 (num.Bit0 (num.Bit1 (num.Bit0 num.One))))))))))))))))))))))))))))))),
   num.Bit0 (num.Bit0 (num.Bit0 (num.Bit0 (num.Bit0 (num.Bit0 (num.Bit0 (num.Bit0 (num.Bit0
     (num.Bit1 (num.Bit0 (num.Bit0 (num.Bit0 (num.Bit1 (num.Bit1 (num.Bit0 (num.Bit0 (num.Bit0
     (num.Bit1 (num.Bit0 (num.Bit0 (num.Bit0 (num.Bit0 (num.Bit0 (num.Bit0 (num.Bit0 (num.Bit1
     (num.Bit0 (num.Bit0 (num.Bit0 (num.Bit0 (num.Bit1 num.One))))))))))))))))))))))))))))))),
   num.Bit0 (num.Bit0 (num.Bit0 (num.Bit0 (num.Bit0 (num.Bit0 (num.Bit0 (num.Bit0 (num.Bit0
     (num.Bit0 (num.Bit1 (num.Bit0 (num.Bit0 (num.Bit0 (num.Bit1 (num.Bit1 (num.Bit0 (num.Bit0
     (num.Bit0 (num.Bit1 (num.Bit0 (num.Bit0 (num.Bit0 (num.Bit0 (num.Bit0 (num.Bit0 (num.Bit0
     (num.Bit1 (num.Bit0 (num.Bit0 (num.Bit0 (num.Bit0 num.One))))))))))))))))))))))))))))))),
   num.Bit0 (num.Bit0 (num.Bit0 (num.Bit0 (num.Bit0 (num.Bit0 (num.Bit0 (num.Bit0 (num.Bit0
     (num.Bit0 (num.Bit0 (num.Bit1 (num.Bit0 (num.Bit0 (num.Bit0 (num.Bit1 (num.Bit1 (num.Bit0
     (num.Bit0 (num.Bit0 (num.Bit1 (num.Bit0 (num.Bit0 (num.Bit0 (num.Bit0 (num.Bit0 (num.Bit0
     (num.Bit0 (num.Bit1 (num.Bit0 (num.Bit0 (num.Bit0 num.One))))))))))))))))))))))))))))))),
   num.Bit0 (num.Bit0 (num.Bit0 (num.Bit0 (num.Bit0 (num.Bit0 (num.Bit0 (num.Bit0 (num.Bit0
     (num.Bit0 (num.Bit0 (num.Bit0 (num.Bit1 (num.Bit0 (num.Bit0 (num.Bit0 (num.Bit1 (num.Bit1
     (num.Bit0 (num.Bit0 (num.Bit0 (num.Bit1 (num.Bit0 (num.Bit0 (num.Bit0 (num.Bit0 (num.Bit0
     (num.Bit0 (num.Bit0 (num.Bit1 (num.Bit0 (num.Bit0 num.One))))))))))))))))))))))))))))))),
   num.Bit1 (num.Bit0 (num.Bit0 (num.Bit0 (num.Bit0 (num.Bit1 (num.Bit0 (num.Bit0 (num.Bit0
     (num.Bit0 (num.Bit0 (num.Bit0 (num.Bit0 (num.Bit1 (num.Bit0 (num.Bit0 (num.Bit0 (num.Bit1
     (num.Bit1 (num.Bit0 (num.Bit0 (num.Bit0 (num.Bit1 (num.Bit0 (num.Bit0 (num.Bit0 (num.Bit0
     (num.Bit0 (num.Bit0 (num.Bit0 (num.Bit1 (num.Bit0 num.One))))))))))))))))))))))))))))))),
   num.Bit0 (num.Bit1 (num.Bit0 (num.Bit0 (num.Bit0 (num.Bit0 (num.Bit1 (num.Bit0 (num.Bit0
     (num.Bit0 (num.Bit0 (num.Bit0 (num.Bit0 (num.Bit0 (num.Bit1 (num.Bit0 (num.Bit0 (num.Bit0
     (num.Bit1 (num.Bit1 (num.Bit0 (num.Bit0 (num.Bit0 (num.Bit1 (num.Bit0 (num.Bit0 (num.Bit0
     (num.Bit0 (num.Bit0 (num.Bit0 (num.Bit0 (num.Bit1 num.One))))))))))))))))))))))))))))))),
   num.Bit0 (num.Bit0 (num.Bit1 (num.Bit0 (num.Bit0 (num.Bit0 (num.Bit0 (num.Bit1 (num.Bit0
     (num.Bit0 (num.Bit0 (num.Bit0 (num.Bit0 (num.Bit0 (num.Bit0 (num.Bit0 (num.Bit0 (num.Bit0
     (num.Bit0 (num.Bit1 (num.Bit0 (num.Bit0 (num.Bit0 (num.Bit0 (num.Bit1 (num.Bit0 (num.Bit0
     (num.Bit0 (num.Bit0 (num.Bit0 (num.Bit0 (num.Bit0 num.One))))))))))))))))))))))))))))))),
   num.Bit0 (num.Bit0 (num.Bit0 (num.Bit1 (num.Bit0 (num.Bit0 (num.Bit0 (num.Bit0 (num.Bit1
     (num.Bit0 (num.Bit0 (num.Bit0 (num.Bit0 (num.Bit0 (num.Bit0 (num.Bit0 (num.Bit0 (num.Bit0
     (num.Bit0 (num.Bit0 (num.Bit1 (num.Bit0 (num.Bit0 (num.Bit0 (num.Bit0 (num.Bit1 (num.Bit0
     (num.Bit0 (num.Bit0 (num.Bit0 (num.Bit0 (num.Bit0 num.One))))))))))))))))))))))))))))))),
   num.Bit0 (num.Bit0 (num.Bit0 (num.Bit0 (num.Bit1 (num.Bit0 (num.Bit0 (num.Bit0 (num.Bit0
     (num.Bit1 (num.Bit0 (num.Bit0 (num.Bit0 (num.Bit0 (num.Bit0 (num.Bit0 (num.Bit0 (num.Bit0
     (num.Bit0 (num.Bit0 (num.Bit0 (num.Bit1 (num.Bit0 (num.Bit0 (num.Bit0 (num.Bit0 (num.Bit1
     (num.Bit0 (num.Bit0 (num.Bit0 (num.Bit0 (num.Bit0 num.One))))))))))))))))))))))))))))))),
   num.Bit0 (num.Bit0 (num.Bit0 (num.Bit0 (num.Bit0 (num.Bit1 (num.Bit0 (num.Bit0 (num.Bit0
     (num.Bit0 (num.Bit1 (num.Bit0 (num.Bit0 (num.Bit0 (num.Bit0 (num.Bit0 (num.Bit0 (num.Bit0
     (num.Bit0 (num.Bit0 (num.Bit0 (num.Bit0 (num.Bit1 (num.Bit0 (num.Bit0 (num.Bit0 (num.Bit0
     (num.Bit1 (num.Bit0 (num.Bit0 (num.Bit0 (num.Bit0 num.One))))))))))))))))))))))))))))))),
   num.Bit0 (num.Bit0 (num.Bit0 (num.Bit0 (num.Bit0 (num.Bit0 (num.Bit1 (num.Bit0 (num.Bit0
     (num.Bit0 (num.Bit0 (num.Bit1 (num.Bit0 (num.Bit0 (num.Bit0 (num.Bit0 (num.Bit0 (num.Bit0
     (num.Bit0 (num.Bit0 (num.Bit0 (num.Bit0 (num.Bit0 (num.Bit1 (num.Bit0 (num.Bit0 (num.Bit0
     (num.Bit0 (num.Bit1 (num.Bit0 (num.Bit0 (num.Bit0 num.One))))))))))))))))))))))))))))))),
   num.Bit0 (num.Bit0 (num.Bit0 (num.Bit0 (num.Bit0 (num.Bit0 (num.Bit0 (num.Bit1 (num.Bit0
     (num.Bit0 (num.Bit0 (num.Bit0 (num.Bit1 (num.Bit0 (num.Bit0 (num.Bit0 (num.Bit0 (num.Bit0
     (num.Bit0 (num.Bit0 (num.Bit0 (num.Bit0 (num.Bit0 (num.Bit0 (num.Bit1 (num.Bit0 (num.Bit0
     (num.Bit0 (num.Bit0 (num.Bit1 (num.Bit0 (num.Bit0 num.One))))))))))))))))))))))))))))))),
   num.Bit0 (num.Bit0 (num.Bit0 (num.Bit0 (num.Bit0 (num.Bit0 (num.Bit0 (num.Bit0 (num.Bit1
     (num.Bit0 (num.Bit0 (num.Bit0 (num.Bit0 (num.Bit1 (num.Bit0 (num.Bit0 (num.Bit0 (num.Bit0
     (num.Bit0 (num.Bit0 (num.Bit0 (num.Bit0 (num.Bit0 (num.Bit0 (num.Bit0 (num.Bit1 (num.Bit0
     (num.Bit0 (num.Bit0 (num.Bit0 (num.Bit1 (num.Bit0 num.One))))))))))))))))))))))))))))))),
   num.Bit0 (num.Bit0 (num.Bit0 (num.Bit0 (num.Bit0 (num.Bit0 (num.Bit0 (num.Bit0 (num.Bit0
     (num.Bit1 (num.Bit0 (num.Bit0 (num.Bit0 (num.Bit0 (num.Bit1 (num.Bit0 (num.Bit0 (num.Bit0
     (num.Bit0 (num.Bit0 (num.Bit0 (num.Bit0 (num.Bit0 (num.Bit0 (num.Bit0 (num.Bit0 (num.Bit1
     (num.Bit0 (num.Bit0 (num.Bit0 (num.Bit0 (num.Bit1 num.One))))))))))))))))))))))))))))))),
   num.Bit0 (num.Bit0 (num.Bit0 (num.Bit0 (num.Bit0 (num.Bit0 (num.Bit0 (num.Bit0 (num.Bit0
     (num.Bit0 (num.Bit1 (num.Bit0 (num.Bit0 (num.Bit0 (num.Bit0 (num.Bit1 (num.Bit0 (num.Bit0
     (num.Bit0 (num.Bit0 (num.Bit0 (num.Bit0 (num.Bit0 (num.Bit0 (num.Bit0 (num.Bit0 (num.Bit0
     (num.Bit1 (num.Bit0 (num.Bit0 (num.Bit0 (num.Bit0 num.One))))))))))))))))))))))))))))))),
   num.Bit0 (num.Bit0 (num.Bit0 (num.Bit0 (num.Bit0 (num.Bit0 (num.Bit0 (num.Bit0 (num.Bit0
     (num.Bit0 (num.Bit0 (num.Bit1 (num.Bit0 (num.Bit0 (num.Bit0 (num.Bit0 (num.Bit1 (num.Bit0
     (num.Bit0 (num.Bit0 (num.Bit0 (num.Bit0 (num.Bit0 (num.Bit0 (num.Bit0 (num.Bit0 (num.Bit0
     (num.Bit0 (num.Bit1 (num.Bit0 (num.Bit0 (num.Bit0 num.One))))))))))))))))))))))))))))))),
   num.Bit0 (num.Bit0 (num.Bit0 (num.Bit0 (num.Bit0 (num.Bit0 (num.Bit0 (num.Bit0 (num.Bit0
     (num.Bit0 (num.Bit0 (num.Bit0 (num.Bit1 (num.Bit0 (num.Bit0 (num.Bit0 (num.Bit0 (num.Bit1
     (num.Bit0 (num.Bit0 (num.Bit0 (num.Bit0 (num.Bit0 (num.Bit0 (num.Bit0 (num.Bit0 (num.Bit0
     (num.Bit0 (num.Bit0 (num.Bit1 (num.Bit0 (num.Bit0 num.One))))))))))))))))))))))))))))))),
   num.Bit0 (num.Bit0 (num.Bit0 (num.Bit0 (num.Bit0 (num.Bit0 (num.Bit0 (num.Bit0 (num.Bit0
     (num.Bit0 (num.Bit0 (num.Bit0 (num.Bit0 (num.Bit1 (num.Bit0 (num.Bit0 (num.Bit0 (num.Bit0
     (num.Bit1 (num.Bit0 (num.Bit0 (num.Bit0 (num.Bit0 (num.Bit0 (num.Bit0 (num.Bit0 (num.Bit0
     (num.Bit0 (num.Bit0 (num.Bit0 (num.Bit1 (num.Bit0 num.One))))))))))))))))))))))))))))))),
   num.Bit0 (num.Bit0 (num.Bit0 (num.Bit0 (num.Bit0 (num.Bit0 (num.Bit0 (num.Bit0 (num.Bit0
     (num.Bit0 (num.Bit0 (num.Bit0 (num.Bit0 (num.Bit0 (num.Bit1 (num.Bit0 (num.Bit0 (num.Bit0
     (num.Bit0 (num.Bit1 (num.Bit0 (num.Bit0 (num.Bit0 (num.Bit0 (num.Bit0 (num.Bit0 (num.Bit0
     (num.Bit0 (num.Bit0 (num.Bit0 (num.Bit0 (num.Bit1 num.One)))))))))))))))))))))))))))))))]"
  by (simp add: step_matrix_def sent_eval)

lemma jump_matrix_eq: "jump_matrix = [num.Bit1 (num.Bit0 (num.Bit0 (num.Bit1 (num.Bit0 (num.Bit0 (num.Bit0 (num.Bit1 (num.Bit1
     (num.Bit1 (num.Bit0 (num.Bit0 (num.Bit1 (num.Bit1 (num.Bit0 (num.Bit0 (num.Bit1 (num.Bit1
     (num.Bit1 (num.Bit0 (num.Bit0 (num.Bit0 (num.Bit0 (num.Bit1 (num.Bit0 (num.Bit1 (num.Bit0
     (num.Bit0 (num.Bit0 (num.Bit0 (num.Bit0 (num.Bit1 num.One))))))))))))))))))))))))))))))),
   num.Bit1 (num.Bit0 (num.Bit0 (num.Bit0 (num.Bit1 (num.Bit1 (num.Bit0 (num.Bit0 (num.Bit0
     (num.Bit1 (num.Bit0 (num.Bit0 (num.Bit0 (num.Bit0 (num.Bit0 (num.Bit0 (num.Bit0 (num.Bit0
     (num.Bit1 (num.Bit1 (num.Bit1 (num.Bit0 (num.Bit1 (num.Bit0 (num.Bit1 (num.Bit1 (num.Bit1
     (num.Bit0 (num.Bit0 (num.Bit1 (num.Bit1 (num.Bit1 num.One))))))))))))))))))))))))))))))),
   num.Bit1 (num.Bit0 (num.Bit0 (num.Bit0 (num.Bit0 (num.Bit1 (num.Bit1 (num.Bit1 (num.Bit1
     (num.Bit0 (num.Bit0 (num.Bit1 (num.Bit0 (num.Bit0 (num.Bit1 (num.Bit0 (num.Bit0 (num.Bit0
     (num.Bit1 (num.Bit0 (num.Bit1 (num.Bit1 (num.Bit1 (num.Bit1 (num.Bit0 (num.Bit0 (num.Bit1
     (num.Bit0 (num.Bit1 (num.Bit0 (num.Bit1 (num.Bit0 num.One))))))))))))))))))))))))))))))),
   num.Bit1 (num.Bit0 (num.Bit1 (num.Bit1 (num.Bit1 (num.Bit1 (num.Bit1 (num.Bit1 (num.Bit1
     (num.Bit1 (num.Bit0 (num.Bit1 (num.Bit1 (num.Bit0 (num.Bit0 (num.Bit0 (num.Bit1 (num.Bit1
     (num.Bit0 (num.Bit1 (num.Bit1 (num.Bit1 (num.Bit0 (num.Bit0 (num.Bit0 (num.Bit1 (num.Bit1
     (num.Bit0 (num.Bit0 (num.Bit0 (num.Bit1 (num.Bit1 num.One))))))))))))))))))))))))))))))),
   num.Bit1 (num.Bit0 (num.Bit1 (num.Bit1 (num.Bit1 (num.Bit1 (num.Bit0 (num.Bit1 (num.Bit0
     (num.Bit1 (num.Bit0 (num.Bit1 (num.Bit1 (num.Bit1 (num.Bit0 (num.Bit0 (num.Bit1 (num.Bit0
     (num.Bit1 (num.Bit0 (num.Bit1 (num.Bit0 (num.Bit0 (num.Bit1 (num.Bit1 (num.Bit0 (num.Bit0
     (num.Bit0 (num.Bit0 (num.Bit0 (num.Bit1 (num.Bit1 num.One))))))))))))))))))))))))))))))),
   num.Bit1 (num.Bit1 (num.Bit0 (num.Bit0 (num.Bit1 (num.Bit1 (num.Bit1 (num.Bit1 (num.Bit0
     (num.Bit1 (num.Bit1 (num.Bit0 (num.Bit0 (num.Bit0 (num.Bit1 (num.Bit0 (num.Bit1 (num.Bit1
     (num.Bit0 (num.Bit0 (num.Bit0 (num.Bit1 (num.Bit1 (num.Bit0 (num.Bit0 (num.Bit0 (num.Bit1
     (num.Bit0 (num.Bit0 (num.Bit1 (num.Bit0 (num.Bit1 num.One))))))))))))))))))))))))))))))),
   num.Bit0 (num.Bit0 (num.Bit0 (num.Bit0 (num.Bit1 (num.Bit1 (num.Bit0 (num.Bit1 (num.Bit0
     (num.Bit0 (num.Bit0 (num.Bit0 (num.Bit1 (num.Bit0 (num.Bit1 (num.Bit1 (num.Bit1 (num.Bit0
     (num.Bit1 (num.Bit0 (num.Bit0 (num.Bit0 (num.Bit1 (num.Bit0 (num.Bit1 (num.Bit1 (num.Bit1
     (num.Bit1 (num.Bit0 (num.Bit0 (num.Bit1 (num.Bit1 num.One))))))))))))))))))))))))))))))),
   num.Bit0 (num.Bit0 (num.Bit1 (num.Bit0 (num.Bit0 (num.Bit0 (num.Bit1 (num.Bit1 (num.Bit0
     (num.Bit0 (num.Bit1 (num.Bit1 (num.Bit0 (num.Bit0 (num.Bit1 (num.Bit1 (num.Bit0 (num.Bit0
     (num.Bit0 (num.Bit1 (num.Bit0 (num.Bit0 (num.Bit0 (num.Bit0 (num.Bit0 (num.Bit1 (num.Bit1
     (num.Bit1 (num.Bit1 (num.Bit1 (num.Bit1 (num.Bit0 num.One))))))))))))))))))))))))))))))),
   num.Bit1 (num.Bit0 (num.Bit0 (num.Bit0 (num.Bit0 (num.Bit1 (num.Bit1 (num.Bit0 (num.Bit1
     (num.Bit0 (num.Bit1 (num.Bit0 (num.Bit1 (num.Bit1 (num.Bit1 (num.Bit0 (num.Bit0 (num.Bit1
     (num.Bit1 (num.Bit1 (num.Bit0 (num.Bit1 (num.Bit1 (num.Bit0 (num.Bit0 (num.Bit0 (num.Bit1
     (num.Bit0 (num.Bit0 (num.Bit0 (num.Bit0 (num.Bit0 num.One))))))))))))))))))))))))))))))),
   num.Bit1 (num.Bit0 (num.Bit0 (num.Bit1 (num.Bit1 (num.Bit0 (num.Bit0 (num.Bit0 (num.Bit1
     (num.Bit0 (num.Bit0 (num.Bit1 (num.Bit0 (num.Bit1 (num.Bit0 (num.Bit0 (num.Bit1 (num.Bit0
     (num.Bit0 (num.Bit0 (num.Bit1 (num.Bit0 (num.Bit0 (num.Bit1 (num.Bit0 (num.Bit0 (num.Bit0
     (num.Bit0 (num.Bit1 (num.Bit1 (num.Bit1 (num.Bit1 num.One))))))))))))))))))))))))))))))),
   num.Bit0 (num.Bit0 (num.Bit1 (num.Bit0 (num.Bit1 (num.Bit0 (num.Bit0 (num.Bit0 (num.Bit1
     (num.Bit0 (num.Bit1 (num.Bit0 (num.Bit0 (num.Bit1 (num.Bit1 (num.Bit1 (num.Bit1 (num.Bit1
     (num.Bit1 (num.Bit0 (num.Bit0 (num.Bit1 (num.Bit1 (num.Bit1 (num.Bit0 (num.Bit0 (num.Bit0
     (num.Bit0 (num.Bit0 (num.Bit1 (num.Bit0 (num.Bit0 num.One))))))))))))))))))))))))))))))),
   num.Bit1 (num.Bit1 (num.Bit1 (num.Bit1 (num.Bit1 (num.Bit1 (num.Bit1 (num.Bit0 (num.Bit0
     (num.Bit0 (num.Bit0 (num.Bit0 (num.Bit0 (num.Bit0 (num.Bit1 (num.Bit1 (num.Bit1 (num.Bit1
     (num.Bit1 (num.Bit1 (num.Bit0 (num.Bit1 (num.Bit1 (num.Bit1 (num.Bit1 (num.Bit1 (num.Bit1
     (num.Bit0 (num.Bit1 (num.Bit1 (num.Bit1 (num.Bit1 num.One))))))))))))))))))))))))))))))),
   num.Bit1 (num.Bit0 (num.Bit0 (num.Bit0 (num.Bit0 (num.Bit0 (num.Bit0 (num.Bit0 (num.Bit1
     (num.Bit1 (num.Bit1 (num.Bit0 (num.Bit0 (num.Bit0 (num.Bit0 (num.Bit0 (num.Bit0 (num.Bit0
     (num.Bit1 (num.Bit1 (num.Bit1 (num.Bit1 (num.Bit0 (num.Bit1 (num.Bit1 (num.Bit1 (num.Bit1
     (num.Bit1 (num.Bit1 (num.Bit1 (num.Bit1 (num.Bit1 num.One))))))))))))))))))))))))))))))),
   num.Bit1 (num.Bit1 (num.Bit1 (num.Bit0 (num.Bit1 (num.Bit1 (num.Bit0 (num.Bit0 (num.Bit0
     (num.Bit0 (num.Bit1 (num.Bit0 (num.Bit0 (num.Bit1 (num.Bit1 (num.Bit1 (num.Bit0 (num.Bit1
     (num.Bit0 (num.Bit0 (num.Bit1 (num.Bit0 (num.Bit1 (num.Bit1 (num.Bit1 (num.Bit0 (num.Bit0
     (num.Bit0 (num.Bit0 (num.Bit0 (num.Bit0 (num.Bit1 num.One))))))))))))))))))))))))))))))),
   num.Bit0 (num.Bit0 (num.Bit1 (num.Bit1 (num.Bit1 (num.Bit1 (num.Bit0 (num.Bit1 (num.Bit0
     (num.Bit1 (num.Bit1 (num.Bit1 (num.Bit1 (num.Bit0 (num.Bit1 (num.Bit1 (num.Bit0 (num.Bit1
     (num.Bit1 (num.Bit1 (num.Bit0 (num.Bit1 (num.Bit1 (num.Bit0 (num.Bit1 (num.Bit1 (num.Bit0
     (num.Bit0 (num.Bit0 (num.Bit1 (num.Bit1 (num.Bit1 num.One))))))))))))))))))))))))))))))),
   num.Bit1 (num.Bit0 (num.Bit0 (num.Bit1 (num.Bit1 (num.Bit1 (num.Bit1 (num.Bit1 (num.Bit0
     (num.Bit1 (num.Bit0 (num.Bit0 (num.Bit1 (num.Bit0 (num.Bit0 (num.Bit0 (num.Bit1 (num.Bit1
     (num.Bit0 (num.Bit1 (num.Bit1 (num.Bit0 (num.Bit0 (num.Bit0 (num.Bit0 (num.Bit0 (num.Bit0
     (num.Bit0 (num.Bit1 (num.Bit1 (num.Bit0 (num.Bit1 num.One))))))))))))))))))))))))))))))),
   num.Bit0 (num.Bit0 (num.Bit1 (num.Bit0 (num.Bit0 (num.Bit0 (num.Bit0 (num.Bit0 (num.Bit0
     (num.Bit1 (num.Bit0 (num.Bit0 (num.Bit0 (num.Bit1 (num.Bit0 (num.Bit1 (num.Bit0 (num.Bit1
     (num.Bit0 (num.Bit1 (num.Bit0 (num.Bit1 (num.Bit0 (num.Bit0 (num.Bit1 (num.Bit0 (num.Bit1
     (num.Bit0 (num.Bit1 (num.Bit1 (num.Bit1 (num.Bit0 num.One))))))))))))))))))))))))))))))),
   num.Bit0 (num.Bit0 (num.Bit0 (num.Bit0 (num.Bit1 (num.Bit1 (num.Bit0 (num.Bit1 (num.Bit0
     (num.Bit1 (num.Bit1 (num.Bit0 (num.Bit0 (num.Bit1 (num.Bit0 (num.Bit1 (num.Bit0 (num.Bit1
     (num.Bit1 (num.Bit1 (num.Bit1 (num.Bit0 (num.Bit1 (num.Bit1 (num.Bit0 (num.Bit1 (num.Bit1
     (num.Bit1 (num.Bit0 (num.Bit0 (num.Bit1 (num.Bit0 num.One))))))))))))))))))))))))))))))),
   num.Bit1 (num.Bit1 (num.Bit1 (num.Bit1 (num.Bit1 (num.Bit1 (num.Bit1 (num.Bit1 (num.Bit0
     (num.Bit1 (num.Bit1 (num.Bit1 (num.Bit0 (num.Bit0 (num.Bit0 (num.Bit1 (num.Bit0 (num.Bit0
     (num.Bit1 (num.Bit0 (num.Bit0 (num.Bit0 (num.Bit0 (num.Bit0 (num.Bit1 (num.Bit0 (num.Bit1
     (num.Bit1 (num.Bit1 (num.Bit0 (num.Bit1 (num.Bit0 num.One))))))))))))))))))))))))))))))),
   num.Bit1 (num.Bit0 (num.Bit0 (num.Bit0 (num.Bit0 (num.Bit0 (num.Bit0 (num.Bit0 (num.Bit0
     (num.Bit1 (num.Bit0 (num.Bit1 (num.Bit0 (num.Bit1 (num.Bit0 (num.Bit0 (num.Bit1 (num.Bit1
     (num.Bit1 (num.Bit1 (num.Bit0 (num.Bit1 (num.Bit0 (num.Bit0 (num.Bit1 (num.Bit1 (num.Bit1
     (num.Bit1 (num.Bit0 (num.Bit0 (num.Bit1 (num.Bit0 num.One))))))))))))))))))))))))))))))),
   num.Bit1 (num.Bit0 (num.Bit0 (num.Bit1 (num.Bit1 (num.Bit1 (num.Bit1 (num.Bit0 (num.Bit0
     (num.Bit0 (num.Bit0 (num.Bit0 (num.Bit1 (num.Bit1 (num.Bit1 (num.Bit0 (num.Bit1 (num.Bit1
     (num.Bit1 (num.Bit1 (num.Bit0 (num.Bit1 (num.Bit0 (num.Bit0 (num.Bit0 (num.Bit1 (num.Bit1
     (num.Bit1 (num.Bit1 (num.Bit1 (num.Bit1 (num.Bit1 num.One))))))))))))))))))))))))))))))),
   num.Bit1 (num.Bit1 (num.Bit1 (num.Bit0 (num.Bit0 (num.Bit1 (num.Bit0 (num.Bit0 (num.Bit0
     (num.Bit1 (num.Bit1 (num.Bit1 (num.Bit0 (num.Bit0 (num.Bit0 (num.Bit0 (num.Bit0 (num.Bit1
     (num.Bit1 (num.Bit0 (num.Bit0 (num.Bit1 (num.Bit0 (num.Bit1 (num.Bit0 (num.Bit1 (num.Bit0
     (num.Bit1 (num.Bit1 (num.Bit1 (num.Bit0 (num.Bit1 num.One))))))))))))))))))))))))))))))),
   num.Bit0 (num.Bit1 (num.Bit0 (num.Bit0 (num.Bit1 (num.Bit1 (num.Bit0 (num.Bit0 (num.Bit0
     (num.Bit1 (num.Bit0 (num.Bit0 (num.Bit1 (num.Bit0 (num.Bit1 (num.Bit0 (num.Bit1 (num.Bit0
     (num.Bit0 (num.Bit1 (num.Bit0 (num.Bit1 (num.Bit0 (num.Bit1 (num.Bit1 (num.Bit1 (num.Bit1
     (num.Bit0 (num.Bit0 (num.Bit1 (num.Bit1 (num.Bit1 num.One))))))))))))))))))))))))))))))),
   num.Bit0 (num.Bit0 (num.Bit1 (num.Bit0 (num.Bit1 (num.Bit0 (num.Bit0 (num.Bit1 (num.Bit0
     (num.Bit1 (num.Bit0 (num.Bit1 (num.Bit0 (num.Bit1 (num.Bit0 (num.Bit1 (num.Bit0 (num.Bit0
     (num.Bit1 (num.Bit1 (num.Bit0 (num.Bit0 (num.Bit0 (num.Bit1 (num.Bit0 (num.Bit1 (num.Bit0
     (num.Bit1 (num.Bit0 (num.Bit1 (num.Bit0 (num.Bit1 num.One))))))))))))))))))))))))))))))),
   num.Bit0 (num.Bit1 (num.Bit0 (num.Bit0 (num.Bit1 (num.Bit0 (num.Bit1 (num.Bit1 (num.Bit0
     (num.Bit1 (num.Bit1 (num.Bit0 (num.Bit1 (num.Bit0 (num.Bit0 (num.Bit0 (num.Bit1 (num.Bit1
     (num.Bit1 (num.Bit0 (num.Bit1 (num.Bit0 (num.Bit1 (num.Bit0 (num.Bit0 (num.Bit1 (num.Bit0
     (num.Bit0 (num.Bit0 (num.Bit0 (num.Bit0 (num.Bit1 num.One))))))))))))))))))))))))))))))),
   num.Bit0 (num.Bit0 (num.Bit1 (num.Bit1 (num.Bit0 (num.Bit1 (num.Bit0 (num.Bit1 (num.Bit1
     (num.Bit1 (num.Bit0 (num.Bit1 (num.Bit0 (num.Bit0 (num.Bit1 (num.Bit0 (num.Bit1 (num.Bit0
     (num.Bit0 (num.Bit0 (num.Bit1 (num.Bit0 (num.Bit1 (num.Bit0 (num.Bit0 (num.Bit0 (num.Bit0
     (num.Bit1 (num.Bit0 (num.Bit1 (num.Bit0 (num.Bit0 num.One))))))))))))))))))))))))))))))),
   num.Bit1 (num.Bit0 (num.Bit1 (num.Bit0 (num.Bit1 (num.Bit0 (num.Bit1 (num.Bit1 (num.Bit0
     (num.Bit0 (num.Bit1 (num.Bit1 (num.Bit1 (num.Bit1 (num.Bit0 (num.Bit1 (num.Bit0 (num.Bit1
     (num.Bit0 (num.Bit1 (num.Bit1 (num.Bit0 (num.Bit0 (num.Bit1 (num.Bit0 (num.Bit0 (num.Bit1
     (num.Bit1 (num.Bit1 (num.Bit0 (num.Bit0 (num.Bit1 num.One))))))))))))))))))))))))))))))),
   num.Bit0 (num.Bit0 (num.Bit0 (num.Bit0 (num.Bit1 (num.Bit1 (num.Bit0 (num.Bit1 (num.Bit1
     (num.Bit0 (num.Bit1 (num.Bit1 (num.Bit1 (num.Bit0 (num.Bit0 (num.Bit0 (num.Bit0 (num.Bit0
     (num.Bit1 (num.Bit1 (num.Bit0 (num.Bit1 (num.Bit0 (num.Bit0 (num.Bit1 (num.Bit1 (num.Bit0
     (num.Bit0 (num.Bit1 (num.Bit0 (num.Bit0 (num.Bit0 num.One))))))))))))))))))))))))))))))),
   num.Bit0 (num.Bit0 (num.Bit0 (num.Bit0 (num.Bit0 (num.Bit0 (num.Bit1 (num.Bit0 (num.Bit0
     (num.Bit0 (num.Bit0 (num.Bit0 (num.Bit0 (num.Bit1 (num.Bit0 (num.Bit0 (num.Bit0 (num.Bit1
     (num.Bit1 (num.Bit1 (num.Bit1 (num.Bit1 (num.Bit0 (num.Bit0 (num.Bit0 (num.Bit1 (num.Bit1
     (num.Bit0 (num.Bit1 (num.Bit0 (num.Bit1 (num.Bit0 num.One))))))))))))))))))))))))))))))),
   num.Bit1 (num.Bit1 (num.Bit0 (num.Bit0 (num.Bit0 (num.Bit0 (num.Bit0 (num.Bit0 (num.Bit1
     (num.Bit0 (num.Bit0 (num.Bit1 (num.Bit0 (num.Bit1 (num.Bit1 (num.Bit0 (num.Bit0 (num.Bit1
     (num.Bit0 (num.Bit0 (num.Bit0 (num.Bit0 (num.Bit1 (num.Bit1 (num.Bit0 (num.Bit1 (num.Bit0
     (num.Bit0 (num.Bit1 (num.Bit1 (num.Bit1 (num.Bit0 num.One))))))))))))))))))))))))))))))),
   num.Bit0 (num.Bit0 (num.Bit1 (num.Bit0 (num.Bit0 (num.Bit0 (num.Bit0 (num.Bit0 (num.Bit0
     (num.Bit1 (num.Bit1 (num.Bit0 (num.Bit1 (num.Bit1 (num.Bit1 (num.Bit0 (num.Bit0 (num.Bit0
     (num.Bit0 (num.Bit0 (num.Bit1 (num.Bit0 (num.Bit1 (num.Bit0 (num.Bit0 (num.Bit0 (num.Bit0
     (num.Bit1 (num.Bit0 (num.Bit0 (num.Bit0 (num.Bit1 num.One))))))))))))))))))))))))))))))),
   num.Bit1 (num.Bit0 (num.Bit1 (num.Bit0 (num.Bit0 (num.Bit0 (num.Bit0 (num.Bit1 (num.Bit0
     (num.Bit0 (num.Bit0 (num.Bit1 (num.Bit1 (num.Bit0 (num.Bit0 (num.Bit0 (num.Bit0 (num.Bit1
     (num.Bit0 (num.Bit1 (num.Bit0 (num.Bit1 (num.Bit1 (num.Bit0 (num.Bit0 (num.Bit0 (num.Bit1
     (num.Bit0 (num.Bit0 (num.Bit1 (num.Bit0 (num.Bit0 num.One)))))))))))))))))))))))))))))))]"
  by (simp add: jump_matrix_def sent_eval)

lemma unit_matrix_eq: "unit_matrix = [num.Bit1 (num.Bit0 (num.Bit0 (num.Bit0 (num.Bit0 (num.Bit0 (num.Bit0 (num.Bit0 (num.Bit0
     (num.Bit0 (num.Bit0 (num.Bit0 (num.Bit0 (num.Bit0 (num.Bit0 (num.Bit0 (num.Bit0 (num.Bit0
     (num.Bit0 (num.Bit0 (num.Bit0 (num.Bit0 (num.Bit0 (num.Bit0 (num.Bit0 (num.Bit0 (num.Bit0
     (num.Bit0 (num.Bit0 (num.Bit0 (num.Bit0 (num.Bit0 num.One))))))))))))))))))))))))))))))),
   num.Bit0 (num.Bit1 (num.Bit0 (num.Bit0 (num.Bit0 (num.Bit0 (num.Bit0 (num.Bit0 (num.Bit0
     (num.Bit0 (num.Bit0 (num.Bit0 (num.Bit0 (num.Bit0 (num.Bit0 (num.Bit0 (num.Bit0 (num.Bit0
     (num.Bit0 (num.Bit0 (num.Bit0 (num.Bit0 (num.Bit0 (num.Bit0 (num.Bit0 (num.Bit0 (num.Bit0
     (num.Bit0 (num.Bit0 (num.Bit0 (num.Bit0 (num.Bit0 num.One))))))))))))))))))))))))))))))),
   num.Bit0 (num.Bit0 (num.Bit1 (num.Bit0 (num.Bit0 (num.Bit0 (num.Bit0 (num.Bit0 (num.Bit0
     (num.Bit0 (num.Bit0 (num.Bit0 (num.Bit0 (num.Bit0 (num.Bit0 (num.Bit0 (num.Bit0 (num.Bit0
     (num.Bit0 (num.Bit0 (num.Bit0 (num.Bit0 (num.Bit0 (num.Bit0 (num.Bit0 (num.Bit0 (num.Bit0
     (num.Bit0 (num.Bit0 (num.Bit0 (num.Bit0 (num.Bit0 num.One))))))))))))))))))))))))))))))),
   num.Bit0 (num.Bit0 (num.Bit0 (num.Bit1 (num.Bit0 (num.Bit0 (num.Bit0 (num.Bit0 (num.Bit0
     (num.Bit0 (num.Bit0 (num.Bit0 (num.Bit0 (num.Bit0 (num.Bit0 (num.Bit0 (num.Bit0 (num.Bit0
     (num.Bit0 (num.Bit0 (num.Bit0 (num.Bit0 (num.Bit0 (num.Bit0 (num.Bit0 (num.Bit0 (num.Bit0
     (num.Bit0 (num.Bit0 (num.Bit0 (num.Bit0 (num.Bit0 num.One))))))))))))))))))))))))))))))),
   num.Bit0 (num.Bit0 (num.Bit0 (num.Bit0 (num.Bit1 (num.Bit0 (num.Bit0 (num.Bit0 (num.Bit0
     (num.Bit0 (num.Bit0 (num.Bit0 (num.Bit0 (num.Bit0 (num.Bit0 (num.Bit0 (num.Bit0 (num.Bit0
     (num.Bit0 (num.Bit0 (num.Bit0 (num.Bit0 (num.Bit0 (num.Bit0 (num.Bit0 (num.Bit0 (num.Bit0
     (num.Bit0 (num.Bit0 (num.Bit0 (num.Bit0 (num.Bit0 num.One))))))))))))))))))))))))))))))),
   num.Bit0 (num.Bit0 (num.Bit0 (num.Bit0 (num.Bit0 (num.Bit1 (num.Bit0 (num.Bit0 (num.Bit0
     (num.Bit0 (num.Bit0 (num.Bit0 (num.Bit0 (num.Bit0 (num.Bit0 (num.Bit0 (num.Bit0 (num.Bit0
     (num.Bit0 (num.Bit0 (num.Bit0 (num.Bit0 (num.Bit0 (num.Bit0 (num.Bit0 (num.Bit0 (num.Bit0
     (num.Bit0 (num.Bit0 (num.Bit0 (num.Bit0 (num.Bit0 num.One))))))))))))))))))))))))))))))),
   num.Bit0 (num.Bit0 (num.Bit0 (num.Bit0 (num.Bit0 (num.Bit0 (num.Bit1 (num.Bit0 (num.Bit0
     (num.Bit0 (num.Bit0 (num.Bit0 (num.Bit0 (num.Bit0 (num.Bit0 (num.Bit0 (num.Bit0 (num.Bit0
     (num.Bit0 (num.Bit0 (num.Bit0 (num.Bit0 (num.Bit0 (num.Bit0 (num.Bit0 (num.Bit0 (num.Bit0
     (num.Bit0 (num.Bit0 (num.Bit0 (num.Bit0 (num.Bit0 num.One))))))))))))))))))))))))))))))),
   num.Bit0 (num.Bit0 (num.Bit0 (num.Bit0 (num.Bit0 (num.Bit0 (num.Bit0 (num.Bit1 (num.Bit0
     (num.Bit0 (num.Bit0 (num.Bit0 (num.Bit0 (num.Bit0 (num.Bit0 (num.Bit0 (num.Bit0 (num.Bit0
     (num.Bit0 (num.Bit0 (num.Bit0 (num.Bit0 (num.Bit0 (num.Bit0 (num.Bit0 (num.Bit0 (num.Bit0
     (num.Bit0 (num.Bit0 (num.Bit0 (num.Bit0 (num.Bit0 num.One))))))))))))))))))))))))))))))),
   num.Bit0 (num.Bit0 (num.Bit0 (num.Bit0 (num.Bit0 (num.Bit0 (num.Bit0 (num.Bit0 (num.Bit1
     (num.Bit0 (num.Bit0 (num.Bit0 (num.Bit0 (num.Bit0 (num.Bit0 (num.Bit0 (num.Bit0 (num.Bit0
     (num.Bit0 (num.Bit0 (num.Bit0 (num.Bit0 (num.Bit0 (num.Bit0 (num.Bit0 (num.Bit0 (num.Bit0
     (num.Bit0 (num.Bit0 (num.Bit0 (num.Bit0 (num.Bit0 num.One))))))))))))))))))))))))))))))),
   num.Bit0 (num.Bit0 (num.Bit0 (num.Bit0 (num.Bit0 (num.Bit0 (num.Bit0 (num.Bit0 (num.Bit0
     (num.Bit1 (num.Bit0 (num.Bit0 (num.Bit0 (num.Bit0 (num.Bit0 (num.Bit0 (num.Bit0 (num.Bit0
     (num.Bit0 (num.Bit0 (num.Bit0 (num.Bit0 (num.Bit0 (num.Bit0 (num.Bit0 (num.Bit0 (num.Bit0
     (num.Bit0 (num.Bit0 (num.Bit0 (num.Bit0 (num.Bit0 num.One))))))))))))))))))))))))))))))),
   num.Bit0 (num.Bit0 (num.Bit0 (num.Bit0 (num.Bit0 (num.Bit0 (num.Bit0 (num.Bit0 (num.Bit0
     (num.Bit0 (num.Bit1 (num.Bit0 (num.Bit0 (num.Bit0 (num.Bit0 (num.Bit0 (num.Bit0 (num.Bit0
     (num.Bit0 (num.Bit0 (num.Bit0 (num.Bit0 (num.Bit0 (num.Bit0 (num.Bit0 (num.Bit0 (num.Bit0
     (num.Bit0 (num.Bit0 (num.Bit0 (num.Bit0 (num.Bit0 num.One))))))))))))))))))))))))))))))),
   num.Bit0 (num.Bit0 (num.Bit0 (num.Bit0 (num.Bit0 (num.Bit0 (num.Bit0 (num.Bit0 (num.Bit0
     (num.Bit0 (num.Bit0 (num.Bit1 (num.Bit0 (num.Bit0 (num.Bit0 (num.Bit0 (num.Bit0 (num.Bit0
     (num.Bit0 (num.Bit0 (num.Bit0 (num.Bit0 (num.Bit0 (num.Bit0 (num.Bit0 (num.Bit0 (num.Bit0
     (num.Bit0 (num.Bit0 (num.Bit0 (num.Bit0 (num.Bit0 num.One))))))))))))))))))))))))))))))),
   num.Bit0 (num.Bit0 (num.Bit0 (num.Bit0 (num.Bit0 (num.Bit0 (num.Bit0 (num.Bit0 (num.Bit0
     (num.Bit0 (num.Bit0 (num.Bit0 (num.Bit1 (num.Bit0 (num.Bit0 (num.Bit0 (num.Bit0 (num.Bit0
     (num.Bit0 (num.Bit0 (num.Bit0 (num.Bit0 (num.Bit0 (num.Bit0 (num.Bit0 (num.Bit0 (num.Bit0
     (num.Bit0 (num.Bit0 (num.Bit0 (num.Bit0 (num.Bit0 num.One))))))))))))))))))))))))))))))),
   num.Bit0 (num.Bit0 (num.Bit0 (num.Bit0 (num.Bit0 (num.Bit0 (num.Bit0 (num.Bit0 (num.Bit0
     (num.Bit0 (num.Bit0 (num.Bit0 (num.Bit0 (num.Bit1 (num.Bit0 (num.Bit0 (num.Bit0 (num.Bit0
     (num.Bit0 (num.Bit0 (num.Bit0 (num.Bit0 (num.Bit0 (num.Bit0 (num.Bit0 (num.Bit0 (num.Bit0
     (num.Bit0 (num.Bit0 (num.Bit0 (num.Bit0 (num.Bit0 num.One))))))))))))))))))))))))))))))),
   num.Bit0 (num.Bit0 (num.Bit0 (num.Bit0 (num.Bit0 (num.Bit0 (num.Bit0 (num.Bit0 (num.Bit0
     (num.Bit0 (num.Bit0 (num.Bit0 (num.Bit0 (num.Bit0 (num.Bit1 (num.Bit0 (num.Bit0 (num.Bit0
     (num.Bit0 (num.Bit0 (num.Bit0 (num.Bit0 (num.Bit0 (num.Bit0 (num.Bit0 (num.Bit0 (num.Bit0
     (num.Bit0 (num.Bit0 (num.Bit0 (num.Bit0 (num.Bit0 num.One))))))))))))))))))))))))))))))),
   num.Bit0 (num.Bit0 (num.Bit0 (num.Bit0 (num.Bit0 (num.Bit0 (num.Bit0 (num.Bit0 (num.Bit0
     (num.Bit0 (num.Bit0 (num.Bit0 (num.Bit0 (num.Bit0 (num.Bit0 (num.Bit1 (num.Bit0 (num.Bit0
     (num.Bit0 (num.Bit0 (num.Bit0 (num.Bit0 (num.Bit0 (num.Bit0 (num.Bit0 (num.Bit0 (num.Bit0
     (num.Bit0 (num.Bit0 (num.Bit0 (num.Bit0 (num.Bit0 num.One))))))))))))))))))))))))))))))),
   num.Bit0 (num.Bit0 (num.Bit0 (num.Bit0 (num.Bit0 (num.Bit0 (num.Bit0 (num.Bit0 (num.Bit0
     (num.Bit0 (num.Bit0 (num.Bit0 (num.Bit0 (num.Bit0 (num.Bit0 (num.Bit0 (num.Bit1 (num.Bit0
     (num.Bit0 (num.Bit0 (num.Bit0 (num.Bit0 (num.Bit0 (num.Bit0 (num.Bit0 (num.Bit0 (num.Bit0
     (num.Bit0 (num.Bit0 (num.Bit0 (num.Bit0 (num.Bit0 num.One))))))))))))))))))))))))))))))),
   num.Bit0 (num.Bit0 (num.Bit0 (num.Bit0 (num.Bit0 (num.Bit0 (num.Bit0 (num.Bit0 (num.Bit0
     (num.Bit0 (num.Bit0 (num.Bit0 (num.Bit0 (num.Bit0 (num.Bit0 (num.Bit0 (num.Bit0 (num.Bit1
     (num.Bit0 (num.Bit0 (num.Bit0 (num.Bit0 (num.Bit0 (num.Bit0 (num.Bit0 (num.Bit0 (num.Bit0
     (num.Bit0 (num.Bit0 (num.Bit0 (num.Bit0 (num.Bit0 num.One))))))))))))))))))))))))))))))),
   num.Bit0 (num.Bit0 (num.Bit0 (num.Bit0 (num.Bit0 (num.Bit0 (num.Bit0 (num.Bit0 (num.Bit0
     (num.Bit0 (num.Bit0 (num.Bit0 (num.Bit0 (num.Bit0 (num.Bit0 (num.Bit0 (num.Bit0 (num.Bit0
     (num.Bit1 (num.Bit0 (num.Bit0 (num.Bit0 (num.Bit0 (num.Bit0 (num.Bit0 (num.Bit0 (num.Bit0
     (num.Bit0 (num.Bit0 (num.Bit0 (num.Bit0 (num.Bit0 num.One))))))))))))))))))))))))))))))),
   num.Bit0 (num.Bit0 (num.Bit0 (num.Bit0 (num.Bit0 (num.Bit0 (num.Bit0 (num.Bit0 (num.Bit0
     (num.Bit0 (num.Bit0 (num.Bit0 (num.Bit0 (num.Bit0 (num.Bit0 (num.Bit0 (num.Bit0 (num.Bit0
     (num.Bit0 (num.Bit1 (num.Bit0 (num.Bit0 (num.Bit0 (num.Bit0 (num.Bit0 (num.Bit0 (num.Bit0
     (num.Bit0 (num.Bit0 (num.Bit0 (num.Bit0 (num.Bit0 num.One))))))))))))))))))))))))))))))),
   num.Bit0 (num.Bit0 (num.Bit0 (num.Bit0 (num.Bit0 (num.Bit0 (num.Bit0 (num.Bit0 (num.Bit0
     (num.Bit0 (num.Bit0 (num.Bit0 (num.Bit0 (num.Bit0 (num.Bit0 (num.Bit0 (num.Bit0 (num.Bit0
     (num.Bit0 (num.Bit0 (num.Bit1 (num.Bit0 (num.Bit0 (num.Bit0 (num.Bit0 (num.Bit0 (num.Bit0
     (num.Bit0 (num.Bit0 (num.Bit0 (num.Bit0 (num.Bit0 num.One))))))))))))))))))))))))))))))),
   num.Bit0 (num.Bit0 (num.Bit0 (num.Bit0 (num.Bit0 (num.Bit0 (num.Bit0 (num.Bit0 (num.Bit0
     (num.Bit0 (num.Bit0 (num.Bit0 (num.Bit0 (num.Bit0 (num.Bit0 (num.Bit0 (num.Bit0 (num.Bit0
     (num.Bit0 (num.Bit0 (num.Bit0 (num.Bit1 (num.Bit0 (num.Bit0 (num.Bit0 (num.Bit0 (num.Bit0
     (num.Bit0 (num.Bit0 (num.Bit0 (num.Bit0 (num.Bit0 num.One))))))))))))))))))))))))))))))),
   num.Bit0 (num.Bit0 (num.Bit0 (num.Bit0 (num.Bit0 (num.Bit0 (num.Bit0 (num.Bit0 (num.Bit0
     (num.Bit0 (num.Bit0 (num.Bit0 (num.Bit0 (num.Bit0 (num.Bit0 (num.Bit0 (num.Bit0 (num.Bit0
     (num.Bit0 (num.Bit0 (num.Bit0 (num.Bit0 (num.Bit1 (num.Bit0 (num.Bit0 (num.Bit0 (num.Bit0
     (num.Bit0 (num.Bit0 (num.Bit0 (num.Bit0 (num.Bit0 num.One))))))))))))))))))))))))))))))),
   num.Bit0 (num.Bit0 (num.Bit0 (num.Bit0 (num.Bit0 (num.Bit0 (num.Bit0 (num.Bit0 (num.Bit0
     (num.Bit0 (num.Bit0 (num.Bit0 (num.Bit0 (num.Bit0 (num.Bit0 (num.Bit0 (num.Bit0 (num.Bit0
     (num.Bit0 (num.Bit0 (num.Bit0 (num.Bit0 (num.Bit0 (num.Bit1 (num.Bit0 (num.Bit0 (num.Bit0
     (num.Bit0 (num.Bit0 (num.Bit0 (num.Bit0 (num.Bit0 num.One))))))))))))))))))))))))))))))),
   num.Bit0 (num.Bit0 (num.Bit0 (num.Bit0 (num.Bit0 (num.Bit0 (num.Bit0 (num.Bit0 (num.Bit0
     (num.Bit0 (num.Bit0 (num.Bit0 (num.Bit0 (num.Bit0 (num.Bit0 (num.Bit0 (num.Bit0 (num.Bit0
     (num.Bit0 (num.Bit0 (num.Bit0 (num.Bit0 (num.Bit0 (num.Bit0 (num.Bit1 (num.Bit0 (num.Bit0
     (num.Bit0 (num.Bit0 (num.Bit0 (num.Bit0 (num.Bit0 num.One))))))))))))))))))))))))))))))),
   num.Bit0 (num.Bit0 (num.Bit0 (num.Bit0 (num.Bit0 (num.Bit0 (num.Bit0 (num.Bit0 (num.Bit0
     (num.Bit0 (num.Bit0 (num.Bit0 (num.Bit0 (num.Bit0 (num.Bit0 (num.Bit0 (num.Bit0 (num.Bit0
     (num.Bit0 (num.Bit0 (num.Bit0 (num.Bit0 (num.Bit0 (num.Bit0 (num.Bit0 (num.Bit1 (num.Bit0
     (num.Bit0 (num.Bit0 (num.Bit0 (num.Bit0 (num.Bit0 num.One))))))))))))))))))))))))))))))),
   num.Bit0 (num.Bit0 (num.Bit0 (num.Bit0 (num.Bit0 (num.Bit0 (num.Bit0 (num.Bit0 (num.Bit0
     (num.Bit0 (num.Bit0 (num.Bit0 (num.Bit0 (num.Bit0 (num.Bit0 (num.Bit0 (num.Bit0 (num.Bit0
     (num.Bit0 (num.Bit0 (num.Bit0 (num.Bit0 (num.Bit0 (num.Bit0 (num.Bit0 (num.Bit0 (num.Bit1
     (num.Bit0 (num.Bit0 (num.Bit0 (num.Bit0 (num.Bit0 num.One))))))))))))))))))))))))))))))),
   num.Bit0 (num.Bit0 (num.Bit0 (num.Bit0 (num.Bit0 (num.Bit0 (num.Bit0 (num.Bit0 (num.Bit0
     (num.Bit0 (num.Bit0 (num.Bit0 (num.Bit0 (num.Bit0 (num.Bit0 (num.Bit0 (num.Bit0 (num.Bit0
     (num.Bit0 (num.Bit0 (num.Bit0 (num.Bit0 (num.Bit0 (num.Bit0 (num.Bit0 (num.Bit0 (num.Bit0
     (num.Bit1 (num.Bit0 (num.Bit0 (num.Bit0 (num.Bit0 num.One))))))))))))))))))))))))))))))),
   num.Bit0 (num.Bit0 (num.Bit0 (num.Bit0 (num.Bit0 (num.Bit0 (num.Bit0 (num.Bit0 (num.Bit0
     (num.Bit0 (num.Bit0 (num.Bit0 (num.Bit0 (num.Bit0 (num.Bit0 (num.Bit0 (num.Bit0 (num.Bit0
     (num.Bit0 (num.Bit0 (num.Bit0 (num.Bit0 (num.Bit0 (num.Bit0 (num.Bit0 (num.Bit0 (num.Bit0
     (num.Bit0 (num.Bit1 (num.Bit0 (num.Bit0 (num.Bit0 num.One))))))))))))))))))))))))))))))),
   num.Bit0 (num.Bit0 (num.Bit0 (num.Bit0 (num.Bit0 (num.Bit0 (num.Bit0 (num.Bit0 (num.Bit0
     (num.Bit0 (num.Bit0 (num.Bit0 (num.Bit0 (num.Bit0 (num.Bit0 (num.Bit0 (num.Bit0 (num.Bit0
     (num.Bit0 (num.Bit0 (num.Bit0 (num.Bit0 (num.Bit0 (num.Bit0 (num.Bit0 (num.Bit0 (num.Bit0
     (num.Bit0 (num.Bit0 (num.Bit1 (num.Bit0 (num.Bit0 num.One))))))))))))))))))))))))))))))),
   num.Bit0 (num.Bit0 (num.Bit0 (num.Bit0 (num.Bit0 (num.Bit0 (num.Bit0 (num.Bit0 (num.Bit0
     (num.Bit0 (num.Bit0 (num.Bit0 (num.Bit0 (num.Bit0 (num.Bit0 (num.Bit0 (num.Bit0 (num.Bit0
     (num.Bit0 (num.Bit0 (num.Bit0 (num.Bit0 (num.Bit0 (num.Bit0 (num.Bit0 (num.Bit0 (num.Bit0
     (num.Bit0 (num.Bit0 (num.Bit0 (num.Bit1 (num.Bit0 num.One))))))))))))))))))))))))))))))),
   num.Bit0 (num.Bit0 (num.Bit0 (num.Bit0 (num.Bit0 (num.Bit0 (num.Bit0 (num.Bit0 (num.Bit0
     (num.Bit0 (num.Bit0 (num.Bit0 (num.Bit0 (num.Bit0 (num.Bit0 (num.Bit0 (num.Bit0 (num.Bit0
     (num.Bit0 (num.Bit0 (num.Bit0 (num.Bit0 (num.Bit0 (num.Bit0 (num.Bit0 (num.Bit0 (num.Bit0
     (num.Bit0 (num.Bit0 (num.Bit0 (num.Bit0 (num.Bit1 num.One)))))))))))))))))))))))))))))))]"
  by (simp add: unit_matrix_def sent_eval upt_rec)

lemma full_step: "full step_matrix"
  by (simp add: step_matrix_eq)

lemma represents_step: "represents step_matrix xorshiftjump"
  unfolding represents_def
proof (intro conjI)
  show "map num32 step_matrix = cols xorshiftjump"
    by (simp add: step_matrix_eq cols_def xorshiftjump_def num32_def upt_rec)
qed (simp_all add: linear32_xorshiftjump full_step)

subsection \<open>The jump matrix\<close>

lemma powm_jump:
  "powm step_matrix
    (num.Bit1 (num.Bit0 (num.Bit1 (num.Bit1 (num.Bit1 (num.Bit1 (num.Bit1 (num.Bit1 (num.Bit1
     (num.Bit1 (num.Bit1 (num.Bit1 (num.Bit1 (num.Bit1 (num.Bit1 (num.Bit1 (num.Bit1 (num.Bit1
     (num.Bit1 num.One)))))))))))))))))))
    unit_matrix = jump_matrix"
  by (simp only: step_matrix_eq unit_matrix_eq jump_matrix_eq matrix_eval)

subsection \<open>The period of the first seed\<close>

definition seed0 :: num where
  "seed0 = num.Bit1 (num.Bit0 (num.Bit1 (num.Bit1 (num.Bit0 (num.Bit1 (num.Bit1 (num.Bit0 (num.Bit0
     (num.Bit0 (num.Bit1 (num.Bit1 (num.Bit0 (num.Bit1 (num.Bit1 (num.Bit0 (num.Bit1 (num.Bit0
     (num.Bit0 (num.Bit0 (num.Bit1 (num.Bit1 (num.Bit1 (num.Bit1 (num.Bit0 (num.Bit0 (num.Bit0
     (num.Bit0 (num.Bit0 (num.Bit1 (num.Bit0 (num.Bit1 num.One)))))))))))))))))))))))))))))))"

lemma powm_3:
  "powm step_matrix
    (num.Bit1 (num.Bit0 (num.Bit1 (num.Bit0 (num.Bit1 (num.Bit0 (num.Bit1 (num.Bit0 (num.Bit1
     (num.Bit0 (num.Bit1 (num.Bit0 (num.Bit1 (num.Bit0 (num.Bit1 (num.Bit0 (num.Bit1 (num.Bit0
     (num.Bit1 (num.Bit0 (num.Bit1 (num.Bit0 (num.Bit1 (num.Bit0 (num.Bit1 (num.Bit0 (num.Bit1
     (num.Bit0 (num.Bit1 (num.Bit0 num.One))))))))))))))))))))))))))))))
    [seed0] =
    [num.Bit0 (num.Bit1 (num.Bit1 (num.Bit0 (num.Bit0 (num.Bit0 (num.Bit0 (num.Bit1 (num.Bit1
     (num.Bit0 (num.Bit0 (num.Bit1 (num.Bit1 (num.Bit1 (num.Bit1 (num.Bit1 (num.Bit0 (num.Bit0
     (num.Bit0 (num.Bit0 (num.Bit1 (num.Bit1 (num.Bit1 (num.Bit0 (num.Bit0 (num.Bit1 (num.Bit1
     (num.Bit1 (num.Bit0 (num.Bit1 (num.Bit0 (num.Bit0 num.One)))))))))))))))))))))))))))))))]"
  by (simp only: step_matrix_eq seed0_def matrix_eval)

lemma powm_5:
  "powm step_matrix
    (num.Bit1 (num.Bit1 (num.Bit0 (num.Bit0 (num.Bit1 (num.Bit1 (num.Bit0 (num.Bit0 (num.Bit1
     (num.Bit1 (num.Bit0 (num.Bit0 (num.Bit1 (num.Bit1 (num.Bit0 (num.Bit0 (num.Bit1 (num.Bit1
     (num.Bit0 (num.Bit0 (num.Bit1 (num.Bit1 (num.Bit0 (num.Bit0 (num.Bit1 (num.Bit1 (num.Bit0
     (num.Bit0 (num.Bit1 num.One)))))))))))))))))))))))))))))
    [seed0] =
    [num.Bit1 (num.Bit0 (num.Bit0 (num.Bit0 (num.Bit1 (num.Bit1 (num.Bit0 (num.Bit1 (num.Bit1
     (num.Bit1 (num.Bit1 (num.Bit1 (num.Bit0 (num.Bit1 (num.Bit1 (num.Bit1 (num.Bit1 (num.Bit0
     (num.Bit0 (num.Bit0 (num.Bit1 (num.Bit1 (num.Bit1 (num.Bit1 (num.Bit0 (num.Bit1 (num.Bit1
     (num.Bit1 (num.Bit1 (num.Bit1 (num.Bit1 (num.Bit1 num.One)))))))))))))))))))))))))))))))]"
  by (simp only: step_matrix_eq seed0_def matrix_eval)

lemma powm_17:
  "powm step_matrix
    (num.Bit1 (num.Bit1 (num.Bit1 (num.Bit1 (num.Bit0 (num.Bit0 (num.Bit0 (num.Bit0 (num.Bit1
     (num.Bit1 (num.Bit1 (num.Bit1 (num.Bit0 (num.Bit0 (num.Bit0 (num.Bit0 (num.Bit1 (num.Bit1
     (num.Bit1 (num.Bit1 (num.Bit0 (num.Bit0 (num.Bit0 (num.Bit0 (num.Bit1 (num.Bit1 (num.Bit1
     num.One)))))))))))))))))))))))))))
    [seed0] =
    [num.Bit1 (num.Bit1 (num.Bit1 (num.Bit1 (num.Bit1 (num.Bit1 (num.Bit0 (num.Bit0 (num.Bit1
     (num.Bit0 (num.Bit1 (num.Bit1 (num.Bit0 (num.Bit1 (num.Bit0 (num.Bit0 (num.Bit1 (num.Bit1
     (num.Bit0 (num.Bit1 (num.Bit1 (num.Bit0 (num.Bit1 (num.Bit0 (num.Bit0 (num.Bit0 (num.Bit1
     (num.Bit1 (num.Bit0 (num.Bit0 (num.Bit1 (num.Bit0 num.One)))))))))))))))))))))))))))))))]"
  by (simp only: step_matrix_eq seed0_def matrix_eval)

lemma powm_257:
  "powm step_matrix
    (num.Bit1 (num.Bit1 (num.Bit1 (num.Bit1 (num.Bit1 (num.Bit1 (num.Bit1 (num.Bit1 (num.Bit0
     (num.Bit0 (num.Bit0 (num.Bit0 (num.Bit0 (num.Bit0 (num.Bit0 (num.Bit0 (num.Bit1 (num.Bit1
     (num.Bit1 (num.Bit1 (num.Bit1 (num.Bit1 (num.Bit1 num.One)))))))))))))))))))))))
    [seed0] =
    [num.Bit0 (num.Bit1 (num.Bit1 (num.Bit1 (num.Bit1 (num.Bit1 (num.Bit1 (num.Bit0 (num.Bit1
     (num.Bit0 (num.Bit0 (num.Bit1 (num.Bit0 (num.Bit0 (num.Bit0 (num.Bit1 (num.Bit1 (num.Bit0
     (num.Bit1 (num.Bit0 (num.Bit1 (num.Bit0 (num.Bit1 (num.Bit0 (num.Bit0 (num.Bit1 (num.Bit0
     (num.Bit1 (num.Bit0 (num.Bit1 (num.Bit1 (num.Bit1 num.One)))))))))))))))))))))))))))))))]"
  by (simp only: step_matrix_eq seed0_def matrix_eval)

lemma powm_65537:
  "powm step_matrix
    (num.Bit1 (num.Bit1 (num.Bit1 (num.Bit1 (num.Bit1 (num.Bit1 (num.Bit1 (num.Bit1 (num.Bit1
     (num.Bit1 (num.Bit1 (num.Bit1 (num.Bit1 (num.Bit1 (num.Bit1 num.One)))))))))))))))
    [seed0] =
    [num.Bit0 (num.Bit0 (num.Bit1 (num.Bit1 (num.Bit1 (num.Bit1 (num.Bit0 (num.Bit1 (num.Bit1
     (num.Bit1 (num.Bit0 (num.Bit1 (num.Bit1 (num.Bit0 (num.Bit0 (num.Bit0 (num.Bit1 (num.Bit1
     (num.Bit0 (num.Bit1 (num.Bit0 (num.Bit1 (num.Bit1 (num.Bit1 (num.Bit1 (num.Bit1 (num.Bit1
     (num.Bit1 (num.Bit1 (num.Bit0 (num.Bit0 (num.Bit1 num.One)))))))))))))))))))))))))))))))]"
  by (simp only: step_matrix_eq seed0_def matrix_eval)

lemma powm_full:
  "powm step_matrix
    (num.Bit1 (num.Bit1 (num.Bit1 (num.Bit1 (num.Bit1 (num.Bit1 (num.Bit1 (num.Bit1 (num.Bit1
     (num.Bit1 (num.Bit1 (num.Bit1 (num.Bit1 (num.Bit1 (num.Bit1 (num.Bit1 (num.Bit1 (num.Bit1
     (num.Bit1 (num.Bit1 (num.Bit1 (num.Bit1 (num.Bit1 (num.Bit1 (num.Bit1 (num.Bit1 (num.Bit1
     (num.Bit1 (num.Bit1 (num.Bit1 (num.Bit1 num.One)))))))))))))))))))))))))))))))
    [seed0] =
    [num.Bit1 (num.Bit0 (num.Bit1 (num.Bit1 (num.Bit0 (num.Bit1 (num.Bit1 (num.Bit0 (num.Bit0
     (num.Bit0 (num.Bit1 (num.Bit1 (num.Bit0 (num.Bit1 (num.Bit1 (num.Bit0 (num.Bit1 (num.Bit0
     (num.Bit0 (num.Bit0 (num.Bit1 (num.Bit1 (num.Bit1 (num.Bit1 (num.Bit0 (num.Bit0 (num.Bit0
     (num.Bit0 (num.Bit0 (num.Bit1 (num.Bit0 (num.Bit1 num.One)))))))))))))))))))))))))))))))]"
  by (simp only: step_matrix_eq seed0_def matrix_eval)

lemma unit_matrix_words: "map num32 unit_matrix = map (\<lambda>i. push_bit i 1) [0..<32]"
  by (simp add: unit_matrix_eq num32_def upt_rec)

lemma represents_jump: "represents jump_matrix (xorshiftjump ^^ 1048573)"
  unfolding represents_def
proof (intro conjI)
  show "full jump_matrix"
    by (simp add: jump_matrix_eq)
  have "map num32 jump_matrix = map (\<lambda>v. (xorshiftjump ^^ 1048573) (num32 v)) unit_matrix"
    unfolding powm_jump [symmetric] by (rule map_num32_powm [OF represents_step])
  also have "\<dots> = map (xorshiftjump ^^ 1048573) (map num32 unit_matrix)"
    by simp
  finally show "map num32 jump_matrix = cols (xorshiftjump ^^ 1048573)"
    unfolding unit_matrix_words by (simp add: cols_def)
qed (rule linear32_funpow [OF linear32_xorshiftjump])

subsection \<open>From quotients by prime factors to the period\<close>

lemma funpow_gcd:
  fixes f :: "'a \<Rightarrow> 'a"
  assumes "(f ^^ a) x = x" and "(f ^^ b) x = x"
  shows "(f ^^ gcd a b) x = x"
  using assms
proof (induction a b rule: gcd_nat_induct)
  case (step m n)
  then show ?case
    using funpow_period_mod [of n f x m] by (simp add: gcd_non_0_nat)
qed simp

definition prime_upto :: "nat \<Rightarrow> nat \<Rightarrow> bool" where
  "prime_upto m p \<longleftrightarrow> 1 < p \<and> p < m * m \<and> list_all (\<lambda>d. p mod d \<noteq> 0) [2..<m]"

lemma prime_upto_divisor:
  assumes p: "prime_upto m p" and "d dvd p"
  shows "d = 1 \<or> d = p"
proof (rule ccontr)
  assume neg: "\<not> (d = 1 \<or> d = p)"
  from \<open>d dvd p\<close> obtain e where e: "p = d * e" by blast
  have "1 < p" "p < m * m" and small: "\<And>k. 2 \<le> k \<Longrightarrow> k < m \<Longrightarrow> \<not> k dvd p"
    using p by (auto simp: prime_upto_def list_all_iff dvd_eq_mod_eq_0)
  have "d \<noteq> 0" "e \<noteq> 0"
    using \<open>1 < p\<close> e by (metis mult_0 mult_0_right not_one_less_zero)+
  moreover have "d \<noteq> 1" "e \<noteq> 1"
    using neg e by auto
  ultimately have "2 \<le> d" "2 \<le> e"
    by linarith+
  with small e have "m \<le> d" "m \<le> e"
    by (metis dvd_triv_left linorder_not_le, metis dvd_triv_right linorder_not_le)
  with e \<open>p < m * m\<close> show False
    using mult_le_mono [of m d m e] by simp
qed

lemma prime_upto_coprime:
  "prime_upto m p \<Longrightarrow> p dvd k \<or> coprime k p"
  using prime_upto_divisor [of m p "gcd k p"] by (metis coprime_iff_gcd_eq_1 gcd_dvd1 gcd_dvd2)

abbreviation period32 :: nat where "period32 \<equiv> 4294967295"

lemma fermat_factors:
  "prime_upto 2 3" "prime_upto 3 5" "prime_upto 5 17" "prime_upto 17 257" "prime_upto 257 65537"
  by (simp_all add: prime_upto_def upt_rec)

lemma divisor_of_period:
  assumes "g dvd period32" and "g \<noteq> period32"
  shows "g dvd 1431655765 \<or> g dvd 858993459 \<or> g dvd 252645135 \<or> g dvd 16711935 \<or> g dvd 65535"
proof -
  from assms(1) obtain k where k: "period32 = g * k" by blast
  have quot: "g dvd q" if "p dvd k" "period32 = p * q" "0 < p" for p q
  proof -
    from that(1) obtain j where "k = p * j" by blast
    then have "p * q = p * (g * j)"
      using k that(2) by (simp only: ac_simps)
    with that(3) show ?thesis by simp
  qed
  show ?thesis
  proof (rule ccontr)
    assume no: "\<not> ?thesis"
    have "\<not> 3 dvd k" "\<not> 5 dvd k" "\<not> 17 dvd k" "\<not> 257 dvd k" "\<not> 65537 dvd k"
      using no quot [of 3] quot [of 5] quot [of 17] quot [of 257] quot [of 65537] by auto
    then have "coprime k 3" "coprime k 5" "coprime k 17" "coprime k 257" "coprime k 65537"
      using fermat_factors [THEN prime_upto_coprime] by blast+
    then have "coprime k (3 * 5 * 17 * 257 * 65537)"
      by (simp only: coprime_mult_right_iff)
    moreover have "k dvd 3 * 5 * 17 * 257 * 65537"
      using k by (simp add: dvd_def) (metis mult.commute)
    ultimately have "k = 1"
      by (metis coprime_common_divisor_nat dvd_refl nat_dvd_1_iff_1)
    with k assms(2) show False by simp
  qed
qed

lemma orbit_closed: "(xorshiftjump ^^ period32) (num32 seed0) = num32 seed0"
  using num32_powm [OF represents_step powm_full] by (simp add: seed0_def)

lemma seed_period:
  assumes "(xorshiftjump ^^ a) (num32 seed0) = num32 seed0"
  shows "period32 dvd a"
proof -
  let ?x = "num32 seed0"
  have full: "(xorshiftjump ^^ period32) ?x = ?x"
    by (rule orbit_closed)
  let ?g = "gcd a period32"
  have g: "(xorshiftjump ^^ ?g) ?x = ?x"
    using assms full by (rule funpow_gcd)
  have not: "(xorshiftjump ^^ q) ?x = ?x" if "?g dvd q" for q
  proof -
    from that obtain k where "q = ?g * k" by blast
    then show ?thesis
      using g by (simp only: funpow_mult_apply funpow_fixed)
  qed
  have "(xorshiftjump ^^ 1431655765) ?x \<noteq> ?x"
    using num32_powm [OF represents_step powm_3] by (simp add: num32_def seed0_def)
  moreover have "(xorshiftjump ^^ 858993459) ?x \<noteq> ?x"
    using num32_powm [OF represents_step powm_5] by (simp add: num32_def seed0_def)
  moreover have "(xorshiftjump ^^ 252645135) ?x \<noteq> ?x"
    using num32_powm [OF represents_step powm_17] by (simp add: num32_def seed0_def)
  moreover have "(xorshiftjump ^^ 16711935) ?x \<noteq> ?x"
    using num32_powm [OF represents_step powm_257] by (simp add: num32_def seed0_def)
  moreover have "(xorshiftjump ^^ 65535) ?x \<noteq> ?x"
    using num32_powm [OF represents_step powm_65537] by (simp add: num32_def seed0_def)
  ultimately have "?g = period32"
    using divisor_of_period [of ?g] not gcd_dvd2 [of a period32] by blast
  then show ?thesis
    by (metis gcd_dvd1)
qed

subsection \<open>Checking the table\<close>

definition jump1 :: "u32 \<Rightarrow> u32" where
  "jump1 = xorshiftjump ^^ 1048573"

fun jump_chain :: "u32 list \<Rightarrow> bool" where
  "jump_chain (x # y # xs) \<longleftrightarrow> jump1 x = y \<and> jump_chain (y # xs)"
| "jump_chain [x] \<longleftrightarrow> True"
| "jump_chain [] \<longleftrightarrow> True"

fun zeros :: "num \<Rightarrow> bool" where
  "zeros num.One \<longleftrightarrow> True"
| "zeros (num.Bit0 n) \<longleftrightarrow> zeros n"
| "zeros (num.Bit1 n) \<longleftrightarrow> False"

fun same32 :: "num \<Rightarrow> num \<Rightarrow> bool" where
  "same32 (num.Bit0 s) (num.Bit0 m) \<longleftrightarrow> same32 s m"
| "same32 (num.Bit1 s) (num.Bit1 m) \<longleftrightarrow> same32 s m"
| "same32 (num.Bit1 s) num.One \<longleftrightarrow> zeros s"
| "same32 s m \<longleftrightarrow> False"

lemma zeros_value: "zeros s \<Longrightarrow> (numeral s :: int) = 2 ^ digits s"
proof (induction s)
  case (Bit0 s)
  then show ?case
    using numeral_Bit0_eq_double [of s, where ?'a = int] by simp
qed auto

lemma same32_value: "same32 s m \<Longrightarrow> (numeral s :: int) = numeral m + 2 ^ digits s"
proof (induction s m rule: same32.induct)
  case (1 s m)
  then have "(numeral s :: int) = numeral m + 2 ^ digits s"
    by (simp only: same32.simps simp_thms)
  then show ?case
    by (simp only: digits.simps power_Suc numeral_Bit0 [of s] numeral_Bit0 [of m] mult_2 ac_simps)
next
  case (2 s m)
  then have "(numeral s :: int) = numeral m + 2 ^ digits s"
    by (simp only: same32.simps simp_thms)
  then show ?case
    by (simp only: digits.simps power_Suc numeral_Bit1 [of s] numeral_Bit1 [of m] mult_2 ac_simps)
next
  case (3 s)
  then show ?case
    using numeral_Bit1_eq_inc_double [of s, where ?'a = int] zeros_value [of s] by simp
qed auto

lemma word_two_power_32: "(word_of_int (2 ^ 32) :: u32) = 0"
  by simp

lemma jump1_check:
  assumes "same32 (linn jump_matrix n) m"
  shows "(jump1 (numeral n) = numeral m) = True"
proof -
  have full: "full jump_matrix"
    using represents_jump by (simp add: represents_def)
  have "num32 (linn jump_matrix n) = word_of_int (numeral m + 2 ^ 32)"
    using same32_value [OF assms] by (simp only: num32_int digits_linn [OF full])
  also have "\<dots> = num32 m"
    by (simp only: wi_hom_add [symmetric] num32_int word_two_power_32 add_0_right)
  finally show ?thesis
    using represents_linn [OF represents_jump, of n] by (simp add: jump1_def num32_def)
qed

lemmas chain_eval = jump_chain.simps jump1_check [unfolded jump_matrix_eq] linn.simps xorn.simps
  zero32_eq same32.simps zeros.simps simp_thms


end
