(* ===== verification/Xor32_Chain.thy ===== *)
theory Xor32_Chain
  imports Xor32_Jump
begin

text \<open>
  Every entry of the seed table \<open>tmp_xor32_s\<close> (\<open>src/irsgu/xor32s.h\<close>) is the previous one advanced by
  1048573 steps of the xorshift generator, so the streams the seeds start are disjoint for
  1048573 steps each.
\<close>

subsection \<open>The chunks of the table\<close>

lemma jump_chain_append:
  assumes "jump_chain xs" and "jump_chain ys" and "jump_chain [List.last xs, hd ys]"
  shows "jump_chain (xs @ ys)"
  using assms
proof (induction xs rule: jump_chain.induct)
  case (2 x)
  then show ?case by (cases ys) simp_all
qed simp_all

fun linked :: "u32 list list \<Rightarrow> bool" where
  "linked (xs # ys # zs) \<longleftrightarrow>
     xs \<noteq> [] \<and> ys \<noteq> [] \<and> jump_chain xs \<and> jump_chain [List.last xs, hd ys] \<and> linked (ys # zs)"
| "linked [xs] \<longleftrightarrow> xs \<noteq> [] \<and> jump_chain xs"
| "linked [] \<longleftrightarrow> True"

lemma linked_concat: "linked zs \<Longrightarrow> jump_chain (concat zs)"
proof (induction zs rule: linked.induct)
  case (1 xs ys zs)
  then have "jump_chain (xs @ concat (ys # zs))"
    by (intro jump_chain_append) auto
  then show ?case by simp
qed simp_all

lemma jump_chain_nth:
  "jump_chain xs \<Longrightarrow> Suc i < length xs \<Longrightarrow> xs ! Suc i = jump1 (xs ! i)"
proof (induction xs arbitrary: i rule: jump_chain.induct)
  case (1 x y xs)
  then show ?case by (cases i) auto
qed simp_all

lemmas link_eval = List.last.simps list.sel list.simps if_False if_True chain_eval

lemma chain_00: "jump_chain tmp_xor32_s_00"
  by (simp only: tmp_xor32_s_00_def chain_eval)

lemma chain_01: "jump_chain tmp_xor32_s_01"
  by (simp only: tmp_xor32_s_01_def chain_eval)

lemma chain_02: "jump_chain tmp_xor32_s_02"
  by (simp only: tmp_xor32_s_02_def chain_eval)

lemma chain_03: "jump_chain tmp_xor32_s_03"
  by (simp only: tmp_xor32_s_03_def chain_eval)

lemma chain_04: "jump_chain tmp_xor32_s_04"
  by (simp only: tmp_xor32_s_04_def chain_eval)

lemma chain_05: "jump_chain tmp_xor32_s_05"
  by (simp only: tmp_xor32_s_05_def chain_eval)

lemma chain_06: "jump_chain tmp_xor32_s_06"
  by (simp only: tmp_xor32_s_06_def chain_eval)

lemma chain_07: "jump_chain tmp_xor32_s_07"
  by (simp only: tmp_xor32_s_07_def chain_eval)

lemma chain_08: "jump_chain tmp_xor32_s_08"
  by (simp only: tmp_xor32_s_08_def chain_eval)

lemma chain_09: "jump_chain tmp_xor32_s_09"
  by (simp only: tmp_xor32_s_09_def chain_eval)

lemma chain_10: "jump_chain tmp_xor32_s_10"
  by (simp only: tmp_xor32_s_10_def chain_eval)

lemma chain_11: "jump_chain tmp_xor32_s_11"
  by (simp only: tmp_xor32_s_11_def chain_eval)

lemma chain_12: "jump_chain tmp_xor32_s_12"
  by (simp only: tmp_xor32_s_12_def chain_eval)

lemma chain_13: "jump_chain tmp_xor32_s_13"
  by (simp only: tmp_xor32_s_13_def chain_eval)

lemma chain_14: "jump_chain tmp_xor32_s_14"
  by (simp only: tmp_xor32_s_14_def chain_eval)

lemma chain_15: "jump_chain tmp_xor32_s_15"
  by (simp only: tmp_xor32_s_15_def chain_eval)

lemma chain_16: "jump_chain tmp_xor32_s_16"
  by (simp only: tmp_xor32_s_16_def chain_eval)

lemma chain_17: "jump_chain tmp_xor32_s_17"
  by (simp only: tmp_xor32_s_17_def chain_eval)

lemma chain_18: "jump_chain tmp_xor32_s_18"
  by (simp only: tmp_xor32_s_18_def chain_eval)

lemma chain_19: "jump_chain tmp_xor32_s_19"
  by (simp only: tmp_xor32_s_19_def chain_eval)

lemma chain_20: "jump_chain tmp_xor32_s_20"
  by (simp only: tmp_xor32_s_20_def chain_eval)

lemma chain_21: "jump_chain tmp_xor32_s_21"
  by (simp only: tmp_xor32_s_21_def chain_eval)

lemma chain_22: "jump_chain tmp_xor32_s_22"
  by (simp only: tmp_xor32_s_22_def chain_eval)

lemma chain_23: "jump_chain tmp_xor32_s_23"
  by (simp only: tmp_xor32_s_23_def chain_eval)

lemma chain_24: "jump_chain tmp_xor32_s_24"
  by (simp only: tmp_xor32_s_24_def chain_eval)

lemma chain_25: "jump_chain tmp_xor32_s_25"
  by (simp only: tmp_xor32_s_25_def chain_eval)

lemma chain_26: "jump_chain tmp_xor32_s_26"
  by (simp only: tmp_xor32_s_26_def chain_eval)

lemma chain_27: "jump_chain tmp_xor32_s_27"
  by (simp only: tmp_xor32_s_27_def chain_eval)

lemma link_00: "jump_chain [List.last tmp_xor32_s_00, hd tmp_xor32_s_01]"
  by (simp only: tmp_xor32_s_00_def tmp_xor32_s_01_def link_eval)

lemma link_01: "jump_chain [List.last tmp_xor32_s_01, hd tmp_xor32_s_02]"
  by (simp only: tmp_xor32_s_01_def tmp_xor32_s_02_def link_eval)

lemma link_02: "jump_chain [List.last tmp_xor32_s_02, hd tmp_xor32_s_03]"
  by (simp only: tmp_xor32_s_02_def tmp_xor32_s_03_def link_eval)

lemma link_03: "jump_chain [List.last tmp_xor32_s_03, hd tmp_xor32_s_04]"
  by (simp only: tmp_xor32_s_03_def tmp_xor32_s_04_def link_eval)

lemma link_04: "jump_chain [List.last tmp_xor32_s_04, hd tmp_xor32_s_05]"
  by (simp only: tmp_xor32_s_04_def tmp_xor32_s_05_def link_eval)

lemma link_05: "jump_chain [List.last tmp_xor32_s_05, hd tmp_xor32_s_06]"
  by (simp only: tmp_xor32_s_05_def tmp_xor32_s_06_def link_eval)

lemma link_06: "jump_chain [List.last tmp_xor32_s_06, hd tmp_xor32_s_07]"
  by (simp only: tmp_xor32_s_06_def tmp_xor32_s_07_def link_eval)

lemma link_07: "jump_chain [List.last tmp_xor32_s_07, hd tmp_xor32_s_08]"
  by (simp only: tmp_xor32_s_07_def tmp_xor32_s_08_def link_eval)

lemma link_08: "jump_chain [List.last tmp_xor32_s_08, hd tmp_xor32_s_09]"
  by (simp only: tmp_xor32_s_08_def tmp_xor32_s_09_def link_eval)

lemma link_09: "jump_chain [List.last tmp_xor32_s_09, hd tmp_xor32_s_10]"
  by (simp only: tmp_xor32_s_09_def tmp_xor32_s_10_def link_eval)

lemma link_10: "jump_chain [List.last tmp_xor32_s_10, hd tmp_xor32_s_11]"
  by (simp only: tmp_xor32_s_10_def tmp_xor32_s_11_def link_eval)

lemma link_11: "jump_chain [List.last tmp_xor32_s_11, hd tmp_xor32_s_12]"
  by (simp only: tmp_xor32_s_11_def tmp_xor32_s_12_def link_eval)

lemma link_12: "jump_chain [List.last tmp_xor32_s_12, hd tmp_xor32_s_13]"
  by (simp only: tmp_xor32_s_12_def tmp_xor32_s_13_def link_eval)

lemma link_13: "jump_chain [List.last tmp_xor32_s_13, hd tmp_xor32_s_14]"
  by (simp only: tmp_xor32_s_13_def tmp_xor32_s_14_def link_eval)

lemma link_14: "jump_chain [List.last tmp_xor32_s_14, hd tmp_xor32_s_15]"
  by (simp only: tmp_xor32_s_14_def tmp_xor32_s_15_def link_eval)

lemma link_15: "jump_chain [List.last tmp_xor32_s_15, hd tmp_xor32_s_16]"
  by (simp only: tmp_xor32_s_15_def tmp_xor32_s_16_def link_eval)

lemma link_16: "jump_chain [List.last tmp_xor32_s_16, hd tmp_xor32_s_17]"
  by (simp only: tmp_xor32_s_16_def tmp_xor32_s_17_def link_eval)

lemma link_17: "jump_chain [List.last tmp_xor32_s_17, hd tmp_xor32_s_18]"
  by (simp only: tmp_xor32_s_17_def tmp_xor32_s_18_def link_eval)

lemma link_18: "jump_chain [List.last tmp_xor32_s_18, hd tmp_xor32_s_19]"
  by (simp only: tmp_xor32_s_18_def tmp_xor32_s_19_def link_eval)

lemma link_19: "jump_chain [List.last tmp_xor32_s_19, hd tmp_xor32_s_20]"
  by (simp only: tmp_xor32_s_19_def tmp_xor32_s_20_def link_eval)

lemma link_20: "jump_chain [List.last tmp_xor32_s_20, hd tmp_xor32_s_21]"
  by (simp only: tmp_xor32_s_20_def tmp_xor32_s_21_def link_eval)

lemma link_21: "jump_chain [List.last tmp_xor32_s_21, hd tmp_xor32_s_22]"
  by (simp only: tmp_xor32_s_21_def tmp_xor32_s_22_def link_eval)

lemma link_22: "jump_chain [List.last tmp_xor32_s_22, hd tmp_xor32_s_23]"
  by (simp only: tmp_xor32_s_22_def tmp_xor32_s_23_def link_eval)

lemma link_23: "jump_chain [List.last tmp_xor32_s_23, hd tmp_xor32_s_24]"
  by (simp only: tmp_xor32_s_23_def tmp_xor32_s_24_def link_eval)

lemma link_24: "jump_chain [List.last tmp_xor32_s_24, hd tmp_xor32_s_25]"
  by (simp only: tmp_xor32_s_24_def tmp_xor32_s_25_def link_eval)

lemma link_25: "jump_chain [List.last tmp_xor32_s_25, hd tmp_xor32_s_26]"
  by (simp only: tmp_xor32_s_25_def tmp_xor32_s_26_def link_eval)

lemma link_26: "jump_chain [List.last tmp_xor32_s_26, hd tmp_xor32_s_27]"
  by (simp only: tmp_xor32_s_26_def tmp_xor32_s_27_def link_eval)

lemmas chains =
  chain_00
  chain_01
  chain_02
  chain_03
  chain_04
  chain_05
  chain_06
  chain_07
  chain_08
  chain_09
  chain_10
  chain_11
  chain_12
  chain_13
  chain_14
  chain_15
  chain_16
  chain_17
  chain_18
  chain_19
  chain_20
  chain_21
  chain_22
  chain_23
  chain_24
  chain_25
  chain_26
  chain_27

lemmas links =
  link_00
  link_01
  link_02
  link_03
  link_04
  link_05
  link_06
  link_07
  link_08
  link_09
  link_10
  link_11
  link_12
  link_13
  link_14
  link_15
  link_16
  link_17
  link_18
  link_19
  link_20
  link_21
  link_22
  link_23
  link_24
  link_25
  link_26

lemma chunks_length:
  "length tmp_xor32_s_00 = 147"
  "length tmp_xor32_s_01 = 147"
  "length tmp_xor32_s_02 = 147"
  "length tmp_xor32_s_03 = 147"
  "length tmp_xor32_s_04 = 147"
  "length tmp_xor32_s_05 = 147"
  "length tmp_xor32_s_06 = 147"
  "length tmp_xor32_s_07 = 147"
  "length tmp_xor32_s_08 = 147"
  "length tmp_xor32_s_09 = 147"
  "length tmp_xor32_s_10 = 147"
  "length tmp_xor32_s_11 = 147"
  "length tmp_xor32_s_12 = 147"
  "length tmp_xor32_s_13 = 147"
  "length tmp_xor32_s_14 = 147"
  "length tmp_xor32_s_15 = 147"
  "length tmp_xor32_s_16 = 147"
  "length tmp_xor32_s_17 = 147"
  "length tmp_xor32_s_18 = 147"
  "length tmp_xor32_s_19 = 147"
  "length tmp_xor32_s_20 = 147"
  "length tmp_xor32_s_21 = 147"
  "length tmp_xor32_s_22 = 147"
  "length tmp_xor32_s_23 = 147"
  "length tmp_xor32_s_24 = 147"
  "length tmp_xor32_s_25 = 147"
  "length tmp_xor32_s_26 = 147"
  "length tmp_xor32_s_27 = 127"
  by (simp_all add: tmp_xor32_s_defs)

lemma chunks_not_Nil:
  "tmp_xor32_s_00 \<noteq> []"
  "tmp_xor32_s_01 \<noteq> []"
  "tmp_xor32_s_02 \<noteq> []"
  "tmp_xor32_s_03 \<noteq> []"
  "tmp_xor32_s_04 \<noteq> []"
  "tmp_xor32_s_05 \<noteq> []"
  "tmp_xor32_s_06 \<noteq> []"
  "tmp_xor32_s_07 \<noteq> []"
  "tmp_xor32_s_08 \<noteq> []"
  "tmp_xor32_s_09 \<noteq> []"
  "tmp_xor32_s_10 \<noteq> []"
  "tmp_xor32_s_11 \<noteq> []"
  "tmp_xor32_s_12 \<noteq> []"
  "tmp_xor32_s_13 \<noteq> []"
  "tmp_xor32_s_14 \<noteq> []"
  "tmp_xor32_s_15 \<noteq> []"
  "tmp_xor32_s_16 \<noteq> []"
  "tmp_xor32_s_17 \<noteq> []"
  "tmp_xor32_s_18 \<noteq> []"
  "tmp_xor32_s_19 \<noteq> []"
  "tmp_xor32_s_20 \<noteq> []"
  "tmp_xor32_s_21 \<noteq> []"
  "tmp_xor32_s_22 \<noteq> []"
  "tmp_xor32_s_23 \<noteq> []"
  "tmp_xor32_s_24 \<noteq> []"
  "tmp_xor32_s_25 \<noteq> []"
  "tmp_xor32_s_26 \<noteq> []"
  "tmp_xor32_s_27 \<noteq> []"
  by (simp_all only: tmp_xor32_s_defs list.distinct not_False_eq_True)

subsection \<open>The whole table\<close>

lemma jump_chain_table: "jump_chain tmp_xor32_s"
  unfolding tmp_xor32_s_def
  by (rule linked_concat) (simp only: linked.simps chunks_not_Nil chains links simp_thms not_False_eq_True)

lemma length_table: "length tmp_xor32_s = 4096"
  by (simp add: tmp_xor32_s_def chunks_length)

lemma table_0: "tmp_xor32_s ! 0 = num32 seed0"
  by (simp add: tmp_xor32_s_def tmp_xor32_s_00_def num32_def seed0_def)

lemma table_nth:
  "i < 4096 \<Longrightarrow> tmp_xor32_s ! i = (xorshiftjump ^^ (1048573 * i)) (num32 seed0)"
proof (induction i)
  case (Suc i)
  then have "tmp_xor32_s ! Suc i = jump1 (tmp_xor32_s ! i)"
    by (intro jump_chain_nth jump_chain_table) (simp add: length_table)
  with Suc show ?case
    by (simp only: jump1_def Suc_lessD mult_Suc_right funpow_add comp_apply)
qed (simp add: table_0)

lemma xorshiftjump_orbit_inj:
  assumes "(xorshiftjump ^^ a) (num32 seed0) = (xorshiftjump ^^ b) (num32 seed0)"
    and "a < period32" and "b < period32"
  shows "a = b"
proof -
  have *: "a = b" if le: "a \<le> b" and lt: "b < period32"
    and eq: "(xorshiftjump ^^ a) (num32 seed0) = (xorshiftjump ^^ b) (num32 seed0)" for a b
  proof -
    have full: "(xorshiftjump ^^ period32) (num32 seed0) = num32 seed0"
      by (rule orbit_closed)
    have "(xorshiftjump ^^ (period32 - b)) ((xorshiftjump ^^ a) (num32 seed0)) = num32 seed0"
      using full lt by (simp only: eq funpow_add_apply [symmetric]) simp
    then have "(xorshiftjump ^^ (period32 - b + a)) (num32 seed0) = num32 seed0"
      by (simp only: funpow_add comp_apply)
    then have "period32 dvd period32 - b + a"
      by (rule seed_period)
    moreover have "0 < period32 - b + a" "period32 - b + a \<le> period32"
      using le lt by auto
    ultimately have "period32 - b + a = period32"
      using dvd_imp_le by fastforce
    with le lt show ?thesis by linarith
  qed
  show ?thesis
    using assms * [of a b] * [of b a] by (metis nat_le_linear)
qed

lemma xorshift_streams_disjoint:
  assumes "i < length tmp_xor32_s" and "j < length tmp_xor32_s"
    and "m < 1048573" and "n < 1048573"
    and "(xorshiftjump ^^ m) (tmp_xor32_s ! i) = (xorshiftjump ^^ n) (tmp_xor32_s ! j)"
  shows "i = j \<and> m = n"
proof -
  have i: "i < 4096" and j: "j < 4096"
    using assms(1,2) by (simp_all only: length_table)
  have "(xorshiftjump ^^ (m + 1048573 * i)) (num32 seed0) = (xorshiftjump ^^ (n + 1048573 * j)) (num32 seed0)"
    using assms(5) by (simp only: table_nth [OF i] table_nth [OF j] funpow_add comp_apply)
  then have "m + 1048573 * i = n + 1048573 * j"
    by (rule xorshiftjump_orbit_inj) (use assms(3,4) i j in linarith)+
  then have "(m + 1048573 * i) div 1048573 = (n + 1048573 * j) div 1048573"
    by simp
  then have "i = j"
    using assms(3,4) by simp
  with \<open>m + 1048573 * i = n + 1048573 * j\<close> show ?thesis by simp
qed

text \<open>
  C18: the streams started by two seeds of the table share no value within their first 1048573
  steps: step \<open>m\<close> of stream \<open>i\<close> equals step \<open>n\<close> of stream \<open>j\<close> only for \<open>i = j\<close> and \<open>m = n\<close>.
\<close>

theorem seed_streams_disjoint:
  assumes "i < length tmp_xor32_s" and "j < length tmp_xor32_s"
    and "m < 1048573" and "n < 1048573"
    and "(xorshiftjump ^^ m) (tmp_xor32_s ! i) = (xorshiftjump ^^ n) (tmp_xor32_s ! j)"
  shows "i = j \<and> m = n"
  using assms by (rule xorshift_streams_disjoint)

theorem seed_streams_disjoint_witness:
  "xorshiftjump (tmp_xor32_s ! 0) \<noteq> tmp_xor32_s ! 1"
proof
  assume "xorshiftjump (tmp_xor32_s ! 0) = tmp_xor32_s ! 1"
  then show False
    using seed_streams_disjoint [of 0 1 1 0] by (simp add: length_table)
qed

end
