(* ===== verification/Rng_Instance.thy ===== *)
theory Rng_Instance
  imports Xor32_Chain
begin

text \<open>
  The random number unit \<open>src/lv_sou/rng_instance.cpp\<close>: eight pipelines fed by one chain of
  generator states.  A process that only reads and writes blocking streams is the function from
  the values it reads to the values it writes; the non-blocking write of \<open>instance\<close> drops its
  value where the stream is full, which an argument \<open>isfull k\<close> says of every iteration \<open>k\<close>.
\<close>

definition NRNG :: nat where "NRNG = 8"

definition KERNEL_ID :: nat where "KERNEL_ID = 1 * NRNG - 1"

text \<open>One iteration of \<open>leaf_state_stream\<close>: the state passed on and the leaf state.\<close>

definition leaf_state_step :: "nat \<Rightarrow> u64 \<Rightarrow> u64 \<times> u32" where
  "leaf_state_step local_id state =
     (let id = KERNEL_ID + local_id;
          update = multi_stream state (54 + of_nat id);
          leaf_state = output_function update
      in (state, leaf_state))"

fun leaf_state_stream :: "nat \<Rightarrow> u64 stream \<Rightarrow> u64 stream \<times> u32 stream" where
  "leaf_state_stream local_id [] = ([], [])"
| "leaf_state_stream local_id (x # ins) =
     (let (state, leaf) = leaf_state_step local_id x; (outs, inner_out) = leaf_state_stream local_id ins
      in (state # outs, leaf # inner_out))"

text \<open>The loop of \<open>instance\<close>, from its generator state and the number of the next iteration on.\<close>

fun instance_loop :: "(nat \<Rightarrow> bool) \<Rightarrow> u32 \<Rightarrow> nat \<Rightarrow> u32 stream \<Rightarrow> u32 stream" where
  "instance_loop isfull sg_state k [] = []"
| "instance_loop isfull sg_state k (state # s_in) =
     (let sg = xorshiftjump sg_state;
          sg_state = sg;
          output_rng = sg XOR state;
          rest = instance_loop isfull sg_state (Suc k) s_in
      in if isfull k then rest else output_rng # rest)"

definition instance_out :: "(nat \<Rightarrow> bool) \<Rightarrow> nat \<Rightarrow> u32 stream \<Rightarrow> u32 stream" where
  "instance_out isfull local_id s_in =
     (let id = KERNEL_ID + local_id; tmp = tmp_xor32_s ! id in instance_loop isfull tmp 0 s_in)"

text \<open>The variant without leaf states, for reproducible runs: what it has written after \<open>n\<close> iterations.\<close>

fun instance_xor_only_loop :: "u32 \<Rightarrow> nat \<Rightarrow> u32 stream" where
  "instance_xor_only_loop sg_state 0 = []"
| "instance_xor_only_loop sg_state (Suc n) =
     (let sg = xorshiftjump sg_state; sg_state = sg; output_rng = sg
      in output_rng # instance_xor_only_loop sg_state n)"

definition instance_xor_only :: "nat \<Rightarrow> nat \<Rightarrow> u32 stream" where
  "instance_xor_only local_id n =
     (let id = KERNEL_ID + local_id; tmp = tmp_xor32_s ! id in instance_xor_only_loop tmp n)"

text \<open>The chain of the kernel, pipelines \<open>i\<close> up to the last: the values on \<open>s_out\<close> and on each output.\<close>

fun rng_chain :: "(nat \<Rightarrow> nat \<Rightarrow> bool) \<Rightarrow> nat list \<Rightarrow> u64 stream \<Rightarrow> u64 stream \<times> u32 stream list" where
  "rng_chain isfull [] inner = (inner, [])"
| "rng_chain isfull (i # is) inner =
     (let (inner', leaf) = leaf_state_stream i inner;
          rng_out = instance_out (isfull i) i leaf;
          (s_out, outs) = rng_chain isfull is inner'
      in (s_out, rng_out # outs))"

definition rng_instance :: "(nat \<Rightarrow> nat \<Rightarrow> bool) \<Rightarrow> u64 stream \<Rightarrow> u64 stream \<times> u32 stream list" where
  "rng_instance isfull s_in = rng_chain isfull [0..<8] s_in"

subsection \<open>Closed forms\<close>

lemma leaf_state_stream_eq:
  "leaf_state_stream i xs = (xs, map (\<lambda>x. snd (leaf_state_step i x)) xs)"
  by (induction xs) (simp_all add: leaf_state_step_def Let_def)

lemma upt_shift_Suc: "[k..<Suc (k + n)] = k # [Suc k..<Suc k + n]"
  by (simp add: upt_conv_Cons)

lemma instance_loop_eq:
  "instance_loop isfull sg k xs =
     map (\<lambda>j. (xorshiftjump ^^ Suc (j - k)) sg XOR xs ! (j - k))
       (filter (\<lambda>j. \<not> isfull j) [k..<k + length xs])"
proof (induction xs arbitrary: sg k)
  case (Cons x xs)
  have "map (\<lambda>j. (xorshiftjump ^^ Suc (j - Suc k)) (xorshiftjump sg) XOR xs ! (j - Suc k))
          (filter (\<lambda>j. \<not> isfull j) [Suc k..<Suc k + length xs]) =
        map (\<lambda>j. (xorshiftjump ^^ Suc (j - k)) sg XOR (x # xs) ! (j - k))
          (filter (\<lambda>j. \<not> isfull j) [Suc k..<Suc k + length xs])"
  proof (rule map_cong [OF refl])
    fix j assume "j \<in> set (filter (\<lambda>j. \<not> isfull j) [Suc k..<Suc k + length xs])"
    then have "j - k = Suc (j - Suc k)" by auto
    then show "(xorshiftjump ^^ Suc (j - Suc k)) (xorshiftjump sg) XOR xs ! (j - Suc k) =
        (xorshiftjump ^^ Suc (j - k)) sg XOR (x # xs) ! (j - k)"
      by (simp only: nth_Cons_Suc funpow_Suc_right comp_apply)
  qed
  with Cons.IH [of "xorshiftjump sg" "Suc k"] show ?case
    by (simp only: instance_loop.simps Let_def list.size add_0_right add_Suc_right upt_shift_Suc
        filter.simps if_cancel split: if_split) simp
qed simp

lemma rng_chain_eq:
  "rng_chain isfull is xs =
     (xs, map (\<lambda>i. instance_out (isfull i) i (map (\<lambda>x. snd (leaf_state_step i x)) xs)) is)"
  by (induction "is" arbitrary: xs) (simp_all add: leaf_state_stream_eq)

lemma instance_xor_only_eq:
  "instance_xor_only i n = map (\<lambda>k. (xorshiftjump ^^ Suc k) (tmp_xor32_s ! (KERNEL_ID + i))) [0..<n]"
proof -
  have "instance_xor_only_loop sg n = map (\<lambda>k. (xorshiftjump ^^ Suc k) sg) [0..<n]" for sg
    by (induction n arbitrary: sg)
      (simp_all add: map_upt_Suc funpow_swap1 Let_def del: upt_Suc)
  then show ?thesis
    by (simp add: instance_xor_only_def Let_def)
qed

text \<open>
  C23: the kernel \<open>rng_instance\<close> passes every state on, and pipeline \<open>i\<close> emits, for exactly the
  iterations \<open>k\<close> at which its output stream has room and in their order, the \<open>k + 1\<close>st value of
  the xorshift stream with seed \<open>7 + i\<close>, exclusive-or the permuted state \<open>k\<close> of its own additive
  stream \<open>61 + i\<close>: full streams lose values but never delay or shift the generator.
\<close>

theorem rng_instance_output:
  "rng_instance isfull xs =
     (xs, map (\<lambda>i. map (\<lambda>k. (xorshiftjump ^^ Suc k) (tmp_xor32_s ! (7 + i)) XOR
                             output_function (multi_stream (xs ! k) (61 + of_nat i)))
                   (filter (\<lambda>k. \<not> isfull i k) [0..<length xs]))
            [0..<8])"
proof -
  have "instance_out (isfull i) i (map (\<lambda>x. snd (leaf_state_step i x)) xs) =
      map (\<lambda>k. (xorshiftjump ^^ Suc k) (tmp_xor32_s ! (7 + i)) XOR
               output_function (multi_stream (xs ! k) (61 + of_nat i)))
          (filter (\<lambda>k. \<not> isfull i k) [0..<length xs])" for i
  proof -
    have id: "KERNEL_ID = 7"
      by (simp add: KERNEL_ID_def NRNG_def)
    have c: "(54 :: u64) + (7 + of_nat i) = 61 + of_nat i"
      by simp
    show ?thesis
      by (auto simp: instance_out_def Let_def instance_loop_eq leaf_state_step_def id c
          simp del: funpow.simps intro!: map_cong)
  qed
  then show ?thesis
    by (simp only: rng_instance_def rng_chain_eq)
qed

text \<open>
  C24: two pipelines of the reproducible kernel, or two places of one pipeline, never draw the same
  32-bit value within their first 1048572 outputs.
\<close>

theorem instance_xor_only_distinct:
  assumes "n \<le> 1048572" and "i < 8" and "j < 8" and "k < n" and "l < n"
    and "instance_xor_only i n ! k = instance_xor_only j n ! l"
  shows "i = j \<and> k = l"
proof -
  have "KERNEL_ID + i < length tmp_xor32_s" "KERNEL_ID + j < length tmp_xor32_s"
    using assms(2,3) by (simp_all add: KERNEL_ID_def NRNG_def length_table)
  moreover have "(xorshiftjump ^^ Suc k) (tmp_xor32_s ! (KERNEL_ID + i)) =
      (xorshiftjump ^^ Suc l) (tmp_xor32_s ! (KERNEL_ID + j))"
    using assms(4-6) by (simp add: instance_xor_only_eq del: funpow.simps)
  ultimately have "KERNEL_ID + i = KERNEL_ID + j \<and> Suc k = Suc l"
    using assms(1,4,5) by (intro xorshift_streams_disjoint) simp_all
  then show ?thesis by simp
qed

theorem instance_xor_only_distinct_witness:
  "instance_xor_only 0 2 ! 1 \<noteq> instance_xor_only 3 2 ! 0"
proof
  assume "instance_xor_only 0 2 ! 1 = instance_xor_only 3 2 ! 0"
  then show False
    using instance_xor_only_distinct [of 2 0 3 1 0] by simp
qed

end
