(* ===== verification/Places.thy ===== *)
theory Places
  imports Prelude
begin

text \<open>
  Abstract specification of what a network of FIFO streams does to the items in it: an item at the
  head of a place moves to the end of another place.  The locales state what a network has to
  guarantee for items to be conserved, to stay in order along their path and to come to rest.
\<close>

section \<open>Moving items between places\<close>

record ('e, 'a) flow =
  contents :: "'e \<Rightarrow> 'a list"
  entered :: "'e \<Rightarrow> 'a list"

definition flow_init :: "('e, 'a) flow" where
  "flow_init = \<lparr>contents = (\<lambda>_. []), entered = (\<lambda>_. [])\<rparr>"

definition move_item :: "'e \<Rightarrow> 'e \<Rightarrow> ('e, 'a) flow \<Rightarrow> ('e, 'a) flow" where
  "move_item e e' s =
     s\<lparr>contents := (contents s)(e := tl (contents s e), e' := contents s e' @ [hd (contents s e)])\<rparr>"

definition enter_item :: "'e \<Rightarrow> 'a \<Rightarrow> ('e, 'a) flow \<Rightarrow> ('e, 'a) flow" where
  "enter_item e x s =
     s\<lparr>contents := (contents s)(e := contents s e @ [x]), entered := (entered s)(e := entered s e @ [x])\<rparr>"

lemma contents_move: "contents (move_item e e' s) =
    (contents s)(e := tl (contents s e), e' := contents s e' @ [hd (contents s e)])"
  and entered_move: "entered (move_item e e' s) = entered s"
  and contents_enter: "contents (enter_item e x s) = (contents s)(e := contents s e @ [x])"
  and entered_enter: "entered (enter_item e x s) = (entered s)(e := entered s e @ [x])"
  by (simp_all add: move_item_def enter_item_def)

lemmas flow_sel = contents_move entered_move contents_enter entered_enter

inductive flow_step :: "('e \<Rightarrow> 'a \<Rightarrow> 'e \<Rightarrow> bool) \<Rightarrow> 'e set \<Rightarrow> ('e, 'a) flow \<Rightarrow> ('e, 'a) flow \<Rightarrow> bool"
  for hop entry where
  move: "contents s e \<noteq> [] \<Longrightarrow> hop e (hd (contents s e)) e' \<Longrightarrow> flow_step hop entry s (move_item e e' s)"
| enter: "e \<in> entry \<Longrightarrow> flow_step hop entry s (enter_item e x s)"

inductive_cases flow_stepE: "flow_step hop entry s t"

inductive flow_reachable :: "('e \<Rightarrow> 'a \<Rightarrow> 'e \<Rightarrow> bool) \<Rightarrow> 'e set \<Rightarrow> ('e, 'a) flow \<Rightarrow> bool"
  for hop entry where
  init: "flow_reachable hop entry flow_init"
| step: "flow_reachable hop entry s \<Longrightarrow> flow_step hop entry s t \<Longrightarrow> flow_reachable hop entry t"

lemma entered_mono:
  "flow_step hop entry s t \<Longrightarrow> set (entered s e) \<subseteq> set (entered t e)"
  by (auto elim!: flow_stepE simp: move_item_def enter_item_def)

lemma entered_outside:
  "flow_reachable hop entry s \<Longrightarrow> e \<notin> entry \<Longrightarrow> entered s e = []"
proof (induction rule: flow_reachable.induct)
  case (step s t)
  then show ?case
    by (auto elim!: flow_stepE simp: flow_sel)
qed (simp add: flow_init_def)

text \<open>What holds where an item enters and is kept by every move holds wherever an item is.\<close>

lemma flow_place_inv:
  assumes "flow_reachable hop entry s"
    and "\<And>e x. e \<in> entry \<Longrightarrow> P e x"
    and "\<And>e x e'. hop e x e' \<Longrightarrow> P e x \<Longrightarrow> P e' x"
  shows "x \<in> set (contents s e) \<Longrightarrow> P e x"
  using assms(1)
proof (induction arbitrary: e x rule: flow_reachable.induct)
  case (step s t)
  have tl: "y \<in> set xs" if "y \<in> set (tl xs)" for y :: 'b and xs
    using that by (cases xs) auto
  from step.hyps(2) show ?case
  proof cases
    case (move d d')
    have "P d (hd (contents s d))"
      using step.IH move(2) by simp
    then have "P d' (hd (contents s d))"
      using assms(3) move(3) by blast
    with step move(1) tl show ?thesis
      by (auto simp: flow_sel split: if_splits)
  next
    case (enter d y)
    with step assms(2) show ?thesis
      by (auto simp: flow_sel split: if_splits)
  qed
qed (simp add: flow_init_def)

section \<open>Conservation\<close>

text \<open>A network of places: no item stays where it is by moving.\<close>

locale places =
  fixes hop :: "'e \<Rightarrow> 'a \<Rightarrow> 'e \<Rightarrow> bool" and entry :: "'e set" and all_places :: "'e set"
  assumes finite_places: "finite all_places"
    and entry_places: "entry \<subseteq> all_places"
    and hop_places: "hop e x e' \<Longrightarrow> e \<in> all_places \<and> e' \<in> all_places \<and> e \<noteq> e'"

context places begin

definition items :: "('e \<Rightarrow> 'a list) \<Rightarrow> 'a multiset" where
  "items f = (\<Sum>e \<in> all_places. mset (f e))"

lemma items_upd: "e \<in> all_places \<Longrightarrow> items (f(e := xs)) = mset xs + (\<Sum>e \<in> all_places - {e}. mset (f e))"
  unfolding items_def using finite_places
  by (simp add: sum.remove [of all_places e])

lemma items_enter: "e \<in> all_places \<Longrightarrow> items (f(e := f e @ [x])) = add_mset x (items f)"
  unfolding items_def using finite_places
  by (simp add: sum.remove [of all_places e])

lemma items_move:
  assumes "f e \<noteq> []" and "hop e (hd (f e)) e'"
  shows "items (f(e := tl (f e), e' := f e' @ [hd (f e)])) = items f"
proof -
  let ?g = "f(e := tl (f e))"
  have e: "e \<in> all_places" "e' \<in> all_places" "e \<noteq> e'"
    using hop_places [OF assms(2)] by auto
  have "items (?g(e' := ?g e' @ [hd (f e)])) = add_mset (hd (f e)) (items ?g)"
    using e(2) by (rule items_enter)
  also have "\<dots> = items (?g(e := ?g e @ [])) + {#hd (f e)#}"
    by simp
  also have "\<dots> = mset (hd (f e) # tl (f e)) + (\<Sum>e \<in> all_places - {e}. mset (f e))"
    using e(1) by (simp add: items_upd)
  also have "\<dots> = items f"
    using assms(1) e(1) finite_places by (simp add: items_def sum.remove [of all_places e] del: mset.simps)
  finally show ?thesis
    using e(3) by simp
qed

lemma conserved: "flow_reachable hop entry s \<Longrightarrow> items (contents s) = items (entered s)"
proof (induction rule: flow_reachable.induct)
  case init
  then show ?case by (simp add: flow_init_def items_def)
next
  case (step s t)
  from step.hyps(2) show ?case
  proof cases
    case (move e e')
    with step.IH show ?thesis by (simp only: flow_sel items_move [of "contents s", OF move(2,3)])
  next
    case (enter e x)
    then have e: "e \<in> all_places"
      using entry_places by blast
    show ?thesis
      by (simp only: enter(1) flow_sel items_enter [OF e] step.IH)
  qed
qed

lemma outside_empty:
  "flow_reachable hop entry s \<Longrightarrow> e \<notin> all_places \<Longrightarrow> contents s e = [] \<and> entered s e = []"
proof (induction rule: flow_reachable.induct)
  case init
  then show ?case by (simp add: flow_init_def)
next
  case (step s t)
  from step.hyps(2) show ?case
  proof cases
    case (move d d')
    with hop_places [OF move(3)] step show ?thesis by (auto simp: flow_sel)
  next
    case (enter d x)
    with entry_places step show ?thesis by (auto simp: flow_sel)
  qed
qed

end

section \<open>Order along a path\<close>

text \<open>
  The items of one flow (those with \<open>member x\<close>) enter at the head of a path of distinct places
  and every move takes them to the next place of the path.
\<close>

lemma concat_map_upd:
  "e \<notin> set xs \<Longrightarrow> concat (map (\<lambda>d. g ((f(e := v)) d)) xs) = concat (map (\<lambda>d. g (f d)) xs)"
  by (induction xs) auto

definition adjacent :: "'e list \<Rightarrow> 'e \<Rightarrow> 'e \<Rightarrow> bool" where
  "adjacent path e e' \<longleftrightarrow> (\<exists>p q. path = p @ e # e' # q)"

locale flow_path = places +
  fixes member :: "'b \<Rightarrow> bool" and path :: "'a list"
  assumes path_distinct: "distinct path"
    and path_not_Nil: "path \<noteq> []"
    and hop_path: "hop e x e' \<Longrightarrow> member x \<Longrightarrow> e \<in> set path \<Longrightarrow> adjacent path e e'"

context flow_path begin

definition along :: "('a \<Rightarrow> 'b list) \<Rightarrow> 'b list" where
  "along f = concat (map (\<lambda>e. filter member (f e)) (rev path))"

definition on_path :: "('a \<Rightarrow> 'b list) \<Rightarrow> bool" where
  "on_path f \<longleftrightarrow> (\<forall>e. e \<notin> set path \<longrightarrow> filter member (f e) = [])"

lemma along_cong: "(\<And>e. e \<in> set path \<Longrightarrow> filter member (f e) = filter member (g e)) \<Longrightarrow> along f = along g"
  unfolding along_def by (metis (mono_tags, lifting) map_cong set_rev)

lemma along_move:
  assumes "f e \<noteq> []" and "hop e (hd (f e)) e'" and "on_path f"
  shows "along (f(e := tl (f e), e' := f e' @ [hd (f e)])) = along f \<and>
    on_path (f(e := tl (f e), e' := f e' @ [hd (f e)]))"
proof (cases "member (hd (f e))")
  case False
  have "filter member (tl (f e)) = filter member (f e)"
    using assms(1) False by (cases "f e") auto
  then have "filter member ((f(e := tl (f e), e' := f e' @ [hd (f e)])) d) = filter member (f d)" for d
    using False by simp
  with assms(3) show ?thesis
    by (auto simp: on_path_def intro!: along_cong)
next
  case True
  then have "filter member (f e) \<noteq> []"
    using assms(1) by (cases "f e") auto
  with assms(3) have "e \<in> set path"
    by (auto simp: on_path_def)
  with hop_path [OF assms(2) True] obtain p q where path: "path = p @ e # e' # q"
    by (auto simp: adjacent_def)
  with path_distinct have "e \<noteq> e'" "e \<notin> set p" "e \<notin> set q" "e' \<notin> set p" "e' \<notin> set q"
    by auto
  moreover have "filter member (f e) = hd (f e) # filter member (tl (f e))"
    using assms(1) True by (cases "f e") auto
  ultimately have "along (f(e := tl (f e), e' := f e' @ [hd (f e)])) = along f"
    unfolding along_def unfolding path using True by (simp add: concat_map_upd del: fun_upd_apply) (simp add: concat_map_upd)
  moreover have "on_path (f(e := tl (f e), e' := f e' @ [hd (f e)]))"
    using assms(3) unfolding on_path_def unfolding path by auto
  ultimately show ?thesis by blast
qed

lemma along_enter:
  assumes "on_path f" and "member x \<Longrightarrow> e = hd path"
  shows "along (f(e := f e @ [x])) = along f @ filter member [x] \<and> on_path (f(e := f e @ [x]))"
proof (cases "member x")
  case False
  then have "filter member ((f(e := f e @ [x])) d) = filter member (f d)" for d
    by simp
  with False assms(1) show ?thesis
    by (auto simp: on_path_def intro!: along_cong)
next
  case True
  with assms(2) have e: "e = hd path" by simp
  then obtain q where path: "path = e # q"
    using path_not_Nil by (cases path) auto
  with path_distinct have q: "e \<notin> set q" by simp
  have "along (f(e := f e @ [x])) = along f @ filter member [x]"
    unfolding along_def unfolding path using q by (simp add: concat_map_upd del: fun_upd_apply) simp
  moreover have "on_path (f(e := f e @ [x]))"
    using assms(1) unfolding on_path_def unfolding path by auto
  ultimately show ?thesis by blast
qed

lemma in_order:
  assumes "flow_reachable hop entry s"
    and "\<And>e x. e \<noteq> hd path \<Longrightarrow> x \<in> set (entered s e) \<Longrightarrow> \<not> member x"
  shows "along (contents s) = filter member (entered s (hd path)) \<and> on_path (contents s)"
  using assms
proof (induction rule: flow_reachable.induct)
  case init
  then show ?case by (simp add: flow_init_def along_def on_path_def)
next
  case (step s t)
  have IH: "along (contents s) = filter member (entered s (hd path))" "on_path (contents s)"
    using step.IH step.prems entered_mono [OF step.hyps(2)] by blast+
  from step.hyps(2) show ?case
  proof cases
    case (move e e')
    with IH along_move [of "contents s" e e'] show ?thesis
      by (simp only: flow_sel simp_thms)
  next
    case (enter e x)
    then have "member x \<Longrightarrow> e = hd path"
      using step.prems [of e x] by (auto simp: enter_item_def)
    with along_enter [OF IH(2), of x e]
    have "along (contents t) = along (contents s) @ filter member [x] \<and> on_path (contents t)"
      by (simp only: enter flow_sel)
    moreover have "filter member (entered t (hd path)) = filter member (entered s (hd path)) @ filter member [x]"
      using \<open>member x \<Longrightarrow> e = hd path\<close> by (simp add: enter flow_sel)
    ultimately show ?thesis
      using IH(1) by (simp only: simp_thms)
  qed
qed

end

section \<open>Coming to rest\<close>

text \<open>Moves lead upwards in a bounded rank, so without arrivals there are only finitely many.\<close>

locale ranked_places = places +
  fixes rank :: "'a \<Rightarrow> nat" and top :: nat
  assumes hop_rank: "hop e x e' \<Longrightarrow> rank e < rank e' \<and> rank e' \<le> top"

context ranked_places begin

definition work :: "('a \<Rightarrow> 'b list) \<Rightarrow> nat" where
  "work f = (\<Sum>e \<in> all_places. (top - rank e) * length (f e))"

lemma work_upd:
  "e \<in> all_places \<Longrightarrow>
     work (f(e := xs)) = (top - rank e) * length xs + (\<Sum>e \<in> all_places - {e}. (top - rank e) * length (f e))"
  unfolding work_def using finite_places by (simp add: sum.remove [of all_places e])

lemma work_split:
  "e \<in> all_places \<Longrightarrow>
     work f = (top - rank e) * length (f e) + (\<Sum>e \<in> all_places - {e}. (top - rank e) * length (f e))"
  unfolding work_def using finite_places by (simp add: sum.remove [of all_places e])

lemma work_move:
  assumes "f e \<noteq> []" and "hop e (hd (f e)) e'"
  shows "work (f(e := tl (f e), e' := f e' @ [hd (f e)])) < work f"
proof -
  let ?g = "f(e := tl (f e))"
  have e: "e \<in> all_places" "e' \<in> all_places" "e \<noteq> e'"
    using hop_places [OF assms(2)] by auto
  have r: "rank e < rank e'" "rank e' \<le> top"
    using hop_rank [OF assms(2)] by auto
  have "work (?g(e' := ?g e' @ [hd (f e)])) = work ?g + (top - rank e')"
    using e(2) by (simp only: work_upd work_split [OF e(2), of ?g]) simp
  moreover have "work f = work ?g + (top - rank e)"
    using assms(1) e(1) by (cases "f e") (simp_all add: work_upd work_split [OF e(1), of f])
  ultimately show ?thesis
    using e(3) r by simp
qed

end

end
