(* ===== verification/Network_Flow.thy ===== *)
theory Network_Flow
  imports Network "HOL-Library.Sublist"
begin

text \<open>
  A network of stages refines the abstract network of places: its places are the streams, the
  stages blocked in a write, the outside of every output and the bin of every stage.  The locale
  \<open>network\<close> states the wiring conditions the compositions of the switches guarantee, and yields
  conservation, order per flow, absence of deadlock and termination of every run without arrivals.
\<close>

datatype place = Chan nat | Busy stage | Done nat | Bin stage

fun place_contents :: "'a net \<Rightarrow> place \<Rightarrow> 'a list" where
  "place_contents s (Chan c) = ch s c"
| "place_contents s (Busy p) = (case pend s p of None \<Rightarrow> [] | Some (_, _, x) \<Rightarrow> [x])"
| "place_contents s (Done c) = delivered s c"
| "place_contents s (Bin p) = discarded s p"

fun place_entered :: "'a net \<Rightarrow> place \<Rightarrow> 'a list" where
  "place_entered s (Chan c) = injected s c"
| "place_entered s _ = []"

definition flow_of :: "'a net \<Rightarrow> (place, 'a) flow" where
  "flow_of s = \<lparr>contents = place_contents s, entered = place_entered s\<rparr>"

lemma flow_of_sel [simp]:
  "contents (flow_of s) = place_contents s" "entered (flow_of s) = place_entered s"
  by (simp_all add: flow_of_def)

fun net_hop :: "('a \<Rightarrow> route_id) \<Rightarrow> stage list \<Rightarrow> nat set \<Rightarrow> place \<Rightarrow> 'a \<Rightarrow> place \<Rightarrow> bool" where
  "net_hop dest ps outs (Chan c) x (Busy p) \<longleftrightarrow>
     p \<in> set ps \<and> c \<in> set (reads p) \<and> targets p (dest x) \<noteq> []"
| "net_hop dest ps outs (Chan c) x (Bin p) \<longleftrightarrow>
     p \<in> set ps \<and> c \<in> set (reads p) \<and> targets p (dest x) = []"
| "net_hop dest ps outs (Chan c) x (Done d) \<longleftrightarrow> c = d \<and> c \<in> outs"
| "net_hop dest ps outs (Busy p) x (Chan out) \<longleftrightarrow> p \<in> set ps \<and> out \<in> set (targets p (dest x))"
| "net_hop dest ps outs _ x _ \<longleftrightarrow> False"

subsection \<open>The refinement\<close>

text \<open>A stage is blocked only in a write it may make.\<close>

definition pend_ok :: "('a \<Rightarrow> route_id) \<Rightarrow> stage list \<Rightarrow> 'a net \<Rightarrow> bool" where
  "pend_ok dest ps s \<longleftrightarrow>
     (\<forall>p out f x. pend s p = Some (out, f, x) \<longrightarrow> p \<in> set ps \<and> out \<in> set (targets p (dest x)))"

lemma net_step_pend_ok:
  "net_step dest depth ps ins outs s t \<Longrightarrow> pend_ok dest ps s \<Longrightarrow> pend_ok dest ps t"
proof (induction rule: net_step.induct)
  case (net_work s t)
  from this show ?case
  proof (induction rule: net_work.induct)
    case (take_item p s d)
    then show ?case
      using decide_Forward [of dest depth "ch s" "sflag s p" p]
      by (auto simp: pend_ok_def take_item_def split: decision.splits if_splits)
  qed (auto simp: pend_ok_def drain_def put_item_def split: if_splits)
qed (simp add: pend_ok_def inject_def)

lemma flow_inject: "flow_of (inject c x s) = enter_item (Chan c) x (flow_of s)"
proof -
  have "place_contents (inject c x s) e = ((place_contents s)(Chan c := place_contents s (Chan c) @ [x])) e" for e
    by (cases e) (simp_all add: inject_def)
  moreover have "place_entered (inject c x s) e = ((place_entered s)(Chan c := place_entered s (Chan c) @ [x])) e" for e
    by (cases e) (simp_all add: inject_def)
  ultimately show ?thesis
    by (simp add: flow_of_def enter_item_def fun_eq_iff)
qed

lemma flow_moveI:
  assumes "\<And>e. place_contents t e =
      ((place_contents s)(d := tl (place_contents s d), d' := place_contents s d' @ [hd (place_contents s d)])) e"
    and "injected t = injected s"
  shows "flow_of t = move_item d d' (flow_of s)"
proof -
  have "place_entered t e = place_entered s e" for e
    using assms(2) by (cases e) simp_all
  then show ?thesis
    using assms(1) by (simp add: flow_of_def move_item_def fun_eq_iff)
qed

lemma flow_drain: "flow_of (drain c s) = move_item (Chan c) (Done c) (flow_of s)"
proof (rule flow_moveI)
  fix e show "place_contents (drain c s) e = ((place_contents s)(Chan c := tl (place_contents s (Chan c)),
      Done c := place_contents s (Done c) @ [hd (place_contents s (Chan c))])) e"
    by (cases e) (simp_all add: drain_def)
qed (simp add: drain_def)

lemma flow_take_Forward:
  assumes "pend s p = None"
  shows "flow_of (take_item p (Forward c out f) s) = move_item (Chan c) (Busy p) (flow_of s)"
proof (rule flow_moveI)
  fix e show "place_contents (take_item p (Forward c out f) s) e =
      ((place_contents s)(Chan c := tl (place_contents s (Chan c)),
        Busy p := place_contents s (Busy p) @ [hd (place_contents s (Chan c))])) e"
    using assms by (cases e) (simp_all add: take_item_def)
qed (simp add: take_item_def)

lemma flow_take_Discard:
  "flow_of (take_item p (Discard c) s) = move_item (Chan c) (Bin p) (flow_of s)"
proof (rule flow_moveI)
  fix e show "place_contents (take_item p (Discard c) s) e =
      ((place_contents s)(Chan c := tl (place_contents s (Chan c)),
        Bin p := place_contents s (Bin p) @ [hd (place_contents s (Chan c))])) e"
    by (cases e) (simp_all add: take_item_def)
qed (simp add: take_item_def)

lemma flow_put:
  assumes "pend s p = Some (out, f, x)"
  shows "flow_of (put_item p out f x s) = move_item (Busy p) (Chan out) (flow_of s)"
proof (rule flow_moveI)
  fix e show "place_contents (put_item p out f x s) e =
      ((place_contents s)(Busy p := tl (place_contents s (Busy p)),
        Chan out := place_contents s (Chan out) @ [hd (place_contents s (Busy p))])) e"
    using assms by (cases e) (simp_all add: put_item_def)
qed (simp add: put_item_def)

lemma net_work_moves:
  assumes "net_work dest depth ps outs s t" and "pend_ok dest ps s"
  shows "\<exists>e e'. place_contents s e \<noteq> [] \<and> net_hop dest ps outs e (hd (place_contents s e)) e' \<and>
    flow_of t = move_item e e' (flow_of s)"
  using assms
proof (induction rule: net_work.induct)
  case (drain c s)
  then show ?case
    using flow_drain [of c s] by (intro exI [of _ "Chan c"] exI [of _ "Done c"]) simp
next
  case (take_item p s d)
  show ?case
  proof (cases d)
    case (Forward c out f)
    with take_item decide_Forward [of dest depth "ch s" "sflag s p" p c out f] flow_take_Forward [of s p c out f]
    show ?thesis
      by (intro exI [of _ "Chan c"] exI [of _ "Busy p"]) auto
  next
    case (Discard c)
    with take_item decide_Discard [of dest depth "ch s" "sflag s p" p c] flow_take_Discard [of p c s]
    show ?thesis
      by (intro exI [of _ "Chan c"] exI [of _ "Bin p"]) auto
  qed
next
  case (put_item p s out f x)
  then show ?case
    using flow_put [of s p out f x]
    by (intro exI [of _ "Busy p"] exI [of _ "Chan out"]) (auto simp: pend_ok_def)
qed

lemma net_step_refines:
  assumes "net_step dest depth ps ins outs s t" and "pend_ok dest ps s"
  shows "flow_step (net_hop dest ps outs) (Chan ` ins) (flow_of s) (flow_of t)"
  using assms
proof (induction rule: net_step.induct)
  case (inject c s x)
  then show ?case
    by (simp add: flow_inject flow_step.enter)
next
  case (net_work s t)
  then obtain e e' where "place_contents s e \<noteq> []" "net_hop dest ps outs e (hd (place_contents s e)) e'"
    "flow_of t = move_item e e' (flow_of s)"
    using net_work_moves by blast
  then show ?case
    using flow_step.move [of "flow_of s" e "net_hop dest ps outs" e'] by simp
qed

lemma net_reachable_flow:
  fixes s :: "'a net"
  shows "net_reachable dest depth ps ins outs s \<Longrightarrow>
     flow_reachable (net_hop dest ps outs) (Chan ` ins) (flow_of s) \<and> pend_ok dest ps s"
proof (induction rule: net_reachable.induct)
  case init
  have "place_contents (net_init :: 'a net) e = []" "place_entered (net_init :: 'a net) e = []" for e
    by (cases e; simp add: net_init_def)+
  then have "flow_of (net_init :: 'a net) = flow_init"
    by (simp add: flow_of_def flow_init_def fun_eq_iff)
  then show ?case
    by (simp add: flow_reachable.init) (simp add: pend_ok_def net_init_def)
next
  case (step s t)
  then show ?case
    using net_step_refines net_step_pend_ok flow_reachable.step by blast
qed

section \<open>Well-wired networks\<close>

definition all_places :: "stage list \<Rightarrow> nat set \<Rightarrow> nat set \<Rightarrow> place set" where
  "all_places ps ins outs =
     Chan ` (ins \<union> outs \<union> (\<Union>p \<in> set ps. set (reads p) \<union> set (writes p))) \<union>
     Busy ` set ps \<union> Bin ` set ps \<union> Done ` outs"

fun place_rank :: "place \<Rightarrow> nat" where
  "place_rank (Chan c) = 2 * c"
| "place_rank (Busy p) = 2 * Max (set (reads p)) + 1"
| "place_rank (Bin p) = 2 * Max (set (reads p)) + 1"
| "place_rank (Done c) = 2 * c + 1"

text \<open>
  Every stream has one reader (a stage, or the environment for the outputs), every stage writes to
  streams of higher numbers than it reads, and every stream has room for an item.
\<close>

definition well_wired :: "stage list \<Rightarrow> nat set \<Rightarrow> nat set \<Rightarrow> bool" where
  "well_wired ps ins outs \<longleftrightarrow>
     distinct (concat (map reads ps)) \<and>
     (\<forall>p \<in> set ps. set (reads p) \<inter> outs = {} \<and> (\<forall>c \<in> set (reads p). \<forall>d \<in> set (writes p). c < d)) \<and>
     ins \<union> (\<Union>p \<in> set ps. set (writes p)) \<subseteq> outs \<union> (\<Union>p \<in> set ps. set (reads p))"

locale network =
  fixes dest :: "'a \<Rightarrow> route_id" and depth :: "nat \<Rightarrow> nat"
    and ps :: "stage list" and ins outs :: "nat set"
  assumes finite_ends: "finite ins" "finite outs"
    and depth_pos: "0 < depth c"
    and wired: "well_wired ps ins outs"

lemma reads_not_Nil [simp]: "reads p \<noteq> []"
  by (cases p) auto

lemma reads_Max: "c \<in> set (reads p) \<Longrightarrow> c \<le> Max (set (reads p))"
  by simp

lemma reader_unique:
  assumes "distinct (concat (map reads ps))" and "p \<in> set ps" and "q \<in> set ps"
    and "c \<in> set (reads p)" and "c \<in> set (reads q)"
  shows "p = q"
  using assms
proof (induction ps)
  case (Cons r ps)
  then show ?case
    by (auto simp: set_concat disjoint_iff)
qed simp

lemma hop_below:
  assumes "well_wired ps ins outs" and "net_hop dest ps outs e x e'"
  shows "place_rank e < place_rank e'"
proof (cases e)
  case (Chan c)
  with assms(2) show ?thesis
    using reads_Max [of c] by (cases e') (auto simp: less_Suc_eq_le)
next
  case (Busy p)
  then obtain out where e': "e' = Chan out" and out: "out \<in> set (writes p)" "p \<in> set ps"
    using assms(2) targets_writes [of p "dest x"] by (cases e') auto
  have "Max (set (reads p)) \<in> set (reads p)"
    by (rule Max_in) auto
  with assms(1) out have "Max (set (reads p)) < out"
    by (auto simp: well_wired_def)
  then show ?thesis
    by (simp add: Busy e' del: Max_less_iff)
qed (use assms(2) in \<open>cases e'; simp\<close>)+

sublocale network \<subseteq> ranked_places "net_hop dest ps outs" "Chan ` ins" "all_places ps ins outs"
  place_rank "Max (place_rank ` all_places ps ins outs)"
proof
  show fin: "finite (all_places ps ins outs)"
    using finite_ends by (simp add: all_places_def)
  show "Chan ` ins \<subseteq> all_places ps ins outs"
    by (auto simp: all_places_def)
  show hop: "e \<in> all_places ps ins outs \<and> e' \<in> all_places ps ins outs \<and> e \<noteq> e'"
    if "net_hop dest ps outs e x e'" for e x e'
    using that targets_writes by (cases e; cases e'; fastforce simp: all_places_def)
  show "place_rank e < place_rank e' \<and> place_rank e' \<le> Max (place_rank ` all_places ps ins outs)"
    if "net_hop dest ps outs e x e'" for e x e'
    using hop_below [OF wired that] hop [OF that] fin by auto
qed

lemma sum_places:
  fixes g :: "place \<Rightarrow> 'b multiset"
  assumes "finite C" and "finite A" and "finite B"
  shows "sum g (Chan ` C \<union> Busy ` A \<union> Bin ` A \<union> Done ` B) =
    (\<Sum>c \<in> C. g (Chan c)) + (\<Sum>p \<in> A. g (Busy p)) + (\<Sum>p \<in> A. g (Bin p)) + (\<Sum>c \<in> B. g (Done c))"
proof -
  have inj: "inj_on Chan C" "inj_on Busy A" "inj_on Bin A" "inj_on Done B"
    by (simp_all add: inj_on_def)
  have d: "(Chan ` C \<union> Busy ` A \<union> Bin ` A) \<inter> Done ` B = {}" "(Chan ` C \<union> Busy ` A) \<inter> Bin ` A = {}"
    "Chan ` C \<inter> Busy ` A = {}"
    by auto
  show ?thesis
    using assms inj by (simp add: sum.union_disjoint d sum.reindex)
qed

text \<open>What a network holds: in its streams and in its blocked stages.\<close>

definition in_flight :: "stage list \<Rightarrow> nat set \<Rightarrow> nat set \<Rightarrow> 'a net \<Rightarrow> 'a multiset" where
  "in_flight ps ins outs s =
     (\<Sum>c \<in> ins \<union> outs \<union> (\<Union>p \<in> set ps. set (reads p) \<union> set (writes p)). mset (ch s c)) +
     (\<Sum>p \<in> set ps. mset (place_contents s (Busy p)))"

lemma empty_in_flight: "net_empty s \<Longrightarrow> in_flight ps ins outs s = {#}"
  by (simp add: net_empty_def in_flight_def)

subsection \<open>Progress and termination\<close>

lemma net_run_trans:
  "net_run dest depth ps outs n t u \<Longrightarrow> net_run dest depth ps outs m s t \<Longrightarrow> net_run dest depth ps outs (m + n) s u"
  by (induction rule: net_run.induct) (auto intro: net_run.more)

lemmas net_run_transD = net_run_trans [rotated]

context network begin

lemma reachable_flow:
  "net_reachable dest depth ps ins outs s \<Longrightarrow>
     flow_reachable (net_hop dest ps outs) (Chan ` ins) (flow_of s) \<and> pend_ok dest ps s"
  by (rule net_reachable_flow)

lemma nonempty_place:
  assumes "net_reachable dest depth ps ins outs s" and "place_contents s e \<noteq> []"
  shows "e \<in> all_places ps ins outs"
  using reachable_flow [OF assms(1)] assms(2) outside_empty [of "flow_of s" e] by auto

lemma has_reader: "Chan c \<in> all_places ps ins outs \<Longrightarrow> c \<in> outs \<or> (\<exists>p \<in> set ps. c \<in> set (reads p))"
  using wired by (auto simp: all_places_def well_wired_def)

lemma progress:
  assumes reach: "net_reachable dest depth ps ins outs s" and "\<not> net_empty s"
  shows "\<exists>t. net_work dest depth ps outs s t"
proof -
  let ?P = "{e. place_contents s e \<noteq> [] \<and> (\<exists>x. e = Chan x \<or> (\<exists>p. e = Busy p))}"
  have "finite ?P"
    using nonempty_place [OF reach] by (intro finite_subset [OF _ finite_places]) auto
  moreover have "?P \<noteq> {}"
  proof -
    consider c where "ch s c \<noteq> []" | p where "pend s p \<noteq> None"
      using assms(2) unfolding net_empty_def by blast
    then show ?thesis
    proof cases
      case (1 c)
      then have "Chan c \<in> ?P" by simp
      then show ?thesis by blast
    next
      case (2 p)
      then have "Busy p \<in> ?P" by auto
      then show ?thesis by blast
    qed
  qed
  ultimately have "Max (place_rank ` ?P) \<in> place_rank ` ?P" and fin: "finite (place_rank ` ?P)"
    by (simp_all only: finite_imageI Max_in image_is_empty not_False_eq_True)
  then obtain e where e: "e \<in> ?P" and max: "place_rank e = Max (place_rank ` ?P)"
    by (metis (no_types, lifting) imageE)
  have top: "place_rank d \<le> place_rank e" if "d \<in> ?P" for d
    unfolding max using fin that by (intro Max_ge imageI)
  have above: "place_contents s d = []" if "d = Chan c \<or> d = Busy p" "place_rank e < place_rank d" for c d p
    using top [of d] that by force
  have ok: "pend_ok dest ps s"
    using reachable_flow [OF reach] by simp
  from e consider c where "e = Chan c" "ch s c \<noteq> []" | p where "e = Busy p" "pend s p \<noteq> None"
    by (auto split: option.splits)
  then show ?thesis
  proof cases
    case (1 c)
    show ?thesis
    proof (cases "c \<in> outs")
      case True
      with 1 show ?thesis by (blast intro: net_work.drain)
    next
      case False
      with 1 e nonempty_place [OF reach] obtain p where p: "p \<in> set ps" "c \<in> set (reads p)"
        using has_reader by blast
      have "place_rank e < place_rank (Busy p)"
        using reads_Max [OF p(2)] 1 by (simp del: Max_ge_iff)
      then have "place_contents s (Busy p) = []"
        using above [of "Busy p" c p] by blast
      then have "pend s p = None"
        by (auto split: option.splits)
      moreover obtain d where "decide dest depth (ch s) (sflag s p) p = Some d"
        using decide_None [of dest depth "ch s" "sflag s p" p] 1 p by (cases "decide dest depth (ch s) (sflag s p) p") auto
      ultimately show ?thesis
        using p(1) by (blast intro: net_work.take_item)
    qed
  next
    case (2 p)
    then obtain out f x where pend: "pend s p = Some (out, f, x)"
      by (cases "pend s p") auto
    with ok have p: "p \<in> set ps" "out \<in> set (targets p (dest x))"
      by (auto simp: pend_ok_def)
    then have "place_rank e < place_rank (Chan out)"
      using hop_below [OF wired, of dest "Busy p" x "Chan out"] 2 by simp
    then have "ch s out = []"
      using above [of "Chan out" out p] by simp
    then have "length (ch s out) < depth out"
      using depth_pos by simp
    with p(1) pend show ?thesis by (blast intro: net_work.put_item)
  qed
qed

lemma run_work:
  assumes "net_run dest depth ps outs n s t" and "net_reachable dest depth ps ins outs s"
  shows "net_reachable dest depth ps ins outs t \<and>
    n + work (place_contents t) \<le> work (place_contents s) \<and> injected t = injected s"
  using assms
proof (induction rule: net_run.induct)
  case (more n s t u)
  then have t: "net_reachable dest depth ps ins outs t"
    and le: "n + work (place_contents t) \<le> work (place_contents s)" and inj: "injected t = injected s"
    by auto
  obtain e e' where move: "place_contents t e \<noteq> []" "net_hop dest ps outs e (hd (place_contents t e)) e'"
    "flow_of u = move_item e e' (flow_of t)"
    using net_work_moves [OF more.hyps(2)] reachable_flow [OF t] by blast
  then have "contents (flow_of u) = contents (move_item e e' (flow_of t))"
    by simp
  then have "place_contents u = (place_contents t)(e := tl (place_contents t e),
      e' := place_contents t e' @ [hd (place_contents t e)])"
    by (simp only: contents_move flow_of_sel)
  with work_move [of "place_contents t", OF move(1,2)] have "work (place_contents u) < work (place_contents t)"
    by simp
  moreover have "entered (flow_of u) (Chan c) = entered (flow_of t) (Chan c)" for c
    using move(3) by (simp only: entered_move)
  then have "injected u = injected t"
    by (simp add: fun_eq_iff)
  ultimately show ?case
    using le inj net_reachable.step [OF t net_step.net_work [OF more.hyps(2)]] by simp
qed simp

lemma run_bounded:
  "net_reachable dest depth ps ins outs s \<Longrightarrow> \<exists>B. \<forall>n t. net_run dest depth ps outs n s t \<longrightarrow> n \<le> B"
  using run_work add_leD1 by blast

lemma drains:
  "net_reachable dest depth ps ins outs s \<Longrightarrow> \<exists>n t. net_run dest depth ps outs n s t \<and> net_empty t"
proof (induction "work (place_contents s)" arbitrary: s rule: less_induct)
  case less
  show ?case
  proof (cases "net_empty s")
    case True
    then show ?thesis by (blast intro: net_run.idle)
  next
    case False
    then obtain t where t: "net_work dest depth ps outs s t"
      using progress [OF less.prems] by blast
    have one: "net_run dest depth ps outs 1 s t"
      using net_run.more [OF net_run.idle t] by simp
    have "net_reachable dest depth ps ins outs t" "work (place_contents t) < work (place_contents s)"
      using run_work [OF one less.prems] by auto
    then obtain n u where "net_run dest depth ps outs n t u" "net_empty u"
      using less.hyps by blast
    with net_run_transD [OF one] show ?thesis by blast
  qed
qed

subsection \<open>Conservation\<close>

lemma items_split:
  "items f =
     (\<Sum>c \<in> ins \<union> outs \<union> (\<Union>p \<in> set ps. set (reads p) \<union> set (writes p)). mset (f (Chan c))) +
     (\<Sum>p \<in> set ps. mset (f (Busy p))) + (\<Sum>p \<in> set ps. mset (f (Bin p))) + (\<Sum>c \<in> outs. mset (f (Done c)))"
  unfolding items_def unfolding all_places_def using finite_ends by (intro sum_places) auto

lemma conservation:
  assumes "net_reachable dest depth ps ins outs s"
  shows "(\<Sum>c \<in> ins. mset (injected s c)) =
    in_flight ps ins outs s + (\<Sum>p \<in> set ps. mset (discarded s p)) + (\<Sum>c \<in> outs. mset (delivered s c))"
proof -
  have flow: "flow_reachable (net_hop dest ps outs) (Chan ` ins) (flow_of s)"
    using reachable_flow [OF assms] by simp
  have inj: "injected s c = []" if "c \<notin> ins" for c
    using entered_outside [OF flow, of "Chan c"] that by auto
  have "(\<Sum>c \<in> ins \<union> outs \<union> (\<Union>p \<in> set ps. set (reads p) \<union> set (writes p)). mset (injected s c)) =
      (\<Sum>c \<in> ins. mset (injected s c))"
    using finite_ends by (intro sum.mono_neutral_right) (auto simp: inj)
  then show ?thesis
    using conserved [OF flow] by (simp add: items_split in_flight_def)
qed

end

section \<open>Paths\<close>

text \<open>
  \<open>leads ps D c es c'\<close>: every item with a destination in \<open>D\<close> goes from stream \<open>c\<close> through the
  places \<open>es\<close> to stream \<open>c'\<close>.
\<close>

inductive leads :: "stage list \<Rightarrow> route_id set \<Rightarrow> nat \<Rightarrow> place list \<Rightarrow> nat \<Rightarrow> bool"
  for ps D where
  here: "leads ps D c [] c"
| via: "p \<in> set ps \<Longrightarrow> c \<in> set (reads p) \<Longrightarrow> (\<And>d. d \<in> D \<Longrightarrow> targets p d = [out])
    \<Longrightarrow> out \<in> set (writes p) \<Longrightarrow> leads ps D out es c' \<Longrightarrow> leads ps D c (Chan c # Busy p # es) c'"

lemma leads_append: "leads ps D c es c' \<Longrightarrow> leads ps D c' es' c'' \<Longrightarrow> leads ps D c (es @ es') c''"
  by (induction rule: leads.induct) (auto intro: leads.via)

lemma leads_mono: "leads ps D c es c' \<Longrightarrow> set ps \<subseteq> set qs \<Longrightarrow> D' \<subseteq> D \<Longrightarrow> leads qs D' c es c'"
proof (induction rule: leads.induct)
  case (via p c out es c')
  then show ?case by (intro leads.via) auto
qed (rule leads.here)

lemma leads_places: "leads ps D c es c' \<Longrightarrow> e \<in> set es \<Longrightarrow> (\<exists>i. e = Chan i) \<or> (\<exists>p. e = Busy p)"
  by (induction rule: leads.induct) auto

lemma leads_Nil_iff: "leads ps D c es c' \<Longrightarrow> hd (es @ [Chan c', e]) = Chan c"
  by (induction rule: leads.induct) auto

lemma rank_sorted_distinct: "sorted_wrt (\<lambda>e e'. (r e :: nat) < r e') xs \<Longrightarrow> distinct xs"
  by (induction xs) auto

lemma adjacent_Cons: "adjacent p e e' \<Longrightarrow> adjacent (a # p) e e'"
  unfolding adjacent_def by (metis append_Cons)

lemma adjacent_hd: "adjacent (a # b # p) a b"
  unfolding adjacent_def by (metis append_Nil)

lemma adjacent_hd_append: "hd (q @ [b, c]) = x \<Longrightarrow> adjacent (a # q @ [b, c]) a x"
  by (cases q) (auto intro: adjacent_hd)

context network begin

lemma out_unread: "c \<in> outs \<Longrightarrow> p \<in> set ps \<Longrightarrow> c \<notin> set (reads p)"
  using wired by (auto simp: well_wired_def)

lemma leads_adjacent:
  assumes "leads ps D c es c'" and "c' \<in> outs"
    and "net_hop dest ps outs e x e'" and "dest x \<in> D" and "e \<in> set (es @ [Chan c', Done c'])"
  shows "adjacent (es @ [Chan c', Done c']) e e'"
  using assms
proof (induction rule: leads.induct)
  case (here c)
  then have "e' = Done c"
    by (cases e') (auto simp: out_unread)
  with here show ?case
    by (auto intro: adjacent_hd)
next
  case (via p c out es c')
  have unread: "c \<notin> outs" and dist: "distinct (concat (map reads ps))"
    using out_unread wired via(1,2) by (auto simp: well_wired_def)
  consider "e = Chan c" | "e = Busy p" | "e \<in> set (es @ [Chan c', Done c'])"
    using via.prems by auto
  then show ?case
  proof cases
    case 1
    have "q = p" if "q \<in> set ps" "c \<in> set (reads q)" for q
      using dist that(1) via.hyps(1) that(2) via.hyps(2) by (rule reader_unique)
    moreover have "targets p (dest x) = [out]"
      using via.hyps(3) via.prems(3) .
    ultimately have "e' = Busy p"
      using via.prems(2) 1 unread by (cases e') auto
    with 1 show ?thesis by (simp add: adjacent_hd)
  next
    case 2
    then have "e' = Chan out"
      using via by (cases e') auto
    with 2 show ?thesis
      using leads_Nil_iff [OF via.hyps(5)] by (simp add: adjacent_Cons adjacent_hd_append)
  next
    case 3
    with via show ?thesis by (simp add: adjacent_Cons)
  qed
qed

lemma leads_sorted:
  assumes "leads ps D c es c'"
  shows "sorted_wrt (\<lambda>e e'. place_rank e < place_rank e') (es @ [Chan c', Done c']) \<and>
    (\<forall>e \<in> set (es @ [Chan c', Done c']). place_rank (Chan c) \<le> place_rank e)"
  using assms
proof (induction rule: leads.induct)
  case (via p c out es c')
  have "c \<le> Max (set (reads p))"
    using via.hyps(2) by (rule reads_Max)
  moreover have "Max (set (reads p)) \<in> set (reads p)"
    by (rule Max_in) auto
  then have "Max (set (reads p)) < out"
    using wired via.hyps(1,4) unfolding well_wired_def by blast
  ultimately have "place_rank (Chan c) < place_rank (Busy p)" "place_rank (Busy p) < place_rank (Chan out)"
    by (simp_all del: Max_less_iff)
  with via.IH show ?case
    by (fastforce simp del: place_rank.simps)
qed simp

text \<open>The items that enter at \<open>c\<close>, as \<open>src\<close> tells them apart, with a destination in \<open>D\<close>.\<close>

definition flow_member :: "('a \<Rightarrow> nat) \<Rightarrow> nat \<Rightarrow> route_id set \<Rightarrow> 'a \<Rightarrow> bool" where
  "flow_member src c D x \<longleftrightarrow> src x = c \<and> dest x \<in> D"

lemma path_order:
  assumes "leads ps D c es out" and "c \<in> ins" and "out \<in> outs"
    and reach: "net_reachable dest depth ps ins outs s"
    and src: "\<And>i x. x \<in> set (injected s i) \<Longrightarrow> src x = i"
  shows "prefix (filter (flow_member src c D) (delivered s out)) (filter (flow_member src c D) (injected s c)) \<and>
    (net_empty s \<longrightarrow>
       filter (flow_member src c D) (delivered s out) = filter (flow_member src c D) (injected s c)) \<and>
    (\<forall>out'. out' \<noteq> out \<longrightarrow> filter (flow_member src c D) (delivered s out') = [])"
proof -
  let ?m = "flow_member src c D" and ?path = "es @ [Chan out, Done out]"
  have sorted: "sorted_wrt (\<lambda>e e'. place_rank e < place_rank e') ?path"
    using leads_sorted [OF assms(1)] by blast
  then have dist: "distinct ?path"
    by (rule rank_sorted_distinct)
  have fp: "flow_path (net_hop dest ps outs) (Chan ` ins) (all_places ps ins outs) ?m ?path"
  proof (unfold_locales)
    fix e x e' assume "net_hop dest ps outs e x e'" "?m x" "e \<in> set ?path"
    then show "adjacent ?path e e'"
      using leads_adjacent [OF assms(1,3)] by (simp add: flow_member_def)
  qed (use dist in auto)
  have hd: "hd ?path = Chan c"
    using leads_Nil_iff [OF assms(1)] by simp
  have flow: "flow_reachable (net_hop dest ps outs) (Chan ` ins) (flow_of s)"
    using reachable_flow [OF reach] by simp
  have "\<not> ?m x" if "e \<noteq> hd ?path" "x \<in> set (entered (flow_of s) e)" for e x
    using that src unfolding hd by (cases e) (auto simp: flow_member_def)
  from flow_path.in_order [OF fp flow this]
  have "flow_path.along ?m ?path (place_contents s) = filter ?m (injected s c) \<and>
      flow_path.on_path ?m ?path (place_contents s)"
    by (simp add: hd)
  then have along: "concat (map (\<lambda>e. filter ?m (place_contents s e)) (rev ?path)) = filter ?m (injected s c)"
    and off: "\<And>e. e \<notin> set ?path \<Longrightarrow> filter ?m (place_contents s e) = []"
    unfolding flow_path.along_def [OF fp] flow_path.on_path_def [OF fp] by blast+
  have split: "filter ?m (injected s c) = filter ?m (delivered s out) @
      concat (map (\<lambda>e. filter ?m (place_contents s e)) (rev (es @ [Chan out])))"
    using along by simp
  have "place_contents s e = []" if "net_empty s" "e \<in> set (es @ [Chan out])" for e
    using that leads_places [OF assms(1), of e] by (cases e) (auto simp: net_empty_def)
  then have "concat (map (\<lambda>e. filter ?m (place_contents s e)) (rev (es @ [Chan out]))) = []" if "net_empty s"
    using that by (auto simp: net_empty_def)
  moreover have "filter ?m (delivered s out') = []" if "out' \<noteq> out" for out'
    using off [of "Done out'"] that leads_places [OF assms(1)] by auto
  ultimately show ?thesis
    using split by (auto simp: prefix_def)
qed

end

section \<open>Routed networks\<close>

text \<open>\<open>reaches ps d c c'\<close>: an item with destination \<open>d\<close> may go from stream \<open>c\<close> to stream \<open>c'\<close>.\<close>

inductive reaches :: "stage list \<Rightarrow> route_id \<Rightarrow> nat \<Rightarrow> nat \<Rightarrow> bool"
  for ps d where
  start: "reaches ps d c c"
| further: "reaches ps d c c' \<Longrightarrow> p \<in> set ps \<Longrightarrow> c' \<in> set (reads p) \<Longrightarrow> out \<in> set (targets p d)
    \<Longrightarrow> reaches ps d c out"

inductive_cases leadsE: "leads ps D c es c'"

text \<open>An item is where its destination may have led it from an input.\<close>

fun place_ok :: "('a \<Rightarrow> route_id) \<Rightarrow> stage list \<Rightarrow> nat set \<Rightarrow> nat set \<Rightarrow> place \<Rightarrow> 'a \<Rightarrow> bool" where
  "place_ok dest ps ins outs (Chan c) x \<longleftrightarrow> (\<exists>i \<in> ins. reaches ps (dest x) i c)"
| "place_ok dest ps ins outs (Busy p) x \<longleftrightarrow>
     p \<in> set ps \<and> (\<exists>i \<in> ins. \<exists>c \<in> set (reads p). reaches ps (dest x) i c)"
| "place_ok dest ps ins outs (Bin p) x \<longleftrightarrow>
     p \<in> set ps \<and> targets p (dest x) = [] \<and> (\<exists>i \<in> ins. \<exists>c \<in> set (reads p). reaches ps (dest x) i c)"
| "place_ok dest ps ins outs (Done c) x \<longleftrightarrow> c \<in> outs \<and> (\<exists>i \<in> ins. reaches ps (dest x) i c)"

lemma hop_place_ok:
  assumes "net_hop dest ps outs e x e'" and "place_ok dest ps ins outs e x"
  shows "place_ok dest ps ins outs e' x"
  using assms by (cases e; cases e') (auto intro: reaches.further)

lemma reachable_place_ok:
  assumes "net_reachable dest depth ps ins outs s" and "x \<in> set (place_contents s e)"
  shows "place_ok dest ps ins outs e x"
proof -
  have flow: "flow_reachable (net_hop dest ps outs) (Chan ` ins) (flow_of s)"
    using net_reachable_flow [OF assms(1)] by simp
  show ?thesis
  proof (rule flow_place_inv [OF flow, of "place_ok dest ps ins outs"])
    fix e x assume "e \<in> Chan ` ins"
    then show "place_ok dest ps ins outs e x" by (force intro: reaches.start)
  next
    fix e x e' assume "net_hop dest ps outs e x e'" "place_ok dest ps ins outs e x"
    then show "place_ok dest ps ins outs e' x" by (rule hop_place_ok)
  qed (use assms(2) in simp)
qed

text \<open>A network that sends every item to the output its destination selects.\<close>

locale routed_network = network +
  fixes route :: "route_id \<Rightarrow> nat"
  assumes route_outs: "route d \<in> outs"
    and routed: "i \<in> ins \<Longrightarrow> out \<in> outs \<Longrightarrow> \<exists>es. leads ps {d. route d = out} i es out"

context routed_network begin

lemma reader_only: "p \<in> set ps \<Longrightarrow> q \<in> set ps \<Longrightarrow> c \<in> set (reads p) \<Longrightarrow> c \<in> set (reads q) \<Longrightarrow> q = p"
  using wired reader_unique [of ps p q c] by (auto simp: well_wired_def)

lemma leads_next:
  assumes "leads ps {d} c es out" and "out \<in> outs" and "p \<in> set ps" and "c \<in> set (reads p)"
  shows "\<exists>c' es'. targets p d = [c'] \<and> leads ps {d} c' es' out"
  using assms(1)
proof cases
  case here
  with assms out_unread show ?thesis by blast
next
  case (via q out' es')
  with assms reader_only [of p q c] show ?thesis by auto
qed

lemma reaches_leads:
  assumes "reaches ps d i c" and "i \<in> ins"
  shows "\<exists>es. leads ps {d} c es (route d)"
  using assms
proof (induction rule: reaches.induct)
  case (start c)
  then obtain es where "leads ps {d'. route d' = route d} c es (route d)"
    using routed route_outs by blast
  then have "leads ps {d} c es (route d)"
    by (rule leads_mono) auto
  then show ?case ..
next
  case (further c c' p out)
  then obtain es where "leads ps {d} c' es (route d)" by blast
  from leads_next [OF this route_outs further(2,3)] further(4) show ?case by auto
qed

lemma leads_out: "leads ps D c es c' \<Longrightarrow> c \<in> outs \<Longrightarrow> c = c'"
  by (erule leadsE) (auto simp: out_unread)

lemma delivered_route:
  assumes "net_reachable dest depth ps ins outs s" and "x \<in> set (delivered s out)"
  shows "route (dest x) = out"
proof -
  obtain i where "i \<in> ins" "out \<in> outs" "reaches ps (dest x) i out"
    using reachable_place_ok [OF assms(1), of x "Done out"] assms(2) by auto
  then show ?thesis
    using reaches_leads leads_out by blast
qed

lemma nothing_discarded:
  assumes "net_reachable dest depth ps ins outs s"
  shows "discarded s p = []"
proof (rule ccontr)
  assume "discarded s p \<noteq> []"
  then obtain x where "x \<in> set (discarded s p)" by (cases "discarded s p") auto
  then obtain i c where *: "i \<in> ins" "c \<in> set (reads p)" "p \<in> set ps" "targets p (dest x) = []" "reaches ps (dest x) i c"
    using reachable_place_ok [OF assms, of x "Bin p"] by auto
  then obtain es where "leads ps {dest x} c es (route (dest x))"
    using reaches_leads by blast
  from leads_next [OF this route_outs *(3,2)] *(4) show False by simp
qed

lemma all_delivered:
  assumes "net_reachable dest depth ps ins outs s"
  shows "(\<Sum>c \<in> ins. mset (injected s c)) = in_flight ps ins outs s + (\<Sum>c \<in> outs. mset (delivered s c))"
  using conservation [OF assms] nothing_discarded [OF assms] by simp

lemma flow_order:
  assumes "net_reachable dest depth ps ins outs s" and "i \<in> ins" and "out \<in> outs"
    and "\<And>i x. x \<in> set (injected s i) \<Longrightarrow> src x = i"
  shows "prefix (filter (\<lambda>x. src x = i) (delivered s out))
      (filter (\<lambda>x. route (dest x) = out) (injected s i)) \<and>
    (net_empty s \<longrightarrow>
       filter (\<lambda>x. src x = i) (delivered s out) = filter (\<lambda>x. route (dest x) = out) (injected s i))"
proof -
  obtain es where "leads ps {d. route d = out} i es out"
    using routed [OF assms(2,3)] by blast
  note order = path_order [of _ i _ out s src, OF this assms(2,3,1,4)]
  have "filter (flow_member src i {d. route d = out}) (delivered s out) = filter (\<lambda>x. src x = i) (delivered s out)"
    by (rule filter_cong) (auto simp: flow_member_def dest: delivered_route [OF assms(1)])
  moreover have "filter (flow_member src i {d. route d = out}) (injected s i) =
      filter (\<lambda>x. route (dest x) = out) (injected s i)"
    by (rule filter_cong) (auto simp: flow_member_def assms(4))
  ultimately show ?thesis
    using order by simp
qed

end

end
