(* ===== verification/Switch_Net.thy ===== *)
theory Switch_Net
  imports Network_Flow
begin

text \<open>
  The compositions of \<open>src/switch_butterfly/butterfly_switch.hpp\<close> and
  \<open>butterfly_work_stealing.hpp\<close>: each function becomes the list of the stages it starts, its
  stream arguments stay arguments, and its \<open>inner_connection\<close> arrays are the streams from \<open>b\<close> on
  (the arrays of the callees first, so that every stage writes to higher numbers than it reads).
\<close>

definition inner_fifo_size :: nat where "inner_fifo_size = 12"

section \<open>Butterfly switches\<close>

definition switch_2x2_frp ::
    "nat \<Rightarrow> nat \<Rightarrow> nat \<Rightarrow> nat \<Rightarrow> nat \<Rightarrow> route_id \<Rightarrow> route_id \<Rightarrow> route_id \<Rightarrow> stage list" where
  "switch_2x2_frp b in1 in2 out1 out2 id1 id2 msk =
     (let g1 = (\<lambda>k. b + k); g2 = (\<lambda>k. b + 2 + k)
      in [Distribute in1 (g1 0) (g1 1) id1 id2 msk,
          Distribute in2 (g2 0) (g2 1) id1 id2 msk,
          Merge (g1 0) (g2 0) out1,
          Merge (g1 1) (g2 1) out2])"

definition switch_4x4_frp ::
    "nat \<Rightarrow> nat \<Rightarrow> nat \<Rightarrow> nat \<Rightarrow> nat \<Rightarrow> nat \<Rightarrow> nat \<Rightarrow> nat \<Rightarrow> nat \<Rightarrow> stage list" where
  "switch_4x4_frp b in1 in2 in3 in4 out1 out2 out3 out4 =
     (let g1 = (\<lambda>k. b + 8 + k)
      in switch_2x2_frp b in1 in2 (g1 0) (g1 1) 0 1 0x1 @
         switch_2x2_frp (b + 4) in3 in4 (g1 2) (g1 3) 0 1 0x1 @
         switch_2x2_frp (b + 12) (g1 0) (g1 2) out1 out3 0 2 0x2 @
         switch_2x2_frp (b + 16) (g1 1) (g1 3) out2 out4 0 2 0x2)"

text \<open>The streams of the larger switches are given as lists: \<open>in1\<close> is \<open>i ! 0\<close>, \<open>out1\<close> is \<open>o ! 0\<close>.\<close>

definition switch_8x8_frp :: "nat \<Rightarrow> nat list \<Rightarrow> nat list \<Rightarrow> stage list" where
  "switch_8x8_frp b i out =
     (let g1 = (\<lambda>k. b + 40 + k)
      in switch_4x4_frp b (i ! 0) (i ! 1) (i ! 2) (i ! 3) (g1 0) (g1 1) (g1 2) (g1 3) @
         switch_4x4_frp (b + 20) (i ! 4) (i ! 5) (i ! 6) (i ! 7) (g1 4) (g1 5) (g1 6) (g1 7) @
         switch_2x2_frp (b + 48) (g1 0) (g1 4) (out ! 0) (out ! 4) 0 4 0x4 @
         switch_2x2_frp (b + 52) (g1 1) (g1 5) (out ! 1) (out ! 5) 0 4 0x4 @
         switch_2x2_frp (b + 56) (g1 2) (g1 6) (out ! 2) (out ! 6) 0 4 0x4 @
         switch_2x2_frp (b + 60) (g1 3) (g1 7) (out ! 3) (out ! 7) 0 4 0x4)"

text \<open>\<open>in01\<close> to \<open>in08\<close> are \<open>i ! 0\<close> to \<open>i ! 7\<close>, \<open>in11\<close> to \<open>in18\<close> are \<open>i ! 8\<close> to \<open>i ! 15\<close>, and so for the outputs.\<close>

definition switch_16x16_frp :: "nat \<Rightarrow> nat list \<Rightarrow> nat list \<Rightarrow> stage list" where
  "switch_16x16_frp b i out =
     (let g1 = (\<lambda>k. b + 128 + k); g2 = (\<lambda>k. b + 136 + k)
      in switch_8x8_frp b [i ! 0, i ! 1, i ! 2, i ! 3, i ! 4, i ! 5, i ! 6, i ! 7]
           [g1 0, g1 1, g1 2, g1 3, g1 4, g1 5, g1 6, g1 7] @
         switch_8x8_frp (b + 64) [i ! 8, i ! 9, i ! 10, i ! 11, i ! 12, i ! 13, i ! 14, i ! 15]
           [g2 0, g2 1, g2 2, g2 3, g2 4, g2 5, g2 6, g2 7] @
         switch_2x2_frp (b + 144) (g1 0) (g2 0) (out ! 0) (out ! 8) 0 8 0x8 @
         switch_2x2_frp (b + 148) (g1 1) (g2 1) (out ! 1) (out ! 9) 0 8 0x8 @
         switch_2x2_frp (b + 152) (g1 2) (g2 2) (out ! 2) (out ! 10) 0 8 0x8 @
         switch_2x2_frp (b + 156) (g1 3) (g2 3) (out ! 3) (out ! 11) 0 8 0x8 @
         switch_2x2_frp (b + 160) (g1 4) (g2 4) (out ! 4) (out ! 12) 0 8 0x8 @
         switch_2x2_frp (b + 164) (g1 5) (g2 5) (out ! 5) (out ! 13) 0 8 0x8 @
         switch_2x2_frp (b + 168) (g1 6) (g2 6) (out ! 6) (out ! 14) 0 8 0x8 @
         switch_2x2_frp (b + 172) (g1 7) (g2 7) (out ! 7) (out ! 15) 0 8 0x8)"

section \<open>Work stealing networks\<close>

definition work_stealing_2x2_frp :: "nat \<Rightarrow> nat \<Rightarrow> nat \<Rightarrow> nat \<Rightarrow> nat \<Rightarrow> stage list" where
  "work_stealing_2x2_frp b in1 in2 out1 out2 =
     (let g1 = (\<lambda>k. b + k); g2 = (\<lambda>k. b + 2 + k)
      in [Ws_Distribute in1 (g1 0) (g1 1),
          Ws_Distribute in2 (g2 0) (g2 1),
          Merge (g1 0) (g2 0) out1,
          Merge (g1 1) (g2 1) out2])"

definition work_stealing_4x4_frp ::
    "nat \<Rightarrow> nat \<Rightarrow> nat \<Rightarrow> nat \<Rightarrow> nat \<Rightarrow> nat \<Rightarrow> nat \<Rightarrow> nat \<Rightarrow> nat \<Rightarrow> stage list" where
  "work_stealing_4x4_frp b in1 in2 in3 in4 out1 out2 out3 out4 =
     (let g1 = (\<lambda>k. b + 8 + k)
      in work_stealing_2x2_frp b in1 in2 (g1 0) (g1 1) @
         work_stealing_2x2_frp (b + 4) in3 in4 (g1 2) (g1 3) @
         work_stealing_2x2_frp (b + 12) (g1 0) (g1 2) out1 out3 @
         work_stealing_2x2_frp (b + 16) (g1 1) (g1 3) out2 out4)"

definition work_stealing_8x8_frp :: "nat \<Rightarrow> nat list \<Rightarrow> nat list \<Rightarrow> stage list" where
  "work_stealing_8x8_frp b i out =
     (let g1 = (\<lambda>k. b + 40 + k)
      in work_stealing_4x4_frp b (i ! 0) (i ! 1) (i ! 2) (i ! 3) (g1 0) (g1 1) (g1 2) (g1 3) @
         work_stealing_4x4_frp (b + 20) (i ! 4) (i ! 5) (i ! 6) (i ! 7) (g1 4) (g1 5) (g1 6) (g1 7) @
         work_stealing_2x2_frp (b + 48) (g1 0) (g1 4) (out ! 0) (out ! 4) @
         work_stealing_2x2_frp (b + 52) (g1 1) (g1 5) (out ! 1) (out ! 5) @
         work_stealing_2x2_frp (b + 56) (g1 2) (g1 6) (out ! 2) (out ! 6) @
         work_stealing_2x2_frp (b + 60) (g1 3) (g1 7) (out ! 3) (out ! 7))"

definition work_stealing_16x16_frp :: "nat \<Rightarrow> nat list \<Rightarrow> nat list \<Rightarrow> stage list" where
  "work_stealing_16x16_frp b i out =
     (let g1 = (\<lambda>k. b + 128 + k); g2 = (\<lambda>k. b + 136 + k)
      in work_stealing_8x8_frp b [i ! 0, i ! 1, i ! 2, i ! 3, i ! 4, i ! 5, i ! 6, i ! 7]
           [g1 0, g1 1, g1 2, g1 3, g1 4, g1 5, g1 6, g1 7] @
         work_stealing_8x8_frp (b + 64) [i ! 8, i ! 9, i ! 10, i ! 11, i ! 12, i ! 13, i ! 14, i ! 15]
           [g2 0, g2 1, g2 2, g2 3, g2 4, g2 5, g2 6, g2 7] @
         work_stealing_2x2_frp (b + 144) (g1 0) (g2 0) (out ! 0) (out ! 8) @
         work_stealing_2x2_frp (b + 148) (g1 1) (g2 1) (out ! 1) (out ! 9) @
         work_stealing_2x2_frp (b + 152) (g1 2) (g2 2) (out ! 2) (out ! 10) @
         work_stealing_2x2_frp (b + 156) (g1 3) (g2 3) (out ! 3) (out ! 11) @
         work_stealing_2x2_frp (b + 160) (g1 4) (g2 4) (out ! 4) (out ! 12) @
         work_stealing_2x2_frp (b + 164) (g1 5) (g2 5) (out ! 5) (out ! 13) @
         work_stealing_2x2_frp (b + 168) (g1 6) (g2 6) (out ! 6) (out ! 14) @
         work_stealing_2x2_frp (b + 172) (g1 7) (g2 7) (out ! 7) (out ! 15))"

section \<open>Closed networks\<close>

text \<open>
  A switch with its input streams \<open>0 ..< n\<close>, its inner streams after them and its output streams
  last.  The inner streams hold \<open>inner_fifo_size\<close> items, the outer ones \<open>d\<close>.
\<close>

definition switch_depth :: "nat \<Rightarrow> nat \<Rightarrow> nat \<Rightarrow> nat \<Rightarrow> nat" where
  "switch_depth d n m c = (if n \<le> c \<and> c < m then inner_fifo_size else d)"

definition switch_16x16 :: "stage list" where
  "switch_16x16 = switch_16x16_frp 16 [0..<16] [192..<208]"

definition switch_8x8 :: "stage list" where
  "switch_8x8 = switch_8x8_frp 8 [0..<8] [72..<80]"

definition work_stealing_16x16 :: "stage list" where
  "work_stealing_16x16 = work_stealing_16x16_frp 16 [0..<16] [192..<208]"

lemmas switch_defs = switch_2x2_frp_def switch_4x4_frp_def switch_8x8_frp_def switch_16x16_frp_def
  work_stealing_2x2_frp_def work_stealing_4x4_frp_def work_stealing_8x8_frp_def
  work_stealing_16x16_frp_def Let_def

lemma upt_16: "[0..<16] = [0, 1, 2, 3, 4, 5, 6, 7, 8, 9, 10, 11, 12, 13, 14, 15]"
  by (simp add: upt_rec)

lemma upt_192: "[192..<208] = [192, 193, 194, 195, 196, 197, 198, 199, 200, 201, 202, 203, 204, 205, 206, 207]"
  by (simp add: upt_rec)

lemma ends_16x16: "{0..<16} = set [0..<16]" "{192..<208} = set [192..<208]"
  by (simp_all only: atLeastLessThan_upt)

lemma well_wired_switch_16x16: "well_wired switch_16x16 {0..<16} {192..<208}"
  unfolding switch_16x16_def ends_16x16 upt_16 upt_192
  by (simp add: switch_defs well_wired_def)

lemma ends_8x8: "{0..<8} = set [0..<8]" "{72..<80} = set [72..<80]"
  by (simp_all only: atLeastLessThan_upt)

lemma well_wired_switch_8x8: "well_wired switch_8x8 {0..<8} {72..<80}"
  unfolding switch_8x8_def ends_8x8
  by (simp add: upt_rec switch_defs well_wired_def)

subsection \<open>The work stealing networks are wired like the switches\<close>

definition ports :: "stage \<Rightarrow> nat list \<times> nat list" where
  "ports p = (reads p, writes p)"

lemma well_wired_ports:
  assumes "map ports ps = map ports qs"
  shows "well_wired ps ins outs = well_wired qs ins outs"
proof -
  define W where "W rw \<longleftrightarrow> distinct (concat (map fst rw)) \<and>
     (\<forall>(r, w) \<in> set rw. set r \<inter> outs = {} \<and> (\<forall>c \<in> set r. \<forall>d \<in> set w. c < d)) \<and>
     ins \<union> (\<Union>(r, w) \<in> set rw. set w) \<subseteq> outs \<union> (\<Union>(r, w) \<in> set rw. set r)" for rw
  have "well_wired ps ins outs = W (map ports ps)" for ps
    by (simp add: W_def well_wired_def ports_def comp_def)
  with assms show ?thesis by simp
qed

lemma ports_2x2: "map ports (work_stealing_2x2_frp b i j k l) = map ports (switch_2x2_frp b i j k l d e m)"
  by (simp add: work_stealing_2x2_frp_def switch_2x2_frp_def ports_def Let_def)

lemma ports_4x4: "map ports (work_stealing_4x4_frp b i j k l m n p q) = map ports (switch_4x4_frp b i j k l m n p q)"
  unfolding work_stealing_4x4_frp_def switch_4x4_frp_def Let_def map_append
  by (intro arg_cong2 [of _ _ _ _ append] ports_2x2)

lemma ports_8x8: "map ports (work_stealing_8x8_frp b i out) = map ports (switch_8x8_frp b i out)"
  unfolding work_stealing_8x8_frp_def switch_8x8_frp_def Let_def map_append
  by (intro arg_cong2 [of _ _ _ _ append] ports_2x2 ports_4x4)

lemma ports_16x16: "map ports (work_stealing_16x16_frp b i out) = map ports (switch_16x16_frp b i out)"
  unfolding work_stealing_16x16_frp_def switch_16x16_frp_def Let_def map_append
  by (intro arg_cong2 [of _ _ _ _ append] ports_2x2 ports_8x8)

lemma well_wired_work_stealing_16x16: "well_wired work_stealing_16x16 {0..<16} {192..<208}"
  using well_wired_switch_16x16 well_wired_ports [OF ports_16x16]
  by (simp only: work_stealing_16x16_def switch_16x16_def)

section \<open>Routes\<close>

lemma leads_2x2:
  assumes "set (switch_2x2_frp b in1 in2 out1 out2 id1 id2 msk) \<subseteq> set ps" and "i = in1 \<or> i = in2"
  shows "(\<And>d. d \<in> D \<Longrightarrow> d AND msk = id1) \<Longrightarrow> \<exists>es. leads ps D i es out1"
    and "id1 \<noteq> id2 \<Longrightarrow> (\<And>d. d \<in> D \<Longrightarrow> d AND msk = id2) \<Longrightarrow> \<exists>es. leads ps D i es out2"
proof -
  let ?Q = "switch_2x2_frp b in1 in2 out1 out2 id1 id2 msk"
  note simps = switch_2x2_frp_def distribute_package_def Let_def
  obtain c where 1: "Distribute i c (c + 1) id1 id2 msk \<in> set ?Q" and c: "c = b \<or> c = b + 2"
    using assms(2) by (auto simp: simps)
  have 2: "Merge b (b + 2) out1 \<in> set ?Q" "Merge (b + 1) (b + 3) out2 \<in> set ?Q"
    by (simp_all add: simps)
  note in_ps = 1 [THEN subsetD [OF assms(1)]] 2 [THEN subsetD [OF assms(1)]]
  show "\<exists>es. leads ps D i es out1" if "\<And>d. d \<in> D \<Longrightarrow> d AND msk = id1"
  proof -
    have "leads ps D c [Chan c, Busy (Merge b (b + 2) out1)] out1"
      using c by (intro leads.via [OF in_ps(2)]) (auto intro: leads.here)
    then have "leads ps D i (Chan i # Busy (Distribute i c (c + 1) id1 id2 msk) #
        [Chan c, Busy (Merge b (b + 2) out1)]) out1"
      using that by (intro leads.via [OF in_ps(1)]) (auto simp: simps)
    then show ?thesis ..
  qed
  show "\<exists>es. leads ps D i es out2" if "id1 \<noteq> id2" "\<And>d. d \<in> D \<Longrightarrow> d AND msk = id2"
  proof -
    have "leads ps D (c + 1) [Chan (c + 1), Busy (Merge (b + 1) (b + 3) out2)] out2"
      using c by (intro leads.via [OF in_ps(3)]) (auto intro: leads.here)
    then have "leads ps D i (Chan i # Busy (Distribute i c (c + 1) id1 id2 msk) #
        [Chan (c + 1), Busy (Merge (b + 1) (b + 3) out2)]) out2"
      using that by (intro leads.via [OF in_ps(1)]) (auto simp: simps)
    then show ?thesis ..
  qed
qed

lemma leads_trans:
  "\<exists>es. leads ps D c es c' \<Longrightarrow> \<exists>es. leads ps D c' es c'' \<Longrightarrow> \<exists>es. leads ps D c es c''"
  using leads_append by blast

lemma and_part:
  fixes d :: route_id
  assumes "d AND m = v" and "m AND k = k"
  shows "d AND k = v AND k"
proof -
  have "d AND k = (d AND m) AND k"
    by (simp only: and.assoc assms(2))
  with assms(1) show ?thesis by simp
qed

lemma leads_4x4:
  assumes sub: "set (switch_4x4_frp b in1 in2 in3 in4 out1 out2 out3 out4) \<subseteq> set ps"
    and i: "i \<in> {in1, in2, in3, in4}" and k: "k < 4" and D: "\<And>d. d \<in> D \<Longrightarrow> d AND 3 = of_nat k"
  shows "\<exists>es. leads ps D i es ([out1, out2, out3, out4] ! k)"
proof -
  note subs = sub [unfolded switch_4x4_frp_def Let_def set_append Un_subset_iff]
  note bit0 = and_part [OF D, where k = 1] and bit1 = and_part [OF D, where k = 2]
  obtain i' where first: "i = in1 \<and> i' = 0 \<or> i = in2 \<and> i' = 0 \<or> i = in3 \<and> i' = 2 \<or> i = in4 \<and> i' = (2::nat)"
    using i by auto
  have even: "\<exists>es. leads ps D i es (b + 8 + i')" if "\<And>d. d \<in> D \<Longrightarrow> d AND 1 = 0"
    using first that leads_2x2(1) [of b in1 in2, where ps = ps and i = i and D = D]
      leads_2x2(1) [of "b + 4" in3 in4, where ps = ps and i = i and D = D] subs by auto
  have odd: "\<exists>es. leads ps D i es (b + 8 + i' + 1)" if "\<And>d. d \<in> D \<Longrightarrow> d AND 1 = 1"
    using first that leads_2x2(2) [of b in1 in2, where ps = ps and i = i and D = D]
      leads_2x2(2) [of "b + 4" in3 in4, where ps = ps and i = i and D = D] subs by auto
  have i': "i' = 0 \<or> i' = 2" using first by auto
  from k consider "k = 0" | "k = 1" | "k = 2" | "k = 3" by linarith
  then show ?thesis
  proof cases
    case 1
    with i' bit0 bit1 subs show ?thesis
      by (intro leads_trans [OF even]) (auto intro!: leads_2x2(1) [of "b + 12"])
  next
    case 2
    with i' bit0 bit1 subs show ?thesis
      by (intro leads_trans [OF odd]) (auto intro!: leads_2x2(1) [of "b + 16"])
  next
    case 3
    with i' bit0 bit1 subs show ?thesis
      by (intro leads_trans [OF even]) (auto intro!: leads_2x2(2) [of "b + 12"])
  next
    case 4
    with i' bit0 bit1 subs show ?thesis
      by (intro leads_trans [OF odd]) (auto intro!: leads_2x2(2) [of "b + 16"])
  qed
qed

lemma less_8_cases: "(k::nat) < 8 \<Longrightarrow> k = 0 \<or> k = 1 \<or> k = 2 \<or> k = 3 \<or> k = 4 \<or> k = 5 \<or> k = 6 \<or> k = 7"
  by linarith

lemma leads_8x8:
  assumes sub: "set (switch_8x8_frp b i out) \<subseteq> set ps"
    and j: "j < 8" and k: "k < 8" and D: "\<And>d. d \<in> D \<Longrightarrow> d AND 7 = of_nat k"
  shows "\<exists>es. leads ps D (i ! j) es (out ! k)"
proof -
  note subs = sub [unfolded switch_8x8_frp_def Let_def set_append Un_subset_iff]
  have low: "d AND 3 = of_nat (k mod 4)" if "d \<in> D" for d
    using and_part [OF D [OF that], of 3] less_8_cases [OF k] by auto
  have high: "d AND 4 = (if k < 4 then 0 else 4)" if "d \<in> D" for d
    using and_part [OF D [OF that], of 4] less_8_cases [OF k] by auto
  have inner: "\<exists>es. leads ps D (i ! j) es (b + 40 + (k mod 4 + (if j < 4 then 0 else 4)))"
  proof (cases "j < 4")
    case True
    then have "i ! j \<in> {i ! 0, i ! 1, i ! 2, i ! 3}"
      using less_8_cases [OF j] by auto
    from leads_4x4 [OF subs [THEN conjunct1] this, of "k mod 4" D] low True less_8_cases [OF k]
    show ?thesis by auto
  next
    case False
    then have "i ! j \<in> {i ! 4, i ! 5, i ! 6, i ! 7}"
      using less_8_cases [OF j] by auto
    from leads_4x4 [OF subs [THEN conjunct2, THEN conjunct1] this, of "k mod 4" D] low False less_8_cases [OF k]
    show ?thesis by auto
  qed
  have outer: "\<exists>es. leads ps D (b + 40 + (m + n)) es (out ! (m + (if k < 4 then 0 else 4)))"
    if m: "m < 4" and n: "n = 0 \<or> n = 4" for m n
  proof -
    have "set (switch_2x2_frp (b + 48 + 4 * m) (b + 40 + m) (b + 40 + (m + 4)) (out ! m) (out ! (m + 4)) 0 4 0x4)
        \<subseteq> set ps"
      using m subs by (auto simp: less_Suc_eq numeral_eq_Suc)
    then show ?thesis
      using leads_2x2 [where D = D and i = "b + 40 + (m + n)"] high n by (cases "k < 4") auto
  qed
  have "k mod 4 + (if k < 4 then 0 else 4) = k"
    using less_8_cases [OF k] by auto
  with leads_trans [OF inner outer] show ?thesis
    by simp
qed

lemma leads_16x16:
  assumes sub: "set (switch_16x16_frp b i out) \<subseteq> set ps"
    and j: "j < 16" and k: "k < 16" and D: "\<And>d. d \<in> D \<Longrightarrow> d AND 15 = of_nat k"
  shows "\<exists>es. leads ps D (i ! j) es (out ! k)"
proof -
  note subs = sub [unfolded switch_16x16_frp_def Let_def set_append Un_subset_iff]
  have k_cases: "k = k mod 8 \<or> k = k mod 8 + 8"
    using k by presburger
  have k8: "k mod 8 < 8" by simp
  have low: "d AND 7 = of_nat (k mod 8)" if "d \<in> D" for d
    using and_part [OF D [OF that], of 7] less_8_cases [OF k8] k_cases by auto
  have high: "d AND 8 = (if k < 8 then 0 else 8)" if "d \<in> D" for d
    using and_part [OF D [OF that], of 8] less_8_cases [OF k8] k_cases by auto
  have inner: "\<exists>es. leads ps D (i ! j) es (b + 128 + (k mod 8 + (if j < 8 then 0 else 8)))"
  proof (cases "j < 8")
    case True
    from leads_8x8 [OF subs [THEN conjunct1] this k8, of D] low less_8_cases [OF True] less_8_cases [OF k8] True
    show ?thesis by auto
  next
    case False
    with j have j8: "j - 8 < 8" by simp
    have "j = (j - 8) + 8" using False by simp
    with leads_8x8 [OF subs [THEN conjunct2, THEN conjunct1] j8 k8, of D] low less_8_cases [OF j8] less_8_cases [OF k8] False
    show ?thesis by (auto simp: ac_simps)
  qed
  have outer: "\<exists>es. leads ps D (b + 128 + (m + n)) es (out ! (m + (if k < 8 then 0 else 8)))"
    if m: "m < 8" and n: "n = 0 \<or> n = 8" for m n
  proof -
    have "set (switch_2x2_frp (b + 144 + 4 * m) (b + 128 + m) (b + 128 + (m + 8)) (out ! m) (out ! (m + 8)) 0 8 0x8)
        \<subseteq> set ps"
      using less_8_cases [OF m] subs by (elim disjE) (simp_all add: ac_simps)
    then show ?thesis
      using leads_2x2 [where D = D and i = "b + 128 + (m + n)"] high n by (cases "k < 8") auto
  qed
  have "k mod 8 + (if k < 8 then 0 else 8) = k"
    using k_cases k8 by auto
  with leads_trans [OF inner outer] show ?thesis
    by simp
qed

section \<open>The switches keep what the locales promise\<close>

definition switch_route :: "route_id \<Rightarrow> nat" where
  "switch_route d = 192 + unat (d AND 15)"

lemma unat_and_15: "unat (d AND 15 :: route_id) < 16"
proof -
  have "unat (d AND 15) \<le> unat (15 :: route_id)"
    by (rule word_le_nat_alt [THEN iffD1]) (rule word_and_le1)
  then show ?thesis by simp
qed

interpretation switch16: routed_network dest "switch_depth (Suc k) 16 192" switch_16x16 "{0..<16}" "{192..<208}" switch_route
  for dest :: "'a \<Rightarrow> route_id" and k
proof
  show "finite {0..<16::nat}" "finite {192..<208::nat}"
    by simp_all
  show "0 < switch_depth (Suc k) 16 192 c" for c
    by (simp add: switch_depth_def inner_fifo_size_def)
  show "well_wired switch_16x16 {0..<16} {192..<208}"
    by (rule well_wired_switch_16x16)
  show "switch_route d \<in> {192..<208}" for d
    using unat_and_15 [of d] by (simp add: switch_route_def)
  show "\<exists>es. leads switch_16x16 {d. switch_route d = out} i es out"
    if "i \<in> {0..<16}" "out \<in> {192..<208}" for i out
  proof -
    have "\<exists>es. leads switch_16x16 {d. switch_route d = out} ([0..<16] ! i) es ([192..<208] ! (out - 192))"
    proof (rule leads_16x16 [of 16 "[0..<16]" "[192..<208]"])
      fix d assume "d \<in> {d. switch_route d = out}"
      then show "d AND 15 = of_nat (out - 192)"
        by (auto simp: switch_route_def)
    qed (use that in \<open>auto simp: switch_16x16_def\<close>)
    moreover have "[0..<16] ! i = i" "[192..<208] ! (out - 192) = out"
      using that nth_upt [of 0 i 16] nth_upt [of 192 "out - 192" 208] by (simp_all del: upt_rec_numeral)
    ultimately show ?thesis by (simp only:)
  qed
qed

definition switch8_route :: "route_id \<Rightarrow> nat" where
  "switch8_route d = 72 + unat (d AND 7)"

lemma unat_and_7: "unat (d AND 7 :: route_id) < 8"
proof -
  have "unat (d AND 7) \<le> unat (7 :: route_id)"
    by (rule word_le_nat_alt [THEN iffD1]) (rule word_and_le1)
  then show ?thesis by simp
qed

interpretation switch8: routed_network dest "switch_depth (Suc k) 8 72" switch_8x8 "{0..<8}" "{72..<80}" switch8_route
  for dest :: "'a \<Rightarrow> route_id" and k
proof
  show "finite {0..<8::nat}" "finite {72..<80::nat}"
    by simp_all
  show "0 < switch_depth (Suc k) 8 72 c" for c
    by (simp add: switch_depth_def inner_fifo_size_def)
  show "well_wired switch_8x8 {0..<8} {72..<80}"
    by (rule well_wired_switch_8x8)
  show "switch8_route d \<in> {72..<80}" for d
    using unat_and_7 [of d] by (simp add: switch8_route_def)
  show "\<exists>es. leads switch_8x8 {d. switch8_route d = out} i es out"
    if "i \<in> {0..<8}" "out \<in> {72..<80}" for i out
  proof -
    have "\<exists>es. leads switch_8x8 {d. switch8_route d = out} ([0..<8] ! i) es ([72..<80] ! (out - 72))"
    proof (rule leads_8x8 [of 8 "[0..<8]" "[72..<80]"])
      fix d assume "d \<in> {d. switch8_route d = out}"
      then show "d AND 7 = of_nat (out - 72)"
        by (auto simp: switch8_route_def)
    qed (use that in \<open>auto simp: switch_8x8_def\<close>)
    moreover have "[0..<8] ! i = i" "[72..<80] ! (out - 72) = out"
      using that nth_upt [of 0 i 8] nth_upt [of 72 "out - 72" 80] by (simp_all del: upt_rec_numeral)
    ultimately show ?thesis by (simp only:)
  qed
qed

interpretation steal16: network dest "switch_depth (Suc k) 16 192" work_stealing_16x16 "{0..<16}" "{192..<208}"
  for dest :: "'a \<Rightarrow> route_id" and k
  by unfold_locales (simp_all add: switch_depth_def inner_fifo_size_def well_wired_work_stealing_16x16)

definition forwards :: "stage \<Rightarrow> bool" where
  "forwards p \<longleftrightarrow> (\<forall>d. targets p d \<noteq> [])"

lemma work_stealing_16x16_targets: "p \<in> set work_stealing_16x16 \<Longrightarrow> targets p d \<noteq> []"
proof -
  have 2: "list_all forwards (work_stealing_2x2_frp b i j k l)" for b i j k l
    by (simp add: work_stealing_2x2_frp_def Let_def forwards_def)
  have "list_all forwards work_stealing_16x16"
    unfolding work_stealing_16x16_def work_stealing_16x16_frp_def work_stealing_8x8_frp_def
      work_stealing_4x4_frp_def Let_def
    by (simp add: 2)
  moreover assume "p \<in> set work_stealing_16x16"
  ultimately show ?thesis
    by (simp add: list_all_iff forwards_def)
qed

section \<open>The scheduling decisions\<close>

text \<open>
  \<open>merge_package\<close> is work-conserving and fair: it reads a non-empty input whenever there is
  one, and while both have items it takes the input it did not take last.
\<close>

theorem merge_package_fair:
  assumes "decide dest depth s flag (Merge in1 in2 out) = d"
  shows "(d = None \<longleftrightarrow> s in1 = [] \<and> s in2 = []) \<and>
    (\<forall>c o' g. d = Some (Forward c o' g) \<longrightarrow>
       s c \<noteq> [] \<and> o' = out \<and> c = (if g then in2 else in1) \<and>
       (s in1 \<noteq> [] \<and> s in2 \<noteq> [] \<longrightarrow> g = (\<not> flag)))"
  using assms by (auto simp: merge_package_code split: pick.splits if_splits)

theorem merge_package_fair_witness:
  "decide id (\<lambda>_. 12) ((\<lambda>_. [])(1 := [7], 2 := [9])) True (Merge 1 2 3) = Some (Forward 1 3 False)"
  using merge_package_fair [of id "\<lambda>_. 12" "(\<lambda>_. [])(1 := [7], 2 := [9])" True 1 2 3, OF refl]
  by (simp add: merge_package_code)

text \<open>
  C27: \<open>ws_distribute_package\<close> steals work: it never waits for a full output while the other output
  has room, it never drops an item, and with room on both sides it alternates.
\<close>

theorem ws_distribute_steals:
  assumes "decide dest depth s flag (Ws_Distribute i out1 out2) = Some d"
    and "length (s out1) < depth out1 \<or> length (s out2) < depth out2"
  shows "\<exists>out g. d = Forward i out g \<and> length (s out) < depth out \<and> out = (if g then out2 else out1) \<and>
    (length (s out1) < depth out1 \<and> length (s out2) < depth out2 \<longrightarrow> g = (\<not> flag))"
proof -
  obtain x xs where "s i = x # xs"
    using assms(1) by (cases "s i") auto
  with assms show ?thesis
    by (cases "length (s out1) < depth out1"; cases "length (s out2) < depth out2"; cases flag)
      (auto simp: ws_distribute_code Let_def)
qed

theorem ws_distribute_steals_witness:
  "\<exists>out g. decide id (\<lambda>_. 1) ((\<lambda>_. [])(1 := [7::u8], 2 := [9])) False (Ws_Distribute 1 2 3) =
     Some (Forward 1 out g) \<and> out = 3"
proof -
  have d: "decide id (\<lambda>_. 1) ((\<lambda>_. [])(1 := [7::u8], 2 := [9])) False (Ws_Distribute 1 2 3) = Some (Forward 1 3 True)"
    by (simp add: ws_distribute_code)
  from ws_distribute_steals [OF d] show ?thesis
    by (auto simp: ws_distribute_code)
qed

section \<open>Properties of the switches\<close>

text \<open>
  C5: whatever the interleaving of the 128 stages and of the environment, the 16x16 switch
  delivers every item at the output its destination's low four bits select, discards none, and
  what entered is what it holds plus what it delivered.
\<close>

theorem switch_16x16_routes:
  assumes "net_reachable dest (switch_depth (Suc k) 16 192) switch_16x16 {0..<16} {192..<208} s"
  shows "(\<forall>out. \<forall>x \<in> set (delivered s out). out = 192 + unat (dest x AND 15)) \<and>
    (\<forall>p. discarded s p = []) \<and>
    (\<Sum>c \<in> {0..<16}. mset (injected s c)) =
      in_flight switch_16x16 {0..<16} {192..<208} s + (\<Sum>c \<in> {192..<208}. mset (delivered s c))"
  using switch16.delivered_route [OF assms] switch16.nothing_discarded [OF assms]
    switch16.all_delivered [OF assms]
  unfolding switch_route_def by blast

lemma one_item_reachable:
  assumes "c \<in> ins" and "0 < depth c"
  shows "net_reachable dest depth ps ins outs (inject c x net_init)"
  using assms
  by (intro net_reachable.step [OF net_reachable.init net_step.inject]) (simp_all add: net_init_def)

lemma one_item_16x16:
  "net_reachable dest (switch_depth (Suc k) 16 192) ps {0..<16} outs (inject 3 x net_init)"
  by (rule one_item_reachable) (simp_all add: switch_depth_def)

theorem switch_16x16_routes_witness:
  "(\<Sum>c \<in> {0..<16}. mset (injected (inject 3 (5::u8) net_init) c)) =
     in_flight switch_16x16 {0..<16} {192..<208} (inject 3 5 net_init) +
     (\<Sum>c \<in> {192..<208}. mset (delivered (inject 3 5 net_init) c))"
  using switch_16x16_routes [OF one_item_16x16 [of id 0]] by blast

text \<open>
  C20: the 16x16 switch keeps the order of every flow: the items from input \<open>i\<close> that output \<open>out\<close>
  has delivered are, in order, the first of those that entered at \<open>i\<close> for \<open>out\<close>, and all of them
  once the switch is empty (\<open>src\<close> tells the items by the input they entered).
\<close>

theorem switch_16x16_in_order:
  assumes "net_reachable dest (switch_depth (Suc k) 16 192) switch_16x16 {0..<16} {192..<208} s"
    and "i < 16" and "out < 16"
    and "\<And>i x. x \<in> set (injected s i) \<Longrightarrow> src x = i"
  shows "prefix (filter (\<lambda>x. src x = i) (delivered s (192 + out)))
      (filter (\<lambda>x. unat (dest x AND 15) = out) (injected s i)) \<and>
    (net_empty s \<longrightarrow>
       filter (\<lambda>x. src x = i) (delivered s (192 + out)) =
       filter (\<lambda>x. unat (dest x AND 15) = out) (injected s i))"
  using switch16.flow_order [OF assms(1), of i "192 + out" src] assms(2-4)
  by (simp add: switch_route_def)

text \<open>
  C19: the 16x16 switch cannot deadlock: while it holds an item some stage or output can move, from
  every reachable state it can run empty, and every run without further arrivals is finite, with a
  bound that depends only on the state it starts from.
\<close>

theorem switch_16x16_live:
  assumes "net_reachable dest (switch_depth (Suc k) 16 192) switch_16x16 {0..<16} {192..<208} s"
  shows "(\<not> net_empty s \<longrightarrow> (\<exists>t. net_work dest (switch_depth (Suc k) 16 192) switch_16x16 {192..<208} s t)) \<and>
    (\<exists>n t. net_run dest (switch_depth (Suc k) 16 192) switch_16x16 {192..<208} n s t \<and> net_empty t) \<and>
    (\<exists>B. \<forall>n t. net_run dest (switch_depth (Suc k) 16 192) switch_16x16 {192..<208} n s t \<longrightarrow> n \<le> B)"
  using switch16.progress [OF assms] switch16.drains [OF assms] switch16.run_bounded [OF assms] by blast

lemma run_delivers:
  "net_run dest depth ps outs n s t \<Longrightarrow> net_reachable dest depth ps ins outs s \<Longrightarrow>
     injected t = injected s \<and> net_reachable dest depth ps ins outs t"
proof (induction rule: net_run.induct)
  case (more n s t u)
  then have "net_reachable dest depth ps ins outs u"
    by (blast intro: net_reachable.step net_step.net_work)
  moreover from more.hyps(2) have "injected u = injected t"
    by cases (auto simp: drain_def take_item_def put_item_def split: decision.splits)
  ultimately show ?case
    using more by simp
qed simp

theorem switch_16x16_live_witness:
  "\<exists>n t. net_run id (switch_depth (Suc 0) 16 192) switch_16x16 {192..<208} n (inject 3 5 net_init) t \<and> net_empty t"
  using switch_16x16_live [OF one_item_16x16 [of id 0]] by blast

theorem switch_16x16_in_order_witness:
  "\<exists>t. net_reachable id (switch_depth (Suc 0) 16 192) switch_16x16 {0..<16} {192..<208} t \<and>
     delivered t 197 = [5]"
proof -
  let ?d = "switch_depth (Suc 0) 16 192" and ?s = "inject 3 (5::u8) net_init"
  obtain n t where run: "net_run id ?d switch_16x16 {192..<208} n ?s t" and empty: "net_empty t"
    using switch16.drains [OF one_item_16x16 [of id 0]] by blast
  from run_delivers [OF run one_item_16x16] have t: "injected t = injected ?s"
    and reach: "net_reachable id ?d switch_16x16 {0..<16} {192..<208} t" by auto
  have "\<And>i x. x \<in> set (injected t i) \<Longrightarrow> (\<lambda>_. 3) x = i"
    by (auto simp: t inject_def net_init_def split: if_splits)
  from switch_16x16_in_order [OF reach _ _ this, of 3 5] empty
  have "delivered t 197 = [5]"
    by (simp add: t inject_def net_init_def)
  with reach show ?thesis by blast
qed

text \<open>
  C15: the 16x16 work stealing network loses and duplicates nothing, cannot deadlock, and every run
  without further arrivals is finite; every reachable state can run empty, with all items delivered.
\<close>

theorem work_stealing_16x16_correct:
  assumes "net_reachable dest (switch_depth (Suc k) 16 192) work_stealing_16x16 {0..<16} {192..<208} s"
  shows "(\<Sum>c \<in> {0..<16}. mset (injected s c)) =
      in_flight work_stealing_16x16 {0..<16} {192..<208} s + (\<Sum>c \<in> {192..<208}. mset (delivered s c)) \<and>
    (\<exists>n t. net_run dest (switch_depth (Suc k) 16 192) work_stealing_16x16 {192..<208} n s t \<and> net_empty t \<and>
       (\<Sum>c \<in> {192..<208}. mset (delivered t c)) = (\<Sum>c \<in> {0..<16}. mset (injected s c))) \<and>
    (\<exists>B. \<forall>n t. net_run dest (switch_depth (Suc k) 16 192) work_stealing_16x16 {192..<208} n s t \<longrightarrow> n \<le> B)"
proof -
  obtain n t where run: "net_run dest (switch_depth (Suc k) 16 192) work_stealing_16x16 {192..<208} n s t"
    and empty: "net_empty t"
    using steal16.drains [OF assms] by blast
  note t = run_delivers [OF run assms]
  have keep: "discarded u p = []"
    if "net_reachable dest (switch_depth (Suc k) 16 192) work_stealing_16x16 {0..<16} {192..<208} u" for u p
    using reachable_place_ok [OF that, of _ "Bin p"] work_stealing_16x16_targets [of p]
    by (cases "discarded u p") auto
  show ?thesis
    using steal16.conservation [OF assms] steal16.conservation [OF t [THEN conjunct2]] t run empty
      steal16.run_bounded [OF assms] keep [OF assms] keep [OF t [THEN conjunct2]]
    by (auto simp: empty_in_flight)
qed

theorem work_stealing_16x16_correct_witness:
  "\<exists>n t. net_run id (switch_depth (Suc 0) 16 192) work_stealing_16x16 {192..<208} n (inject 3 5 net_init) t \<and>
     net_empty t \<and> (\<Sum>c \<in> {192..<208}. mset (delivered t c)) = {#5#}"
proof -
  have "(\<Sum>c \<in> {0..<16}. mset (injected (inject 3 (5::u8) net_init) c)) = {#5#}"
    unfolding ends_16x16(1) upt_16 by (simp add: inject_def net_init_def)
  with work_stealing_16x16_correct [OF one_item_16x16 [of id 0, where x = 5]] show ?thesis
    by metis
qed

end
