(* ===== verification/Ap_Range.thy ===== *)
theory Ap_Range
  imports Prelude
begin

text \<open>
  Bit ranges of \<open>ap_uint<W>\<close> values (\<open>x.range(hi, lo)\<close>, read and assigned) and the fields laid out
  with them in \<open>src/rw_data_type/rw_type.h\<close> and by the \<open>ap_member\<close> macros of
  \<open>src/stream/stream_type.h\<close>.  The locale \<open>packed_pair\<close> is what the kernels rely on when they pack
  two fields into one item: reading a field gives what was written to it, and nothing else.
\<close>

section \<open>Ranges\<close>

definition ap_range :: "nat \<Rightarrow> nat \<Rightarrow> 'a::len word \<Rightarrow> 'a word" where
  "ap_range hi lo w = take_bit (Suc hi - lo) (drop_bit lo w)"

definition ap_set_range :: "nat \<Rightarrow> nat \<Rightarrow> 'a::len word \<Rightarrow> 'a word \<Rightarrow> 'a word" where
  "ap_set_range hi lo x w =
     (w AND NOT (push_bit lo (mask (Suc hi - lo)))) OR push_bit lo (take_bit (Suc hi - lo) x)"

lemma bit_ap_range: "bit (ap_range hi lo w) n \<longleftrightarrow> n < Suc hi - lo \<and> bit w (lo + n)"
  by (auto simp: ap_range_def bit_take_bit_iff bit_drop_bit_eq)

lemma bit_ap_set_range:
  "bit (ap_set_range hi lo x (w :: 'a::len word)) n \<longleftrightarrow>
     n < LENGTH('a) \<and> (if lo \<le> n \<and> n \<le> hi then bit x (n - lo) else bit w n)"
  by (auto simp: ap_set_range_def bit_or_iff bit_and_iff bit_not_iff bit_push_bit_iff bit_mask_iff
      bit_take_bit_iff dest: bit_imp_le_length)

lemma bit_ucast: "bit (ucast (w :: 'a::len word) :: 'b::len word) n \<longleftrightarrow> n < LENGTH('b) \<and> bit w n"
  by (simp add: bit_ucast_iff)

lemmas range_bits = bit_ap_range bit_ap_set_range bit_ucast

lemma ap_range_same:
  fixes x w :: "'a::len word"
  assumes "hi < LENGTH('a)" and "lo \<le> hi"
  shows "ap_range hi lo (ap_set_range hi lo x w) = take_bit (Suc hi - lo) x"
  using assms by (intro bit_word_eqI) (auto simp: range_bits bit_take_bit_iff)

lemma ap_range_other:
  "hi < lo' \<or> hi' < lo \<Longrightarrow> ap_range hi lo (ap_set_range hi' lo' x w) = ap_range hi lo w"
  by (intro bit_word_eqI) (auto simp: range_bits dest: bit_imp_le_length)

section \<open>Packed pairs\<close>

text \<open>Two fields that share an item.\<close>

locale packed_pair =
  fixes pack :: "'x \<Rightarrow> 'y \<Rightarrow> 'w" and fst_field :: "'w \<Rightarrow> 'x" and snd_field :: "'w \<Rightarrow> 'y"
  assumes fst_pack: "fst_field (pack x y) = x"
    and snd_pack: "snd_field (pack x y) = y"

context packed_pair begin

lemma pack_inject: "pack x y = pack x' y' \<longleftrightarrow> x = x' \<and> y = y'"
  by (metis fst_pack snd_pack)

lemma unpack_stream: "map (\<lambda>w. (fst_field w, snd_field w)) (map (\<lambda>(x, y). pack x y) xys) = xys"
  by (induction xys) (auto simp: fst_pack snd_pack)

end

text \<open>Two fields that make up the whole item.\<close>

locale full_pair = packed_pair +
  assumes pack_fields: "pack (fst_field w) (snd_field w) = w"

context full_pair begin

lemma field_eqI: "fst_field v = fst_field w \<Longrightarrow> snd_field v = snd_field w \<Longrightarrow> v = w"
  by (metis pack_fields)

lemma ex_pack: "\<exists>x y. w = pack x y"
  by (metis pack_fields)

end

section \<open>The items of the walk pipeline (rw\_type.h)\<close>

type_synonym lvertex = "40 word"
type_synonym lcolumn_access = "40 word"
type_synonym lquery_state = u64
type_synonym lvertex_desp = u64
type_synonym rpa_task = "104 word"
type_synonym cla_task = "104 word"
type_synonym sample_task = "128 word"

definition ap_lv_ma_chid :: "lvertex \<Rightarrow> 1 word" where "ap_lv_ma_chid v = ucast (ap_range 0 0 v)"
definition ap_lv_dest :: "lvertex \<Rightarrow> 3 word" where "ap_lv_dest v = ucast (ap_range 3 1 v)"
definition ap_lv_ma_vid :: "lvertex \<Rightarrow> 36 word" where "ap_lv_ma_vid v = ucast (ap_range 39 4 v)"

definition ap_lvd_addr :: "lvertex_desp \<Rightarrow> 27 word" where "ap_lvd_addr d = ucast (ap_range 26 0 d)"
definition ap_lvd_size :: "lvertex_desp \<Rightarrow> 27 word" where "ap_lvd_size d = ucast (ap_range 53 27 d)"
definition ap_lvd_chn :: "lvertex_desp \<Rightarrow> 5 word" where "ap_lvd_chn d = ucast (ap_range 58 54 d)"
definition ap_lvd_node :: "lvertex_desp \<Rightarrow> 5 word" where "ap_lvd_node d = ucast (ap_range 63 59 d)"

definition ap_qs_pv :: "lquery_state \<Rightarrow> lvertex" where "ap_qs_pv q = ucast (ap_range 39 0 q)"
definition ap_qs_qid :: "lquery_state \<Rightarrow> 14 word" where "ap_qs_qid q = ucast (ap_range 53 40 q)"
definition ap_qs_len :: "lquery_state \<Rightarrow> 10 word" where "ap_qs_len q = ucast (ap_range 63 54 q)"

definition ap_rpa_vid :: "rpa_task \<Rightarrow> lvertex" where "ap_rpa_vid t = ucast (ap_range 39 0 t)"
definition ap_rpa_qs :: "rpa_task \<Rightarrow> lquery_state" where "ap_rpa_qs t = ucast (ap_range 103 40 t)"

definition ap_sp_rp :: "sample_task \<Rightarrow> lvertex_desp" where "ap_sp_rp t = ucast (ap_range 63 0 t)"
definition ap_sp_qs :: "sample_task \<Rightarrow> lquery_state" where "ap_sp_qs t = ucast (ap_range 127 64 t)"

definition ap_cl_addr :: "lcolumn_access \<Rightarrow> 27 word" where "ap_cl_addr c = ucast (ap_range 26 0 c)"
definition ap_cl_chn :: "lcolumn_access \<Rightarrow> 5 word" where "ap_cl_chn c = ucast (ap_range 31 27 c)"
definition ap_cl_node :: "lcolumn_access \<Rightarrow> 5 word" where "ap_cl_node c = ucast (ap_range 36 32 c)"
definition ap_cl_dest :: "lcolumn_access \<Rightarrow> 10 word" where "ap_cl_dest c = ucast (ap_range 36 27 c)"

definition ap_cla_ca :: "cla_task \<Rightarrow> lcolumn_access" where "ap_cla_ca t = ucast (ap_range 39 0 t)"
definition ap_cla_qs :: "cla_task \<Rightarrow> lquery_state" where "ap_cla_qs t = ucast (ap_range 103 40 t)"

lemmas ap_field_defs =
  ap_lv_ma_chid_def ap_lv_dest_def ap_lv_ma_vid_def ap_lvd_addr_def ap_lvd_size_def ap_lvd_chn_def
  ap_lvd_node_def ap_qs_pv_def ap_qs_qid_def ap_qs_len_def ap_rpa_vid_def ap_rpa_qs_def ap_sp_rp_def
  ap_sp_qs_def ap_cl_addr_def ap_cl_chn_def ap_cl_node_def ap_cl_dest_def ap_cla_ca_def ap_cla_qs_def

text \<open>Assigning two fields one after the other, from an unset item \<open>w\<close>.\<close>

definition put_rpa :: "rpa_task \<Rightarrow> lvertex \<Rightarrow> lquery_state \<Rightarrow> rpa_task" where
  "put_rpa w v q = ap_set_range 103 40 (ucast q) (ap_set_range 39 0 (ucast v) w)"

definition put_sp :: "sample_task \<Rightarrow> lvertex_desp \<Rightarrow> lquery_state \<Rightarrow> sample_task" where
  "put_sp w d q = ap_set_range 127 64 (ucast q) (ap_set_range 63 0 (ucast d) w)"

definition put_cla :: "cla_task \<Rightarrow> lcolumn_access \<Rightarrow> lquery_state \<Rightarrow> cla_task" where
  "put_cla w c q = ap_set_range 39 0 (ucast c) (ap_set_range 103 40 (ucast q) w)"

interpretation rpa: full_pair "put_rpa w" ap_rpa_vid ap_rpa_qs for w
  by unfold_locales
    (intro bit_word_eqI; auto simp: put_rpa_def ap_field_defs range_bits dest: bit_imp_le_length)+

interpretation sp: full_pair "put_sp w" ap_sp_rp ap_sp_qs for w
  by unfold_locales
    (intro bit_word_eqI; auto simp: put_sp_def ap_field_defs range_bits dest: bit_imp_le_length)+

interpretation cla: full_pair "put_cla w" ap_cla_ca ap_cla_qs for w
  by unfold_locales
    (intro bit_word_eqI; auto simp: put_cla_def ap_field_defs range_bits dest: bit_imp_le_length)+

end
