(* ===== verification/Stream_Ops.thy ===== *)
theory Stream_Ops
  imports Ap_Range
begin

text \<open>
  The stream adapters of \<open>src/stream/stream_operation.h\<close>.  A loop over a stream is a function from
  the elements the stream supplies: what it writes and, once it has returned, the elements it has
  left unread (\<open>None\<close>: it waits for more input).
\<close>

section \<open>Items with an end flag\<close>

text \<open>
  \<open>name_frp_item_t\<close>: \<open>n\<close> data bits (\<open>ap_frp_data\<close>) and the flag \<open>ap_frp_last\<close> above them, \<open>n\<close> being
  \<open>sizeof(st) * 8\<close>.  Fields are assigned one by one to an item that starts out as \<open>w\<close>.
\<close>

definition ap_frp_data :: "nat \<Rightarrow> 'b::len word \<Rightarrow> 'a::len word" where
  "ap_frp_data n f = ucast (ap_range (n - 1) 0 f)"

definition ap_frp_last :: "nat \<Rightarrow> 'b::len word \<Rightarrow> bool" where
  "ap_frp_last n f \<longleftrightarrow> ap_range n n f = 1"

definition put_frp :: "nat \<Rightarrow> 'b::len word \<Rightarrow> 'a::len word \<Rightarrow> bool \<Rightarrow> 'b word" where
  "put_frp n w d l = ap_set_range n n (of_bool l) (ap_set_range (n - 1) 0 (ucast d) w)"

lemma ap_range_bit: "ap_range n n f = of_bool (bit f n)"
  by (intro bit_word_eqI) (auto simp: bit_ap_range bit_of_bool_iff)

lemma ap_frp_last_bit: "ap_frp_last n f \<longleftrightarrow> bit f n"
  by (simp add: ap_frp_last_def ap_range_bit)

lemma frp_packed_pair:
  assumes "LENGTH('a) = n" and "n < LENGTH('b)"
  shows "packed_pair (put_frp n (w :: 'b::len word)) (ap_frp_data n :: 'b word \<Rightarrow> 'a::len word) (ap_frp_last n)"
proof
  fix d :: "'a word" and l
  have n: "0 < n" using assms(1) len_gt_0 [where ?'a = 'a] by simp
  show "ap_frp_data n (put_frp n w d l) = d"
    using assms n by (intro bit_word_eqI) (auto simp: ap_frp_data_def put_frp_def range_bits)
  show "ap_frp_last n (put_frp n w d l) = l"
    using assms by (simp add: ap_frp_last_bit put_frp_def range_bits bit_of_bool_iff)
qed

section \<open>Adapters that stop at the end flag\<close>

fun axis_to_frp_stream :: "nat \<Rightarrow> 'b::len word \<Rightarrow> 'a::len word pkg list \<Rightarrow> 'b word list \<times> 'a word pkg list option" where
  "axis_to_frp_stream n w [] = ([], None)"
| "axis_to_frp_stream n w (axis_pkg # axis) =
     (let frp_item = put_frp n w (data axis_pkg) (last axis_pkg)
      in if last axis_pkg then ([frp_item], Some axis)
         else let (frp, rest) = axis_to_frp_stream n w axis in (frp_item # frp, rest))"

fun frp_to_axis_stream :: "nat \<Rightarrow> 'b::len word list \<Rightarrow> 'a::len word pkg list \<times> 'b word list option" where
  "frp_to_axis_stream n [] = ([], None)"
| "frp_to_axis_stream n (frp_item # frp) =
     (let axis_pkg = \<lparr>data = ap_frp_data n frp_item, last = ap_frp_last n frp_item\<rparr>
      in if ap_frp_last n frp_item then ([axis_pkg], Some frp)
         else let (axis, rest) = frp_to_axis_stream n frp in (axis_pkg # axis, rest))"

fun frp_pad_stream :: "nat \<Rightarrow> 'b::len word list \<Rightarrow> 'b word list \<times> 'b word list option" where
  "frp_pad_stream n [] = ([], None)"
| "frp_pad_stream n (d # ins) =
     (if ap_frp_last n d then ([d], Some ins)
      else let (out, rest) = frp_pad_stream n ins in (d # out, rest))"

fun frp_sink_stream :: "nat \<Rightarrow> 'b::len word list \<Rightarrow> 'b word list option" where
  "frp_sink_stream n [] = None"
| "frp_sink_stream n (d # ins) = (if ap_frp_last n d then Some ins else frp_sink_stream n ins)"

section \<open>Free-running adapters\<close>

fun free_run_axis_to_frp_stream :: "nat \<Rightarrow> 'b::len word \<Rightarrow> 'a::len word pkg list \<Rightarrow> 'b word list" where
  "free_run_axis_to_frp_stream n w [] = []"
| "free_run_axis_to_frp_stream n w (axis_pkg # axis) =
     put_frp n w (data axis_pkg) (last axis_pkg) # free_run_axis_to_frp_stream n w axis"

fun free_run_frp_to_axis_stream :: "nat \<Rightarrow> 'b::len word list \<Rightarrow> 'a::len word pkg list" where
  "free_run_frp_to_axis_stream n [] = []"
| "free_run_frp_to_axis_stream n (frp_item # frp) =
     \<lparr>data = ap_frp_data n frp_item, last = ap_frp_last n frp_item\<rparr> # free_run_frp_to_axis_stream n frp"

fun axis_to_hls_stream :: "'a pkg list \<Rightarrow> 'a list" where
  "axis_to_hls_stream [] = []"
| "axis_to_hls_stream (sdata # ins) = data sdata # axis_to_hls_stream ins"

fun hls_to_axis_stream :: "'a list \<Rightarrow> 'a pkg list" where
  "hls_to_axis_stream [] = []"
| "hls_to_axis_stream (d # ins) = \<lparr>data = d, last = False\<rparr> # hls_to_axis_stream ins"

fun stream_duplicator :: "'a list \<Rightarrow> 'a list \<times> 'a list" where
  "stream_duplicator [] = ([], [])"
| "stream_duplicator (d # ins) = (let (out1, out2) = stream_duplicator ins in (d # out1, d # out2))"

section \<open>Emptying a stream\<close>

text \<open>
  The two loops poll the stream without blocking until a condition on their counter holds; \<open>polls i\<close>
  says whether poll \<open>i\<close> finds an element.  The result is the number of polls after which the loop
  returns, \<open>None\<close> if it never does.
\<close>

definition CLEAR_CYCLE :: nat where "CLEAR_CYCLE = 256"

partial_function (option) clear_stream_loop :: "(nat \<Rightarrow> bool) \<Rightarrow> nat \<Rightarrow> nat \<Rightarrow> nat option" where
  "clear_stream_loop polls i end_counter =
     (let end_counter = (if polls i then end_counter + 1 else end_counter)
      in if CLEAR_CYCLE < end_counter then Some (Suc i) else clear_stream_loop polls (Suc i) end_counter)"

definition clear_stream :: "(nat \<Rightarrow> bool) \<Rightarrow> nat option" where
  "clear_stream polls = clear_stream_loop polls 0 0"

partial_function (option) empty_stream_loop :: "(nat \<Rightarrow> bool) \<Rightarrow> nat \<Rightarrow> nat \<Rightarrow> nat option" where
  "empty_stream_loop polls i end_counter =
     (let end_counter = (if polls i then 0 else end_counter + 1)
      in if 4095 \<le> end_counter then Some (Suc i) else empty_stream_loop polls (Suc i) end_counter)"

definition empty_stream :: "(nat \<Rightarrow> bool) \<Rightarrow> nat option" where
  "empty_stream polls = empty_stream_loop polls 0 0"

subsection \<open>Facts\<close>

lemma free_run_axis_to_frp_map:
  "free_run_axis_to_frp_stream n w axis = map (\<lambda>p. put_frp n w (data p) (last p)) axis"
  by (induction axis) auto

lemma free_run_frp_to_axis_map:
  "free_run_frp_to_axis_stream n frp = map (\<lambda>f. \<lparr>data = ap_frp_data n f, last = ap_frp_last n f\<rparr>) frp"
  by (induction frp) auto

lemma stream_duplicator_eq: "stream_duplicator xs = (xs, xs)"
  by (induction xs) auto

lemma hls_axis_inverse: "axis_to_hls_stream (hls_to_axis_stream xs) = xs"
  by (induction xs) auto

text \<open>The part of a stream up to its first end flag, and what follows.\<close>

definition frame_of :: "'a pkg list \<Rightarrow> 'a pkg list" where
  "frame_of xs = takeWhile (\<lambda>p. \<not> last p) xs @ take 1 (dropWhile (\<lambda>p. \<not> last p) xs)"

definition after_frame :: "'a pkg list \<Rightarrow> 'a pkg list option" where
  "after_frame xs = (if \<exists>p \<in> set xs. last p then Some (tl (dropWhile (\<lambda>p. \<not> last p) xs)) else None)"

lemma pkg_eta: "\<lparr>data = data p, last = last p\<rparr> = p"
  by simp

text \<open>The counters after \<open>n\<close> polls, if the loop has not returned.\<close>

primrec found_in :: "(nat \<Rightarrow> bool) \<Rightarrow> nat \<Rightarrow> nat" where
  "found_in polls 0 = 0"
| "found_in polls (Suc n) = (if polls n then found_in polls n + 1 else found_in polls n)"

primrec idle_for :: "(nat \<Rightarrow> bool) \<Rightarrow> nat \<Rightarrow> nat" where
  "idle_for polls 0 = 0"
| "idle_for polls (Suc n) = (if polls n then 0 else idle_for polls n + 1)"

lemma found_in_eq: "found_in polls n = length (filter polls [0..<n])"
  by (induction n) simp_all

lemma found_in_first: "256 < found_in polls m \<and> (\<forall>n<m. \<not> 256 < found_in polls n) \<longleftrightarrow>
    (\<exists>j. m = Suc j \<and> polls j \<and> found_in polls j = 256)"
proof
  assume first: "256 < found_in polls m \<and> (\<forall>n<m. \<not> 256 < found_in polls n)"
  then obtain j where j: "m = Suc j" by (cases m) auto
  with first have "\<not> 256 < found_in polls j" by blast
  with first j show "\<exists>j. m = Suc j \<and> polls j \<and> found_in polls j = 256" by (auto split: if_splits)
next
  have mono: "n \<le> j \<Longrightarrow> found_in polls n \<le> found_in polls j" for n j
    by (rule lift_Suc_mono_le [of "found_in polls"]) simp_all
  assume "\<exists>j. m = Suc j \<and> polls j \<and> found_in polls j = 256"
  then obtain j where j: "m = Suc j" "polls j" "found_in polls j = 256" by blast
  then have "found_in polls n \<le> 256" if "n < m" for n using mono [of n j] that by simp
  with j show "256 < found_in polls m \<and> (\<forall>n<m. \<not> 256 < found_in polls n)" by (auto simp: not_less)
qed

lemma idle_for_ge: "k \<le> idle_for polls n \<longleftrightarrow> k \<le> n \<and> (\<forall>i. n - k \<le> i \<and> i < n \<longrightarrow> \<not> polls i)"
proof (induction n arbitrary: k)
  case (Suc n)
  show ?case
  proof (cases k)
    case k: (Suc k')
    have "(\<forall>i. n - k' \<le> i \<and> i < Suc n \<longrightarrow> \<not> polls i) \<longleftrightarrow> \<not> polls n \<and> (\<forall>i. n - k' \<le> i \<and> i < n \<longrightarrow> \<not> polls i)"
      by (auto simp: less_Suc_eq)
    then show ?thesis using Suc.IH [of k'] by (auto simp: k)
  qed auto
qed auto

text \<open>A loop that counts and returns at the first counter that is high enough.\<close>

lemma counting_loop:
  assumes loop: "\<And>i. loop i (counter i) = (if P (counter (Suc i)) then Some (Suc i) else loop (Suc i) (counter (Suc i)))"
    and start: "\<not> P (counter 0)" and returned: "\<And>m. loop 0 (counter 0) = Some m \<Longrightarrow> P (counter m)"
  shows "loop 0 (counter 0) = Some m \<longleftrightarrow> P (counter m) \<and> (\<forall>n<m. \<not> P (counter n))"
    and "loop 0 (counter 0) = None \<longleftrightarrow> (\<forall>n. \<not> P (counter n))"
proof -
  have reach: "loop i (counter i) = Some m" if "P (counter m)" "\<forall>n<m. \<not> P (counter n)" "i < m" for m i
    using that(3)
  proof (induction "m - i" arbitrary: i)
    case (Suc k)
    show ?case
    proof (cases "Suc i = m")
      case True
      then show ?thesis using that(1) loop [of i] by simp
    next
      case False
      then have "\<not> P (counter (Suc i))" "loop (Suc i) (counter (Suc i)) = Some m" using Suc that(2) by auto
      then show ?thesis using loop [of i] by simp
    qed
  qed simp
  have first: "loop 0 (counter 0) = Some m" if "P (counter m)" "\<forall>n<m. \<not> P (counter n)" for m
    using reach [OF that, of 0] start that(1) by (cases m) simp_all
  have least: "\<exists>m. loop 0 (counter 0) = Some m \<and> P (counter m) \<and> (\<forall>n<m. \<not> P (counter n))" if "P (counter n)" for n
  proof -
    let ?m = "LEAST n. P (counter n)"
    have 1: "P (counter ?m)" using that by (rule LeastI)
    have 2: "\<forall>n < ?m. \<not> P (counter n)" using not_less_Least by blast
    from first [OF 1 2] 1 2 show ?thesis by blast
  qed
  show "loop 0 (counter 0) = Some m \<longleftrightarrow> P (counter m) \<and> (\<forall>n<m. \<not> P (counter n))"
  proof
    assume m: "loop 0 (counter 0) = Some m"
    obtain m' where "loop 0 (counter 0) = Some m'" "P (counter m')" "\<forall>n<m'. \<not> P (counter n)"
      using least [OF returned [OF m]] by blast
    with m show "P (counter m) \<and> (\<forall>n<m. \<not> P (counter n))" by simp
  qed (use first in blast)
  show "loop 0 (counter 0) = None \<longleftrightarrow> (\<forall>n. \<not> P (counter n))"
  proof
    assume none: "loop 0 (counter 0) = None"
    show "\<forall>n. \<not> P (counter n)"
    proof (intro allI notI)
      fix n assume "P (counter n)"
      from least [OF this] none show False by simp
    qed
  next
    assume never: "\<forall>n. \<not> P (counter n)"
    show "loop 0 (counter 0) = None"
    proof (cases "loop 0 (counter 0)")
      case (Some m)
      from returned [OF this] never show ?thesis by blast
    qed
  qed
qed

lemma clear_stream_returned:
  assumes ret: "clear_stream_loop polls i c = Some m"
  shows "c = found_in polls i \<longrightarrow> 256 < found_in polls m"
proof (rule clear_stream_loop.raw_induct [where P = "\<lambda>polls i c m. c = found_in polls i \<longrightarrow> 256 < found_in polls m", OF _ ret])
  fix loop polls i c m
  assume IH: "\<And>polls i c m. loop polls i c = Some m \<Longrightarrow> c = found_in polls i \<longrightarrow> 256 < found_in polls m"
    and body: "(let c = (if polls i then c + 1 else c) in if CLEAR_CYCLE < c then Some (Suc i) else loop polls (Suc i) c) = Some m"
  show "c = found_in polls i \<longrightarrow> 256 < found_in polls m"
  proof
    assume "c = found_in polls i"
    with body have "(if 256 < found_in polls (Suc i) then Some (Suc i) else loop polls (Suc i) (found_in polls (Suc i))) = Some m"
      by (simp add: CLEAR_CYCLE_def Let_def split: if_splits)
    then have next_poll: "(if P then Some (Suc i) else loop polls (Suc i) (found_in polls (Suc i))) = Some m"
      if "P = (256 < found_in polls (Suc i))" for P using that by (simp only:)
    show "256 < found_in polls m"
    proof (cases "256 < found_in polls (Suc i)")
      case True
      then have "Suc i = m" using next_poll [of True] by simp
      with True show ?thesis by (simp only:)
    next
      case False
      then have "loop polls (Suc i) (found_in polls (Suc i)) = Some m" using next_poll [of False] by (simp del: found_in.simps)
      from IH [OF this] show ?thesis by blast
    qed
  qed
qed

lemma empty_stream_returned:
  assumes ret: "empty_stream_loop polls i c = Some m"
  shows "c = idle_for polls i \<longrightarrow> 4095 \<le> idle_for polls m"
proof (rule empty_stream_loop.raw_induct [where P = "\<lambda>polls i c m. c = idle_for polls i \<longrightarrow> 4095 \<le> idle_for polls m", OF _ ret])
  fix loop polls i c m
  assume IH: "\<And>polls i c m. loop polls i c = Some m \<Longrightarrow> c = idle_for polls i \<longrightarrow> 4095 \<le> idle_for polls m"
    and body: "(let c = (if polls i then 0 else c + 1) in if 4095 \<le> c then Some (Suc i) else loop polls (Suc i) c) = Some m"
  show "c = idle_for polls i \<longrightarrow> 4095 \<le> idle_for polls m"
  proof
    assume "c = idle_for polls i"
    with body have "(if 4095 \<le> idle_for polls (Suc i) then Some (Suc i) else loop polls (Suc i) (idle_for polls (Suc i))) = Some m"
      by (simp add: Let_def split: if_splits)
    then have next_poll: "(if P then Some (Suc i) else loop polls (Suc i) (idle_for polls (Suc i))) = Some m"
      if "P = (4095 \<le> idle_for polls (Suc i))" for P using that by (simp only:)
    show "4095 \<le> idle_for polls m"
    proof (cases "4095 \<le> idle_for polls (Suc i)")
      case True
      then have "Suc i = m" using next_poll [of True] by simp
      with True show ?thesis by (simp only:)
    next
      case False
      then have "loop polls (Suc i) (idle_for polls (Suc i)) = Some m" using next_poll [of False] by (simp del: idle_for.simps)
      from IH [OF this] show ?thesis by blast
    qed
  qed
qed

lemma clear_stream_iff:
  "clear_stream polls = Some m \<longleftrightarrow> 256 < found_in polls m \<and> (\<forall>n<m. \<not> 256 < found_in polls n)"
  "clear_stream polls = None \<longleftrightarrow> (\<forall>n. \<not> 256 < found_in polls n)"
proof -
  have loop: "clear_stream_loop polls i (found_in polls i) = (if 256 < found_in polls (Suc i) then Some (Suc i)
      else clear_stream_loop polls (Suc i) (found_in polls (Suc i)))" for i
    by (subst clear_stream_loop.simps) (simp add: CLEAR_CYCLE_def)
  have start: "\<not> 256 < found_in polls 0" by simp
  have returned: "256 < found_in polls m" if "clear_stream_loop polls 0 (found_in polls 0) = Some m" for m
    using clear_stream_returned [OF that] by blast
  show "clear_stream polls = Some m \<longleftrightarrow> 256 < found_in polls m \<and> (\<forall>n<m. \<not> 256 < found_in polls n)"
    using counting_loop(1) [of "clear_stream_loop polls" "found_in polls" "\<lambda>c. 256 < c", OF loop start returned]
    by (simp only: clear_stream_def found_in.simps(1))
  show "clear_stream polls = None \<longleftrightarrow> (\<forall>n. \<not> 256 < found_in polls n)"
    using counting_loop(2) [of "clear_stream_loop polls" "found_in polls" "\<lambda>c. 256 < c", OF loop start returned]
    by (simp only: clear_stream_def found_in.simps(1))
qed

lemma empty_stream_iff:
  "empty_stream polls = Some m \<longleftrightarrow> 4095 \<le> idle_for polls m \<and> (\<forall>n<m. \<not> 4095 \<le> idle_for polls n)"
  "empty_stream polls = None \<longleftrightarrow> (\<forall>n. \<not> 4095 \<le> idle_for polls n)"
proof -
  have loop: "empty_stream_loop polls i (idle_for polls i) = (if 4095 \<le> idle_for polls (Suc i) then Some (Suc i)
      else empty_stream_loop polls (Suc i) (idle_for polls (Suc i)))" for i
    by (subst empty_stream_loop.simps) simp
  have start: "\<not> 4095 \<le> idle_for polls 0" by simp
  have returned: "4095 \<le> idle_for polls m" if "empty_stream_loop polls 0 (idle_for polls 0) = Some m" for m
    using empty_stream_returned [OF that] by blast
  show "empty_stream polls = Some m \<longleftrightarrow> 4095 \<le> idle_for polls m \<and> (\<forall>n<m. \<not> 4095 \<le> idle_for polls n)"
    using counting_loop(1) [of "empty_stream_loop polls" "idle_for polls" "\<lambda>c. 4095 \<le> c", OF loop start returned]
    by (simp only: empty_stream_def idle_for.simps(1))
  show "empty_stream polls = None \<longleftrightarrow> (\<forall>n. \<not> 4095 \<le> idle_for polls n)"
    using counting_loop(2) [of "empty_stream_loop polls" "idle_for polls" "\<lambda>c. 4095 \<le> c", OF loop start returned]
    by (simp only: empty_stream_def idle_for.simps(1))
qed

text \<open>
  C29: \<open>axis_to_frp_stream\<close> and \<open>frp_to_axis_stream\<close> are inverse up to the end flag: packages turned
  into items and back are the input up to and with its first package with \<open>last\<close> set, and the first
  adapter returns exactly if there is one, with the rest unread.
\<close>

theorem frp_axis_roundtrip:
  fixes xs :: "'a::len word pkg list" and w :: "'b::len word"
  assumes "LENGTH('a) = n" and "n < LENGTH('b)"
  shows "fst (frp_to_axis_stream n (fst (axis_to_frp_stream n w xs))) = frame_of xs \<and>
    snd (axis_to_frp_stream n w xs) = after_frame xs"
proof -
  have pair: "packed_pair (put_frp n w) (ap_frp_data n :: 'b word \<Rightarrow> 'a word) (ap_frp_last n)"
    using assms by (rule frp_packed_pair)
  note frp = packed_pair.fst_pack [OF pair] packed_pair.snd_pack [OF pair]
  show ?thesis
    by (induction xs) (auto simp: frp frame_of_def after_frame_def Let_def split: prod.splits)
qed

theorem frp_axis_roundtrip_witness:
  "fst (frp_to_axis_stream 8 (fst (axis_to_frp_stream 8 (0 :: 9 word)
     [\<lparr>data = 7 :: u8, last = False\<rparr>, \<lparr>data = 9, last = True\<rparr>, \<lparr>data = 1, last = False\<rparr>]))) =
   [\<lparr>data = 7 :: u8, last = False\<rparr>, \<lparr>data = 9, last = True\<rparr>]"
  by (subst frp_axis_roundtrip [THEN conjunct1]) (simp_all add: frame_of_def)

definition quiet_until :: "(nat \<Rightarrow> bool) \<Rightarrow> nat \<Rightarrow> bool" where
  "quiet_until polls n \<longleftrightarrow> 4095 \<le> n \<and> (\<forall>i. n - 4095 \<le> i \<and> i < n \<longrightarrow> \<not> polls i)"

text \<open>
  C30: \<open>clear_stream\<close> returns exactly with the poll that finds the 257th element, and so never returns
  on a stream that supplies fewer; \<open>empty_stream\<close> returns exactly after the first 4095 polls in a row
  that find nothing, and never if there are none.
\<close>

theorem clear_and_empty_stream:
  "(clear_stream polls = Some m \<longleftrightarrow> (\<exists>j. m = Suc j \<and> polls j \<and> length (filter polls [0..<j]) = 256)) \<and>
   (clear_stream polls = None \<longleftrightarrow> (\<forall>n. length (filter polls [0..<n]) \<le> 256)) \<and>
   (empty_stream polls = Some m \<longleftrightarrow> quiet_until polls m \<and> (\<forall>n<m. \<not> quiet_until polls n)) \<and>
   (empty_stream polls = None \<longleftrightarrow> (\<forall>n. \<not> quiet_until polls n))"
proof -
  have "quiet_until polls n \<longleftrightarrow> 4095 \<le> idle_for polls n" for n by (simp add: quiet_until_def idle_for_ge)
  then show ?thesis
    using clear_stream_iff(1) [of polls m] clear_stream_iff(2) [of polls] empty_stream_iff(1) [of polls m] empty_stream_iff(2) [of polls]
      found_in_first [of polls m]
    by (simp add: found_in_eq not_less)
qed

text \<open>A stream that supplies 300 elements at once, and one that supplies one with every other poll.\<close>

theorem clear_and_empty_stream_witness:
  "clear_stream (\<lambda>i. i < 300) = Some 257 \<and> empty_stream (\<lambda>i. i < 300) = Some 4395 \<and>
   clear_stream (\<lambda>i. i < 256) = None \<and> empty_stream even = None"
proof (intro conjI)
  have count: "length (filter (\<lambda>i. i < k) [0..<n]) = min n k" for n k :: nat by (induction n) (auto simp: min_def)
  show "clear_stream (\<lambda>i. i < 300) = Some 257"
    using clear_and_empty_stream [of "\<lambda>i. i < 300" 257] by (simp add: count)
  show "clear_stream (\<lambda>i. i < 256) = None"
    using clear_and_empty_stream [of "\<lambda>i. i < 256" 0] by (simp add: count)
  have "quiet_until (\<lambda>i. i < 300) n \<longleftrightarrow> 4395 \<le> n" for n
    by (auto simp: quiet_until_def not_less dest: spec [of _ "n - 4095"])
  then show "empty_stream (\<lambda>i. i < 300) = Some 4395"
    using clear_and_empty_stream [of "\<lambda>i. i < 300" 4395] by simp
  have "\<not> quiet_until even n" for n
  proof
    assume quiet: "quiet_until even n"
    then have "4095 \<le> n" by (simp add: quiet_until_def)
    then have k: "n = Suc (Suc (n - 2))" by simp
    have "odd i" if "n - 4095 \<le> i" "i < n" for i using quiet that by (simp add: quiet_until_def)
    from this [of "n - 2"] this [of "n - 1"] have "odd (n - 2)" "odd (n - 1)" using k by linarith+
    moreover have "n - 1 = Suc (n - 2)" using k by simp
    ultimately show False by simp
  qed
  then show "empty_stream even = None" using clear_and_empty_stream [of even 0] by simp
qed

end
