(* ===== verification/Lv_Pipeline.thy ===== *)
theory Lv_Pipeline
  imports Stream_Ops "HOL-Library.Log_Nat"
begin

text \<open>
  The kernels one walk step goes through, one iteration each: \<open>lv_rpa_router\<close> (the two converters
  around its switch), \<open>lv_rpa_access\<close> (\<open>rpa_in\<close>, \<open>rpa_engine\<close>, \<open>rpa_out\<close>), \<open>lv_sample\<close>
  (\<open>uniform_sample\<close>), \<open>lv_cla_router\<close> and \<open>lv_cla_access\<close> (\<open>cla_in\<close>, \<open>cla_engine\<close>, \<open>cla_out\<close>), and
  the proof that together they move a walk to a neighbour of its vertex in the stored graph.
  Items that a kernel declares and fills field by field start out unset: an argument \<open>w\<close>.
\<close>

section \<open>Memory access (stream/mem\_access.hpp)\<close>

definition MM_STATE_MASK_END :: u32 where "MM_STATE_MASK_END = 0x80000000"
definition MM_STATE_MASK_DUMMY :: u32 where "MM_STATE_MASK_DUMMY = 0x40000000"

record mem_access_cmd =
  cmd_addr :: u64
  cmd_state :: u32

text \<open>An item of \<open>mem_access_stream_t(N)\<close>: data, the dummy flag (bit \<open>N\<close>) and \<open>last\<close>; its other bits are 0.\<close>

record 'd mem_item =
  mem_data :: 'd
  mem_dummy :: bool
  mem_last :: bool

text \<open>
  The items written for one command: \<open>burst\<close> is \<open>MEM_BURST_BUFFER_SIZE\<close>, \<open>dummy\<close> is
  \<open>MEM_DUMMY_DATA\<close>, \<open>mem\<close> the contents of the memory bank.
\<close>

definition mem_access_read ::
    "nat \<Rightarrow> 'w::len word \<Rightarrow> (u32 \<Rightarrow> 'w word) \<Rightarrow> mem_access_cmd \<Rightarrow> 'w word mem_item list" where
  "mem_access_read burst dummy mem mem_cmd =
     (let addr = ucast (cmd_addr mem_cmd) :: u32;
          dummy_flag = (cmd_state mem_cmd AND MM_STATE_MASK_DUMMY = MM_STATE_MASK_DUMMY)
      in map (\<lambda>bi. \<lparr>mem_data = (if dummy_flag then dummy else mem (addr + of_nat bi)),
                    mem_dummy = dummy_flag,
                    mem_last = (bi = burst - 1 \<and> cmd_state mem_cmd AND MM_STATE_MASK_END = MM_STATE_MASK_END)\<rparr>)
           [0..<burst])"

section \<open>Row pointer access\<close>

text \<open>\<open>rpa_input\<close>: \<open>route_vertex_t\<close> is a destination byte followed by the 13 bytes of the task.\<close>

definition rpa_input :: "113 word \<Rightarrow> 113 word \<Rightarrow> rpa_task pkg \<Rightarrow> 113 word" where
  "rpa_input w1 w2 rpa_pkg =
     (let v = ucast (ap_rpa_vid (data rpa_pkg)) :: u64;
          rv = ap_set_range 7 0 (ucast (drop_bit 1 (v AND 0xf))) w1;
          rv = ap_set_range 111 8 (ucast (data rpa_pkg)) rv
      in put_frp 112 w2 (ucast rv :: 112 word) (last rpa_pkg))"

definition rpa_output :: "113 word \<Rightarrow> rpa_task pkg" where
  "rpa_output route_vertex_frp =
     (let rv = (ucast (ap_frp_data 112 route_vertex_frp :: 112 word) :: 113 word)
      in \<lparr>data = ucast (ap_range 111 8 rv), last = ap_frp_last 112 route_vertex_frp\<rparr>)"

text \<open>The \<open>dest\<close> member the switches read.\<close>

definition route_dest :: "113 word \<Rightarrow> u8" where
  "route_dest frp_item = ucast (ap_range 7 0 frp_item)"

text \<open>One iteration of \<open>rpa_in\<close>: the channel it writes to, the memory command and the query state.\<close>

definition rpa_in :: "rpa_task pkg \<Rightarrow> bool \<times> mem_access_cmd pkg \<times> lquery_state pkg" where
  "rpa_in rpa_pkg =
     (let v = ap_rpa_vid (data rpa_pkg);
          chn_id = ap_lv_ma_chid v;
          local_vid = ucast (ap_lv_ma_vid v) :: u32;
          qs_pkg = \<lparr>data = ap_rpa_qs (data rpa_pkg), last = last rpa_pkg\<rparr>;
          cmd_value = (if last rpa_pkg then MM_STATE_MASK_END else 0)
      in (chn_id \<noteq> 0, \<lparr>data = \<lparr>cmd_addr = ucast local_vid, cmd_state = cmd_value\<rparr>, last = False\<rparr>, qs_pkg))"

text \<open>\<open>rpa_engine\<close>: \<open>mem_access\<close> with width 64, bursts of 1 and dummy data 0.\<close>

definition rpa_engine :: "(u32 \<Rightarrow> u64) \<Rightarrow> mem_access_cmd \<Rightarrow> u64 mem_item list" where
  "rpa_engine mem cmd = mem_access_read 1 0 mem cmd"

definition rpa_out_frp :: "sample_task \<Rightarrow> 129 word \<Rightarrow> u64 mem_item \<Rightarrow> lquery_state pkg \<Rightarrow> 129 word" where
  "rpa_out_frp w1 w2 data_pkg qs_pkg =
     (let st_data = put_sp w1 (mem_data data_pkg) (data qs_pkg)
      in put_frp 128 w2 st_data (last qs_pkg))"

section \<open>Sampling (uniform\_sample.cpp)\<close>

text \<open>
  The value of an unsigned integer after conversion to \<open>double\<close> or after one multiplication in it:
  53 significant bits, rounded to nearest, ties to even.  (Multiplying by \<open>inv_rand_max = 2 ^ -32\<close>
  is exact.)
\<close>

definition round53 :: "nat \<Rightarrow> nat" where
  "round53 n =
     (let e = floorlog 2 n - 53; q = n div 2 ^ e; r = n mod 2 ^ e
      in (if 2 * r < 2 ^ e \<or> (2 * r = 2 ^ e \<and> even q) then q else q + 1) * 2 ^ e)"

definition selected_index :: "27 word \<Rightarrow> u32 \<Rightarrow> u32" where
  "selected_index degree rn =
     (let product = round53 (round53 (unat degree) * round53 (unat rn))
      in of_nat (product div 2 ^ 32))"

definition uniform_sample :: "cla_task \<Rightarrow> bool \<Rightarrow> sample_task pkg \<Rightarrow> u32 \<Rightarrow> cla_task pkg" where
  "uniform_sample w last0 pkg rn =
     (let qs = ap_sp_qs (data pkg);
          vd = ap_sp_rp (data pkg);
          degree = ap_lvd_size vd;
          start = ap_lvd_addr vd;
          channel_id = ap_lvd_chn vd;
          node_id = ap_lvd_node vd;
          sampled_index = (ucast (selected_index degree rn + ucast start) :: 27 word);
          next_vertex_addr = 0;
          next_vertex_addr = ap_set_range 26 0 (ucast sampled_index) next_vertex_addr;
          next_vertex_addr = ap_set_range 31 27 (ucast channel_id) next_vertex_addr;
          next_vertex_addr = ap_set_range 36 32 (ucast node_id) next_vertex_addr
      in \<lparr>data = put_cla w next_vertex_addr qs, last = last0\<rparr>)"

section \<open>Column list access\<close>

definition cla_input :: "113 word \<Rightarrow> 113 word \<Rightarrow> cla_task pkg \<Rightarrow> 113 word" where
  "cla_input w1 w2 cla_pkg =
     (let v = ap_cla_ca (data cla_pkg);
          rv = ap_set_range 7 0 (ucast (drop_bit 1 (ap_cl_dest v))) w1;
          rv = ap_set_range 111 8 (ucast (data cla_pkg)) rv
      in put_frp 112 w2 (ucast rv :: 112 word) (last cla_pkg))"

definition cla_output :: "113 word \<Rightarrow> cla_task pkg" where
  "cla_output route_vertex_frp =
     (let rv = (ucast (ap_frp_data 112 route_vertex_frp :: 112 word) :: 113 word)
      in \<lparr>data = ucast (ap_range 111 8 rv), last = ap_frp_last 112 route_vertex_frp\<rparr>)"

definition cla_in :: "cla_task pkg \<Rightarrow> bool \<times> mem_access_cmd pkg \<times> lquery_state pkg" where
  "cla_in cla_pkg =
     (let cla_task = ap_cla_ca (data cla_pkg);
          chn_id = (ucast (ap_cl_dest cla_task AND 0x01) :: 1 word);
          local_addr = ucast (ap_cl_addr cla_task) :: u32;
          qs_pkg = \<lparr>data = ap_cla_qs (data cla_pkg), last = last cla_pkg\<rparr>;
          cmd_value = (if last cla_pkg then MM_STATE_MASK_END else 0)
      in (chn_id \<noteq> 0, \<lparr>data = \<lparr>cmd_addr = ucast local_addr, cmd_state = cmd_value\<rparr>, last = False\<rparr>, qs_pkg))"

definition cla_engine :: "(u32 \<Rightarrow> u64) \<Rightarrow> mem_access_cmd \<Rightarrow> u64 mem_item list" where
  "cla_engine mem cmd = mem_access_read 1 0 mem cmd"

definition cla_out_frp :: "rpa_task \<Rightarrow> 105 word \<Rightarrow> u64 mem_item \<Rightarrow> lquery_state pkg \<Rightarrow> 105 word" where
  "cla_out_frp w1 w2 data_pkg qs_pkg =
     (let rpa_data = put_rpa w1 (ucast (mem_data data_pkg)) (data qs_pkg)
      in put_frp 104 w2 rpa_data (last qs_pkg))"

section \<open>Rounding\<close>

lemma round53_small: "n < 2 ^ 53 \<Longrightarrow> round53 n = n"
proof -
  assume n: "n < 2 ^ 53"
  have "floorlog 2 n \<le> 53"
    using n floorlog_le_iff [of 2 n 53] by simp
  then show ?thesis
    by (simp add: round53_def Let_def)
qed

lemma round53_bounds:
  defines "e \<equiv> \<lambda>n. floorlog 2 n - 53"
  shows "2 * round53 n \<le> 2 * n + 2 ^ e n \<and> (53 < floorlog 2 n \<longrightarrow> 2 ^ (52 + e n) \<le> n)"
proof
  let ?p = "2 ^ e n :: nat" and ?q = "n div 2 ^ e n" and ?r = "n mod 2 ^ e n"
  have n: "n = ?q * ?p + ?r"
    by (rule div_mult_mod_eq [symmetric])
  have r: "?r < ?p"
    by simp
  have "2 * round53 n \<le> 2 * (?q * ?p) + 2 * ?r + ?p"
    using r by (auto simp: round53_def Let_def e_def algebra_simps)
  then show "2 * round53 n \<le> 2 * n + ?p"
    using n by linarith
  show "53 < floorlog 2 n \<longrightarrow> 2 ^ (52 + e n) \<le> n"
  proof
    assume l: "53 < floorlog 2 n"
    then have "n \<noteq> 0" by (cases "n = 0") (auto simp: floorlog_def)
    then have "2 ^ (floorlog 2 n - 1) \<le> n"
      using floorlog_bounds [of n 2] by simp
    with l show "2 ^ (52 + e n) \<le> n"
      by (simp add: e_def)
  qed
qed

lemma selected_below:
  assumes "0 < d" and "r < 2 ^ 32"
  shows "round53 (d * r) div 2 ^ 32 < d"
proof -
  let ?n = "d * r" and ?e = "floorlog 2 (d * r) - 53"
  have "r \<le> 2 ^ 32 - 1" using assms(2) by simp
  then have "?n \<le> d * (2 ^ 32 - 1)" by (rule mult_le_mono2)
  then have n: "?n + d \<le> d * 2 ^ 32"
    using assms(1) by (simp add: algebra_simps)
  have "round53 ?n < d * 2 ^ 32"
  proof (cases "53 < floorlog 2 ?n")
    case False
    then have "?n < 2 ^ 53"
      using floorlog_le_iff [of 2 ?n 53] by simp
    then show ?thesis
      using n assms(1) by (simp add: round53_small)
  next
    case True
    then have le: "2 ^ (52 + ?e) \<le> ?n" and up: "2 * round53 ?n \<le> 2 * ?n + 2 ^ ?e"
      using round53_bounds [of ?n] by auto
    have "2 ^ (20 + ?e) * 2 ^ 32 \<le> ?n"
      using le by (simp add: power_add)
    also have "\<dots> < d * 2 ^ 32" using n assms(1) by linarith
    finally have "2 ^ (20 + ?e) < d" by simp
    then have "2 ^ ?e < 2 * d" by (simp add: power_add)
    with n up show ?thesis by linarith
  qed
  then show ?thesis
    by (simp add: less_mult_imp_div_less)
qed

lemma selected_index_less:
  assumes "degree \<noteq> 0"
  shows "unat (selected_index degree rn) < unat degree"
proof -
  have d: "0 < unat degree" "unat degree < 2 ^ 27" "unat rn < 2 ^ 32"
    using assms unsigned_less [of degree] unat_less_32 [of rn] by (auto simp: unat_gt_0)
  from d(1,3) have lt: "round53 (unat degree * unat rn) div 2 ^ 32 < unat degree"
    by (rule selected_below)
  have "round53 (unat degree) = unat degree" "round53 (unat rn) = unat rn"
    using d by (auto intro!: round53_small elim!: less_trans)
  then have "unat (selected_index degree rn) = (round53 (unat degree * unat rn) div 2 ^ 32) mod 2 ^ 32"
    by (simp add: selected_index_def unat_of_nat)
  also have "\<dots> < unat degree"
    using lt mod_less_eq_dividend le_less_trans by blast
  finally show ?thesis .
qed

text \<open>
  C22: sampling stays in the adjacency list: for every random number and every degree other than 0
  the index computed in \<open>double\<close> arithmetic, rounding included, is below the degree.
\<close>

theorem selected_index_in_range:
  assumes "degree \<noteq> 0"
  shows "unat (selected_index degree rn) < unat degree"
  using assms by (rule selected_index_less)

theorem selected_index_in_range_witness: "unat (selected_index 0x7ffffff 0xffffffff) < 0x7ffffff"
  using selected_index_in_range [of "0x7ffffff" "0xffffffff"] by simp

section \<open>The kernels\<close>

interpretation route_frp: packed_pair "put_frp 112 (w :: 113 word)" "ap_frp_data 112 :: 113 word \<Rightarrow> 112 word" "ap_frp_last 112"
  for w
  by (rule frp_packed_pair) simp_all

interpretation sample_frp: packed_pair "put_frp 128 (w :: 129 word)" "ap_frp_data 128 :: 129 word \<Rightarrow> sample_task" "ap_frp_last 128"
  for w
  by (rule frp_packed_pair) simp_all

interpretation rpa_frp: packed_pair "put_frp 104 (w :: 105 word)" "ap_frp_data 104 :: 105 word \<Rightarrow> rpa_task" "ap_frp_last 104"
  for w
  by (rule frp_packed_pair) simp_all

lemmas frp_fields = route_frp.fst_pack route_frp.snd_pack sample_frp.fst_pack sample_frp.snd_pack
  rpa_frp.fst_pack rpa_frp.snd_pack

lemmas task_fields = rpa.fst_pack rpa.snd_pack sp.fst_pack sp.snd_pack cla.fst_pack cla.snd_pack

lemma rpa_output_input: "rpa_output (rpa_input w1 w2 p) = p"
proof -
  have "ucast (ap_range 111 8 (ucast (ucast (ap_set_range 111 8 (ucast d) (w :: 113 word)) :: 112 word) :: 113 word)) = d"
    for d :: rpa_task and w
    by (intro bit_word_eqI) (auto simp: range_bits dest: bit_imp_le_length)
  then show ?thesis
    by (simp add: rpa_output_def rpa_input_def Let_def frp_fields)
qed

lemma cla_output_input: "cla_output (cla_input w1 w2 p) = p"
proof -
  have "ucast (ap_range 111 8 (ucast (ucast (ap_set_range 111 8 (ucast d) (w :: 113 word)) :: 112 word) :: 113 word)) = d"
    for d :: cla_task and w
    by (intro bit_word_eqI) (auto simp: range_bits dest: bit_imp_le_length)
  then show ?thesis
    by (simp add: cla_output_def cla_input_def Let_def frp_fields)
qed

lemma route_dest_frp:
  fixes d :: "'d::len word"
  shows "route_dest (put_frp 112 w2
      (ucast (ap_set_range 111 8 x (ap_set_range 7 0 (ucast d) w1 :: 113 word)) :: 112 word) l) = ucast d"
  by (intro bit_word_eqI) (auto simp: route_dest_def put_frp_def range_bits)

lemma route_dest_rpa: "route_dest (rpa_input w1 w2 p) = ucast (ap_lv_dest (ap_rpa_vid (data p)))"
proof -
  have f: "(0xf :: u64) = mask 4"
    by (simp add: mask_eq_exp_minus_1)
  have "(ucast (drop_bit 1 (ucast v AND 0xf :: u64)) :: u8) = ucast (ap_lv_dest v)" for v :: lvertex
    unfolding f
    by (intro bit_word_eqI) (auto simp: ap_lv_dest_def range_bits bit_drop_bit_eq bit_and_iff bit_mask_iff
        dest: bit_imp_le_length)
  then show ?thesis
    unfolding rpa_input_def Let_def by (simp only: route_dest_frp)
qed

lemma route_dest_cla: "route_dest (cla_input w1 w2 p) = ucast (drop_bit 1 (ap_cl_dest (ap_cla_ca (data p))))"
  unfolding cla_input_def Let_def by (simp only: route_dest_frp)

lemma rpa_in_fields:
  "rpa_in p =
     (ap_lv_ma_chid (ap_rpa_vid (data p)) \<noteq> 0,
      \<lparr>data = \<lparr>cmd_addr = ucast (ucast (ap_lv_ma_vid (ap_rpa_vid (data p))) :: u32),
              cmd_state = (if last p then MM_STATE_MASK_END else 0)\<rparr>, last = False\<rparr>,
      \<lparr>data = ap_rpa_qs (data p), last = last p\<rparr>)"
  by (simp add: rpa_in_def Let_def)

lemma mem_access_read_one:
  assumes "state = MM_STATE_MASK_END \<or> state = 0"
  shows "mem_data (hd (mem_access_read (Suc 0) dummy mem \<lparr>cmd_addr = a, cmd_state = state\<rparr>)) = mem (ucast a)"
  using assms by (auto simp: mem_access_read_def Let_def MM_STATE_MASK_END_def MM_STATE_MASK_DUMMY_def)

lemma ucast_up_down: "LENGTH('a::len) \<le> LENGTH('b::len) \<Longrightarrow> ucast (ucast (x :: 'a word) :: 'b word) = x"
  by (intro bit_word_eqI) (auto simp: bit_ucast dest: bit_imp_le_length)

lemma cl_fields:
  "ap_cl_addr (ap_set_range 36 32 (ucast (n :: 5 word)) (ap_set_range 31 27 (ucast (c :: 5 word)) (ap_set_range 26 0 (ucast (a :: 27 word)) w))) = a"
  "ap_cl_chn (ap_set_range 36 32 (ucast (n :: 5 word)) (ap_set_range 31 27 (ucast (c :: 5 word)) (ap_set_range 26 0 (ucast (a :: 27 word)) w))) = c"
  "ap_cl_node (ap_set_range 36 32 (ucast (n :: 5 word)) (ap_set_range 31 27 (ucast (c :: 5 word)) (ap_set_range 26 0 (ucast (a :: 27 word)) w))) = n"
  by (intro bit_word_eqI; auto simp: ap_field_defs range_bits dest: bit_imp_le_length)+

lemma cl_dest_engine: "ucast (drop_bit 1 (ap_cl_dest c)) AND 7 = (ucast (drop_bit 1 (ap_cl_chn c)) AND 7 :: u8)"
proof -
  have m: "(7 :: u8) = mask 3"
    by (simp add: mask_eq_exp_minus_1)
  show ?thesis
    unfolding m
    by (intro bit_word_eqI) (auto simp: ap_field_defs range_bits bit_and_iff bit_mask_iff bit_drop_bit_eq
        dest: bit_imp_le_length)
qed

lemma cl_dest_channel: "(ucast (ap_cl_dest c AND 0x01) :: 1 word) \<noteq> 0 \<longleftrightarrow> odd (ap_cl_chn c)"
proof -
  have "(ucast (ap_cl_dest c AND 0x01) :: 1 word) = of_bool (bit (ap_cl_chn c) 0)"
    by (intro bit_word_eqI)
      (auto simp: ap_field_defs range_bits bit_and_iff bit_of_bool_iff bit_1_iff)
  then show ?thesis
    by (simp add: bit_0)
qed

lemma lv_dest_engine: "(ucast (ap_lv_dest v) :: u8) AND 7 = ucast (ap_lv_dest v)"
proof -
  have m: "(7 :: u8) = mask 3"
    by (simp add: mask_eq_exp_minus_1)
  show ?thesis
    unfolding m
    by (intro bit_word_eqI) (auto simp: bit_ucast bit_and_iff bit_mask_iff dest: bit_imp_le_length)
qed

section \<open>One step of a walk\<close>

text \<open>
  The banks: eight row pointer engines and eight column engines (the outputs of the routers, the
  low three bits of \<open>dest\<close>), each with two channels.  The items the kernels declare without a
  value start as the components of an \<open>unset\<close> record.
\<close>

record unset =
  u_route1 :: "113 word"
  u_route2 :: "113 word"
  u_sample :: sample_task
  u_sample_frp :: "129 word"
  u_cla :: cla_task
  u_cla_last :: bool
  u_route3 :: "113 word"
  u_route4 :: "113 word"
  u_rpa :: rpa_task
  u_rpa_frp :: "105 word"

type_synonym banks = "u8 \<Rightarrow> bool \<Rightarrow> u32 \<Rightarrow> u64"

definition rpa_step :: "unset \<Rightarrow> banks \<Rightarrow> rpa_task pkg \<Rightarrow> sample_task pkg" where
  "rpa_step u rows task =
     (let frp = rpa_input (u_route1 u) (u_route2 u) task;
          engine = route_dest frp AND 7;
          (chn, cmd, qs) = rpa_in (rpa_output frp);
          item = hd (rpa_engine (rows engine chn) (data cmd))
      in hd (free_run_frp_to_axis_stream 128 [rpa_out_frp (u_sample u) (u_sample_frp u) item qs]))"

definition cla_step :: "unset \<Rightarrow> banks \<Rightarrow> cla_task pkg \<Rightarrow> rpa_task pkg" where
  "cla_step u columns task =
     (let frp = cla_input (u_route3 u) (u_route4 u) task;
          engine = route_dest frp AND 7;
          (chn, cmd, qs) = cla_in (cla_output frp);
          item = hd (cla_engine (columns engine chn) (data cmd))
      in hd (free_run_frp_to_axis_stream 104 [cla_out_frp (u_rpa u) (u_rpa_frp u) item qs]))"

definition walk_step :: "unset \<Rightarrow> banks \<Rightarrow> banks \<Rightarrow> u32 \<Rightarrow> rpa_task pkg \<Rightarrow> rpa_task pkg" where
  "walk_step u rows columns rn task =
     cla_step u columns (uniform_sample (u_cla u) (u_cla_last u) (rpa_step u rows task) rn)"

lemma rpa_step_eq:
  "rpa_step u rows p =
     (let v = ap_rpa_vid (data p)
      in \<lparr>data = put_sp (u_sample u)
                  (rows (ucast (ap_lv_dest v)) (ap_lv_ma_chid v \<noteq> 0) (ucast (ap_lv_ma_vid v)))
                  (ap_rpa_qs (data p)),
          last = last p\<rparr>)"
  by (simp add: rpa_step_def Let_def rpa_output_input route_dest_rpa lv_dest_engine rpa_in_fields
      rpa_engine_def mem_access_read_one ucast_up_down rpa_out_frp_def frp_fields)

lemma cla_step_eq:
  "cla_step u columns p =
     (let c = ap_cla_ca (data p)
      in \<lparr>data = put_rpa (u_rpa u)
                  (ucast (columns (ucast (drop_bit 1 (ap_cl_chn c)) AND 7) (odd (ap_cl_chn c)) (ucast (ap_cl_addr c))))
                  (ap_cla_qs (data p)),
          last = last p\<rparr>)"
  by (simp add: cla_step_def Let_def cla_output_input route_dest_cla cl_dest_engine [simplified] cl_dest_channel [simplified]
      cla_in_def cla_engine_def mem_access_read_one ucast_up_down cla_out_frp_def frp_fields)

text \<open>
  A graph stored in the banks: the row pointer of vertex \<open>v\<close> is in the engine, channel and slot its
  number selects, and describes its column list, which holds its neighbours in order.
\<close>

definition row_pointer :: "banks \<Rightarrow> lvertex \<Rightarrow> lvertex_desp" where
  "row_pointer rows v = rows (ucast (ap_lv_dest v)) (ap_lv_ma_chid v \<noteq> 0) (ucast (ap_lv_ma_vid v))"

definition column_entry :: "banks \<Rightarrow> lvertex_desp \<Rightarrow> nat \<Rightarrow> u64" where
  "column_entry columns d i =
     columns (ucast (drop_bit 1 (ap_lvd_chn d)) AND 7) (odd (ap_lvd_chn d)) (ucast (ap_lvd_addr d) + of_nat i)"

definition stored :: "banks \<Rightarrow> banks \<Rightarrow> (lvertex \<Rightarrow> lvertex list) \<Rightarrow> lvertex \<Rightarrow> bool" where
  "stored rows columns neighbours v \<longleftrightarrow>
     (let d = row_pointer rows v; n = length (neighbours v)
      in unat (ap_lvd_size d) = n \<and> unat (ap_lvd_addr d) + n \<le> 2 ^ 27 \<and>
         (\<forall>i < n. ucast (column_entry columns d i) = neighbours v ! i))"

lemma uniform_sample_fields:
  fixes pkg :: "sample_task pkg"
  defines "vd \<equiv> ap_sp_rp (data pkg)"
  shows "ap_cla_qs (data (uniform_sample w l pkg rn)) = ap_sp_qs (data pkg)"
    and "ap_cl_chn (ap_cla_ca (data (uniform_sample w l pkg rn))) = ap_lvd_chn vd"
    and "ap_cl_addr (ap_cla_ca (data (uniform_sample w l pkg rn))) =
      ucast (selected_index (ap_lvd_size vd) rn + ucast (ap_lvd_addr vd))"
    and "last (uniform_sample w l pkg rn) = l"
  unfolding uniform_sample_def Let_def vd_def
  by (simp_all only: task_fields cl_fields pkg.simps)

lemma sampled_address:
  fixes a :: "27 word" and i :: u32
  assumes "unat a + unat i < 2 ^ 27"
  shows "(ucast (ucast (i + ucast a :: u32) :: 27 word) :: u32) = ucast a + of_nat (unat i)"
proof -
  have a: "unat (ucast a :: u32) = unat a"
    using unsigned_less [of a, where ?'a = nat] by (simp add: unsigned_ucast_eq take_bit_nat_eq_self)
  have "unat (i + ucast a) = unat i + unat a"
    using assms by (subst unat_add_lem [THEN iffD1]) (simp_all add: a)
  then have "unat (ucast (ucast (i + ucast a :: u32) :: 27 word) :: u32) = unat (i + ucast a)"
    using assms by (simp add: unsigned_ucast_eq unsigned_take_bit_eq take_bit_nat_eq_self)
  then show ?thesis
    by (simp add: word_unat_eq_iff add.commute)
qed

text \<open>
  C1: one pass through the kernels is one step of a uniform random walk: for a vertex whose part of
  the graph is stored in the banks and that has a neighbour, the task that comes back names the
  neighbour selected by the random number and carries the query state unchanged, whatever the
  unset bits of the items were.
\<close>

theorem walk_step_moves_to_neighbour:
  assumes "stored rows columns neighbours v" and "neighbours v \<noteq> []" and "ap_rpa_vid (data task) = v"
  shows "ap_rpa_vid (data (walk_step u rows columns rn task)) =
      neighbours v ! unat (selected_index (of_nat (length (neighbours v))) rn) \<and>
    unat (selected_index (of_nat (length (neighbours v))) rn) < length (neighbours v) \<and>
    ap_rpa_qs (data (walk_step u rows columns rn task)) = ap_rpa_qs (data task)"
proof -
  let ?d = "row_pointer rows v" and ?n = "length (neighbours v)"
  let ?i = "selected_index (ap_lvd_size ?d) rn"
  have d: "unat (ap_lvd_size ?d) = ?n" "unat (ap_lvd_addr ?d) + ?n \<le> 2 ^ 27"
    "\<And>i. i < ?n \<Longrightarrow> ucast (column_entry columns ?d i) = neighbours v ! i"
    using assms(1) by (auto simp: stored_def Let_def)
  then have size: "ap_lvd_size ?d = of_nat ?n"
    by (simp add: d(1) [symmetric])
  have "ap_lvd_size ?d \<noteq> 0"
    using d(1) assms(2) by auto
  then have i: "unat ?i < ?n"
    using selected_index_less d(1) by metis
  have "ap_rpa_vid (data (walk_step u rows columns rn task)) = ucast (column_entry columns ?d (unat ?i)) \<and>
      ap_rpa_qs (data (walk_step u rows columns rn task)) = ap_rpa_qs (data task)"
    using d(2) i assms(3)
    by (simp add: walk_step_def cla_step_eq rpa_step_eq Let_def task_fields uniform_sample_fields
        row_pointer_def [symmetric] column_entry_def sampled_address)
  with d(3) [OF i] i show ?thesis
    by (simp add: size)
qed

text \<open>The walk step on a graph of one vertex with itself as its only neighbour, everything in slot 0.\<close>

text \<open>A graph whose vertex 0 has the neighbours 42 and 9; the random number selects the second.\<close>

definition no_values :: unset where
  "no_values = \<lparr>u_route1 = 0, u_route2 = 0, u_sample = 0, u_sample_frp = 0, u_cla = 0, u_cla_last = False,
     u_route3 = 0, u_route4 = 0, u_rpa = 0, u_rpa_frp = 0\<rparr>"

lemma selected_index_two: "selected_index 2 0x80000000 = 1"
  by (simp add: selected_index_def round53_small)

lemma two_neighbours_stored: "stored (\<lambda>_ _ _. 0x10000000) (\<lambda>_ _ a. if a = 0 then 42 else 9) (\<lambda>_. [42, 9]) 0"
proof -
  have "ap_lvd_size 0x10000000 = 2" "ap_lvd_addr 0x10000000 = 0"
    by (simp_all add: ap_lvd_size_def ap_lvd_addr_def ap_range_def)
  moreover have "\<forall>i < length [42 :: lvertex, 9]. ucast (if of_nat i = (0 :: u32) then 42 else 9 :: u64) = [42, 9] ! i"
    by (simp add: All_less_Suc)
  ultimately show ?thesis
    by (simp add: stored_def row_pointer_def column_entry_def)
qed

lemma two_neighbours_index: "unat (selected_index (of_nat (length [42 :: lvertex, 9])) 0x80000000) = 1"
  using selected_index_two by simp

theorem walk_step_moves_to_neighbour_witness:
  "ap_rpa_vid (data (walk_step no_values (\<lambda>_ _ _. 0x10000000) (\<lambda>_ _ a. if a = 0 then 42 else 9) 0x80000000
     \<lparr>data = put_rpa 0 0 77, last = False\<rparr>)) = 9"
  using walk_step_moves_to_neighbour [OF two_neighbours_stored, THEN conjunct1,
      of "\<lparr>data = put_rpa 0 0 77, last = False\<rparr>" no_values "0x80000000"]
  unfolding two_neighbours_index by (simp only: pkg.simps task_fields list.simps nth_Cons_Suc nth_Cons_0 One_nat_def simp_thms)

section \<open>The address of a row pointer\<close>

definition rpa_address :: "lvertex \<Rightarrow> u8 \<times> bool \<times> u32" where
  "rpa_address v =
     (let task = \<lparr>data = put_rpa 0 v 0, last = False\<rparr>; (chn, cmd, _) = rpa_in task
      in (route_dest (rpa_input 0 0 task), chn, ucast (cmd_addr (data cmd))))"

lemma rpa_address_eq:
  "rpa_address v = (ucast (ap_lv_dest v), ap_lv_ma_chid v \<noteq> 0, ucast (ap_lv_ma_vid v))"
  by (simp add: rpa_address_def Let_def rpa_in_fields route_dest_rpa task_fields ucast_up_down)

lemma vertex_bits:
  "bit (ucast (ap_lv_dest v) :: u8) n \<longleftrightarrow> n < 3 \<and> bit v (n + 1)"
  "ap_lv_ma_chid v \<noteq> 0 \<longleftrightarrow> bit v 0"
  "bit (ucast (ap_lv_ma_vid v) :: u32) n \<longleftrightarrow> n < 32 \<and> bit v (n + 4)"
proof -
  have "ap_lv_ma_chid v = of_bool (bit v 0)"
    by (intro bit_word_eqI) (auto simp: ap_field_defs range_bits bit_of_bool_iff)
  then show "ap_lv_ma_chid v \<noteq> 0 \<longleftrightarrow> bit v 0" by simp
qed (auto simp: ap_field_defs range_bits add.commute dest: bit_imp_le_length)

lemma rpa_address_alias:
  assumes "\<And>n. bit w n = (bit v n \<noteq> (n = 36))"
  shows "rpa_address w = rpa_address v"
  unfolding rpa_address_eq prod.inject
  by (intro conjI bit_word_eqI) (auto simp: vertex_bits assms)

text \<open>
  C25: below \<open>2 ^ 36\<close> no two vertices share a row pointer slot: engine, channel and local address
  determine the vertex.  (\<open>rpa_in\<close> keeps 32 of the 36 bits of the local number, so vertices
  \<open>2 ^ 36\<close> apart do share one.)
\<close>

theorem rpa_address_injective:
  fixes v w :: lvertex
  shows "(v < 2 ^ 36 \<longrightarrow> w < 2 ^ 36 \<longrightarrow> rpa_address v = rpa_address w \<longrightarrow> v = w) \<and>
    rpa_address (v XOR push_bit 36 1) = rpa_address v"
proof (intro conjI impI)
  assume "v < 2 ^ 36" "w < 2 ^ 36" and eq: "rpa_address v = rpa_address w"
  then have high: "\<not> bit v n \<and> \<not> bit w n" if "36 \<le> n" for n
    using that less_mask_eq [of v 36] less_mask_eq [of w 36] by (metis bit_and_iff bit_mask_iff linorder_not_le)
  show "v = w"
  proof (rule bit_word_eqI)
    fix n :: nat
    have d: "bit v (k + 1) = bit w (k + 1)" if "k < 3" for k
      using eq that vertex_bits(1) [of v k] vertex_bits(1) [of w k] by (simp add: rpa_address_eq)
    have l: "bit v (k + 4) = bit w (k + 4)" if "k < 32" for k
      using eq that vertex_bits(3) [of v k] vertex_bits(3) [of w k] by (simp add: rpa_address_eq)
    consider "n = 0" | "1 \<le> n" "n < 4" | "4 \<le> n" "n < 36" | "36 \<le> n" by linarith
    then show "bit v n = bit w n"
    proof cases
      case 1
      then show ?thesis
        using eq vertex_bits(2) [of v] vertex_bits(2) [of w] by (simp add: rpa_address_eq)
    next
      case 2
      with d [of "n - 1"] show ?thesis by simp
    next
      case 3
      with l [of "n - 4"] show ?thesis by simp
    next
      case 4
      with high show ?thesis by simp
    qed
  qed
next
  have flip: "bit (v XOR push_bit 36 1) n = (bit v n \<noteq> (n = 36))" for n
  proof -
    have "bit (push_bit 36 1 :: lvertex) n = (n = 36)"
      by (simp only: bit_push_bit_iff bit_1_iff) auto
    then show ?thesis
      by (simp only: bit_xor_iff)
  qed
  show "rpa_address (v XOR push_bit 36 1) = rpa_address v"
    using flip by (rule rpa_address_alias)
qed

theorem rpa_address_injective_witness: "rpa_address 5 \<noteq> rpa_address 21"
  using rpa_address_injective [of 5 21] by auto

end
