(* ===== verification/Lv_Router.thy ===== *)
theory Lv_Router
  imports Switch_Net Lv_Pipeline
begin

text \<open>
  The router kernels \<open>rpa_router\<close> and \<open>cla_router\<close>: eight input converters, the 8x8 switch with
  streams of depth 13 around it, eight output converters.  The locale \<open>router_ports\<close> is what a
  router relies on in its converters.
\<close>

lemma image_mset_sum: "finite A \<Longrightarrow> image_mset f (sum g A) = (\<Sum>a \<in> A. image_mset f (g a))"
  by (induction A rule: finite_induct) auto

definition router_depth :: nat where "router_depth = 13"

text \<open>The switch of a router in a state that its converters have fed with the packages \<open>arrived\<close>.\<close>

definition router_state :: "('i \<Rightarrow> route_id) \<Rightarrow> ('p \<Rightarrow> 'i) \<Rightarrow> (nat \<Rightarrow> 'p list) \<Rightarrow> 'i net \<Rightarrow> bool" where
  "router_state dest inp arrived s \<longleftrightarrow>
     net_reachable dest (switch_depth router_depth 8 72) switch_8x8 {0..<8} {72..<80} s \<and>
     (\<forall>c \<in> {0..<8}. injected s c = map inp (arrived c))"

text \<open>What the output converters have written to output \<open>out\<close>.\<close>

definition router_output :: "('i \<Rightarrow> 'p) \<Rightarrow> 'i net \<Rightarrow> nat \<Rightarrow> 'p list" where
  "router_output outp s out = map outp (delivered s (72 + out))"

locale router_ports =
  fixes inp :: "'p \<Rightarrow> 'i" and outp :: "'i \<Rightarrow> 'p" and dest :: "'i \<Rightarrow> route_id" and sel :: "'p \<Rightarrow> route_id"
  assumes output_input: "outp (inp p) = p"
    and dest_input: "dest (inp p) = sel p"

context router_ports begin

lemma router_conserves:
  assumes "router_state dest inp arrived s"
  shows "(\<Sum>c \<in> {0..<8}. mset (arrived c)) =
    image_mset outp (in_flight switch_8x8 {0..<8} {72..<80} s) + (\<Sum>out \<in> {0..<8}. mset (router_output outp s out))"
proof -
  have reach: "net_reachable dest (switch_depth (Suc 12) 8 72) switch_8x8 {0..<8} {72..<80} s"
    and fed: "\<And>c. c \<in> {0..<8} \<Longrightarrow> injected s c = map inp (arrived c)"
    using assms by (simp_all add: router_state_def router_depth_def)
  have "image_mset outp (\<Sum>c \<in> {0..<8}. mset (injected s c)) = (\<Sum>c \<in> {0..<8}. mset (arrived c))"
    unfolding image_mset_sum [OF finite_atLeastLessThan]
    by (rule sum.cong [OF refl]) (simp only: fed mset_map [symmetric] map_map comp_def output_input list.map_ident)
  moreover have "(\<Sum>c \<in> {72..<80}. mset (delivered s c)) = (\<Sum>out \<in> {0..<8}. mset (delivered s (72 + out)))"
    using sum.shift_bounds_nat_ivl [of "\<lambda>c. mset (delivered s c)" 0 72 8] by (simp add: add.commute)
  ultimately show ?thesis
    using switch8.all_delivered [OF reach]
    by (simp add: image_mset_sum router_output_def)
qed

lemma router_delivers:
  assumes "router_state dest inp arrived s" and "out < 8" and "p \<in> set (router_output outp s out)"
  shows "unat (sel p AND 7) = out"
proof -
  have reach: "net_reachable dest (switch_depth (Suc 12) 8 72) switch_8x8 {0..<8} {72..<80} s"
    and fed: "\<And>c. c \<in> {0..<8} \<Longrightarrow> injected s c = map inp (arrived c)"
    using assms by (simp_all add: router_state_def router_depth_def)
  from assms(3) obtain x where x: "x \<in> set (delivered s (72 + out))" and p: "p = outp x"
    by (auto simp: router_output_def)
  have "mset (delivered s (72 + out)) \<subseteq># (\<Sum>c \<in> {72..<80}. mset (delivered s c))"
    using assms(2) by (simp add: sum.remove [of "{72..<80}" "72 + out"])
  with x have "x \<in># (\<Sum>c \<in> {72..<80}. mset (delivered s c))"
    by (auto dest: mset_subset_eqD)
  then have "x \<in># (\<Sum>c \<in> {0..<8}. mset (injected s c))"
    using switch8.all_delivered [OF reach] by simp
  then obtain c where "c \<in> {0..<8}" "x \<in> set (injected s c)"
    by (auto simp: set_mset_sum)
  then obtain q where "x = inp q"
    using fed by auto
  with p have "dest x = sel p"
    by (simp add: output_input dest_input)
  with switch8.delivered_route [OF reach x] show ?thesis
    by (simp add: switch8_route_def)
qed

end

interpretation rpa_ports: router_ports "rpa_input w1 w2" rpa_output route_dest
    "\<lambda>p. ucast (ap_lv_dest (ap_rpa_vid (data p)))"
  for w1 w2
  by unfold_locales (simp_all add: rpa_output_input route_dest_rpa)

interpretation cla_ports: router_ports "cla_input w1 w2" cla_output route_dest
    "\<lambda>p. ucast (drop_bit 1 (ap_cl_dest (ap_cla_ca (data p))))"
  for w1 w2
  by unfold_locales (simp_all add: cla_output_input route_dest_cla)

lemma unat_lv_dest: "unat ((ucast (ap_lv_dest v) :: u8) AND 7) = unat (ap_lv_dest v)"
  using unsigned_less [of "ap_lv_dest v", where ?'a = nat]
  by (simp only: lv_dest_engine) (simp add: unsigned_ucast_eq take_bit_nat_eq_self)

text \<open>
  C13: the router kernels deliver every task to the engine that holds its data and lose none: a
  row pointer task leaves \<open>rpa_router\<close> at the output bits 3..1 of its vertex number give, a column
  task leaves \<open>cla_router\<close> at the one bits 3..1 of its channel give, and what arrived is what has
  left plus what the switch still holds.
\<close>

theorem routers_deliver:
  assumes "router_state route_dest (rpa_input w1 w2) arrived s"
    and "router_state route_dest (cla_input w3 w4) arrived' s'"
  shows "(\<forall>out < 8. \<forall>p \<in> set (router_output rpa_output s out). unat (ap_lv_dest (ap_rpa_vid (data p))) = out) \<and>
    (\<forall>out < 8. \<forall>p \<in> set (router_output cla_output s' out).
       unat (ucast (drop_bit 1 (ap_cl_chn (ap_cla_ca (data p)))) AND 7 :: u8) = out) \<and>
    (\<Sum>c \<in> {0..<8}. mset (arrived c)) =
      image_mset rpa_output (in_flight switch_8x8 {0..<8} {72..<80} s) +
      (\<Sum>out \<in> {0..<8}. mset (router_output rpa_output s out)) \<and>
    (\<Sum>c \<in> {0..<8}. mset (arrived' c)) =
      image_mset cla_output (in_flight switch_8x8 {0..<8} {72..<80} s') +
      (\<Sum>out \<in> {0..<8}. mset (router_output cla_output s' out))"
  using rpa_ports.router_delivers [OF assms(1)] cla_ports.router_delivers [OF assms(2)]
    rpa_ports.router_conserves [OF assms(1)] cla_ports.router_conserves [OF assms(2)]
  by (simp only: unat_lv_dest cl_dest_engine) blast

theorem routers_deliver_witness:
  "(\<Sum>c \<in> {0..<8::nat}. mset (((\<lambda>_. [])(3 := [\<lparr>data = put_rpa 0 10 7, last = False\<rparr>])) c)) =
     image_mset rpa_output (in_flight switch_8x8 {0..<8} {72..<80}
       (inject 3 (rpa_input 0 0 \<lparr>data = put_rpa 0 10 7, last = False\<rparr>) net_init)) +
     (\<Sum>out \<in> {0..<8}. mset (router_output rpa_output
       (inject 3 (rpa_input 0 0 \<lparr>data = put_rpa 0 10 7, last = False\<rparr>) net_init) out))"
proof -
  let ?p = "\<lparr>data = put_rpa 0 10 7, last = False\<rparr>"
  have "router_state route_dest (rpa_input 0 0) ((\<lambda>_. [])(3 := [?p])) (inject 3 (rpa_input 0 0 ?p) net_init)"
    unfolding router_state_def
    by (rule conjI [OF one_item_reachable]) (auto simp: router_depth_def switch_depth_def inject_def net_init_def)
  moreover have "router_state route_dest (cla_input 0 0) (\<lambda>_. []) net_init"
    by (auto simp: router_state_def intro: net_reachable.init) (simp add: net_init_def)
  ultimately show ?thesis
    by (rule routers_deliver [THEN conjunct2, THEN conjunct2, THEN conjunct1])
qed

end
