(* ===== verification/Lanes.thy ===== *)
theory Lanes
  imports Ap_Range
begin

text \<open>
  The 512-bit items of the weighted samplers (\<open>weight_t\<close> of \<open>src/rw_data_type/rw_data_struct.h\<close>):
  sixteen lanes of 32 bits, read and assigned with \<open>range(32 * (i + 1) - 1, 32 * i)\<close>.
\<close>

type_synonym weight_item = "512 word"

definition NUM_OF_WEIGHTS :: nat where "NUM_OF_WEIGHTS = 16"

definition lane :: "nat \<Rightarrow> weight_item \<Rightarrow> u32" where
  "lane i w = ucast (ap_range (32 * (i + 1) - 1) (32 * i) w)"

definition set_lane :: "nat \<Rightarrow> u32 \<Rightarrow> weight_item \<Rightarrow> weight_item" where
  "set_lane i x w = ap_set_range (32 * (i + 1) - 1) (32 * i) (ucast x) w"

text \<open>The loops that copy an item into an array and an array into an item that starts as \<open>w\<close>.\<close>

definition lanes :: "weight_item \<Rightarrow> u32 list" where
  "lanes w = map (\<lambda>i. lane i w) [0..<NUM_OF_WEIGHTS]"

definition pack_from :: "weight_item \<Rightarrow> u32 list \<Rightarrow> weight_item" where
  "pack_from w xs = fold (\<lambda>i. set_lane i (xs ! i)) [0..<NUM_OF_WEIGHTS] w"

abbreviation pack_lanes :: "u32 list \<Rightarrow> weight_item" where
  "pack_lanes \<equiv> pack_from 0"

lemma length_lanes [simp]: "length (lanes w) = 16"
  by (simp add: lanes_def NUM_OF_WEIGHTS_def)

lemma lanes_not_Nil [simp]: "lanes w \<noteq> []"
  using length_lanes [of w] by (metis list.size(3) zero_neq_numeral)

lemma lane_set_lane:
  assumes "i < 16" and "j < 16"
  shows "lane i (set_lane j x w) = (if i = j then x else lane i w)"
proof (cases "i = j")
  case True
  with assms show ?thesis
    by (intro bit_word_eqI) (auto simp: lane_def set_lane_def range_bits dest: bit_imp_le_length)
next
  case False
  then have "32 * (i + 1) - 1 < 32 * j \<or> 32 * (j + 1) - 1 < 32 * i"
    by auto
  with False show ?thesis
    by (simp add: lane_def set_lane_def ap_range_other del: One_nat_def)
qed

lemma lane_fold:
  "i < 16 \<Longrightarrow> n \<le> 16 \<Longrightarrow>
     lane i (fold (\<lambda>i. set_lane i (xs ! i)) [0..<n] w) = (if i < n then xs ! i else lane i w)"
  by (induction n) (auto simp: lane_set_lane less_Suc_eq)

lemma lanes_pack [simp]: "length xs = 16 \<Longrightarrow> lanes (pack_from w xs) = xs"
  by (rule nth_equalityI) (simp_all add: lanes_def pack_from_def NUM_OF_WEIGHTS_def lane_fold)

lemma nth_lanes: "i < 16 \<Longrightarrow> lanes w ! i = lane i w"
  by (simp add: lanes_def NUM_OF_WEIGHTS_def)

text \<open>The lanes are the whole item, so the value it had before the loop does not matter.\<close>

lemma lanes_eqI: "lanes v = lanes w \<Longrightarrow> v = w"
proof (rule bit_word_eqI)
  fix n
  assume eq: "lanes v = lanes w" and "n < LENGTH(512)"
  then have n: "n div 32 < 16" and split: "n = 32 * (n div 32) + n mod 32" by simp_all
  have "lane (n div 32) v = lane (n div 32) w"
    using eq n nth_lanes by metis
  then have "bit (lane (n div 32) v) (n mod 32) = bit (lane (n div 32) w) (n mod 32)" by simp
  moreover have "bit (lane (n div 32) u) (n mod 32) = bit u n" for u
    by (simp add: lane_def range_bits flip: split)
  ultimately show "bit v n = bit w n" by simp
qed

lemma pack_from_unset: "length xs = 16 \<Longrightarrow> pack_from w xs = pack_lanes xs"
  by (rule lanes_eqI) simp

lemma pack_lanes_eq: "length xs = 16 \<Longrightarrow> lanes w = xs \<Longrightarrow> pack_lanes xs = w"
  by (rule lanes_eqI) simp

text \<open>The top lane, read as \<open>range(511, 480)\<close>.\<close>

lemma top_lane: "ucast (ap_range (512 - 1) (512 - 32) w) = List.last (lanes w)"
  by (simp add: last_conv_nth nth_lanes lane_def)

lemma nth_numbers: "i < 16 \<Longrightarrow> map f [0..<NUM_OF_WEIGHTS] ! i = f i"
  "length (map f [0..<NUM_OF_WEIGHTS]) = 16"
  by (simp_all add: NUM_OF_WEIGHTS_def)

end
