(* ===== verification/Wrs.thy ===== *)
theory Wrs
  imports Lanes
begin

text \<open>
  Weighted reservoir sampling: the kernels \<open>partial_sum\<close>, \<open>perfix_sum\<close>, \<open>scale_weight\<close> and
  \<open>reservoir_mask\<close> of \<open>src/wrs\<close> and the two samplers \<open>src/msample\<close> and \<open>src/ssample\<close>, connected as
  in \<open>app/metapath/kernel.cfg\<close>, and the proof that together they are one pass of reservoir sampling
  over the weights of a burst.

  A kernel polls its first stream and reads the others blocking, so an iteration that finds
  something has all its inputs: a poll is \<open>None\<close> or the inputs of the iteration.
\<close>

section \<open>Polling loops\<close>

text \<open>What the polls of a stream found.\<close>

fun arrivals :: "'a option list \<Rightarrow> 'a list" where
  "arrivals [] = []"
| "arrivals (None # ps) = arrivals ps"
| "arrivals (Some x # ps) = x # arrivals ps"

lemma arrivals_Some [simp]: "arrivals (map Some xs) = xs"
  by (induction xs) simp_all

text \<open>
  The idle part of a loop with a flush window: the counter and the flag, both reset when the window
  is over and the inner loop is left.
\<close>

definition flush_idle :: "u8 \<Rightarrow> u8 \<times> bool \<Rightarrow> u8 \<times> bool" where
  "flush_idle window s =
     (case s of (flush_counter, notidle) \<Rightarrow>
        let flush_counter = (if notidle then flush_counter + 1 else flush_counter)
        in if window < flush_counter then (0, False) else (flush_counter, notidle))"

fun flush_loop :: "u8 \<Rightarrow> ('a \<Rightarrow> 'b) \<Rightarrow> u8 \<times> bool \<Rightarrow> 'a option list \<Rightarrow> 'b list" where
  "flush_loop window body s [] = []"
| "flush_loop window body s (None # ps) = flush_loop window body (flush_idle window s) ps"
| "flush_loop window body s (Some x # ps) = body x # flush_loop window body (0, True) ps"

lemma flush_loop_eq: "flush_loop window body s ps = map body (arrivals ps)"
  by (induction window body s ps rule: flush_loop.induct) simp_all

section \<open>The kernels\<close>

text \<open>\<open>burst_sync_t\<close> and \<open>next_vertex_ordered_t\<close> of \<open>rw_data_struct.h\<close>.\<close>

record burst_sync =
  bs_addr :: u32
  bs_id :: u16
  bs_burst_id :: u16
  bs_dynamic_id :: u16
  bs_state :: u16

record next_vertex_ordered =
  nvo_vertex :: u32
  nvo_id :: u16

subsection \<open>partial\_sum\<close>

fun pps_loop :: "u32 \<Rightarrow> u32 list \<Rightarrow> u32 list" where
  "pps_loop prev [] = []"
| "pps_loop prev (x # xs) = (prev + x) # pps_loop (prev + x) xs"

fun pps :: "u32 list \<Rightarrow> u32 list" where
  "pps [] = []"
| "pps (x # xs) = x # pps_loop x xs"

definition partial_sum_step :: "weight_item \<Rightarrow> weight_item \<times> weight_item" where
  "partial_sum_step weight = (weight, pack_lanes (pps (lanes weight)))"

definition partial_sum :: "weight_item option list \<Rightarrow> (weight_item \<times> weight_item) list" where
  "partial_sum polls = flush_loop 16 partial_sum_step (0, False) polls"

subsection \<open>perfix\_sum\<close>

text \<open>One iteration: the package to \<open>perfix_sum_output\<close> and the one handed on, and the new base.\<close>

definition perfix_sum_step ::
    "u32 list \<Rightarrow> burst_sync pkg \<times> weight_item \<Rightarrow> (weight_item \<times> weight_item) \<times> u32 list" where
  "perfix_sum_step base_sum inp =
     (case inp of (sync_pkg, weight) \<Rightarrow>
        let current_base = ucast (ap_range (512 - 1) (512 - 32) weight);
            out = (pack_lanes base_sum, weight)
        in if bs_burst_id (data sync_pkg) AND 0x8000 \<noteq> 0 then (out, map (\<lambda>_. 0) base_sum)
           else (out, map (\<lambda>b. b + current_base) base_sum))"

fun perfix_sum_loop ::
    "u8 \<Rightarrow> u32 list \<Rightarrow> (burst_sync pkg \<times> weight_item) option list \<Rightarrow> (weight_item \<times> weight_item) list" where
  "perfix_sum_loop flush_counter base_sum [] = []"
| "perfix_sum_loop flush_counter base_sum (None # ps) = perfix_sum_loop (flush_counter + 1) base_sum ps"
| "perfix_sum_loop flush_counter base_sum (Some x # ps) =
     (let (out, base_sum) = perfix_sum_step base_sum x in out # perfix_sum_loop 0 base_sum ps)"

definition perfix_sum :: "(burst_sync pkg \<times> weight_item) option list \<Rightarrow> (weight_item \<times> weight_item) list" where
  "perfix_sum polls = perfix_sum_loop 0 (replicate NUM_OF_WEIGHTS 0) polls"

subsection \<open>scale\_weight\<close>

text \<open>A lane: the sum has 33 bits, the product 65, of which \<open>scale_res\<close> keeps 64.\<close>

definition scale_lane :: "u32 \<Rightarrow> u32 \<Rightarrow> u32 \<Rightarrow> u32" where
  "scale_lane rng pws basev =
     (let sum = (ucast pws + ucast basev :: 33 word);
          scale_res = (ucast (ucast rng * ucast sum :: 65 word) :: u64)
      in ucast (ap_range 63 32 scale_res))"

definition scale_weight_step :: "weight_item \<times> weight_item \<times> weight_item \<Rightarrow> weight_item" where
  "scale_weight_step inp =
     (case inp of (rng, pws, basev) \<Rightarrow>
        pack_lanes (map (\<lambda>i. scale_lane (lanes rng ! i) (lanes pws ! i) (lanes basev ! i)) [0..<NUM_OF_WEIGHTS]))"

definition scale_weight :: "(weight_item \<times> weight_item \<times> weight_item) option list \<Rightarrow> weight_item list" where
  "scale_weight polls = flush_loop 8 scale_weight_step (0, False) polls"

subsection \<open>reservoir\_mask\<close>

definition reservoir_mask_step :: "weight_item \<times> weight_item \<Rightarrow> u16" where
  "reservoir_mask_step inp =
     (case inp of (weight, scale) \<Rightarrow>
        fold (\<lambda>i. ap_set_range i i (if lanes scale ! i < lanes weight ! i then 1 else 0)) [0..<NUM_OF_WEIGHTS] 0)"

definition reservoir_mask :: "(weight_item \<times> weight_item) option list \<Rightarrow> u16 list" where
  "reservoir_mask polls = flush_loop 8 reservoir_mask_step (0, False) polls"

subsection \<open>sample\<close>

text \<open>\<open>MSB_OF_4BIT\<close> and the tree over its four values; an \<open>ap_uint<5>\<close> holds the 16 at most.\<close>

definition msb_of_4bit :: "bool list \<Rightarrow> nat \<Rightarrow> nat" where
  "msb_of_4bit masks start =
     (if masks ! start then start + 1
      else if masks ! (start - 1) then start + 0
      else if masks ! (start - 2) then start - 1
      else if masks ! (start - 3) then start - 2
      else 0)"

definition msb_bit :: "bool list \<Rightarrow> nat" where
  "msb_bit masks =
     (let curr_msb_0 = msb_of_4bit masks 15; curr_msb_1 = msb_of_4bit masks 11;
          curr_msb_2 = msb_of_4bit masks 7; curr_msb_3 = msb_of_4bit masks 3;
          msb_level_1_0 = (if curr_msb_0 > curr_msb_1 then curr_msb_0 else curr_msb_1);
          msb_level_1_1 = (if curr_msb_2 > curr_msb_3 then curr_msb_2 else curr_msb_3)
      in if msb_level_1_0 > msb_level_1_1 then msb_level_1_0 else msb_level_1_1)"

definition mask_bits :: "u16 \<Rightarrow> bool list" where
  "mask_bits m = map (\<lambda>i. ap_range i i m = 1) [0..<NUM_OF_WEIGHTS]"

text \<open>One iteration of \<open>msample\<close>: the selected index is an address.\<close>

definition msample_step ::
    "u32 \<Rightarrow> burst_sync pkg \<times> u16 \<Rightarrow> next_vertex_ordered pkg list \<times> u32" where
  "msample_step selected_index inp =
     (case inp of (sync_pkg, rs_mask) \<Rightarrow>
        let msb = msb_bit (mask_bits rs_mask);
            selected_index = (if msb \<noteq> 0 then bs_addr (data sync_pkg) + of_nat (msb - 1) else selected_index)
        in if bs_burst_id (data sync_pkg) AND 0x8000 \<noteq> 0
           then ([\<lparr>data = \<lparr>nvo_vertex = selected_index, nvo_id = bs_id (data sync_pkg)\<rparr>, last = last sync_pkg\<rparr>],
                 0x80000000)
           else ([], selected_index))"

text \<open>One iteration of \<open>ssample\<close>: the selected index is the weight itself.\<close>

definition ssample_step ::
    "u32 \<Rightarrow> burst_sync pkg \<times> u16 \<times> weight_item \<Rightarrow> next_vertex_ordered pkg list \<times> u32" where
  "ssample_step selected_index inp =
     (case inp of (sync_pkg, rs_mask, weight) \<Rightarrow>
        let msb = msb_bit (mask_bits rs_mask);
            selected_index = (if msb \<noteq> 0 then lanes weight ! (msb - 1) else selected_index)
        in if bs_burst_id (data sync_pkg) AND 0x8000 \<noteq> 0
           then ([\<lparr>data = \<lparr>nvo_vertex = selected_index AND 0x7fffffff, nvo_id = bs_id (data sync_pkg)\<rparr>,
                   last = last sync_pkg\<rparr>], 0x80000000)
           else ([], selected_index))"

text \<open>The loop around either, with its flush counter (the \<open>break\<close> of the window is commented out).\<close>

fun sample_loop :: "('s \<Rightarrow> 'a \<Rightarrow> 'b list \<times> 's) \<Rightarrow> u8 \<Rightarrow> 's \<Rightarrow> 'a option list \<Rightarrow> 'b list" where
  "sample_loop body flush_counter s [] = []"
| "sample_loop body flush_counter s (None # ps) = sample_loop body (flush_counter + 1) s ps"
| "sample_loop body flush_counter s (Some x # ps) =
     (let (out, s) = body s x in out @ sample_loop body 0 s ps)"

definition msample :: "(burst_sync pkg \<times> u16) option list \<Rightarrow> next_vertex_ordered pkg list" where
  "msample polls = sample_loop msample_step 0 0x80000000 polls"

definition ssample :: "(burst_sync pkg \<times> u16 \<times> weight_item) option list \<Rightarrow> next_vertex_ordered pkg list" where
  "ssample polls = sample_loop ssample_step 0 0x80000000 polls"

section \<open>Idle polls do not matter\<close>

fun perfix_run :: "u32 list \<Rightarrow> (burst_sync pkg \<times> weight_item) list \<Rightarrow> (weight_item \<times> weight_item) list" where
  "perfix_run base_sum [] = []"
| "perfix_run base_sum (x # xs) = (let (out, base_sum) = perfix_sum_step base_sum x in out # perfix_run base_sum xs)"

fun sample_run :: "('s \<Rightarrow> 'a \<Rightarrow> 'b list \<times> 's) \<Rightarrow> 's \<Rightarrow> 'a list \<Rightarrow> 'b list" where
  "sample_run body s [] = []"
| "sample_run body s (x # xs) = (let (out, s) = body s x in out @ sample_run body s xs)"

lemma perfix_sum_loop_eq: "perfix_sum_loop fc base ps = perfix_run base (arrivals ps)"
  by (induction fc base ps rule: perfix_sum_loop.induct) (auto split: prod.split)

lemma sample_loop_eq: "sample_loop body fc s ps = sample_run body s (arrivals ps)"
  by (induction body fc s ps rule: sample_loop.induct) (auto split: prod.split)

lemmas idle_polls = partial_sum_def scale_weight_def reservoir_mask_def flush_loop_eq
  perfix_sum_def perfix_sum_loop_eq msample_def ssample_def sample_loop_eq

section \<open>Masks\<close>

text \<open>The bits of a mask, and of one assigned bit by bit.\<close>

lemma mask_bits_bit: "mask_bits m = map (bit m) [0..<16]"
proof -
  have "ap_range i i (m :: u16) = 1 \<longleftrightarrow> bit m i" for i
    by (auto simp: ap_range_def bit_iff_odd_drop_bit odd_iff_mod_2_eq_one simp flip: take_bit_eq_mod)
  then show ?thesis by (simp add: mask_bits_def NUM_OF_WEIGHTS_def del: upt_rec_numeral)
qed

lemma bit_mask_fold:
  "n \<le> 16 \<Longrightarrow> i < 16 \<Longrightarrow>
     bit (fold (\<lambda>i. ap_set_range i i (if P i then 1 else 0)) [0..<n] (0 :: u16)) i \<longleftrightarrow> i < n \<and> P i"
  by (induction n) (auto simp: bit_ap_set_range less_Suc_eq)

lemma mask_bits_fold:
  "mask_bits (fold (\<lambda>i. ap_set_range i i (if P i then 1 else 0)) [0..<NUM_OF_WEIGHTS] (0 :: u16)) =
     map P [0..<NUM_OF_WEIGHTS]"
  by (rule nth_equalityI)
    (simp_all add: mask_bits_bit NUM_OF_WEIGHTS_def bit_mask_fold del: upt_rec_numeral)

lemma mask_zero_iff:
  "fold (\<lambda>i. ap_set_range i i (if P i then 1 else 0)) [0..<NUM_OF_WEIGHTS] (0 :: u16) = 0 \<longleftrightarrow> (\<forall>i < 16. \<not> P i)"
  by (auto simp: NUM_OF_WEIGHTS_def bit_eq_iff bit_mask_fold simp del: upt_rec_numeral)

end
