(* ===== verification/Polling.thy ===== *)
theory Polling
  imports Prelude "HOL-Library.Sublist"
begin

text \<open>
  Kernels that poll two input streams: every interleaving of their iterations with the arrival of the
  elements is a run.  The contract \<open>fed_kernel\<close> says that whatever has arrived, the kernel still writes
  what it has to; a kernel that waits for one stream at a time (\<open>polling_kernel\<close>) satisfies it with
  the output of the run in which everything is there from the start.
\<close>

text \<open>The state (with the streams' contents), the elements still to arrive, and the output so far.\<close>

inductive feed_run ::
    "('s \<Rightarrow> 's \<times> 'c list) \<Rightarrow> ('a \<Rightarrow> 's \<Rightarrow> 's) \<Rightarrow> ('b \<Rightarrow> 's \<Rightarrow> 's) \<Rightarrow>
     's \<times> 'a list \<times> 'b list \<times> 'c list \<Rightarrow> 's \<times> 'a list \<times> 'b list \<times> 'c list \<Rightarrow> bool"
  for kernel recv1 recv2 where
  feed1: "feed_run kernel recv1 recv2 (s, x # f1, f2, out) (recv1 x s, f1, f2, out)"
| feed2: "feed_run kernel recv1 recv2 (s, f1, y # f2, out) (recv2 y s, f1, f2, out)"
| turn: "kernel s = (s', new) \<Longrightarrow> feed_run kernel recv1 recv2 (s, f1, f2, out) (s', f1, f2, out @ new)"

locale fed_kernel =
  fixes kernel :: "'s \<Rightarrow> 's \<times> 'c list"
    and recv1 :: "'a \<Rightarrow> 's \<Rightarrow> 's"
    and recv2 :: "'b \<Rightarrow> 's \<Rightarrow> 's"
    and work :: "'s \<Rightarrow> nat"
    and owes :: "'s \<Rightarrow> 'a list \<Rightarrow> 'b list \<Rightarrow> 'c list \<Rightarrow> bool"
  assumes owes_recv1: "owes s (x # f1) f2 zs \<Longrightarrow> owes (recv1 x s) f1 f2 zs"
    and owes_recv2: "owes s f1 (y # f2) zs \<Longrightarrow> owes (recv2 y s) f1 f2 zs"
    and owes_kernel: "owes s f1 f2 zs \<Longrightarrow> kernel s = (s', new) \<Longrightarrow> \<exists>zs'. zs = new @ zs' \<and> owes s' f1 f2 zs'"
    and works: "owes s [] [] zs \<Longrightarrow> zs \<noteq> [] \<Longrightarrow> kernel s = (s', new) \<Longrightarrow> work s' < work s"
begin

definition on_course :: "'c list \<Rightarrow> 's \<times> 'a list \<times> 'b list \<times> 'c list \<Rightarrow> bool" where
  "on_course whole c = (case c of (s, f1, f2, out) \<Rightarrow> \<exists>zs. whole = out @ zs \<and> owes s f1 f2 zs)"

lemma on_course_step:
  assumes "feed_run kernel recv1 recv2 c d" and "on_course whole c"
  shows "on_course whole d"
  using assms
proof cases
  case (turn s s' new f1 f2 out)
  from assms(2) obtain zs where zs: "whole = out @ zs" "owes s f1 f2 zs"
    unfolding turn(1) on_course_def by auto
  from owes_kernel [OF this(2) turn(3)] obtain zs' where "zs = new @ zs'" "owes s' f1 f2 zs'" by auto
  with zs(1) show ?thesis unfolding turn(2) on_course_def by auto
qed (auto simp: on_course_def intro: owes_recv1 owes_recv2)

lemma on_course_run:
  assumes "(feed_run kernel recv1 recv2)\<^sup>*\<^sup>* c d" and "on_course whole c"
  shows "on_course whole d"
  using assms by (induction) (auto intro: on_course_step)

lemma run_first:
  "(feed_run kernel recv1 recv2)\<^sup>*\<^sup>* (recv1 x s, f1, f2, out) c \<Longrightarrow>
     (feed_run kernel recv1 recv2)\<^sup>*\<^sup>* (s, x # f1, f2, out) c"
  "(feed_run kernel recv1 recv2)\<^sup>*\<^sup>* (recv2 y s, f1, f2, out) c \<Longrightarrow>
     (feed_run kernel recv1 recv2)\<^sup>*\<^sup>* (s, f1, y # f2, out) c"
  "kernel s = (s', new) \<Longrightarrow> (feed_run kernel recv1 recv2)\<^sup>*\<^sup>* (s', f1, f2, out @ new) c \<Longrightarrow>
     (feed_run kernel recv1 recv2)\<^sup>*\<^sup>* (s, f1, f2, out) c"
  by (auto intro: converse_rtranclp_into_rtranclp feed_run.intros)

lemma feed_first:
  "owes s f1 f2 zs \<Longrightarrow>
     \<exists>s'. (feed_run kernel recv1 recv2)\<^sup>*\<^sup>* (s, f1, f2, out) (s', [], f2, out) \<and> owes s' [] f2 zs"
proof (induction f1 arbitrary: s)
  case (Cons x f1)
  from Cons.IH [OF owes_recv1 [OF Cons.prems]] show ?case by (auto intro: run_first(1))
qed auto

lemma feed_second:
  "owes s [] f2 zs \<Longrightarrow>
     \<exists>s'. (feed_run kernel recv1 recv2)\<^sup>*\<^sup>* (s, [], f2, out) (s', [], [], out) \<and> owes s' [] [] zs"
proof (induction f2 arbitrary: s)
  case (Cons y f2)
  from Cons.IH [OF owes_recv2 [OF Cons.prems]] show ?case by (auto intro: run_first(2))
qed auto

lemma works_off:
  assumes "owes s [] [] zs"
  shows "\<exists>s'. (feed_run kernel recv1 recv2)\<^sup>*\<^sup>* (s, [], [], out) (s', [], [], out @ zs)"
  using assms
proof (induction "work s" arbitrary: s zs out rule: less_induct)
  case less
  show ?case
  proof (cases "zs = []")
    case False
    obtain s' new where k: "kernel s = (s', new)" by force
    from owes_kernel [OF less.prems k] obtain zs' where zs': "zs = new @ zs'" "owes s' [] [] zs'" by auto
    from less.hyps [OF works [OF less.prems False k] zs'(2), of "out @ new"]
    show ?thesis unfolding zs'(1) by (auto intro: run_first(3) [OF k])
  qed auto
qed

text \<open>The contract as it is used outside.\<close>

lemma fed_correct:
  assumes "owes s0 f1 f2 whole"
    and "(feed_run kernel recv1 recv2)\<^sup>*\<^sup>* (s0, f1, f2, []) (s, g1, g2, out)"
  shows "prefix out whole"
    and "\<exists>s'. (feed_run kernel recv1 recv2)\<^sup>*\<^sup>* (s, g1, g2, out) (s', [], [], whole)"
proof -
  have "on_course whole (s0, f1, f2, [])"
    using assms(1) by (simp add: on_course_def)
  from on_course_run [OF assms(2) this] obtain zs where zs: "whole = out @ zs" "owes s g1 g2 zs"
    unfolding on_course_def by auto
  then show "prefix out whole" by simp
  from feed_first [OF zs(2), of out] obtain t where
    t: "(feed_run kernel recv1 recv2)\<^sup>*\<^sup>* (s, g1, g2, out) (t, [], g2, out)" "owes t [] g2 zs" by blast
  from feed_second [OF t(2), of out] obtain u where
    u: "(feed_run kernel recv1 recv2)\<^sup>*\<^sup>* (t, [], g2, out) (u, [], [], out)" "owes u [] [] zs" by blast
  from works_off [OF u(2), of out] obtain s' where
    "(feed_run kernel recv1 recv2)\<^sup>*\<^sup>* (u, [], [], out) (s', [], [], whole)" using zs(1) by auto
  with t(1) u(1) show "\<exists>s'. (feed_run kernel recv1 recv2)\<^sup>*\<^sup>* (s, g1, g2, out) (s', [], [], whole)"
    by (blast intro: rtranclp_trans)
qed

end

section \<open>Kernels that wait for one stream at a time\<close>

locale polling_kernel =
  fixes kernel :: "'s \<Rightarrow> 's \<times> 'c list"
    and recv1 :: "'a \<Rightarrow> 's \<Rightarrow> 's"
    and recv2 :: "'b \<Rightarrow> 's \<Rightarrow> 's"
    and work :: "'s \<Rightarrow> nat"
    and waits :: "'s \<Rightarrow> bool"
  assumes recv_commute: "recv1 x (recv2 y s) = recv2 y (recv1 x s)"
    and kernel_waits: "waits s \<Longrightarrow> kernel s = (s, [])"
    and kernel_recv1: "\<not> waits s \<Longrightarrow> kernel s = (s', new) \<Longrightarrow> \<not> waits (recv1 x s) \<and> kernel (recv1 x s) = (recv1 x s', new)"
    and kernel_recv2: "\<not> waits s \<Longrightarrow> kernel s = (s', new) \<Longrightarrow> \<not> waits (recv2 y s) \<and> kernel (recv2 y s) = (recv2 y s', new)"
    and kernel_works: "\<not> waits s \<Longrightarrow> kernel s = (s', new) \<Longrightarrow> work s' < work s"
begin

text \<open>The output until the kernel waits.\<close>

inductive drains :: "'s \<Rightarrow> 'c list \<Rightarrow> bool" where
  waiting: "waits s \<Longrightarrow> drains s []"
| busy: "\<not> waits s \<Longrightarrow> kernel s = (s', new) \<Longrightarrow> drains s' ys \<Longrightarrow> drains s (new @ ys)"

definition fed :: "'a list \<Rightarrow> 'b list \<Rightarrow> 's \<Rightarrow> 's" where
  "fed f1 f2 s = fold recv2 f2 (fold recv1 f1 s)"

lemma fold_recv1_recv2: "fold recv1 f1 (recv2 y s) = recv2 y (fold recv1 f1 s)"
  by (induction f1 arbitrary: s) (simp_all add: recv_commute)

lemma fed_recv: "fed (x # f1) f2 s = fed f1 f2 (recv1 x s)" "fed f1 (y # f2) s = fed f1 f2 (recv2 y s)"
  by (simp_all add: fed_def fold_recv1_recv2)

lemma fed_Nil: "fed [] [] s = s"
  by (simp add: fed_def)

lemma kernel_fed:
  "\<not> waits s \<Longrightarrow> kernel s = (s', new) \<Longrightarrow> \<not> waits (fed f1 f2 s) \<and> kernel (fed f1 f2 s) = (fed f1 f2 s', new)"
proof (induction f1 arbitrary: s s')
  case Nil
  then show ?case
  proof (induction f2 arbitrary: s s')
    case (Cons y f2)
    with kernel_recv2 [OF Cons.prems, of y] show ?case by (simp add: fed_recv)
  qed (simp add: fed_def)
next
  case (Cons x f1)
  with kernel_recv1 [OF Cons.prems, of x] show ?case by (simp add: fed_recv)
qed

sublocale fed_kernel kernel recv1 recv2 work "\<lambda>s f1 f2 zs. drains (fed f1 f2 s) zs"
proof unfold_locales
  fix s s' :: 's and f1 f2 zs new
  assume drains: "drains (fed f1 f2 s) zs" and k: "kernel s = (s', new)"
  show "\<exists>zs'. zs = new @ zs' \<and> drains (fed f1 f2 s') zs'"
  proof (cases "waits s")
    case True
    with kernel_waits k drains show ?thesis by simp
  next
    case False
    from drains kernel_fed [OF this k, of f1 f2] show ?thesis
      by (auto elim: drains.cases)
  qed
next
  fix s s' :: 's and zs new
  assume "drains (fed [] [] s) zs" and "zs \<noteq> []" and k: "kernel s = (s', new)"
  then have "\<not> waits s" by (auto simp: fed_def elim: drains.cases)
  then show "work s' < work s" using k by (rule kernel_works)
qed (simp_all add: fed_recv)

text \<open>When everything has arrived and the kernel waits, it has written everything.\<close>

lemma fed_finished:
  assumes "drains (fed f1 f2 s0) whole"
    and "(feed_run kernel recv1 recv2)\<^sup>*\<^sup>* (s0, f1, f2, []) (s, [], [], out)" and "waits s"
  shows "out = whole"
proof -
  have "on_course whole (s0, f1, f2, [])" using assms(1) by (simp add: on_course_def)
  from on_course_run [OF assms(2) this] obtain zs where "whole = out @ zs" "drains s zs"
    by (auto simp: on_course_def fed_Nil)
  with assms(3) show ?thesis by (auto elim: drains.cases)
qed

lemma drains_run:
  "drains s zs \<Longrightarrow> \<exists>t. (feed_run kernel recv1 recv2)\<^sup>*\<^sup>* (s, [], [], out) (t, [], [], out @ zs) \<and> waits t"
proof (induction arbitrary: out rule: drains.induct)
  case (busy s s' new ys)
  from busy.IH [of "out @ new"] show ?case by (auto intro: run_first(3) [OF busy(2)])
qed auto

lemma fed_completes:
  assumes "drains (fed f1 f2 s0) whole"
  shows "\<exists>s. (feed_run kernel recv1 recv2)\<^sup>*\<^sup>* (s0, f1, f2, []) (s, [], [], whole) \<and> waits s"
proof -
  from feed_first [OF assms, of "[]"] obtain t where
    t: "(feed_run kernel recv1 recv2)\<^sup>*\<^sup>* (s0, f1, f2, []) (t, [], f2, [])" "drains (fed [] f2 t) whole" by blast
  from feed_second [OF t(2), of "[]"] obtain u where
    u: "(feed_run kernel recv1 recv2)\<^sup>*\<^sup>* (t, [], f2, []) (u, [], [], [])" "drains (fed [] [] u) whole" by blast
  from drains_run [OF u(2) [unfolded fed_Nil], of "[]"] obtain s where
    "(feed_run kernel recv1 recv2)\<^sup>*\<^sup>* (u, [], [], []) (s, [], [], whole)" "waits s" by auto
  with t(1) u(1) show ?thesis by (meson rtranclp_trans)
qed

end

end
