(* ===== verification/Neighbor_Mask.thy ===== *)
theory Neighbor_Mask
  imports Wrs Polling
begin

text \<open>
  \<open>src/isne_x16/neighbor_mask.cpp\<close>: the intersection of two sorted adjacency lists, one arriving vertex
  by vertex, the other in rows of sixteen.  The kernel writes 2 for every vertex that is in the other
  list and 4 for the others (0 for vertex 0, which stands for masked entries).
\<close>

section \<open>The kernel\<close>

datatype update_state = STATS_READ_CURR | STATS_READ_LAST_WITH_CURR | STATS_END_CURR
  | STATS_READ_CURR_WITH_LAST | STATS_END_LAST

text \<open>The contents of the two inputs and the variables that survive an iteration.\<close>

record neighbor =
  nm_curr_adj_in :: "u32 pkg list"
  nm_last_adj_in :: "weight_item pkg list"
  nm_update_state :: update_state
  nm_last_adj_v :: "u32 list"
  nm_curr_adj_v :: u32
  nm_final_current :: bool

definition NEIGHBOR_SET :: "u32 \<Rightarrow> u32" where
  "NEIGHBOR_SET curr_adj_v = (if curr_adj_v = 0 then 0 else 2)"

definition NEIGHBOR_UNSET :: "u32 \<Rightarrow> u32" where
  "NEIGHBOR_UNSET curr_adj_v = (if curr_adj_v = 0 then 0 else 4)"

text \<open>\<open>UPDATE_COMPARE_MASK\<close>: one bit per lane.\<close>

definition compare_mask :: "u32 list \<Rightarrow> u32 \<Rightarrow> u16" where
  "compare_mask last_adj_v curr_adj_v =
     fold (\<lambda>i. ap_set_range i i (if last_adj_v ! i = curr_adj_v then 1 else 0)) [0..<NUM_OF_WEIGHTS] 0"

text \<open>\<open>COMPARISON\<close>: the next state and what is written.\<close>

definition comparison :: "u32 list \<Rightarrow> u32 \<Rightarrow> u16 \<Rightarrow> update_state \<times> u32 pkg list" where
  "comparison last_adj_v curr_adj_v emask =
     (if emask \<noteq> 0
      then (if curr_adj_v = last_adj_v ! 15 then STATS_READ_CURR else STATS_READ_CURR_WITH_LAST,
            [\<lparr>data = NEIGHBOR_SET curr_adj_v, last = False\<rparr>])
      else if curr_adj_v < last_adj_v ! 15
      then (STATS_READ_CURR_WITH_LAST, [\<lparr>data = NEIGHBOR_UNSET curr_adj_v, last = False\<rparr>])
      else (STATS_READ_LAST_WITH_CURR, []))"

text \<open>One iteration.  A poll that finds nothing leaves everything as it is.\<close>

definition neighbor_mask_step :: "neighbor \<Rightarrow> neighbor \<times> u32 pkg list" where
  "neighbor_mask_step s =
     (case nm_update_state s of
        STATS_READ_CURR \<Rightarrow>
          (case nm_curr_adj_in s of [] \<Rightarrow> (s, [])
           | pkg # pkgs \<Rightarrow>
               let s = s\<lparr>nm_curr_adj_in := pkgs, nm_curr_adj_v := data pkg\<rparr>
               in if \<not> last pkg then (s\<lparr>nm_update_state := STATS_READ_LAST_WITH_CURR\<rparr>, [])
                  else (s\<lparr>nm_final_current := False, nm_update_state := STATS_END_CURR\<rparr>, []))
      | STATS_READ_LAST_WITH_CURR \<Rightarrow>
          (case nm_last_adj_in s of [] \<Rightarrow> (s, [])
           | pkg # pkgs \<Rightarrow>
               let row = lanes (data pkg); curr = nm_curr_adj_v s;
                   s = s\<lparr>nm_last_adj_in := pkgs, nm_last_adj_v := row\<rparr>;
                   emask = compare_mask row curr
               in if \<not> last pkg
                  then (let (update_state, out) = comparison row curr emask
                        in (s\<lparr>nm_update_state := update_state\<rparr>, out))
                  else (s\<lparr>nm_update_state := STATS_END_LAST\<rparr>,
                        [\<lparr>data = (if emask \<noteq> 0 then NEIGHBOR_SET curr else NEIGHBOR_UNSET curr), last = False\<rparr>]))
      | STATS_READ_CURR_WITH_LAST \<Rightarrow>
          (case nm_curr_adj_in s of [] \<Rightarrow> (s, [])
           | pkg # pkgs \<Rightarrow>
               let curr = data pkg; emask = compare_mask (nm_last_adj_v s) curr;
                   s = s\<lparr>nm_curr_adj_in := pkgs, nm_curr_adj_v := curr\<rparr>
               in if \<not> last pkg
                  then (let (update_state, out) = comparison (nm_last_adj_v s) curr emask
                        in (s\<lparr>nm_update_state := update_state\<rparr>, out))
                  else (s\<lparr>nm_final_current := (emask \<noteq> 0), nm_update_state := STATS_END_CURR\<rparr>, []))
      | STATS_END_LAST \<Rightarrow>
          (case nm_curr_adj_in s of [] \<Rightarrow> (s, [])
           | pkg # pkgs \<Rightarrow>
               let curr = data pkg; emask = compare_mask (nm_last_adj_v s) curr;
                   s = s\<lparr>nm_curr_adj_in := pkgs, nm_curr_adj_v := curr\<rparr>;
                   out_v = (if emask \<noteq> 0 then NEIGHBOR_SET curr else NEIGHBOR_UNSET curr)
               in if last pkg
                  then (s\<lparr>nm_update_state := STATS_READ_CURR\<rparr>, [\<lparr>data = out_v, last = True\<rparr>])
                  else (s, [\<lparr>data = out_v, last = False\<rparr>]))
      | STATS_END_CURR \<Rightarrow>
          (case nm_last_adj_in s of [] \<Rightarrow> (s, [])
           | pkg # pkgs \<Rightarrow>
               let row = lanes (data pkg); curr = nm_curr_adj_v s; emask = compare_mask row curr;
                   s = s\<lparr>nm_last_adj_in := pkgs, nm_last_adj_v := row\<rparr>
               in if last pkg
                  then (s\<lparr>nm_final_current := False, nm_update_state := STATS_READ_CURR\<rparr>,
                        [\<lparr>data = (if nm_final_current s \<or> emask \<noteq> 0 then NEIGHBOR_SET curr else NEIGHBOR_UNSET curr),
                          last = True\<rparr>])
                  else (s\<lparr>nm_final_current := (emask \<noteq> 0)\<rparr>, [])))"

definition nm_recv_curr :: "u32 pkg \<Rightarrow> neighbor \<Rightarrow> neighbor" where
  "nm_recv_curr x s = s\<lparr>nm_curr_adj_in := nm_curr_adj_in s @ [x]\<rparr>"

definition nm_recv_last :: "weight_item pkg \<Rightarrow> neighbor \<Rightarrow> neighbor" where
  "nm_recv_last x s = s\<lparr>nm_last_adj_in := nm_last_adj_in s @ [x]\<rparr>"

definition nm_waits :: "neighbor \<Rightarrow> bool" where
  "nm_waits s =
     (if nm_update_state s \<in> {STATS_READ_LAST_WITH_CURR, STATS_END_CURR} then nm_last_adj_in s = []
      else nm_curr_adj_in s = [])"

lemma compare_mask_iff [simp]: "length row = 16 \<Longrightarrow> compare_mask row v = 0 \<longleftrightarrow> v \<notin> set row"
  unfolding compare_mask_def mask_zero_iff by (auto simp: in_set_conv_nth)

lemmas nm_step = neighbor_mask_step_def Let_def

interpretation nm: polling_kernel neighbor_mask_step nm_recv_curr nm_recv_last
  "\<lambda>s. length (nm_curr_adj_in s) + length (nm_last_adj_in s)" nm_waits
proof unfold_locales
  fix s :: neighbor and x y
  show "nm_recv_curr x (nm_recv_last y s) = nm_recv_last y (nm_recv_curr x s)"
    by (simp add: nm_recv_curr_def nm_recv_last_def)
next
  fix s :: neighbor
  assume "nm_waits s"
  then show "neighbor_mask_step s = (s, [])"
    by (cases "nm_update_state s") (simp_all add: nm_waits_def nm_step)
next
  fix s s' :: neighbor and new x
  assume "\<not> nm_waits s" and "neighbor_mask_step s = (s', new)"
  then show "\<not> nm_waits (nm_recv_curr x s) \<and> neighbor_mask_step (nm_recv_curr x s) = (nm_recv_curr x s', new)"
    by (cases "nm_update_state s")
      (auto simp: nm_waits_def nm_step nm_recv_curr_def split: list.splits prod.splits if_splits)
next
  fix s s' :: neighbor and new y
  assume "\<not> nm_waits s" and "neighbor_mask_step s = (s', new)"
  then show "\<not> nm_waits (nm_recv_last y s) \<and> neighbor_mask_step (nm_recv_last y s) = (nm_recv_last y s', new)"
    by (cases "nm_update_state s")
      (auto simp: nm_waits_def nm_step nm_recv_last_def split: list.splits prod.splits if_splits)
next
  fix s s' :: neighbor and new
  assume "\<not> nm_waits s" and "neighbor_mask_step s = (s', new)"
  then show "length (nm_curr_adj_in s') + length (nm_last_adj_in s') < length (nm_curr_adj_in s) + length (nm_last_adj_in s)"
    by (cases "nm_update_state s")
      (auto simp: nm_waits_def nm_step split: list.splits prod.splits if_splits)
qed

section \<open>What it computes\<close>

text \<open>A list as its packages: the last one is flagged.\<close>

fun flagged :: "'a list \<Rightarrow> 'a pkg list" where
  "flagged [] = []"
| "flagged [x] = [\<lparr>data = x, last = True\<rparr>]"
| "flagged (x # y # ys) = \<lparr>data = x, last = False\<rparr> # flagged (y # ys)"

lemma flagged_Cons: "ys \<noteq> [] \<Longrightarrow> flagged (x # ys) = \<lparr>data = x, last = False\<rparr> # flagged ys"
  by (cases ys) simp_all

lemma map_data_flagged [simp]: "map data (flagged xs) = xs"
  by (induction xs rule: flagged.induct) simp_all

text \<open>The entries of rows, and of the last two of them.\<close>

definition entries :: "weight_item list \<Rightarrow> u32 list" where
  "entries rows = concat (map lanes rows)"

definition end_entries :: "weight_item list \<Rightarrow> u32 list" where
  "end_entries rows = entries (drop (length rows - 2) rows)"

definition answer :: "u32 list \<Rightarrow> u32 \<Rightarrow> u32" where
  "answer xs v = (if v = 0 then 0 else if v \<in> set xs then 2 else 4)"

text \<open>
  The answer of the kernel: right for all but the last vertex of a list, which is only looked up in the
  last two rows.
\<close>

definition neighbor_answers :: "weight_item list \<Rightarrow> u32 list \<Rightarrow> u32 list" where
  "neighbor_answers rows vs = map (answer (entries rows)) (butlast vs) @ [answer (end_entries rows) (List.last vs)]"

text \<open>
  The other list is sorted and fills its rows but for the masked entries of the first and the last one;
  the vertices to look up are sorted, with masked entries (0) anywhere.
\<close>

definition INVALID_VERTEX :: u32 where "INVALID_VERTEX = 0xFFFFFFFF"

fun rows_sorted :: "weight_item list \<Rightarrow> bool" where
  "rows_sorted [] = False"
| "rows_sorted [r] = True"
| "rows_sorted (r # r' # rs) =
     ((\<forall>w \<in> set (lanes r). w \<noteq> INVALID_VERTEX \<longrightarrow> w \<le> lanes r ! 15) \<and>
      (\<forall>w \<in> set (entries (r' # rs)). lanes r ! 15 < w) \<and> rows_sorted (r' # rs))"

definition vertices_sorted :: "u32 list \<Rightarrow> bool" where
  "vertices_sorted vs = (INVALID_VERTEX \<notin> set vs \<and> sorted_wrt (<) (filter (\<lambda>v. v \<noteq> 0) vs))"

subsection \<open>The lists while they are read\<close>

text \<open>
  \<open>T\<close> and \<open>L\<close> are the entries of the rows and of the last two of them; the remaining rows agree with them
  for all remaining vertices.
\<close>

definition fits :: "u32 list \<Rightarrow> u32 list \<Rightarrow> weight_item list \<Rightarrow> u32 list \<Rightarrow> bool" where
  "fits T L rs vs = (rows_sorted rs \<and> vertices_sorted vs \<and>
     (\<forall>v \<in> set vs. v \<noteq> 0 \<longrightarrow> (v \<in> set T \<longleftrightarrow> v \<in> set (entries rs)) \<and> (v \<in> set L \<longleftrightarrow> v \<in> set (end_entries rs))))"

lemma entries_Cons: "entries (r # rs) = lanes r @ entries rs"
  by (simp add: entries_def)

lemma entries_simps [simp]: "entries [] = []" "set (entries (r # rs)) = set (lanes r) \<union> set (entries rs)"
  by (simp_all add: entries_def)

lemma end_entries_simps:
  "end_entries [r] = lanes r" "end_entries [r, r'] = lanes r @ lanes r'"
  "rs \<noteq> [] \<Longrightarrow> end_entries (r # r' # rs) = end_entries (r' # rs)"
  by (auto simp: end_entries_def entries_def Suc_diff_Suc neq_Nil_conv)

lemma vertices_sorted_Cons:
  assumes "vertices_sorted (v # vs)"
  shows "vertices_sorted vs" and "v \<noteq> 0 \<Longrightarrow> w \<in> set vs \<Longrightarrow> w \<noteq> 0 \<Longrightarrow> v < w"
    and "w \<in> set (v # vs) \<Longrightarrow> w \<noteq> INVALID_VERTEX"
  using assms by (auto simp: vertices_sorted_def split: if_splits)

lemma fits_tl: "fits T L rs (v # vs) \<Longrightarrow> fits T L rs vs"
  by (auto simp: fits_def vertices_sorted_Cons)

lemma last_lane_in: "lanes r ! 15 \<in> set (lanes r)"
  by simp

lemma fits_drop:
  assumes "fits T L (r # rs) vs" and "rs \<noteq> []" and "\<And>w. w \<in> set vs \<Longrightarrow> w \<noteq> 0 \<Longrightarrow> w \<notin> set (lanes r)"
  shows "fits T L rs vs"
proof -
  obtain r' rs' where rs: "rs = r' # rs'" using assms(2) by (cases rs) auto
  have "rows_sorted rs" "vertices_sorted vs" using assms(1) by (simp_all add: fits_def rs)
  moreover have "v \<in> set T \<longleftrightarrow> v \<in> set (entries rs)" "v \<in> set L \<longleftrightarrow> v \<in> set (end_entries rs)"
    if "v \<in> set vs" "v \<noteq> 0" for v
    using assms(1) assms(3) [OF that] that
    by (cases rs'; auto simp: fits_def rs end_entries_simps)+
  ultimately show ?thesis by (simp add: fits_def)
qed

text \<open>A row is left when the next vertices are beyond its last lane.\<close>

lemma fits_next:
  assumes "fits T L (r # rs) (v # vs)" and "rs \<noteq> []"
  shows "v \<in> set (lanes r) \<Longrightarrow> v = lanes r ! 15 \<Longrightarrow> fits T L rs vs"
    and "v \<notin> set (lanes r) \<Longrightarrow> \<not> v < lanes r ! 15 \<Longrightarrow> fits T L rs (v # vs)"
    and "v \<notin> set (lanes r) \<Longrightarrow> v < lanes r ! 15 \<Longrightarrow> v \<noteq> 0 \<Longrightarrow> v \<notin> set T"
    and "v \<in> set (lanes r) \<Longrightarrow> v \<noteq> 0 \<Longrightarrow> v \<in> set T"
proof -
  obtain r' rs' where rs: "rs = r' # rs'" using assms(2) by (cases rs) auto
  have bound: "w \<le> lanes r ! 15" if "w \<in> set (lanes r)" "w \<noteq> INVALID_VERTEX" for w
    using assms(1) that by (simp add: fits_def rs)
  have later: "lanes r ! 15 < w" if "w \<in> set (entries rs)" for w
    using assms(1) that by (simp add: fits_def rs)
  have "vertices_sorted (v # vs)" using assms(1) by (simp add: fits_def)
  note vs = vertices_sorted_Cons(2,3) [OF this]
  have beyond: "w \<notin> set (lanes r)" if "lanes r ! 15 < w" "w \<in> set (v # vs)" for w
    using bound [of w] vs(2) [OF that(2)] that(1) by (meson leD)
  show "fits T L rs vs" if "v \<in> set (lanes r)" "v = lanes r ! 15"
  proof (rule fits_drop [OF fits_tl [OF assms(1)] assms(2)])
    fix w assume w: "w \<in> set vs" "w \<noteq> 0"
    have "v < w" using vs(1) w by (cases "v = 0") (simp_all add: word_neq_0_conv)
    then show "w \<notin> set (lanes r)" using beyond w(1) that(2) by simp
  qed
  show "fits T L rs (v # vs)" if "v \<notin> set (lanes r)" "\<not> v < lanes r ! 15"
  proof (rule fits_drop [OF assms(1,2)])
    have v: "lanes r ! 15 < v" using that last_lane_in [of r] by (metis linorder_less_linear)
    then have "v \<noteq> 0" by auto
    fix w assume w: "w \<in> set (v # vs)" "w \<noteq> 0"
    have "w = v \<or> v < w" using vs(1) [OF \<open>v \<noteq> 0\<close>] w by auto
    then show "w \<notin> set (lanes r)" using beyond w(1) v by auto
  qed
  show "v \<notin> set T" if "v \<notin> set (lanes r)" "v < lanes r ! 15" "v \<noteq> 0"
    using assms(1) later [of v] that by (auto simp: fits_def)
  show "v \<in> set T" if "v \<in> set (lanes r)" "v \<noteq> 0"
    using assms(1) that by (auto simp: fits_def)
qed

subsection \<open>The run over one pair of lists\<close>

abbreviation nm_at :: "update_state \<Rightarrow> u32 pkg list \<Rightarrow> weight_item pkg list \<Rightarrow> u32 list \<Rightarrow> u32 \<Rightarrow> bool \<Rightarrow> neighbor" where
  "nm_at u C B row v final \<equiv> \<lparr>nm_curr_adj_in = C, nm_last_adj_in = B, nm_update_state = u, nm_last_adj_v = row,
     nm_curr_adj_v = v, nm_final_current = final\<rparr>"

lemma nm_go: "\<not> nm_waits s \<Longrightarrow> neighbor_mask_step s = (s', new) \<Longrightarrow> nm.drains s' ys \<Longrightarrow> zs = new @ ys \<Longrightarrow> nm.drains s zs"
  by (simp add: nm.drains.busy)

lemma if_answer: "(if v \<in> set xs then NEIGHBOR_SET v else NEIGHBOR_UNSET v) = answer xs v"
  by (simp add: NEIGHBOR_SET_def NEIGHBOR_UNSET_def answer_def)

lemma run_end_last:
  assumes "vs \<noteq> []" and "length row = 16" and "\<And>v. nm.drains (nm_at STATS_READ_CURR C B row v final) ys"
  shows "nm.drains (nm_at STATS_END_LAST (flagged vs @ C) B row v final) (flagged (map (answer row) vs) @ ys)"
  using assms(1)
proof (induction vs arbitrary: v rule: flagged.induct)
  case (2 x)
  show ?case
    by (rule nm_go [OF _ _ assms(3) [of x]])
      (use assms(2) in \<open>simp_all add: nm_waits_def nm_step flip: if_answer\<close>)
next
  case (3 x y ys)
  show ?case
    by (rule nm_go [OF _ _ "3.IH" [of x]])
      (use assms(2) in \<open>simp_all add: nm_waits_def nm_step flip: if_answer\<close>)
qed simp

text \<open>The last vertex: \<open>hit\<close> is overwritten with every row.\<close>

fun end_hit :: "bool \<Rightarrow> u32 \<Rightarrow> weight_item list \<Rightarrow> bool" where
  "end_hit hit v [] = hit"
| "end_hit hit v [r] = (hit \<or> v \<in> set (lanes r))"
| "end_hit hit v (r # r' # rs) = end_hit (v \<in> set (lanes r)) v (r' # rs)"

lemma end_hit_eq:
  "rs \<noteq> [] \<Longrightarrow> end_hit False v rs \<longleftrightarrow> v \<in> set (end_entries rs)"
  "rs \<noteq> [] \<Longrightarrow> end_hit (v \<in> set (lanes r)) v rs \<longleftrightarrow> v \<in> set (end_entries (r # rs))"
proof -
  show *: "end_hit (v \<in> set (lanes r)) v rs \<longleftrightarrow> v \<in> set (end_entries (r # rs))" if "rs \<noteq> []" for r
    using that
  proof (induction rs arbitrary: r rule: flagged.induct)
    case (3 x y ys)
    from "3.IH" [of x] show ?case by (simp add: end_entries_simps)
  qed (simp_all add: end_entries_simps)
  show "end_hit False v rs \<longleftrightarrow> v \<in> set (end_entries rs)" if "rs \<noteq> []"
    using that *
    by (cases rs rule: flagged.cases) (auto simp: end_entries_simps)
qed

lemma run_end_curr:
  assumes "rs \<noteq> []" and "\<And>row final. length row = 16 \<Longrightarrow> nm.drains (nm_at STATS_READ_CURR C B row v final) ys"
  shows "nm.drains (nm_at STATS_END_CURR C (flagged rs @ B) row v final)
    (\<lparr>data = (if end_hit final v rs then NEIGHBOR_SET v else NEIGHBOR_UNSET v), last = True\<rparr> # ys)"
  using assms(1)
proof (induction rs arbitrary: row final rule: flagged.induct)
  case (2 r)
  show ?case
    by (rule nm_go [OF _ _ assms(2) [of "lanes r" False]]) (simp_all add: nm_waits_def nm_step)
next
  case (3 r r' rs)
  show ?case
    by (rule nm_go [OF _ _ "3.IH" [of "lanes r"]]) (simp_all add: nm_waits_def nm_step)
qed simp

text \<open>The answers to the remaining vertices.\<close>

abbreviation answers :: "u32 list \<Rightarrow> u32 list \<Rightarrow> u32 list \<Rightarrow> u32 list" where
  "answers T L vs \<equiv> map (answer T) (butlast vs) @ [answer L (List.last vs)]"

lemma fits_answer_end: "fits T L rs (v # vs) \<Longrightarrow> answer L v = answer (end_entries rs) v"
  by (simp add: fits_def answer_def)

lemma fits_answers_last:
  assumes "fits T L [r] vs" and "vs \<noteq> []"
  shows "answers T L vs = map (answer (lanes r)) vs"
proof -
  have eq: "answer T v = answer (lanes r) v" "answer L v = answer (lanes r) v" if "v \<in> set vs" for v
    using assms(1) that by (auto simp: fits_def answer_def end_entries_simps)
  have "map (answer T) (butlast vs) = map (answer (lanes r)) (butlast vs)"
    by (intro map_cong) (auto dest: in_set_butlastD simp: eq(1))
  moreover have "answer L (List.last vs) = answer (lanes r) (List.last vs)"
    using assms(2) by (simp add: eq(2))
  moreover have "map f (butlast vs) @ [f (List.last vs)] = map f vs" for f :: "u32 \<Rightarrow> u32"
    using assms(2) by (metis append_butlast_last_id list.simps(8,9) map_append)
  ultimately show ?thesis by (simp only:)
qed

text \<open>What a comparison writes and where it goes on.\<close>

lemma comparison_fits:
  assumes "fits T L (r # rs) (v # vs)" and "rs \<noteq> []" and "c = comparison (lanes r) v (compare_mask (lanes r) v)"
  shows "(c = (STATS_READ_CURR, [\<lparr>data = answer T v, last = False\<rparr>]) \<and> fits T L rs vs) \<or>
    (c = (STATS_READ_CURR_WITH_LAST, [\<lparr>data = answer T v, last = False\<rparr>]) \<and> fits T L (r # rs) vs) \<or>
    (c = (STATS_READ_LAST_WITH_CURR, []) \<and> fits T L rs (v # vs))"
proof -
  note next_fits = fits_next [OF assms(1,2)] and same_fits = fits_tl [OF assms(1)]
  have "v \<in> set (lanes r) \<Longrightarrow> NEIGHBOR_SET v = answer T v"
    using next_fits(4) by (auto simp: answer_def NEIGHBOR_SET_def)
  moreover have "v \<notin> set (lanes r) \<Longrightarrow> v < lanes r ! 15 \<Longrightarrow> NEIGHBOR_UNSET v = answer T v"
    using next_fits(3) by (auto simp: answer_def NEIGHBOR_UNSET_def)
  ultimately show ?thesis
    using next_fits(1,2) same_fits by (auto simp: assms(3) comparison_def)
qed

text \<open>The three states in which lists are compared, by the number of packages that remain.\<close>

lemma run_compare:
  assumes next_list: "\<And>row v final. length row = 16 \<Longrightarrow> nm.drains (nm_at STATS_READ_CURR C B row v final) ys"
  shows "fits T L rs vs \<Longrightarrow> rs \<noteq> [] \<Longrightarrow> vs \<noteq> [] \<Longrightarrow>
      nm.drains (nm_at STATS_READ_CURR (flagged vs @ C) (flagged rs @ B) row w final) (flagged (answers T L vs) @ ys)"
    and "fits T L rs (v # vs) \<Longrightarrow> rs \<noteq> [] \<Longrightarrow> vs \<noteq> [] \<Longrightarrow>
      nm.drains (nm_at STATS_READ_LAST_WITH_CURR (flagged vs @ C) (flagged rs @ B) row v final)
        (flagged (answers T L (v # vs)) @ ys)"
    and "fits T L (r # rs) vs \<Longrightarrow> rs \<noteq> [] \<Longrightarrow> vs \<noteq> [] \<Longrightarrow>
      nm.drains (nm_at STATS_READ_CURR_WITH_LAST (flagged vs @ C) (flagged rs @ B) (lanes r) w final)
        (flagged (answers T L vs) @ ys)"
proof (induction "length vs + length rs" arbitrary: vs rs r v w row final rule: less_induct)
  case less
  have compared: "\<exists>zs. nm.drains (nm_at (fst c) (flagged us @ C) (flagged rs' @ B) (lanes r) v final) zs \<and>
      flagged (answers T L (v # us)) @ ys = snd c @ zs"
    if c: "c = comparison (lanes r) v (compare_mask (lanes r) v)"
      and fit: "fits T L (r # rs') (v # us)" "rs' \<noteq> []" "us \<noteq> []"
      and n: "length us + length rs' < length vs + length rs" for c v us r rs' final
    using comparison_fits [OF fit(1,2) c] less.hyps [OF n _ fit(2,3)] fit(3) by (auto simp: flagged_Cons)
  {
    case 1
    show ?case
    proof (cases vs)
      case (Cons v us)
      show ?thesis
      proof (cases "us = []")
        case True
        have "flagged (answers T L vs) @ ys =
            \<lparr>data = (if end_hit False v rs then NEIGHBOR_SET v else NEIGHBOR_UNSET v), last = True\<rparr> # ys"
          using 1 True Cons by (simp add: fits_answer_end end_hit_eq if_answer)
        then show ?thesis
          by (intro nm_go [OF _ _ run_end_curr [OF 1(2) next_list]]) (simp_all add: nm_waits_def nm_step Cons True)
      next
        case False
        have n: "length us + length rs < length vs + length rs" by (simp add: Cons)
        show ?thesis
          by (rule nm_go [OF _ _ less.hyps(2) [OF n 1(1) [unfolded Cons] 1(2) False]])
            (simp_all add: nm_waits_def nm_step Cons flagged_Cons False)
      qed
    qed (use 1 in simp)
  next
    case 2
    show ?case
    proof (cases rs)
      case (Cons r rs')
      show ?thesis
      proof (cases "rs' = []")
        case True
        have *: "answers T L (v # vs) = map (answer (lanes r)) (v # vs)"
          using 2 True Cons by (intro fits_answers_last) simp_all
        have **: "flagged (answers T L (v # vs)) @ ys =
            [\<lparr>data = answer (lanes r) v, last = False\<rparr>] @ flagged (map (answer (lanes r)) vs) @ ys"
          unfolding * using 2(3) by (simp add: flagged_Cons)
        show ?thesis
          by (rule nm_go [OF _ _ run_end_last [OF 2(3) length_lanes next_list] **])
            (simp_all add: nm_waits_def nm_step Cons True flip: if_answer)
      next
        case False
        have "length vs + length rs' < length vs + length rs" by (simp add: Cons)
        from compared [OF refl 2(1) [unfolded Cons] False 2(3) this] obtain zs where
          zs: "nm.drains (nm_at (fst (comparison (lanes r) v (compare_mask (lanes r) v))) (flagged vs @ C) (flagged rs' @ B)
             (lanes r) v final) zs"
          "flagged (answers T L (v # vs)) @ ys = snd (comparison (lanes r) v (compare_mask (lanes r) v)) @ zs" by blast
        show ?thesis
          by (rule nm_go [OF _ _ zs(1)])
            (use zs(2) in \<open>simp_all add: nm_waits_def nm_step Cons flagged_Cons False case_prod_beta\<close>)
      qed
    qed (use 2 in simp)
  next
    case 3
    show ?case
    proof (cases vs)
      case (Cons v us)
      show ?thesis
      proof (cases "us = []")
        case True
        have "flagged (answers T L vs) @ ys =
            \<lparr>data = (if end_hit (v \<in> set (lanes r)) v rs then NEIGHBOR_SET v else NEIGHBOR_UNSET v), last = True\<rparr> # ys"
          using 3 True Cons by (simp add: fits_answer_end end_hit_eq if_answer)
        then show ?thesis
          by (intro nm_go [OF _ _ run_end_curr [OF 3(2) next_list]]) (simp_all add: nm_waits_def nm_step Cons True)
      next
        case False
        have "length us + length rs < length vs + length rs" by (simp add: Cons)
        from compared [OF refl 3(1) [unfolded Cons] 3(2) False this] obtain zs where
          zs: "nm.drains (nm_at (fst (comparison (lanes r) v (compare_mask (lanes r) v))) (flagged us @ C) (flagged rs @ B)
             (lanes r) v final) zs"
          "flagged (answers T L (v # us)) @ ys = snd (comparison (lanes r) v (compare_mask (lanes r) v)) @ zs" by blast
        show ?thesis
          by (rule nm_go [OF _ _ zs(1)])
            (use zs(2) in \<open>simp_all add: nm_waits_def nm_step Cons flagged_Cons False case_prod_beta\<close>)
      qed
    qed (use 3 in simp)
  }
qed

lemma rows_sorted_not_Nil: "rows_sorted rows \<Longrightarrow> rows \<noteq> []"
  by auto

definition nm_init :: "u32 list \<Rightarrow> u32 \<Rightarrow> neighbor" where
  "nm_init row v = \<lparr>nm_curr_adj_in = [], nm_last_adj_in = [], nm_update_state = STATS_READ_CURR, nm_last_adj_v = row,
     nm_curr_adj_v = v, nm_final_current = False\<rparr>"

text \<open>Pairs of lists one after the other.\<close>

definition queries_ok :: "(weight_item list \<times> u32 list) list \<Rightarrow> bool" where
  "queries_ok qs = (\<forall>(rows, vs) \<in> set qs. rows_sorted rows \<and> vertices_sorted vs \<and> vs \<noteq> [])"

definition queries_answers :: "(weight_item list \<times> u32 list) list \<Rightarrow> u32 pkg list" where
  "queries_answers qs = concat (map (\<lambda>(rows, vs). flagged (neighbor_answers rows vs)) qs)"

lemma run_queries:
  assumes "queries_ok qs" and "length row = 16"
  shows "nm.drains (nm_at STATS_READ_CURR (concat (map (flagged \<circ> snd) qs)) (concat (map (flagged \<circ> fst) qs)) row v final)
    (queries_answers qs)"
  using assms
proof (induction qs arbitrary: row v final)
  case Nil
  have "nm_waits (nm_at STATS_READ_CURR [] [] row v final)" by (simp add: nm_waits_def)
  from nm.drains.waiting [OF this] show ?case by (simp add: queries_answers_def)
next
  case (Cons q qs)
  obtain rows vs where q: "q = (rows, vs)" by force
  have "queries_ok qs" and vs: "vs \<noteq> []" and "fits (entries rows) (end_entries rows) rows vs" and "rows \<noteq> []"
    using Cons.prems(1) by (auto simp: queries_ok_def q fits_def)
  from run_compare(1) [OF Cons.IH [OF this(1)] this(3,4,2)] show ?case
    by (simp add: q queries_answers_def neighbor_answers_def)
qed

lemma fed_init:
  "nm.fed C B (nm_init row v) = nm_at STATS_READ_CURR C B row v False"
proof -
  have "fold nm_recv_curr C s = s\<lparr>nm_curr_adj_in := nm_curr_adj_in s @ C\<rparr>" for s
    by (induction C arbitrary: s) (simp_all add: nm_recv_curr_def)
  moreover have "fold nm_recv_last B s = s\<lparr>nm_last_adj_in := nm_last_adj_in s @ B\<rparr>" for s
    by (induction B arbitrary: s) (simp_all add: nm_recv_last_def)
  ultimately show ?thesis by (simp add: nm.fed_def nm_init_def)
qed

lemmas run_init = run_queries [of _ _ _ False, folded fed_init]

text \<open>
  C31: \<open>neighbor_mask\<close> intersects sorted lists: for any sequence of pairs of a list of vertices and a
  list in rows, and however the two arrive, what it writes is at any time an initial part of the
  answers to all pairs in order, and it can always be continued until all are written.  An answer is 2
  for a vertex of the other list, 4 for one that is not and 0 for a masked entry; the last vertex of
  a list is only looked up in the last two rows.
\<close>

theorem neighbor_mask_intersects:
  assumes "queries_ok qs" and "length row = 16"
    and "(feed_run neighbor_mask_step nm_recv_curr nm_recv_last)\<^sup>*\<^sup>*
      (nm_init row v, concat (map (flagged \<circ> snd) qs), concat (map (flagged \<circ> fst) qs), []) (s, f1, f2, out)"
  shows "prefix out (queries_answers qs) \<and>
    (\<exists>s'. (feed_run neighbor_mask_step nm_recv_curr nm_recv_last)\<^sup>*\<^sup>* (s, f1, f2, out) (s', [], [], queries_answers qs))"
  using nm.fed_correct [OF run_init [OF assms(1,2)] assms(3)] by blast

theorem neighbor_mask_intersects_witness:
  "\<exists>s. (feed_run neighbor_mask_step nm_recv_curr nm_recv_last)\<^sup>*\<^sup>*
     (nm_init (replicate 16 0) 0, flagged [3, 20], flagged [pack_lanes [1, 2, 3, 4, 5, 6, 7, 8, 9, 10, 11, 12, 13, 14, 15, 16]], [])
     (s, [], [], flagged [2, 4])"
  using neighbor_mask_intersects [of "[([pack_lanes [1, 2, 3, 4, 5, 6, 7, 8, 9, 10, 11, 12, 13, 14, 15, 16]], [3, 20])]"
      "replicate 16 0" 0, OF _ _ rtranclp.rtrancl_refl]
  by (simp add: queries_ok_def vertices_sorted_def INVALID_VERTEX_def queries_answers_def neighbor_answers_def
      entries_def end_entries_def answer_def)

lemma neighbor_answers_eq_iff:
  assumes "vs \<noteq> []"
  shows "neighbor_answers rows vs = map (answer (entries rows)) vs \<longleftrightarrow>
    (List.last vs \<in> set (entries rows) \<and> List.last vs \<noteq> 0 \<longrightarrow> List.last vs \<in> set (end_entries rows))"
proof -
  have "map (answer (entries rows)) vs = map (answer (entries rows)) (butlast vs) @ [answer (entries rows) (List.last vs)]"
    using append_butlast_last_id [OF assms] by (metis list.simps(8,9) map_append)
  moreover have "set (end_entries rows) \<subseteq> set (entries rows)"
    by (auto simp: end_entries_def entries_def dest: in_set_dropD)
  ultimately show ?thesis by (auto simp: neighbor_answers_def answer_def)
qed

text \<open>
  C32: The answers for a pair of lists are exactly the intersection if and only if the last vertex is
  masked, not in the other list, or in one of its last two rows: while the kernel reads the rest of
  the other list for the last vertex, every row overwrites what the rows before have found.
\<close>

theorem neighbor_mask_exact_iff:
  assumes "rows_sorted rows" and "vertices_sorted vs" and "vs \<noteq> []" and "length row = 16"
    and "(feed_run neighbor_mask_step nm_recv_curr nm_recv_last)\<^sup>*\<^sup>*
      (nm_init row v, flagged vs, flagged rows, []) (s, [], [], out)" and "nm_waits s"
  shows "out = flagged (map (answer (entries rows)) vs) \<longleftrightarrow>
    (List.last vs \<in> set (entries rows) \<and> List.last vs \<noteq> 0 \<longrightarrow> List.last vs \<in> set (end_entries rows))"
proof -
  have "queries_ok [(rows, vs)]" using assms(1-3) by (simp add: queries_ok_def)
  from run_init [OF this assms(4), of v] have "nm.drains (nm.fed (flagged vs) (flagged rows) (nm_init row v))
      (flagged (neighbor_answers rows vs))"
    by (simp add: queries_answers_def)
  from nm.fed_finished [OF this assms(5,6)] have "out = flagged (neighbor_answers rows vs)" .
  moreover have "flagged xs = flagged ys \<longleftrightarrow> xs = ys" for xs ys :: "u32 list"
    by (metis map_data_flagged)
  ultimately show ?thesis using neighbor_answers_eq_iff [OF assms(3)] by simp
qed

text \<open>The witness: a vertex found in the first of three rows is not reported.\<close>

definition three_rows :: "weight_item list" where
  "three_rows = [pack_lanes [1, 2, 3, 4, 5, 6, 7, 8, 9, 10, 11, 12, 13, 14, 15, 16],
     pack_lanes [17, 18, 19, 20, 21, 22, 23, 24, 25, 26, 27, 28, 29, 30, 31, 32],
     pack_lanes [33, 34, 35, 36, 37, 38, 39, 40, 41, 42, 43, 44, 45, 46, 47, 48]]"

theorem neighbor_mask_exact_iff_witness:
  "\<exists>s out. (feed_run neighbor_mask_step nm_recv_curr nm_recv_last)\<^sup>*\<^sup>*
     (nm_init (replicate 16 0) 0, flagged [5], flagged three_rows, []) (s, [], [], out) \<and> out \<noteq> flagged [2]"
proof -
  have rows: "rows_sorted three_rows" "vertices_sorted [5]" "[5] \<noteq> ([] :: u32 list)" "length (replicate 16 (0 :: u32)) = 16"
    by (simp_all add: three_rows_def vertices_sorted_def INVALID_VERTEX_def entries_def)
  have entries: "5 \<in> set (entries three_rows)" "5 \<notin> set (end_entries three_rows)"
    by (simp_all add: three_rows_def entries_def end_entries_def)
  have "queries_ok [(three_rows, [5])]" using rows by (simp add: queries_ok_def)
  from nm.fed_completes [OF run_init [OF this rows(4), of 0]] obtain s out where
    run: "(feed_run neighbor_mask_step nm_recv_curr nm_recv_last)\<^sup>*\<^sup>*
      (nm_init (replicate 16 0) 0, flagged [5], flagged three_rows, []) (s, [], [], out)" and "nm_waits s"
    by auto
  from neighbor_mask_exact_iff [OF rows this] entries have "out \<noteq> flagged [2]"
    by (simp add: answer_def)
  with run show ?thesis by blast
qed

end
