(* ===== verification/Set_Weights.thy ===== *)
theory Set_Weights
  imports Neighbor_Mask
begin

text \<open>
  The kernels of \<open>src/setintersetion\<close> around \<open>neighbor_mask\<close>: \<open>weight_dispatch\<close> deals the lanes of a row
  out to four streams, \<open>current_mask\<close> marks the vertex a walk came from, \<open>merge_mask\<close> joins the two
  masks and \<open>merge_weight\<close> collects the four streams in rows again.
\<close>

section \<open>weight\_dispatch\<close>

definition NUM_OF_OS :: nat where "NUM_OF_OS = 4"

text \<open>The four packages to output \<open>r\<close>.\<close>

definition dispatch_out :: "nat \<Rightarrow> weight_item pkg \<Rightarrow> u32 pkg list" where
  "dispatch_out r pkg =
     map (\<lambda>i. \<lparr>data = lanes (data pkg) ! (push_bit 2 i + r),
               last = (if i = NUM_OF_WEIGHTS div NUM_OF_OS - 1 then last pkg else False)\<rparr>)
       [0..<NUM_OF_WEIGHTS div NUM_OF_OS]"

definition weight_dispatch :: "weight_item pkg option list \<Rightarrow> u32 pkg list list" where
  "weight_dispatch polls = map (\<lambda>r. concat (map (dispatch_out r) (arrivals polls))) [0..<NUM_OF_OS]"

section \<open>current\_mask\<close>

text \<open>\<open>assert_t\<close>.\<close>

record assert_item =
  as_last_vertex :: u32
  as_curr_vertex :: u32

record current =
  cm_weight_input :: "weight_item pkg list"
  cm_assert_in :: "assert_item pkg list"
  cm_weight_pkg :: "weight_item pkg option"
  cm_assert_pkg :: "assert_item pkg option"

text \<open>The row written for a row and an assertion.\<close>

definition current_row :: "weight_item \<Rightarrow> u32 \<Rightarrow> weight_item" where
  "current_row w curr_vertex =
     pack_lanes (map (\<lambda>i. if lanes w ! i = curr_vertex then 1 else 0) [0..<NUM_OF_WEIGHTS])"

definition current_poll :: "current \<Rightarrow> current" where
  "current_poll s =
     (let s = (case (cm_weight_pkg s, cm_weight_input s) of
                 (None, x # xs) \<Rightarrow> s\<lparr>cm_weight_pkg := Some x, cm_weight_input := xs\<rparr> | _ \<Rightarrow> s)
      in case (cm_assert_pkg s, cm_assert_in s) of
           (None, x # xs) \<Rightarrow> s\<lparr>cm_assert_pkg := Some x, cm_assert_in := xs\<rparr> | _ \<Rightarrow> s)"

definition current_mask_step :: "current \<Rightarrow> current \<times> weight_item list" where
  "current_mask_step s =
     (let s = current_poll s
      in case (cm_weight_pkg s, cm_assert_pkg s) of
           (Some w, Some a) \<Rightarrow> (s\<lparr>cm_weight_pkg := None, cm_assert_pkg := None\<rparr>,
              [current_row (data w) (as_last_vertex (data a))])
         | _ \<Rightarrow> (s, []))"

definition current_init :: current where
  "current_init = \<lparr>cm_weight_input = [], cm_assert_in = [], cm_weight_pkg = None, cm_assert_pkg = None\<rparr>"

section \<open>merge\_mask\<close>

text \<open>It polls \<open>last_mask\<close> and then reads \<open>curr_mask\<close>.\<close>

definition merge_mask_step :: "u32 pkg \<times> u32 pkg \<Rightarrow> u32 pkg" where
  "merge_mask_step inp =
     (case inp of (last_pkg, curr_pkg) \<Rightarrow>
        let out_pkg = (if data curr_pkg = 0 then last_pkg else curr_pkg) in out_pkg\<lparr>last := False\<rparr>)"

definition merge_mask :: "(u32 pkg \<times> u32 pkg) option list \<Rightarrow> u32 pkg list" where
  "merge_mask polls = map merge_mask_step (arrivals polls)"

section \<open>merge\_weight\<close>

text \<open>One iteration that has read its four packages: counter and array before and after, the row.\<close>

definition merge_weight_step ::
    "4 word \<times> u32 list \<Rightarrow> u32 pkg \<times> u32 pkg \<times> u32 pkg \<times> u32 pkg \<Rightarrow> (4 word \<times> u32 list) \<times> weight_item list" where
  "merge_weight_step s inp =
     (case (s, inp) of ((counter, out_data), (pkg_1, pkg_2, pkg_3, pkg_4)) \<Rightarrow>
        if last pkg_4 then ((0, out_data), [])
        else let out_data = out_data[unat counter + 0 := data pkg_1, unat counter + 1 := data pkg_2,
                                     unat counter + 2 := data pkg_3, unat counter + 3 := data pkg_4]
             in ((counter + of_nat NUM_OF_OS, out_data),
                 if unat counter = NUM_OF_WEIGHTS - NUM_OF_OS then [pack_lanes out_data] else []))"

fun merge_weight_loop ::
    "4 word \<times> u32 list \<Rightarrow> (u32 pkg \<times> u32 pkg \<times> u32 pkg \<times> u32 pkg) list \<Rightarrow> weight_item list" where
  "merge_weight_loop s [] = []"
| "merge_weight_loop s (x # xs) = (let (s, out) = merge_weight_step s x in out @ merge_weight_loop s xs)"

text \<open>The array has no initial value.\<close>

definition merge_weight :: "u32 list \<Rightarrow> (u32 pkg \<times> u32 pkg \<times> u32 pkg \<times> u32 pkg) option list \<Rightarrow> weight_item list" where
  "merge_weight w polls = merge_weight_loop (0, w) (arrivals polls)"

section \<open>\<open>current_mask\<close> pairs its inputs\<close>

definition cm_recv_weight :: "weight_item pkg \<Rightarrow> current \<Rightarrow> current" where
  "cm_recv_weight x s = s\<lparr>cm_weight_input := cm_weight_input s @ [x]\<rparr>"

definition cm_recv_assert :: "assert_item pkg \<Rightarrow> current \<Rightarrow> current" where
  "cm_recv_assert x s = s\<lparr>cm_assert_in := cm_assert_in s @ [x]\<rparr>"

definition cm_weights :: "current \<Rightarrow> weight_item pkg list" where
  "cm_weights s = (case cm_weight_pkg s of None \<Rightarrow> [] | Some x \<Rightarrow> [x]) @ cm_weight_input s"

definition cm_asserts :: "current \<Rightarrow> assert_item pkg list" where
  "cm_asserts s = (case cm_assert_pkg s of None \<Rightarrow> [] | Some x \<Rightarrow> [x]) @ cm_assert_in s"

definition current_rows :: "weight_item pkg list \<Rightarrow> assert_item pkg list \<Rightarrow> weight_item list" where
  "current_rows ws as = map (\<lambda>(w, a). current_row (data w) (as_last_vertex (data a))) (zip ws as)"

lemma cm_step:
  "current_mask_step s =
     (case (cm_weights s, cm_asserts s) of
        (w # ws, a # as) \<Rightarrow>
          (\<lparr>cm_weight_input = ws, cm_assert_in = as, cm_weight_pkg = None, cm_assert_pkg = None\<rparr>,
           [current_row (data w) (as_last_vertex (data a))])
      | _ \<Rightarrow> (current_poll s, []))"
proof -
  obtain W A p q where "s = \<lparr>cm_weight_input = W, cm_assert_in = A, cm_weight_pkg = p, cm_assert_pkg = q\<rparr>"
    by (cases s)
  then show ?thesis
    by (cases W; cases A; cases p; cases q)
      (simp_all add: current_mask_step_def current_poll_def cm_weights_def cm_asserts_def Let_def)
qed

lemma cm_poll: "cm_weights (current_poll s) = cm_weights s" "cm_asserts (current_poll s) = cm_asserts s"
proof -
  obtain W A p q where "s = \<lparr>cm_weight_input = W, cm_assert_in = A, cm_weight_pkg = p, cm_assert_pkg = q\<rparr>"
    by (cases s)
  then show "cm_weights (current_poll s) = cm_weights s" "cm_asserts (current_poll s) = cm_asserts s"
    by (cases W; cases A; cases p; cases q; simp add: current_poll_def cm_weights_def cm_asserts_def)+
qed

interpretation cm: fed_kernel current_mask_step cm_recv_weight cm_recv_assert
  "\<lambda>s. length (cm_weights s)" "\<lambda>s f1 f2 zs. zs = current_rows (cm_weights s @ f1) (cm_asserts s @ f2)"
proof unfold_locales
  fix s s' :: current and f1 f2 zs new
  assume "zs = current_rows (cm_weights s @ f1) (cm_asserts s @ f2)" and "current_mask_step s = (s', new)"
  then show "\<exists>zs'. zs = new @ zs' \<and> zs' = current_rows (cm_weights s' @ f1) (cm_asserts s' @ f2)"
    by (auto simp: cm_step current_rows_def cm_poll split: list.splits)
      (auto simp: cm_weights_def cm_asserts_def)
next
  fix s s' :: current and zs new
  assume "zs = current_rows (cm_weights s @ []) (cm_asserts s @ [])" and "zs \<noteq> []" and "current_mask_step s = (s', new)"
  then show "length (cm_weights s') < length (cm_weights s)"
    by (auto simp: cm_step current_rows_def split: list.splits) (auto simp: cm_weights_def)
qed (auto simp: cm_recv_weight_def cm_recv_assert_def cm_weights_def cm_asserts_def)

end
