(* ===== verification/Node2vec.thy ===== *)
theory Node2vec
  imports Set_Weights
begin

text \<open>
  The weights of a node2vec walk (\<open>app/node2vec/kernel.cfg\<close>): the neighbours of the current vertex, in
  rows, pass through \<open>weight_dispatch\<close>, four \<open>neighbor_mask\<close> kernels and \<open>current_mask\<close>, \<open>merge_mask\<close> and
  \<open>merge_weight\<close>, and come out as rows of weights.
\<close>

section \<open>Lanes in four streams\<close>

definition quad :: "nat \<Rightarrow> weight_item \<Rightarrow> u32 list" where
  "quad r w = map (\<lambda>i. lanes w ! (4 * i + r)) [0..<4]"

definition quads :: "nat \<Rightarrow> weight_item list \<Rightarrow> u32 list" where
  "quads r rows = concat (map (quad r) rows)"

lemma quad_simps: "length (quad r w) = 4" "quad r w \<noteq> []"
  by (simp_all add: quad_def)

lemma quad_eq: "quad r w = [lanes w ! r, lanes w ! (4 + r), lanes w ! (8 + r), lanes w ! (12 + r)]"
  by (simp add: quad_def upt_rec)

lemma quads_simps: "quads r [] = []" "quads r (w # rows) = quad r w @ quads r rows"
    "quads r (rows @ rows') = quads r rows @ quads r rows'"
  by (simp_all add: quads_def)

lemma quads_Nil_iff [simp]: "quads r rows = [] \<longleftrightarrow> rows = []"
  by (cases rows) (simp_all add: quads_def quad_simps)

lemma dispatch_out_eq:
  "map data (dispatch_out r pkg) = quad r (data pkg)"
  "dispatch_out r pkg = map (\<lambda>x. \<lparr>data = x, last = False\<rparr>) (butlast (quad r (data pkg)))
     @ [\<lparr>data = List.last (quad r (data pkg)), last = last pkg\<rparr>]"
  by (simp_all add: dispatch_out_def quad_eq NUM_OF_WEIGHTS_def NUM_OF_OS_def upt_rec push_bit_eq_mult mult.commute)

lemma flagged_append:
  "ys \<noteq> [] \<Longrightarrow> flagged (xs @ ys) = map (\<lambda>x. \<lparr>data = x, last = False\<rparr>) xs @ flagged ys"
  by (induction xs) (simp_all add: flagged_Cons)

lemma flagged_snoc: "flagged (xs @ [x]) = map (\<lambda>x. \<lparr>data = x, last = False\<rparr>) xs @ [\<lparr>data = x, last = True\<rparr>]"
  by (simp add: flagged_append)

lemma dispatch_False: "dispatch_out r \<lparr>data = w, last = False\<rparr> = map (\<lambda>x. \<lparr>data = x, last = False\<rparr>) (quad r w)"
  by (simp add: dispatch_out_eq(2) quad_eq)

lemma dispatch_True: "dispatch_out r \<lparr>data = w, last = True\<rparr> = flagged (quad r w)"
  by (simp add: dispatch_out_eq(2) quad_eq)

lemma dispatch_flagged: "concat (map (dispatch_out r) (flagged rows)) = flagged (quads r rows)"
proof (induction rows rule: flagged.induct)
  case (3 w w' rows)
  have "flagged (quads r (w # w' # rows)) = map (\<lambda>x. \<lparr>data = x, last = False\<rparr>) (quad r w) @ flagged (quads r (w' # rows))"
    unfolding quads_simps(2) [of r w] by (intro flagged_append) simp
  with 3 show ?case by (simp add: dispatch_False)
qed (simp_all add: quads_simps dispatch_True)

lemma map_data_dispatch: "map data (concat (map (dispatch_out r) pkgs)) = quads r (map data pkgs)"
  by (simp add: map_concat comp_def dispatch_out_eq(1) quads_def)

subsection \<open>The four streams are sorted\<close>

lemma lane_in_chunk: "4 * i + r < length xs \<Longrightarrow> r < 4 \<Longrightarrow> xs ! (4 * i + r) \<in> set (take 4 (drop (4 * i) xs))"
  by (auto simp: in_set_conv_nth intro!: exI [of _ r])

lemma subseq_quad:
  assumes "r < 4"
  shows "subseq (quad r w) (lanes w)"
proof -
  have chunks: "lanes w = take 4 (lanes w) @ take 4 (drop 4 (lanes w)) @ take 4 (drop 8 (lanes w)) @ take 4 (drop 12 (lanes w))"
    using append_take_drop_id [of 4 "lanes w"] append_take_drop_id [of 4 "drop 4 (lanes w)"]
      append_take_drop_id [of 4 "drop 8 (lanes w)"] by simp
  have "subseq [lanes w ! (4 * i + r)] (take 4 (drop (4 * i) (lanes w)))" if "i < 4" for i
    unfolding subseq_singleton_left using assms that by (intro lane_in_chunk) simp_all
  from this [of 0] this [of 1] this [of 2] this [of 3]
  have "subseq ([lanes w ! r] @ [lanes w ! (4 + r)] @ [lanes w ! (8 + r)] @ [lanes w ! (12 + r)]) (lanes w)"
    by (subst chunks, intro list_emb_append_mono) simp_all
  then show ?thesis by (simp add: quad_eq)
qed

lemma subseq_quads: "r < 4 \<Longrightarrow> subseq (quads r rows) (entries rows)"
  by (induction rows) (simp_all add: quads_simps entries_Cons list_emb_append_mono subseq_quad)

lemma vertices_sorted_subseq:
  assumes "vertices_sorted vs" and "subseq us vs"
  shows "vertices_sorted us"
proof -
  have sub: "set as \<subseteq> set bs" if "subseq as bs" for as bs :: "u32 list"
    using list_emb_set [OF that] by auto
  moreover have "subseq (filter (\<lambda>v. v \<noteq> 0) us) (filter (\<lambda>v. v \<noteq> 0) vs)"
    using assms(2) by (rule subseq_filter)
  moreover have "subseq as bs \<Longrightarrow> sorted_wrt (<) bs \<Longrightarrow> sorted_wrt (<) as" for as bs :: "u32 list"
    by (induction rule: list_emb.induct) (auto dest: sub)
  ultimately have "sorted_wrt (<) (filter (\<lambda>v. v \<noteq> 0) us)" using assms(1) by (simp add: vertices_sorted_def)
  then show ?thesis using assms(1) sub [OF assms(2)] by (auto simp: vertices_sorted_def)
qed

lemma last_quads: "rows \<noteq> [] \<Longrightarrow> List.last (quads r rows) = lanes (List.last rows) ! (12 + r)"
  by (induction rows rule: flagged.induct) (simp_all add: quads_simps quad_eq)

section \<open>Collecting\<close>

text \<open>Four streams that hold the lanes of rows give back the rows, whatever the array held.\<close>

definition unflagged :: "'a list \<Rightarrow> 'a pkg list" where
  "unflagged xs = map (\<lambda>x. \<lparr>data = x, last = False\<rparr>) xs"

lemma merge_weight_False:
  "merge_weight_step (c, out) (\<lparr>data = x1, last = False\<rparr>, \<lparr>data = x2, last = False\<rparr>, \<lparr>data = x3, last = False\<rparr>, \<lparr>data = x4, last = False\<rparr>) =
     (let out = out[unat c := x1, unat c + 1 := x2, unat c + 2 := x3, unat c + 3 := x4]
      in ((c + 4, out), if c = 12 then [pack_lanes out] else []))"
proof -
  have "unat c = 12 \<longleftrightarrow> c = 12" by (simp add: word_unat_eq_iff)
  then show ?thesis by (simp add: merge_weight_step_def NUM_OF_OS_def NUM_OF_WEIGHTS_def Let_def)
qed

lemma counter_wraps: "(16 :: 4 word) = 0"
  by simp

lemma collect_row:
  assumes "length out = 16"
  shows "\<exists>out'. length out' = 16 \<and>
    merge_weight_loop (0, out) (zip (unflagged (quad 0 w)) (zip (unflagged (quad 1 w))
      (zip (unflagged (quad 2 w)) (unflagged (quad 3 w)))) @ ps) = w # merge_weight_loop (0, out') ps"
proof -
  have "pack_lanes (out[0 := lanes w ! 0, 1 := lanes w ! 1, 2 := lanes w ! 2, 3 := lanes w ! 3,
      4 := lanes w ! 4, 5 := lanes w ! 5, 6 := lanes w ! 6, 7 := lanes w ! 7,
      8 := lanes w ! 8, 9 := lanes w ! 9, 10 := lanes w ! 10, 11 := lanes w ! 11,
      12 := lanes w ! 12, 13 := lanes w ! 13, 14 := lanes w ! 14, 15 := lanes w ! 15]) = w" (is "pack_lanes ?out = w")
    using assms by (intro pack_lanes_eq) (simp_all add: list_eq_iff_nth_eq nth_list_update less_Suc_eq eval_nat_numeral)
  then show ?thesis
    using assms
    by (intro exI [of _ ?out])
      (simp add: unflagged_def quad_eq merge_weight_False Let_def counter_wraps del: add_2_eq_Suc add_2_eq_Suc')
qed

lemma collect:
  "length out = 16 \<Longrightarrow>
     merge_weight_loop (0, out) (zip (unflagged (quads 0 rows)) (zip (unflagged (quads 1 rows))
       (zip (unflagged (quads 2 rows)) (unflagged (quads 3 rows))))) = rows"
proof (induction rows arbitrary: out)
  case (Cons w rows)
  have len: "length (unflagged (quad r w)) = 4" for r by (simp add: unflagged_def quad_simps)
  have app: "unflagged (quads r (w # rows)) = unflagged (quad r w) @ unflagged (quads r rows)" for r
    by (simp add: quads_simps unflagged_def)
  obtain out' where "length out' = 16" "merge_weight_loop (0, out)
      (zip (unflagged (quads 0 (w # rows))) (zip (unflagged (quads 1 (w # rows)))
        (zip (unflagged (quads 2 (w # rows))) (unflagged (quads 3 (w # rows)))))) =
      w # merge_weight_loop (0, out') (zip (unflagged (quads 0 rows)) (zip (unflagged (quads 1 rows))
        (zip (unflagged (quads 2 rows)) (unflagged (quads 3 rows)))))"
    using collect_row [OF Cons.prems, of w "zip (unflagged (quads 0 rows)) (zip (unflagged (quads 1 rows))
        (zip (unflagged (quads 2 rows)) (unflagged (quads 3 rows))))"]
    by (auto simp: app zip_append len)
  with Cons.IH show ?case by metis
qed (simp add: quads_simps unflagged_def)

section \<open>The weights\<close>

text \<open>A request: the rows of the other list, the rows of the neighbours, the vertex the walk came from.\<close>

type_synonym node_request = "weight_item list \<times> weight_item list \<times> u32"

definition node_weight :: "weight_item list \<Rightarrow> u32 \<Rightarrow> u32 \<Rightarrow> u32" where
  "node_weight R u v = (if v = u then 1 else answer (entries R) v)"

definition node_weights :: "node_request \<Rightarrow> weight_item list" where
  "node_weights q = (case q of (R, W, u) \<Rightarrow> map (\<lambda>x. pack_lanes (map (node_weight R u) (lanes x))) W)"

text \<open>The last four neighbours are the last ones of the four streams.\<close>

definition node_ok :: "node_request \<Rightarrow> bool" where
  "node_ok q = (case q of (R, W, u) \<Rightarrow> rows_sorted R \<and> W \<noteq> [] \<and> vertices_sorted (entries W) \<and>
     (\<forall>v \<in> set (drop 12 (lanes (List.last W))). v \<in> set (entries R) \<and> v \<noteq> 0 \<longrightarrow> v \<in> set (end_entries R)))"

definition neighbour_rows :: "node_request list \<Rightarrow> weight_item pkg list" where
  "neighbour_rows qs = concat (map (\<lambda>(R, W, u). flagged W) qs)"

definition other_rows :: "node_request list \<Rightarrow> weight_item pkg list" where
  "other_rows qs = concat (map (\<lambda>(R, W, u). flagged R) qs)"

text \<open>The kernels that choose their own pace have read everything and wait.\<close>

definition masks_done :: "weight_item pkg list \<Rightarrow> u32 pkg list list \<Rightarrow> (nat \<Rightarrow> u32 pkg list) \<Rightarrow> bool" where
  "masks_done others dispatched found =
     (\<forall>r < 4. \<exists>row v s. length row = 16 \<and> nm_waits s \<and>
        (feed_run neighbor_mask_step nm_recv_curr nm_recv_last)\<^sup>*\<^sup>*
          (nm_init row v, dispatched ! r, others, []) (s, [], [], found r))"

definition current_done :: "weight_item pkg list \<Rightarrow> assert_item pkg list \<Rightarrow> weight_item list \<Rightarrow> bool" where
  "current_done rows asserts marked =
     (\<exists>s. length marked = length rows \<and>
        (feed_run current_mask_step cm_recv_weight cm_recv_assert)\<^sup>*\<^sup>* (current_init, rows, asserts, []) (s, [], [], marked))"

text \<open>The rows of all requests, each with its other list and last vertex.\<close>

definition tagged_rows :: "node_request list \<Rightarrow> (weight_item list \<times> u32 \<times> weight_item) list" where
  "tagged_rows qs = concat (map (\<lambda>(R, W, u). map (\<lambda>x. (R, u, x)) W) qs)"

lemma node_weights_tagged:
  "concat (map node_weights qs) = map (\<lambda>(R, u, x). pack_lanes (map (node_weight R u) (lanes x))) (tagged_rows qs)"
  by (induction qs) (auto simp: tagged_rows_def node_weights_def)

lemma dispatched:
  "r < 4 \<Longrightarrow> weight_dispatch polls ! r = concat (map (dispatch_out r) (arrivals polls))"
  by (simp add: weight_dispatch_def NUM_OF_OS_def)

lemma tagged_quads:
  "concat (map (\<lambda>(R, W, u). map (f R u) (quads r W)) qs) =
     concat (map (\<lambda>(R, u, x). map (f R u) (quad r x)) (tagged_rows qs))"
  by (induction qs) (auto simp: tagged_rows_def quads_def map_concat comp_def)

lemma dispatch_requests:
  "concat (map (dispatch_out r) (neighbour_rows qs)) = concat (map (flagged \<circ> snd) (map (\<lambda>(R, W, u). (R, quads r W)) qs))"
  by (induction qs) (auto simp: neighbour_rows_def dispatch_flagged)

lemma queries_of_requests:
  assumes "\<forall>q \<in> set qs. node_ok q" and "r < 4"
  shows "queries_ok (map (\<lambda>(R, W, u). (R, quads r W)) qs)"
    and "concat (map (dispatch_out r) (neighbour_rows qs)) = concat (map (flagged \<circ> snd) (map (\<lambda>(R, W, u). (R, quads r W)) qs))"
    and "other_rows qs = concat (map (flagged \<circ> fst) (map (\<lambda>(R, W, u). (R, quads r W)) qs))"
proof -
  show "queries_ok (map (\<lambda>(R, W, u). (R, quads r W)) qs)"
    using assms(1) vertices_sorted_subseq [OF _ subseq_quads [OF assms(2)]]
    by (fastforce simp: queries_ok_def node_ok_def)
  show "other_rows qs = concat (map (flagged \<circ> fst) (map (\<lambda>(R, W, u). (R, quads r W)) qs))"
    by (induction qs) (auto simp: other_rows_def)
qed (rule dispatch_requests)

lemma found_answers:
  assumes "\<forall>q \<in> set qs. node_ok q" and "arrivals polls = neighbour_rows qs"
    and "masks_done (other_rows qs) (weight_dispatch polls) found" and "r < 4"
  shows "map data (found r) = concat (map (\<lambda>(R, u, x). map (answer (entries R)) (quad r x)) (tagged_rows qs))"
proof -
  let ?qs = "map (\<lambda>(R, W, u). (R, quads r W)) qs"
  note streams = queries_of_requests [OF assms(1,4)]
  have "weight_dispatch polls ! r = concat (map (flagged \<circ> snd) ?qs)"
    by (simp only: dispatched [OF assms(4)] assms(2) streams(2))
  with streams(1,3) have "found r = queries_answers ?qs"
    using assms(3,4) nm.fed_finished [OF run_init] unfolding masks_done_def by metis
  moreover have "neighbor_answers R (quads r W) = map (answer (entries R)) (quads r W)" if "(R, W, u) \<in> set qs" for R W u
  proof -
    have ok: "node_ok (R, W, u)" "W \<noteq> []" using assms(1) that by (auto simp: node_ok_def)
    have "lanes (List.last W) ! (12 + r) \<in> set (drop 12 (lanes (List.last W)))"
      using assms(4) by (auto simp: in_set_conv_nth intro!: exI [of _ r])
    then show ?thesis
      using ok by (subst neighbor_answers_eq_iff) (auto simp: node_ok_def last_quads)
  qed
  then have "map (\<lambda>(R, W, u). neighbor_answers R (quads r W)) qs = map (\<lambda>(R, W, u). map (answer (entries R)) (quads r W)) qs"
    by (intro map_cong) auto
  moreover have "map data (queries_answers ?qs) = concat (map (\<lambda>(R, W, u). neighbor_answers R (quads r W)) qs)"
    by (simp add: queries_answers_def map_concat comp_def case_prod_unfold)
  ultimately show ?thesis
    by (simp only: tagged_quads [of "\<lambda>R u. answer (entries R)"])
qed

lemma map2_map: "map2 f (map g xs) (map h xs) = map (\<lambda>x. f (g x) (h x)) xs"
  by (induction xs) auto

text \<open>The marks of the vertex a walk came from.\<close>

lemma current_owes: "current_rows W A = current_rows (cm_weights current_init @ W) (cm_asserts current_init @ A)"
  by (simp add: current_init_def cm_weights_def cm_asserts_def)

lemma current_answers:
  assumes "current_done (neighbour_rows qs) asserts marked"
    and "map (as_last_vertex \<circ> data) asserts = map (\<lambda>(R, u, x). u) (tagged_rows qs)"
  shows "marked = map (\<lambda>(R, u, x). current_row x u) (tagged_rows qs)"
proof -
  have rows: "map data (neighbour_rows qs) = map (\<lambda>(R, u, x). x) (tagged_rows qs)"
    by (induction qs) (auto simp: neighbour_rows_def tagged_rows_def comp_def)
  from arg_cong [OF this, of length] arg_cong [OF assms(2), of length]
  have len: "length (current_rows (neighbour_rows qs) asserts) = length (neighbour_rows qs)"
    by (simp add: current_rows_def)
  obtain s where s: "length marked = length (neighbour_rows qs)"
    "(feed_run current_mask_step cm_recv_weight cm_recv_assert)\<^sup>*\<^sup>* (current_init, neighbour_rows qs, asserts, []) (s, [], [], marked)"
    using assms(1) by (auto simp: current_done_def)
  from cm.fed_correct(1) [OF current_owes s(2)] have "marked = current_rows (neighbour_rows qs) asserts"
    using s(1) len by (auto simp: prefix_def)
  also have "\<dots> = map2 current_row (map data (neighbour_rows qs)) (map (as_last_vertex \<circ> data) asserts)"
    by (simp add: current_rows_def zip_map_map comp_def case_prod_unfold)
  also note rows
  finally show ?thesis
    by (simp only: assms(2) map2_map) (simp add: case_prod_unfold)
qed

lemma quad_pack: "r < 4 \<Longrightarrow> quad r (pack_lanes (map f (lanes x))) = map f (quad r x)"
  by (simp add: quad_eq)

lemma current_row_eq: "current_row x u = pack_lanes (map (\<lambda>v. if v = u then 1 else 0) (lanes x))"
  unfolding current_row_def by (intro arg_cong [where f = pack_lanes] nth_equalityI)
    (simp_all add: nth_numbers, simp_all add: NUM_OF_WEIGHTS_def)

lemma merge_mask_data:
  "map merge_mask_step (zip last_pkgs curr_pkgs) =
     unflagged (map2 (\<lambda>l c. if c = 0 then l else c) (map data last_pkgs) (map data curr_pkgs))"
  by (rule nth_equalityI) (auto simp: unflagged_def merge_mask_step_def Let_def)

lemma map2_concat:
  "(\<And>x. x \<in> set xs \<Longrightarrow> length (f x) = length (g x)) \<Longrightarrow>
     map2 h (concat (map f xs)) (concat (map g xs)) = concat (map (\<lambda>x. map2 h (f x) (g x)) xs)"
  by (induction xs) auto

lemma merged_weights:
  assumes "r < 4" and "\<forall>q \<in> set qs. node_ok q" and "arrivals polls = neighbour_rows qs"
    and "masks_done (other_rows qs) (weight_dispatch polls) found" and "current_done (neighbour_rows qs) asserts marked"
    and "map (as_last_vertex \<circ> data) asserts = map (\<lambda>(R, u, x). u) (tagged_rows qs)"
    and "map data (arrivals marks) = marked" and "arrivals merged = zip (found r) (weight_dispatch marks ! r)"
  shows "merge_mask merged = unflagged (quads r (concat (map node_weights qs)))"
proof -
  let ?h = "\<lambda>l c :: u32. if c = 0 then l else c" and ?f = "\<lambda>(R, u, x). map (answer (entries R)) (quad r x)"
    and ?g = "\<lambda>(R, u, x). map (\<lambda>v. if v = u then 1 else 0) (quad r x)"
  have "map data (weight_dispatch marks ! r) = quads r (map (\<lambda>(R, u, x). current_row x u) (tagged_rows qs))"
    using current_answers [OF assms(5,6)] assms(7) by (simp only: dispatched [OF assms(1)] map_data_dispatch)
  also have "\<dots> = concat (map (\<lambda>(R, u, x). map (\<lambda>v. if v = u then 1 else 0) (quad r x)) (tagged_rows qs))"
    using assms(1) by (simp add: quads_def comp_def case_prod_unfold current_row_eq quad_pack)
  finally have "merge_mask merged = unflagged (map2 ?h (concat (map ?f (tagged_rows qs))) (concat (map ?g (tagged_rows qs))))"
    by (simp only: merge_mask_def assms(8) merge_mask_data found_answers [OF assms(2,3,4,1)])
  also have "map2 ?h (concat (map ?f (tagged_rows qs))) (concat (map ?g (tagged_rows qs))) =
      concat (map (\<lambda>q. map2 ?h (?f q) (?g q)) (tagged_rows qs))"
    by (rule map2_concat) auto
  also have "map (\<lambda>q. map2 ?h (?f q) (?g q)) (tagged_rows qs) = map (\<lambda>(R, u, x). map (node_weight R u) (quad r x)) (tagged_rows qs)"
    by (intro map_cong) (auto simp: map2_map node_weight_def)
  also have "concat \<dots> = quads r (concat (map node_weights qs))"
    using assms(1) by (simp add: node_weights_tagged quads_def comp_def case_prod_unfold quad_pack)
  finally show ?thesis .
qed

lemma weights_computed:
  assumes "\<forall>q \<in> set qs. node_ok q" and "arrivals polls = neighbour_rows qs"
    and "masks_done (other_rows qs) (weight_dispatch polls) found" and "current_done (neighbour_rows qs) asserts marked"
    and "map (as_last_vertex \<circ> data) asserts = map (\<lambda>(R, u, x). u) (tagged_rows qs)"
    and "map data (arrivals marks) = marked"
    and "\<forall>r < 4. arrivals (merged r) = zip (found r) (weight_dispatch marks ! r)"
    and "arrivals quartets = zip (merge_mask (merged 0)) (zip (merge_mask (merged 1))
      (zip (merge_mask (merged 2)) (merge_mask (merged 3))))"
    and "length w = 16"
  shows "merge_weight w quartets = concat (map node_weights qs)"
proof -
  have "merge_mask (merged r) = unflagged (quads r (concat (map node_weights qs)))" if "r < 4" for r
    using merged_weights [OF that assms(1-6)] assms(7) that by blast
  then show ?thesis
    unfolding merge_weight_def assms(8) using collect [OF assms(9)] by simp
qed

text \<open>
  C9: The weights of a node2vec walk.  However the four \<open>neighbor_mask\<close> kernels and \<open>current_mask\<close> are
  fed, once they have read everything \<open>merge_weight\<close> has written, row by row, the weight of every
  neighbour: 1 for the vertex the walk came from, 2 for a vertex of the other list, 4 for one that is
  not in it, and 0 for a masked entry, provided the lists are sorted and the last four neighbours are
  masked, not in the other list, or in its last two rows.
\<close>

theorem node2vec_weights:
  assumes "\<forall>q \<in> set qs. node_ok q" and "arrivals polls = neighbour_rows qs"
    and "masks_done (other_rows qs) (weight_dispatch polls) found" and "current_done (neighbour_rows qs) asserts marked"
    and "map (as_last_vertex \<circ> data) asserts = map (\<lambda>(R, u, x). u) (tagged_rows qs)"
    and "map data (arrivals marks) = marked"
    and "\<forall>r < 4. arrivals (merged r) = zip (found r) (weight_dispatch marks ! r)"
    and "arrivals quartets = zip (merge_mask (merged 0)) (zip (merge_mask (merged 1))
      (zip (merge_mask (merged 2)) (merge_mask (merged 3))))"
    and "length w = 16"
  shows "merge_weight w quartets = concat (map node_weights qs)"
  using assms by (rule weights_computed)

text \<open>Such runs exist for all requests.\<close>

lemma masks_done_exist:
  assumes "\<forall>q \<in> set qs. node_ok q" and "arrivals polls = neighbour_rows qs"
  shows "\<exists>found. masks_done (other_rows qs) (weight_dispatch polls) found"
proof -
  have "\<exists>found s. (feed_run neighbor_mask_step nm_recv_curr nm_recv_last)\<^sup>*\<^sup>*
      (nm_init (replicate 16 0) 0, weight_dispatch polls ! r, other_rows qs, []) (s, [], [], found) \<and> nm_waits s" if "r < 4" for r
    using nm.fed_completes [OF run_init [OF queries_of_requests(1) [OF assms(1) that], of "replicate 16 0" 0]]
    by (simp add: queries_of_requests(2,3) [OF assms(1) that] dispatched [OF that] assms(2)) blast
  then obtain found where "\<forall>r < 4. \<exists>s. (feed_run neighbor_mask_step nm_recv_curr nm_recv_last)\<^sup>*\<^sup>*
      (nm_init (replicate 16 0) 0, weight_dispatch polls ! r, other_rows qs, []) (s, [], [], found r) \<and> nm_waits s" by metis
  then have "masks_done (other_rows qs) (weight_dispatch polls) found"
    unfolding masks_done_def by (metis length_replicate)
  then show ?thesis by blast
qed

lemma data_unflagged: "map data (arrivals (map Some (unflagged xs))) = xs"
  unfolding arrivals_Some by (simp add: unflagged_def comp_def)

lemma current_done_exists:
  assumes "length asserts = length rows"
  shows "current_done rows asserts (current_rows rows asserts)"
  using cm.fed_correct(2) [OF current_owes [of rows asserts] rtranclp.rtrancl_refl] assms
  by (auto simp: current_done_def current_rows_def)

definition sample_node :: node_request where
  "sample_node = ([pack_lanes [1, 2, 3, 4, 5, 6, 7, 8, 9, 10, 11, 12, 13, 14, 15, 16]],
     [pack_lanes [0, 0, 3, 5, 20, 30, 0, 0, 0, 0, 0, 0, 0, 0, 0, 0]], 5)"

lemma sample_node: "node_ok sample_node" "tagged_rows [sample_node] = [(fst sample_node, 5, hd (fst (snd sample_node)))]"
  by (simp_all add: node_ok_def sample_node_def vertices_sorted_def INVALID_VERTEX_def entries_def tagged_rows_def)

theorem node2vec_weights_witness:
  "\<exists>polls found quartets. arrivals polls = neighbour_rows [sample_node] \<and>
     masks_done (other_rows [sample_node]) (weight_dispatch polls) found \<and>
     merge_weight (replicate 16 0) quartets = [pack_lanes [0, 0, 2, 1, 4, 4, 0, 0, 0, 0, 0, 0, 0, 0, 0, 0]]"
proof -
  let ?rows = "neighbour_rows [sample_node]" and ?assert = "[\<lparr>data = \<lparr>as_last_vertex = 5, as_curr_vertex = 9\<rparr>, last = False\<rparr>]"
  let ?polls = "map Some ?rows" and ?marked = "current_rows ?rows ?assert"
  let ?marks = "map Some (unflagged ?marked)"
  have ok: "\<forall>q \<in> set [sample_node]. node_ok q" using sample_node(1) by simp
  have rows: "arrivals ?polls = ?rows" by simp
  obtain found where found: "masks_done (other_rows [sample_node]) (weight_dispatch ?polls) found"
    using masks_done_exist [OF ok rows] by blast
  have "current_done ?rows ?assert ?marked"
    by (intro current_done_exists) (simp add: neighbour_rows_def sample_node_def)
  moreover have "map (as_last_vertex \<circ> data) ?assert = map (\<lambda>(R, u, x). u) (tagged_rows [sample_node])"
    by (simp add: sample_node(2))
  moreover have "map data (arrivals ?marks) = ?marked" by (rule data_unflagged)
  ultimately have "merge_weight (replicate 16 0) (map Some (zip (merge_mask (map Some (zip (found 0) (weight_dispatch ?marks ! 0))))
      (zip (merge_mask (map Some (zip (found 1) (weight_dispatch ?marks ! 1))))
        (zip (merge_mask (map Some (zip (found 2) (weight_dispatch ?marks ! 2))))
          (merge_mask (map Some (zip (found 3) (weight_dispatch ?marks ! 3)))))))) = concat (map node_weights [sample_node])"
    by (rule node2vec_weights [OF ok rows found, where merged = "\<lambda>r. map Some (zip (found r) (weight_dispatch ?marks ! r))"])
      (simp_all only: arrivals_Some length_replicate simp_thms)
  moreover have "concat (map node_weights [sample_node]) = [pack_lanes [0, 0, 2, 1, 4, 4, 0, 0, 0, 0, 0, 0, 0, 0, 0, 0]]"
    by (simp add: node_weights_def sample_node_def node_weight_def answer_def entries_def)
  ultimately show ?thesis using rows found by (intro exI conjI) (assumption | erule trans)+
qed

end
