(* ===== verification/Burst.thy ===== *)
theory Burst
  imports Wrs
begin

text \<open>
  Reading an edge list in bursts (\<open>src/sdyburst\<close>): \<open>cmd_generator\<close> cuts the list into commands of 32
  and 1 memory words, the engines \<open>dynamic_burst_32\<close>, \<open>dynamic_burst_1\<close> and \<open>single_burst\<close> execute
  them and mask the entries outside the list, \<open>mask_generator\<close> computes such masks by table, and
  \<open>label_filter\<close> (\<open>src/metapath\<close>) turns the entries into weights.
\<close>

section \<open>Descriptors and commands\<close>

record vertex_descriptor_ordered =
  vdo_start :: u32
  vdo_size :: u32
  vdo_id :: u16
  vdo_burst_id :: u16
  vdo_state :: u16

record burst_cmd =
  bc_addr :: u32
  bc_size :: u32
  bc_start :: u32
  bc_end :: u32
  bc_id :: u16
  bc_burst_id :: u16
  bc_dynamic_id :: u16
  bc_state :: u16

definition DYNAMIC_BURST_MAX_LENGTH :: u32 where "DYNAMIC_BURST_MAX_LENGTH = 32"

definition burst_cmd_gen ::
    "u32 \<Rightarrow> u32 \<Rightarrow> u32 \<Rightarrow> u32 \<Rightarrow> u16 \<Rightarrow> u16 \<Rightarrow> u16 \<Rightarrow> bool \<Rightarrow> u16 \<Rightarrow> burst_cmd pkg" where
  "burst_cmd_gen addr len start end' qid burst_id dynamic_id islast state =
     \<lparr>data = \<lparr>bc_addr = addr, bc_size = len, bc_start = start, bc_end = end', bc_id = qid,
              bc_burst_id = burst_id, bc_dynamic_id = dynamic_id, bc_state = state\<rparr>,
      last = islast\<rparr>"

text \<open>The end of a list rounded up to a whole memory word.\<close>

definition round_end :: "u32 \<Rightarrow> u32" where
  "round_end end' =
     (let temp_end_addr = end' AND 0xfffffff0
      in if temp_end_addr = end' then temp_end_addr else temp_end_addr + 16)"

text \<open>\<open>SEND_DYNAMIC_CMD(n, S)\<close>: the command and the new \<open>curr_addr\<close>.\<close>

definition send_dynamic_cmd ::
    "u32 \<Rightarrow> vertex_descriptor_ordered pkg \<Rightarrow> u32 \<Rightarrow> u32 \<Rightarrow> u16 \<Rightarrow> u32 \<Rightarrow> burst_cmd pkg \<times> u32" where
  "send_dynamic_cmd n vd_pkg end' end_addr dynamic_burst_id curr_addr =
     (let vd = data vd_pkg; start = vdo_start vd;
          last_addr = curr_addr;
          curr_addr = curr_addr + n * 16;
          end_of_burst = (curr_addr = end_addr);
          stream_last = (end_of_burst \<and> last vd_pkg);
          dynamic_id = dynamic_burst_id AND 0x7fff;
          burst_id_with_end = ap_set_range 15 15 (of_bool end_of_burst) (vdo_burst_id vd AND 0x7fff);
          mask_start = (if last_addr < start then start else last_addr);
          mask_end = (if end' < curr_addr then end' else curr_addr)
      in (burst_cmd_gen last_addr n mask_start mask_end (vdo_id vd) burst_id_with_end dynamic_id stream_last
            (vdo_state vd), curr_addr))"

text \<open>
  The loop \<open>cmd_decomposition\<close>: the commands, each with the stream it goes to (\<open>True\<close> for
  \<open>burst_32_cmd\<close>), and the new \<open>dynamic_burst_id\<close>; \<open>None\<close> if it does not end.
\<close>

partial_function (option) cmd_decomposition ::
    "vertex_descriptor_ordered pkg \<Rightarrow> u32 \<Rightarrow> u32 \<Rightarrow> u32 \<Rightarrow> u16 \<Rightarrow> ((bool \<times> burst_cmd pkg) list \<times> u16) option" where
  "cmd_decomposition pkg end' end_addr curr_addr dynamic_burst_id =
     (if curr_addr = end_addr then Some ([], dynamic_burst_id)
      else
        let long = (end_addr \<ge> curr_addr + DYNAMIC_BURST_MAX_LENGTH * 16);
            (cmd, curr_addr) =
              send_dynamic_cmd (if long then DYNAMIC_BURST_MAX_LENGTH else 1) pkg end' end_addr dynamic_burst_id curr_addr;
            dynamic_burst_id =
              (if vdo_id (data pkg) AND 0x8000 \<noteq> 0 then dynamic_burst_id else dynamic_burst_id + 1)
        in Option.bind (cmd_decomposition pkg end' end_addr curr_addr dynamic_burst_id)
             (\<lambda>(cmds, d). Some ((long, cmd) # cmds, d)))"

text \<open>One descriptor of the loop \<open>cmd_main\<close>.\<close>

definition cmd_generator ::
    "u16 \<Rightarrow> vertex_descriptor_ordered pkg \<Rightarrow> ((bool \<times> burst_cmd pkg) list \<times> u16) option" where
  "cmd_generator dynamic_burst_id pkg =
     (let start = vdo_start (data pkg); size = vdo_size (data pkg);
          start_addr = start AND 0xfffffff0;
          end' = start + size
      in cmd_decomposition pkg end' (round_end end') start_addr dynamic_burst_id)"

section \<open>The engines\<close>

text \<open>A memory word read for a command, with the entries masked (\<open>addr\<close> is the command's).\<close>

definition masked_out :: "burst_cmd \<Rightarrow> weight_item \<Rightarrow> weight_item" where
  "masked_out cmd burstbuffer =
     pack_lanes (map (\<lambda>k. if of_nat k + bc_addr cmd < bc_start cmd \<or> of_nat k + bc_addr cmd \<ge> bc_end cmd
                          then 0 else lanes burstbuffer ! k) [0..<NUM_OF_WEIGHTS])"

definition dynamic_burst_1 ::
    "(u32 \<Rightarrow> weight_item) \<Rightarrow> burst_cmd pkg \<Rightarrow> (burst_sync pkg \<times> weight_item) list" where
  "dynamic_burst_1 mem pkg =
     (let d = data pkg
      in map (\<lambda>j. (\<lparr>data = \<lparr>bs_addr = bc_addr d + push_bit 4 (of_nat j), bs_id = bc_id d,
                            bs_burst_id = bc_burst_id d, bs_dynamic_id = bc_dynamic_id d OR 0x8000,
                            bs_state = bc_state d\<rparr>, last = last pkg\<rparr>,
                   masked_out d (mem (drop_bit 4 (bc_addr d) + of_nat j)))) [0..<1])"

definition dynamic_burst_32 ::
    "(u32 \<Rightarrow> weight_item) \<Rightarrow> burst_cmd pkg \<Rightarrow> (burst_sync pkg \<times> weight_item) list" where
  "dynamic_burst_32 mem pkg =
     (let d = data pkg; n = unat DYNAMIC_BURST_MAX_LENGTH
      in map (\<lambda>j. (\<lparr>data = \<lparr>bs_addr = bc_addr d + push_bit 4 (of_nat j), bs_id = bc_id d,
                            bs_burst_id = (if j = n - 1 then bc_burst_id d else bc_burst_id d AND 0x7fff),
                            bs_dynamic_id = (if j = n - 1 then bc_dynamic_id d OR 0x8000 else bc_dynamic_id d),
                            bs_state = bc_state d\<rparr>, last = last pkg\<rparr>,
                   masked_out d (mem (drop_bit 4 (bc_addr d) + of_nat j)))) [0..<n])"

definition single_burst ::
    "(u32 \<Rightarrow> weight_item) \<Rightarrow> burst_cmd pkg \<Rightarrow> (burst_sync pkg \<times> weight_item) list" where
  "single_burst mem pkg =
     (let d = data pkg
      in map (\<lambda>j. (\<lparr>data = \<lparr>bs_addr = bc_addr d + push_bit 4 (of_nat j), bs_id = bc_id d,
                            bs_burst_id = bc_burst_id d OR 0x8000, bs_dynamic_id = 0x8000,
                            bs_state = bc_state d\<rparr>, last = last pkg\<rparr>,
                   masked_out d (mem (drop_bit 4 (bc_addr d) + of_nat j)))) [0..<1])"

text \<open>
  The loop of an engine over its polls: it returns at a command whose \<open>id\<close> has the top bit set
  (\<open>BURST_INIT\<close>); what it has written then, and whether it has returned.
\<close>

fun burst_loop ::
    "(burst_cmd pkg \<Rightarrow> 'a list) \<Rightarrow> u8 \<times> bool \<Rightarrow> burst_cmd pkg option list \<Rightarrow> 'a list \<times> bool" where
  "burst_loop engine s [] = ([], False)"
| "burst_loop engine s (None # ps) = burst_loop engine (flush_idle 16 s) ps"
| "burst_loop engine s (Some pkg # ps) =
     (if bc_id (data pkg) AND 0x8000 \<noteq> 0 then ([], True)
      else let (out, returned) = burst_loop engine (0, True) ps in (engine pkg @ out, returned))"

section \<open>label\_filter\<close>

definition label_filter_step :: "burst_sync pkg \<times> weight_item \<Rightarrow> burst_sync pkg \<times> weight_item" where
  "label_filter_step inp =
     (case inp of (sync, weight) \<Rightarrow>
        (sync, pack_lanes (map (\<lambda>i. if lanes weight ! i = ucast (bs_state (data sync)) then 1 else 0)
                             [0..<NUM_OF_WEIGHTS])))"

section \<open>mask\_generator\<close>

definition mask_lut :: "u16 list" where
  "mask_lut = [0x0000, 0x0001, 0x0003, 0x0007, 0x000f, 0x001f, 0x003f, 0x007f,
     0x00ff, 0x01ff, 0x03ff, 0x07ff, 0x0fff, 0x1fff, 0x3fff, 0x7fff]"

definition inv_mask_lut :: "u16 list" where
  "inv_mask_lut = [0x0001, 0x0003, 0x0007, 0x000f, 0x001f, 0x003f, 0x007f, 0x00ff,
     0x01ff, 0x03ff, 0x07ff, 0x0fff, 0x1fff, 0x3fff, 0x7fff, 0xffff]"

definition gen_mask_in_16 :: "u32 \<Rightarrow> u32 \<Rightarrow> u16" where
  "gen_mask_in_16 start end' =
     (let s = ucast (start AND 0xf) :: u8; e = ucast (end' AND 0xf) :: u8;
          s_mask = NOT (mask_lut ! unat s); e_mask = inv_mask_lut ! unat e
      in s_mask AND e_mask)"

text \<open>The loop \<open>mask_gen\<close> from its variables on.\<close>

partial_function (option) mask_gen :: "u32 \<Rightarrow> u32 \<Rightarrow> u32 \<Rightarrow> u32 \<Rightarrow> u32 \<Rightarrow> u16 list option" where
  "mask_gen inclusive_end end_addr curr_e_addr temp curr_e_in =
     (let curr_e_addr = curr_e_addr + 16;
          s = temp;
          curr_e_in = (if curr_e_in > inclusive_end then inclusive_end else curr_e_in);
          wm = gen_mask_in_16 s curr_e_in;
          temp = temp + (curr_e_addr - s);
          curr_e_in = curr_e_in + 16
      in if curr_e_addr = end_addr then Some [wm]
         else Option.bind (mask_gen inclusive_end end_addr curr_e_addr temp curr_e_in) (\<lambda>wms. Some (wm # wms)))"

definition mask_generator :: "u32 \<Rightarrow> u32 \<Rightarrow> u16 list option" where
  "mask_generator start end' =
     (let start_addr = start AND 0xfffffff0
      in mask_gen (end' - 1) (round_end end') start_addr start (start_addr - 1 + 16))"

end
