(* ===== verification/Burst_Tiling.thy ===== *)
theory Burst_Tiling
  imports Burst
begin

text \<open>
  The commands of \<open>cmd_generator\<close>: when its loop ends, and that the commands then cover the list
  exactly.  Addresses are compared as numbers, so the theorems say where the 32-bit arithmetic of the
  code wraps around.
\<close>

section \<open>The commands as numbers\<close>

text \<open>The commands from address \<open>c\<close> to \<open>e\<close>: long ones while 512 entries are left.\<close>

function (sequential) plan :: "nat \<Rightarrow> nat \<Rightarrow> (bool \<times> nat) list" where
  "plan c e = (if e \<le> c then [] else if c + 512 \<le> e then (True, c) # plan (c + 512) e else (False, c) # plan (c + 16) e)"
  by pat_completeness auto
termination by (relation "measure (\<lambda>(c, e). e - c)") auto

declare plan.simps [simp del]

definition width :: "bool \<Rightarrow> nat" where
  "width long = (if long then 512 else 16)"

definition next_dynamic_id :: "vertex_descriptor_ordered pkg \<Rightarrow> u16 \<Rightarrow> u16" where
  "next_dynamic_id pkg d = (if vdo_id (data pkg) AND 0x8000 \<noteq> 0 then d else d + 1)"

fun commands :: "vertex_descriptor_ordered pkg \<Rightarrow> u32 \<Rightarrow> u32 \<Rightarrow> u16 \<Rightarrow> (bool \<times> nat) list \<Rightarrow> (bool \<times> burst_cmd pkg) list" where
  "commands pkg end' e d [] = []"
| "commands pkg end' e d ((long, c) # p) =
     (long, fst (send_dynamic_cmd (if long then 32 else 1) pkg end' e d (of_nat c))) #
     commands pkg end' e (next_dynamic_id pkg d) p"

lemma length_commands [simp]: "length (commands pkg end' e d p) = length p"
  by (induction pkg end' e d p rule: commands.induct) simp_all

lemma snd_send_dynamic_cmd [simp]: "snd (send_dynamic_cmd n pkg end' e d c) = c + n * 16"
  by (simp add: send_dynamic_cmd_def Let_def)

text \<open>One round of the loop.\<close>

lemma cmd_decomposition_end: "cmd_decomposition pkg end' e e d = Some ([], d)"
  by (simp add: cmd_decomposition.simps)

lemma cmd_decomposition_step:
  "c \<noteq> e \<Longrightarrow> long = (e \<ge> c + 512) \<Longrightarrow>
   cmd_decomposition pkg end' e c d =
     map_option (\<lambda>(cmds, d). ((long, fst (send_dynamic_cmd (if long then 32 else 1) pkg end' e d' c)) # cmds, d))
       (cmd_decomposition pkg end' e (c + (if long then 512 else 16)) (next_dynamic_id pkg d))"
  if "d' = d" for d'
  using that
  by (subst cmd_decomposition.simps)
    (auto simp: DYNAMIC_BURST_MAX_LENGTH_def next_dynamic_id_def Let_def split_beta map_option_case split: option.splits)

lemma word_le_of_nat: "a < 2 ^ 32 \<Longrightarrow> b < 2 ^ 32 \<Longrightarrow> (of_nat a :: u32) \<le> of_nat b \<longleftrightarrow> a \<le> b"
  by (simp add: word_le_nat_alt unat_of_nat)

lemma word_eq_of_nat: "a < 2 ^ 32 \<Longrightarrow> b < 2 ^ 32 \<Longrightarrow> (of_nat a :: u32) = of_nat b \<longleftrightarrow> a = b"
  by (simp add: word_unat_eq_iff unat_of_nat)

lemma cmd_decomposition_plan:
  "c \<le> e \<Longrightarrow> e + 512 \<le> 2 ^ 32 \<Longrightarrow> 16 dvd c \<Longrightarrow> 16 dvd e \<Longrightarrow>
   cmd_decomposition pkg end' (of_nat e) (of_nat c) d =
     Some (commands pkg end' (of_nat e) d (plan c e), (next_dynamic_id pkg ^^ length (plan c e)) d)"
proof (induction c e arbitrary: d rule: plan.induct)
  case (1 c e)
  show ?case
  proof (cases "c = e")
    case True
    then show ?thesis by (simp add: plan.simps cmd_decomposition_end)
  next
    case False
    with 1(3) have less: "c < e" by simp
    from less 1(5,6) have step: "c + 16 \<le> e" by presburger
    define long where "long = (c + 512 \<le> e)"
    have ne: "(of_nat c :: u32) \<noteq> of_nat e"
      using less 1(4) by (simp add: word_eq_of_nat)
    have "(of_nat c + 512 :: u32) = of_nat (c + 512)" by simp
    then have long': "long = ((of_nat e :: u32) \<ge> of_nat c + 512)"
      using less 1(4) step by (simp only: long_def word_le_of_nat)
    show ?thesis
    proof (cases long)
      case True
      then have "c + 512 \<le> e" by (simp add: long_def)
      with less 1(1)[of "next_dynamic_id pkg d"] 1(4-) have
        IH: "cmd_decomposition pkg end' (of_nat e) (of_nat (c + 512)) (next_dynamic_id pkg d) =
          Some (commands pkg end' (of_nat e) (next_dynamic_id pkg d) (plan (c + 512) e),
            (next_dynamic_id pkg ^^ length (plan (c + 512) e)) (next_dynamic_id pkg d))"
        by auto
      have "plan c e = (True, c) # plan (c + 512) e"
        using less \<open>c + 512 \<le> e\<close> by (subst plan.simps) simp
      with IH True show ?thesis
        by (subst cmd_decomposition_step [OF refl ne long']) (simp add: funpow_swap1)
    next
      case False
      then have "\<not> c + 512 \<le> e" by (simp add: long_def)
      with less step 1(2)[of "next_dynamic_id pkg d"] 1(4-) have
        IH: "cmd_decomposition pkg end' (of_nat e) (of_nat (c + 16)) (next_dynamic_id pkg d) =
          Some (commands pkg end' (of_nat e) (next_dynamic_id pkg d) (plan (c + 16) e),
            (next_dynamic_id pkg ^^ length (plan (c + 16) e)) (next_dynamic_id pkg d))"
        by auto
      have "plan c e = (False, c) # plan (c + 16) e"
        using less \<open>\<not> c + 512 \<le> e\<close> by (subst plan.simps) simp
      with IH False show ?thesis
        by (subst cmd_decomposition_step [OF refl ne long']) (simp add: funpow_swap1)
    qed
  qed
qed

section \<open>Alignment\<close>

lemma unat_align: "unat ((w :: u32) AND 0xfffffff0) = 16 * (unat w div 16)"
proof -
  have "(0xfffffff0 :: u32) = NOT (mask 4)"
    by (simp add: word_uint_eq_iff mask_eq_exp_minus_1)
  then have "w AND 0xfffffff0 = w AND NOT (mask 4)"
    by (simp only:)
  also have "\<dots> = push_bit 4 (drop_bit 4 w)"
    by (rule bit_word_eqI) (auto simp: bit_simps)
  finally have "unat (w AND 0xfffffff0) = unat (push_bit 4 (drop_bit 4 w))"
    by (simp only:)
  also have "\<dots> = take_bit 32 (unat (drop_bit 4 w) * 16)"
    by (subst unsigned_push_bit_eq) (simp only: push_bit_eq_mult, simp)
  also have "unat (drop_bit 4 w) = unat w div 16"
    by (subst unat_drop_bit_eq) (simp only: drop_bit_eq_div, simp)
  also have "take_bit 32 (unat w div 16 * 16) = unat w div 16 * 16"
    using unat_less_32 [of w] by (intro take_bit_nat_eq_self) simp
  finally show ?thesis by (simp only: mult.commute)
qed

definition round_up :: "nat \<Rightarrow> nat" where
  "round_up n = 16 * ((n + 15) div 16)"

lemma round_up: "n \<le> round_up n" "round_up n < n + 16" "16 dvd round_up n" "16 * (n div 16) \<le> n"
  "n < 16 * (n div 16) + 16"
  unfolding round_up_def by simp_all

lemma round_up_le: "n \<le> m \<Longrightarrow> 16 dvd m \<Longrightarrow> round_up n \<le> m"
  unfolding round_up_def by auto

lemma round_up_cases: "round_up n = (if n mod 16 = 0 then n else 16 * (n div 16) + 16)"
proof -
  have "n = 16 * (n div 16) + n mod 16" and "n mod 16 < 16" by simp_all
  moreover have "round_up (16 * q + r) = (if r = 0 then 16 * q else 16 * q + 16)" if "r < 16" for q r
  proof (cases "r = 0")
    case False
    with that have "16 * q + r + 15 = (r - 1) + 16 * (q + 1)" and "r - 1 < 16" by simp_all
    then show ?thesis using False by (simp only: round_up_def div_mult_self2 [of 16]) simp
  qed (simp add: round_up_def)
  ultimately show ?thesis by (metis add.right_neutral)
qed

lemma unat_round_end:
  assumes "round_up (unat w) < 2 ^ 32"
  shows "unat (round_end w) = round_up (unat w)"
proof (cases "w AND 0xfffffff0 = w")
  case True
  then have "unat w mod 16 = 0"
    using unat_align [of w] by (metis mod_mult_self1_is_0)
  with True show ?thesis by (simp add: round_end_def round_up_cases)
next
  case False
  have "unat w mod 16 \<noteq> 0"
  proof
    assume "unat w mod 16 = 0"
    then have "unat (w AND 0xfffffff0) = unat w"
      using unat_align [of w] by (metis add.right_neutral mult_div_mod_eq)
    with False show False by (simp only: word_unat_eq_iff)
  qed
  then have up: "round_up (unat w) = 16 * (unat w div 16) + 16"
    by (simp add: round_up_cases)
  then have "unat ((w AND 0xfffffff0) + 16) = 16 * (unat w div 16) + 16"
    using assms unfolding up by (simp add: unat_word_ariths unat_align)
  with False up show ?thesis by (simp add: round_end_def)
qed

section \<open>The fields of a command\<close>

definition end_flag :: "burst_cmd pkg \<Rightarrow> bool" where
  "end_flag c \<longleftrightarrow> bc_burst_id (data c) AND 0x8000 \<noteq> 0"

definition entry_range :: "burst_cmd pkg \<Rightarrow> nat list" where
  "entry_range c = [unat (bc_start (data c))..<unat (bc_end (data c))]"

lemma bit_15: "(x :: u16) AND 0x8000 \<noteq> 0 \<longleftrightarrow> bit x 15"
proof -
  have "(0x8000 :: u16) = 2 ^ 15" by simp
  then show ?thesis by (simp only: and_exp_eq_0_iff_not_bit not_not)
qed

lemma bit_0x7fff: "bit (0x7fff :: u16) n \<longleftrightarrow> n < 15"
proof -
  have "(0x7fff :: u16) = mask 15" by (simp add: mask_eq_exp_minus_1)
  then show ?thesis by (simp only: bit_mask_iff) (auto simp: possible_bit_def)
qed

lemma command_fields:
  assumes "c + width long \<le> e" and "e + 512 \<le> 2 ^ 32"
    and "cmd = fst (send_dynamic_cmd (if long then 32 else 1) pkg end' (of_nat e) d (of_nat c))"
  shows "unat (bc_addr (data cmd)) = c"
    and "bc_size (data cmd) = (if long then 32 else 1)"
    and "unat (bc_start (data cmd)) = max c (unat (vdo_start (data pkg)))"
    and "unat (bc_end (data cmd)) = min (c + width long) (unat end')"
    and "end_flag cmd \<longleftrightarrow> c + width long = e"
    and "last cmd \<longleftrightarrow> c + width long = e \<and> last pkg"
    and "bc_dynamic_id (data cmd) = d AND 0x7fff"
    and "bc_burst_id (data cmd) AND 0x7fff = vdo_burst_id (data pkg) AND 0x7fff"
    and "bc_id (data cmd) = vdo_id (data pkg)"
    and "bc_state (data cmd) = vdo_state (data pkg)"
proof -
  have next_addr: "of_nat c + (if long then 32 else 1) * 16 = (of_nat (c + width long) :: u32)"
    by (simp add: width_def)
  have c: "c < 2 ^ 32" "c + width long < 2 ^ 32" "e < 2 ^ 32"
    using assms(1,2) by auto
  have eq: "(of_nat (c + width long) :: u32) = of_nat e \<longleftrightarrow> c + width long = e"
    using c by (simp only: word_eq_of_nat)
  have uc: "unat (of_nat c :: u32) = c" "unat (of_nat (c + width long) :: u32) = c + width long"
    using c by (simp_all only: unat_of_nat) simp_all
  note defs = assms(3) send_dynamic_cmd_def burst_cmd_gen_def Let_def next_addr eq
  show "unat (bc_addr (data cmd)) = c" "bc_size (data cmd) = (if long then 32 else 1)"
    "bc_dynamic_id (data cmd) = d AND 0x7fff" "bc_id (data cmd) = vdo_id (data pkg)"
    "bc_state (data cmd) = vdo_state (data pkg)" "last cmd \<longleftrightarrow> c + width long = e \<and> last pkg"
    unfolding defs by (simp_all add: uc)
  show "unat (bc_start (data cmd)) = max c (unat (vdo_start (data pkg)))"
    unfolding defs by (auto simp: word_less_nat_alt uc(1))
  show "unat (bc_end (data cmd)) = min (c + width long) (unat end')"
    unfolding defs by (auto simp: word_less_nat_alt uc(2) simp del: of_nat_add)
  show "end_flag cmd \<longleftrightarrow> c + width long = e"
    unfolding end_flag_def bit_15 defs by (simp add: range_bits bit_of_bool_iff)
  show "bc_burst_id (data cmd) AND 0x7fff = vdo_burst_id (data pkg) AND 0x7fff"
    unfolding defs by (intro bit_word_eqI) (auto simp: range_bits bit_and_iff bit_0x7fff simp del: bit_numeral_word_iff)
qed

section \<open>The plan covers the list\<close>

lemma upt_clip:
  assumes "c \<le> m" and "m \<le> e"
  shows "[max c s..<min m t] @ [max m s..<min e t] = [max c s..<min e t]"
proof (cases "m \<le> s")
  case True
  with assms have "[max c s..<min m t] = []" "max m s = max c s" by auto
  then show ?thesis by (simp only: append_Nil)
next
  case m: False
  show ?thesis
  proof (cases "t \<le> m")
    case True
    with assms have "[max m s..<min e t] = []" "min m t = min e t" by auto
    then show ?thesis by (simp only: append_Nil2)
  next
    case False
    with m assms have "max m s = m" "min m t = m" "max c s \<le> m" "m \<le> min e t" by auto
    then show ?thesis by (metis le_Suc_ex upt_add_eq_append)
  qed
qed

lemma plan_step:
  assumes "c < e" and "16 dvd c" and "16 dvd e"
  obtains long where "plan c e = (long, c) # plan (c + width long) e" and "c + width long \<le> e"
    and "16 dvd c + width long" and "long = (c + 512 \<le> e)"
proof (cases "c + 512 \<le> e")
  case True
  then have "plan c e = (True, c) # plan (c + width True) e"
    using assms(1) by (subst plan.simps) (simp add: width_def)
  moreover have "16 dvd c + width True"
    using assms(2) by (intro dvd_add) (simp_all add: width_def)
  ultimately show ?thesis using True by (intro that [of True]) (simp_all add: width_def)
next
  case False
  then have "plan c e = (False, c) # plan (c + width False) e"
    using assms(1) by (subst plan.simps) (simp add: width_def)
  moreover have "16 dvd c + width False"
    using assms(2) by (intro dvd_add) (simp_all add: width_def)
  moreover have "c + 16 \<le> e"
    using assms by presburger
  ultimately show ?thesis using False by (intro that [of False]) (simp_all add: width_def)
qed

lemma plan_end [simp]: "plan e e = []"
  by (subst plan.simps) simp

lemma plan_empty_iff: "plan c e = [] \<longleftrightarrow> e \<le> c"
  by (subst plan.simps) simp

text \<open>An induction rule for statements about the commands from \<open>c\<close> to \<open>e\<close>.\<close>

lemma plan_induct [consumes 3, case_names finish more]:
  assumes "c \<le> e" and "16 dvd c" and "16 dvd e" and "P e"
    and "\<And>c long. c < e \<Longrightarrow> 16 dvd c \<Longrightarrow> plan c e = (long, c) # plan (c + width long) e \<Longrightarrow>
      c + width long \<le> e \<Longrightarrow> long = (c + 512 \<le> e) \<Longrightarrow> P (c + width long) \<Longrightarrow> P c"
  shows "P c"
  using assms(1,2)
proof (induction "e - c" arbitrary: c rule: less_induct)
  case less
  show ?case
  proof (cases "c = e")
    case False
    with less.prems have "c < e" by simp
    then obtain long where long: "plan c e = (long, c) # plan (c + width long) e" "c + width long \<le> e" "16 dvd c + width long"
      "long = (c + 512 \<le> e)"
      using less.prems(2) assms(3) by (rule plan_step)
    moreover have "e - (c + width long) < e - c"
      using \<open>c < e\<close> by (auto simp: width_def)
    ultimately show ?thesis
      using \<open>c < e\<close> less by (intro assms(5) [of c long]) auto
  qed (simp add: assms(4))
qed

lemma plan_bounds:
  assumes "c \<le> e" and "16 dvd c" and "16 dvd e" and "(long, a) \<in> set (plan c e)"
  shows "c \<le> a \<and> 16 dvd a \<and> a + width long \<le> e \<and> (long \<longrightarrow> 512 dvd a - c)"
  using assms(1-3,4)
proof (induction rule: plan_induct)
  case (more c l)
  show ?case
  proof (cases "(long, a) = (l, c)")
    case False
    with more have a: "c + width l \<le> a" "16 dvd a" "a + width long \<le> e" "long \<longrightarrow> 512 dvd a - (c + width l)"
      by auto
    show ?thesis
    proof (cases l)
      case True
      have "a - c = a - (c + width l) + 512" using a(1) True by (simp add: width_def)
      with a(4) have "long \<longrightarrow> 512 dvd a - c" by (simp only: dvd_add_triv_right_iff)
      with a(1-3) show ?thesis by simp
    next
      case False
      with more(5) a have "\<not> long" by (auto simp: width_def)
      with a show ?thesis by simp
    qed
  qed (use more in auto)
qed simp

lemma commands_ranges:
  assumes "c \<le> e" and "16 dvd c" and "16 dvd e" and "e + 512 \<le> 2 ^ 32"
  shows "concat (map (entry_range \<circ> snd) (commands pkg end' (of_nat e) d (plan c e))) =
    [max c (unat (vdo_start (data pkg)))..<min e (unat end')]"
  using assms(1-3)
proof (induction arbitrary: d rule: plan_induct)
  case (more c long)
  then show ?case
    using upt_clip [of c "c + width long" e] assms(4)
    by (simp add: entry_range_def command_fields [OF _ assms(4) refl])
qed (simp add: plan.simps [of e e])

lemma commands_flags:
  assumes "c \<le> e" and "16 dvd c" and "16 dvd e" and "e + 512 \<le> 2 ^ 32" and "c < e"
  shows "map (end_flag \<circ> snd) (commands pkg end' (of_nat e) d (plan c e)) =
      replicate (length (plan c e) - 1) False @ [True]"
    and "map (\<lambda>c. last (snd c)) (commands pkg end' (of_nat e) d (plan c e)) =
      replicate (length (plan c e) - 1) False @ [last pkg]"
proof -
  have *: "c < e \<longrightarrow> map (\<lambda>c. (end_flag (snd c), last (snd c))) (commands pkg end' (of_nat e) d (plan c e)) =
      replicate (length (plan c e) - 1) (False, False) @ [(True, last pkg)]"
    using assms(1-3)
  proof (induction arbitrary: d rule: plan_induct)
    case (more c long)
    show ?case
    proof (cases "c + width long = e")
      case True
      with more show ?thesis
        by (simp add: command_fields [OF _ assms(4) refl])
    next
      case False
      with more have less: "c + width long < e" by simp
      then have "length (plan (c + width long) e) > 0"
        by (simp add: plan_empty_iff)
      then obtain n where n: "length (plan (c + width long) e) = Suc n"
        by (cases "length (plan (c + width long) e)") auto
      from less more n False show ?thesis
        by (simp add: command_fields [OF _ assms(4) refl])
    qed
  qed simp
  then show "map (end_flag \<circ> snd) (commands pkg end' (of_nat e) d (plan c e)) =
      replicate (length (plan c e) - 1) False @ [True]"
    and "map (\<lambda>c. last (snd c)) (commands pkg end' (of_nat e) d (plan c e)) =
      replicate (length (plan c e) - 1) False @ [last pkg]"
    using assms(5) by (auto dest: arg_cong [where f = "map fst"] arg_cong [where f = "map snd"] simp: comp_def)
qed

lemma commands_dynamic_ids:
  assumes "c \<le> e" and "16 dvd c" and "16 dvd e" and "e + 512 \<le> 2 ^ 32"
    and "vdo_id (data pkg) AND 0x8000 = 0"
  shows "map (\<lambda>c. bc_dynamic_id (data (snd c))) (commands pkg end' (of_nat e) d (plan c e)) =
    map (\<lambda>j. (d + of_nat j) AND 0x7fff) [0..<length (plan c e)]"
  using assms(1-3)
proof (induction arbitrary: d rule: plan_induct)
  case (more c long)
  have "map (\<lambda>j. (d + of_nat j) AND 0x7fff) [0..<Suc n] =
      (d AND 0x7fff) # map (\<lambda>j. (d + 1 + of_nat j) AND 0x7fff) [0..<n]" for n
    by (subst map_upt_Suc) (simp add: add.assoc)
  with more show ?case
    by (simp add: command_fields [OF _ assms(4) refl] next_dynamic_id_def assms(5))
qed simp

lemma next_dynamic_id_funpow:
  "vdo_id (data pkg) AND 0x8000 = 0 \<Longrightarrow> (next_dynamic_id pkg ^^ n) d = d + of_nat n"
  by (induction n) (simp_all add: next_dynamic_id_def)

section \<open>The list of a descriptor\<close>

definition list_start :: "vertex_descriptor_ordered \<Rightarrow> nat" where
  "list_start vd = unat (vdo_start vd)"

definition list_end :: "vertex_descriptor_ordered \<Rightarrow> nat" where
  "list_end vd = unat (vdo_start vd) + unat (vdo_size vd)"

definition word_start :: "vertex_descriptor_ordered \<Rightarrow> nat" where
  "word_start vd = 16 * (list_start vd div 16)"

definition word_end :: "vertex_descriptor_ordered \<Rightarrow> nat" where
  "word_end vd = round_up (list_end vd)"

lemma list_words:
  "word_start vd \<le> list_start vd" "list_start vd < word_start vd + 16" "list_start vd \<le> list_end vd"
  "list_end vd \<le> word_end vd" "word_end vd < list_end vd + 16" "16 dvd word_start vd" "16 dvd word_end vd"
  "word_start vd \<le> word_end vd"
  using round_up [of "list_start vd"] round_up [of "list_end vd"]
  by (simp_all add: word_start_def word_end_def list_end_def list_start_def)

lemma word_eq_of_unat: "unat (w :: u32) = n \<Longrightarrow> w = of_nat n"
  by auto

lemma cmd_generator_words:
  assumes "word_end (data pkg) < 2 ^ 32"
  shows "cmd_generator d pkg = cmd_decomposition pkg (vdo_start (data pkg) + vdo_size (data pkg))
      (of_nat (word_end (data pkg))) (of_nat (word_start (data pkg))) d"
    and "unat (vdo_start (data pkg) + vdo_size (data pkg)) = list_end (data pkg)"
proof -
  let ?vd = "data pkg"
  show ue: "unat (vdo_start ?vd + vdo_size ?vd) = list_end ?vd"
    using assms list_words(4) [of ?vd] by (simp add: list_end_def unat_word_ariths mod_less)
  have "unat (round_end (vdo_start ?vd + vdo_size ?vd)) = word_end ?vd"
    using assms unat_round_end [of "vdo_start ?vd + vdo_size ?vd"] by (simp add: ue word_end_def)
  then have e: "round_end (vdo_start ?vd + vdo_size ?vd) = of_nat (word_end ?vd)"
    by (rule word_eq_of_unat)
  have s: "vdo_start ?vd AND 0xfffffff0 = of_nat (word_start ?vd)"
    using unat_align [of "vdo_start ?vd"] by (intro word_eq_of_unat) (simp add: list_start_def word_start_def)
  show "cmd_generator d pkg = cmd_decomposition pkg (vdo_start ?vd + vdo_size ?vd)
      (of_nat (word_end ?vd)) (of_nat (word_start ?vd)) d"
    unfolding cmd_generator_def Let_def e s ..
qed

lemma cmd_generator_plan:
  assumes "list_end (data pkg) + 512 \<le> 2 ^ 32"
  shows "cmd_generator d pkg =
    (let vd = data pkg; p = plan (word_start vd) (word_end vd)
     in Some (commands pkg (vdo_start vd + vdo_size vd) (of_nat (word_end vd)) d p, (next_dynamic_id pkg ^^ length p) d))"
    and "word_end (data pkg) + 512 \<le> 2 ^ 32"
    and "unat (vdo_start (data pkg) + vdo_size (data pkg)) = list_end (data pkg)"
proof -
  let ?vd = "data pkg"
  have "list_end ?vd \<le> 4294966784" using assms by simp
  then have "word_end ?vd \<le> 4294966784"
    unfolding word_end_def by (rule round_up_le) simp
  then show le: "word_end ?vd + 512 \<le> 2 ^ 32" by simp
  then have less: "word_end ?vd < 2 ^ 32" by simp
  then show "unat (vdo_start (data pkg) + vdo_size (data pkg)) = list_end (data pkg)"
    by (rule cmd_generator_words(2))
  show "cmd_generator d pkg =
    (let vd = data pkg; p = plan (word_start vd) (word_end vd)
     in Some (commands pkg (vdo_start vd + vdo_size vd) (of_nat (word_end vd)) d p, (next_dynamic_id pkg ^^ length p) d))"
    unfolding cmd_generator_words(1) [OF less] Let_def
    by (rule cmd_decomposition_plan) (use le list_words [of ?vd] in auto)
qed

text \<open>
  C16: For a non-empty list that ends at least 512 entries below the top of the 32-bit address space
  \<open>cmd_generator\<close> returns, and its commands read every entry of the list exactly once and in order:
  the ranges between \<open>start\<close> and \<open>end\<close> of the commands, one after the other, are the list.  Only the
  last command carries the end-of-burst bit and can carry the stream's last flag, and the commands
  have consecutive dynamic identifiers modulo 2 ^ 15.
\<close>

theorem cmd_generator_tiles:
  assumes "list_end (data pkg) + 512 \<le> 2 ^ 32" and "0 < unat (vdo_size (data pkg))"
    and "vdo_id (data pkg) AND 0x8000 = 0"
  shows "\<exists>cmds. cmd_generator d pkg = Some (cmds, d + of_nat (length cmds)) \<and>
    concat (map (entry_range \<circ> snd) cmds) = [list_start (data pkg)..<list_end (data pkg)] \<and>
    map (end_flag \<circ> snd) cmds = replicate (length cmds - 1) False @ [True] \<and>
    map (last \<circ> snd) cmds = replicate (length cmds - 1) False @ [last pkg] \<and>
    map (\<lambda>c. bc_dynamic_id (data (snd c))) cmds = map (\<lambda>j. (d + of_nat j) AND 0x7fff) [0..<length cmds]"
proof -
  let ?vd = "data pkg"
  note gen = cmd_generator_plan [OF assms(1)]
  note words = list_words [of ?vd]
  have "word_start ?vd < word_end ?vd"
    using words(1,4) assms(2) by (simp add: list_end_def list_start_def)
  note facts = words(8,6,7) gen(2) and flags = commands_flags [OF words(8,6,7) gen(2) this]
  let ?cmds = "commands pkg (vdo_start ?vd + vdo_size ?vd) (of_nat (word_end ?vd)) d (plan (word_start ?vd) (word_end ?vd))"
  show ?thesis
    using commands_ranges [OF facts, of pkg "vdo_start ?vd + vdo_size ?vd" d]
      flags [of pkg "vdo_start ?vd + vdo_size ?vd" d] words(1,4)
      commands_dynamic_ids [OF facts assms(3), of "vdo_start ?vd + vdo_size ?vd" d]
    by (intro exI [of _ ?cmds])
      (simp add: gen(1,3) Let_def next_dynamic_id_funpow assms(3) comp_def flip: list_start_def)
qed

theorem cmd_generator_tiles_witness:
  "map (\<lambda>(long, c). (long, bc_addr (data c), bc_start (data c), bc_end (data c), end_flag c))
     (commands \<lparr>data = \<lparr>vdo_start = 1020, vdo_size = 530, vdo_id = 5, vdo_burst_id = 6, vdo_state = 2\<rparr>, last = True\<rparr>
       1550 1552 0 (plan 1008 1552)) =
     [(True, 1008, 1020, 1520, False), (False, 1520, 1520, 1536, False), (False, 1536, 1536, 1550, True)] \<and>
   (\<exists>cmds. cmd_generator 0
     \<lparr>data = \<lparr>vdo_start = 1020, vdo_size = 530, vdo_id = 5, vdo_burst_id = 6, vdo_state = 2\<rparr>, last = True\<rparr> =
       Some (cmds, of_nat (length cmds)) \<and>
     concat (map (entry_range \<circ> snd) cmds) = [1020..<1550])"
proof
  show "map (\<lambda>(long, c). (long, bc_addr (data c), bc_start (data c), bc_end (data c), end_flag c))
     (commands \<lparr>data = \<lparr>vdo_start = 1020, vdo_size = 530, vdo_id = 5, vdo_burst_id = 6, vdo_state = 2\<rparr>, last = True\<rparr>
       1550 1552 0 (plan 1008 1552)) =
     [(True, 1008, 1020, 1520, False), (False, 1520, 1520, 1536, False), (False, 1536, 1536, 1550, True)]"
    by code_simp
  show "\<exists>cmds. cmd_generator 0
     \<lparr>data = \<lparr>vdo_start = 1020, vdo_size = 530, vdo_id = 5, vdo_burst_id = 6, vdo_state = 2\<rparr>, last = True\<rparr> =
       Some (cmds, of_nat (length cmds)) \<and>
     concat (map (entry_range \<circ> snd) cmds) = [1020..<1550]"
    using cmd_generator_tiles [of "\<lparr>data = \<lparr>vdo_start = 1020, vdo_size = 530, vdo_id = 5, vdo_burst_id = 6,
        vdo_state = 2\<rparr>, last = True\<rparr>" 0]
    by (auto simp: list_start_def list_end_def simp del: upt_rec_numeral)
qed

section \<open>When the loop ends\<close>

text \<open>A list whose last word is among the top 31 of the address space and not a multiple of 512 from its start.\<close>

lemma diverging_address:
  fixes a e :: nat
  assumes "e < 2 ^ 32" and "2 ^ 32 < e + 512" and "a < e" and "16 dvd a" and "a mod 512 \<noteq> e mod 512"
    and "b = (a + (if (a + 512) mod 2 ^ 32 \<le> e then 512 else 16)) mod 2 ^ 32"
  shows "b < e \<and> 16 dvd b \<and> b mod 512 \<noteq> e mod 512"
proof -
  from assms(4) obtain k where k: "a = 16 * k" ..
  consider "a + 512 \<ge> 2 ^ 32" | "a + 512 < 2 ^ 32" "a + 512 \<le> e" | "a + 512 < 2 ^ 32" "e < a + 512"
    by linarith
  then show ?thesis
  proof cases
    case 1
    then obtain r where r: "a + 512 = r + 4294967296" by (auto simp: le_iff_add add.commute)
    with assms(1,3) have "r < 512" by simp
    then have b: "b = r" using assms(1,2,6) r by simp
    have "(r + 4294967296) mod 512 = (r + 512 * 8388608) mod 512" by simp
    then have "r mod 512 = (r + 4294967296) mod 512" by (simp only: mod_mult_self2)
    also have "\<dots> = a mod 512" using r by (metis mod_add_self2)
    finally show ?thesis
      using b \<open>r < 512\<close> assms(1,2,5) r k by (auto simp: dvd_def intro!: exI [of _ "k + 32 - 268435456"])
  next
    case 2
    with assms(6) have b: "b = a + 512" by simp
    with 2 assms(5) have "b \<noteq> e" by auto
    moreover have "b = 16 * (k + 32)" using b k by simp
    ultimately show ?thesis using 2 b assms(5) by (metis dvd_triv_left le_neq_implies_less mod_add_self2)
  next
    case 3
    with assms(6) have b: "b = a + 16" by simp
    with 3 k assms(2) have less: "b < e" by simp
    have "b mod 512 \<noteq> e mod 512"
    proof
      assume "b mod 512 = e mod 512"
      with less have "512 dvd e - b" by (metis less_imp_le mod_eq_dvd_iff_nat)
      moreover have "0 < e - b" "e - b < 512" using less 3 b by auto
      ultimately show False by (meson nat_dvd_not_less)
    qed
    moreover have "b = 16 * (k + 1)" using b k by simp
    ultimately show ?thesis using less by (metis dvd_triv_left)
  qed
qed

lemma cmd_decomposition_diverges:
  assumes "e < 2 ^ 32" and "2 ^ 32 < e + 512" and "16 dvd e"
    and "c < e" and "16 dvd c" and "c mod 512 \<noteq> e mod 512"
  shows "cmd_decomposition pkg end' (of_nat e) (of_nat c) d = None"
proof -
  define stays where "stays a \<longleftrightarrow> a < e \<and> 16 dvd a \<and> a mod 512 \<noteq> e mod 512" for a :: nat
  have "ea = of_nat e \<longrightarrow> \<not> stays (unat ca)" if "cmd_decomposition p en ea ca da = Some y" for p en ea ca da y
  proof (rule cmd_decomposition.raw_induct [where P = "\<lambda>p en ea ca da y. ea = of_nat e \<longrightarrow> \<not> stays (unat ca)", OF _ that])
    fix rec p en ea ca da y
    assume IH: "\<And>p en ea ca da y. rec p en ea ca da = Some y \<Longrightarrow> ea = of_nat e \<longrightarrow> \<not> stays (unat ca)"
      and eq: "(if ca = ea then Some ([], da)
        else let long = (ea \<ge> ca + DYNAMIC_BURST_MAX_LENGTH * 16);
               (cmd, ca) = send_dynamic_cmd (if long then DYNAMIC_BURST_MAX_LENGTH else 1) p en ea da ca;
               da = (if vdo_id (data p) AND 0x8000 \<noteq> 0 then da else da + 1)
             in Option.bind (rec p en ea ca da) (\<lambda>(cmds, d). Some ((long, cmd) # cmds, d))) = Some y"
    show "ea = of_nat e \<longrightarrow> \<not> stays (unat ca)"
    proof (intro impI notI)
      assume ea: "ea = of_nat e" and stays: "stays (unat ca)"
      define a where "a = unat ca"
      have a: "a < e" "16 dvd a" "a mod 512 \<noteq> e mod 512"
        using stays by (simp_all add: stays_def a_def)
      have ue: "unat ea = e" using assms(1) ea by (simp add: unat_of_nat)
      have ne: "ca \<noteq> ea" using a(1) ue by (auto simp: a_def)
      have long: "(ea \<ge> ca + 512) = ((a + 512) mod 2 ^ 32 \<le> e)"
        by (simp add: word_le_nat_alt ue unat_word_ariths a_def)
      have eq_a: "unat (ca + (if ea \<ge> ca + 512 then 512 else 16)) =
          (a + (if (a + 512) mod 2 ^ 32 \<le> e then 512 else 16)) mod 2 ^ 32"
        unfolding long by (simp add: unat_word_ariths a_def)
      have "stays (unat (ca + (if ea \<ge> ca + 512 then 512 else 16)))"
        unfolding eq_a stays_def by (rule diverging_address [OF assms(1,2) a refl])
      moreover have "\<exists>y. rec p en ea (ca + (if ea \<ge> ca + 512 then 512 else 16)) (next_dynamic_id p da) = Some y"
        using eq ne
        by (auto simp: DYNAMIC_BURST_MAX_LENGTH_def next_dynamic_id_def Let_def split_beta bind_eq_Some_conv
            split: if_splits)
      ultimately show False using IH ea by blast
    qed
  qed
  moreover have "unat (of_nat c :: u32) = c"
    using assms(1,4) by (simp add: unat_of_nat)
  ultimately have "cmd_decomposition pkg end' (of_nat e) (of_nat c) d \<noteq> Some y" for y
    using assms(4-6) unfolding stays_def by metis
  then show ?thesis by (cases "cmd_decomposition pkg end' (of_nat e) (of_nat c) d") auto
qed

text \<open>If the length is a multiple of 512 all commands are long and none is near the top.\<close>

lemma cmd_decomposition_long:
  "e < 2 ^ 32 \<Longrightarrow> \<exists>r. cmd_decomposition pkg end' (of_nat (c + 512 * n)) (of_nat c) d = Some r" if "e = c + 512 * n"
  using that
proof (induction n arbitrary: c d)
  case (Suc n)
  have e: "c + 512 * Suc n = (c + 512) + 512 * n" by simp
  have "(of_nat c :: u32) \<noteq> of_nat (c + 512 * Suc n)"
    using Suc.prems by (subst word_eq_of_nat) auto
  moreover have "(of_nat c + 512 :: u32) = of_nat (c + 512)" by simp
  then have "True = ((of_nat (c + 512 * Suc n) :: u32) \<ge> of_nat c + 512)"
    using word_le_of_nat [of "c + 512" "c + 512 * Suc n"] Suc.prems by (simp only:) simp
  ultimately have step: "cmd_decomposition pkg end' (of_nat (c + 512 * Suc n)) (of_nat c) d =
     map_option (\<lambda>(cmds, d'). ((True, fst (send_dynamic_cmd 32 pkg end' (of_nat (c + 512 * Suc n)) d (of_nat c))) # cmds, d'))
       (cmd_decomposition pkg end' (of_nat (c + 512 * Suc n)) (of_nat c + 512) (next_dynamic_id pkg d))"
    by (subst cmd_decomposition_step [OF refl, of _ _ True]) simp_all
  have "\<exists>r. cmd_decomposition pkg end' (of_nat (c + 512 + 512 * n)) (of_nat (c + 512)) (next_dynamic_id pkg d) = Some r"
    using Suc.prems by (intro Suc.IH) simp_all
  then show ?case
    unfolding step unfolding e by auto
qed (simp add: cmd_decomposition_end)

text \<open>
  C34: When \<open>cmd_generator\<close> returns on a list below the top of the 32-bit address space: if its last
  word ends at or below 2 ^ 32 - 512, or its words are a multiple of a long burst; otherwise the address
  wraps around without ever meeting the end, and the loop runs forever.
\<close>

theorem cmd_generator_terminates_iff:
  assumes "word_end (data pkg) < 2 ^ 32"
  shows "cmd_generator d pkg \<noteq> None \<longleftrightarrow>
    word_end (data pkg) + 512 \<le> 2 ^ 32 \<or> 512 dvd word_end (data pkg) - word_start (data pkg)"
proof -
  let ?vd = "data pkg"
  let ?s = "word_start ?vd" and ?e = "word_end ?vd"
  note words = list_words [of ?vd]
  note gen = cmd_generator_words [OF assms]
  show ?thesis
  proof (cases "?e + 512 \<le> 2 ^ 32")
    case True
    then show ?thesis
      using cmd_decomposition_plan [OF words(8) True words(6,7)] by (simp add: gen)
  next
    case False
    show ?thesis
    proof (cases "512 dvd ?e - ?s")
      case True
      then obtain n where "?e - ?s = 512 * n" ..
      then have "?e = ?s + 512 * n" using words(8) by simp
      with cmd_decomposition_long [OF this assms, of pkg] True show ?thesis by (auto simp: gen)
    next
      case dvd: False
      then have "?s \<noteq> ?e" by auto
      with words(8) have "?s < ?e" by simp
      moreover have "?s mod 512 \<noteq> ?e mod 512"
        using dvd words(8) by (metis mod_eq_dvd_iff_nat)
      ultimately show ?thesis
        using False dvd cmd_decomposition_diverges [OF assms _ words(7) _ words(6)] by (simp add: gen)
    qed
  qed
qed

theorem cmd_generator_terminates_iff_witness:
  "cmd_generator 0 \<lparr>data = \<lparr>vdo_start = 4294967264, vdo_size = 16, vdo_id = 0, vdo_burst_id = 0, vdo_state = 0\<rparr>,
     last = False\<rparr> = None"
  using cmd_generator_terminates_iff [of "\<lparr>data = \<lparr>vdo_start = 4294967264, vdo_size = 16, vdo_id = 0,
      vdo_burst_id = 0, vdo_state = 0\<rparr>, last = False\<rparr>" 0]
  by (simp add: word_end_def word_start_def list_start_def list_end_def round_up_def del: not_None_eq)

end
