(* ===== verification/Burst_Read.thy ===== *)
theory Burst_Read
  imports Burst_Tiling
begin

text \<open>
  What the engines read: the entries of a descriptor's list, in order, padded with 0 to whole memory
  words, as long as no long burst has to be masked.
\<close>

section \<open>Rows of a burst\<close>

text \<open>Entry \<open>x\<close> of the edge array.\<close>

definition entry :: "(u32 \<Rightarrow> weight_item) \<Rightarrow> nat \<Rightarrow> u32" where
  "entry mem x = lanes (mem (of_nat (x div 16))) ! (x mod 16)"

lemma upt_rows: "[c..<c + 16 * n] = concat (map (\<lambda>j. map (\<lambda>k. c + 16 * j + k) [0..<16]) [0..<n])"
proof (induction n)
  case (Suc n)
  have "[c..<c + 16 * Suc n] = [c..<c + 16 * n] @ [c + 16 * n..<c + 16 * n + 16]"
    using upt_add_eq_append [of c "c + 16 * n" 16] by (simp add: algebra_simps)
  also have "[c + 16 * n..<c + 16 * n + 16] = map (\<lambda>k. c + 16 * n + k) [0..<16]"
    using map_add_upt [of "c + 16 * n" 16] by (simp add: add.commute)
  finally show ?case using Suc by simp
qed simp

lemma lanes_masked_out:
  assumes "unat (bc_addr d) + 16 \<le> 2 ^ 32"
  shows "lanes (masked_out d w) =
    map (\<lambda>k. if unat (bc_start d) \<le> unat (bc_addr d) + k \<and> unat (bc_addr d) + k < unat (bc_end d)
             then lanes w ! k else 0) [0..<16]"
proof -
  have "unat (of_nat k + bc_addr d) = unat (bc_addr d) + k" if "k < 16" for k
    using that assms by (simp only: unat_word_ariths unat_of_nat) simp
  then show ?thesis
    unfolding masked_out_def lanes_pack [OF nth_numbers(2)]
    by (simp add: NUM_OF_WEIGHTS_def word_less_nat_alt word_le_nat_alt not_le not_less conj_commute
        cong: map_cong del: upt_rec_numeral)
qed

lemma row_entry:
  assumes "16 dvd unat a" and "unat a + 16 * j < 2 ^ 32" and "k < 16"
  shows "lanes (mem (drop_bit 4 a + of_nat j)) ! k = entry mem (unat a + 16 * j + k)"
proof -
  from assms(1) obtain q where q: "unat a = 16 * q" ..
  have "unat (drop_bit 4 a) = unat a div 16"
    by (subst unat_drop_bit_eq) (simp only: drop_bit_eq_div, simp)
  with q have "drop_bit 4 a = of_nat q"
    by (intro word_eq_of_unat) simp
  moreover have "unat a + 16 * j + k = k + 16 * (q + j)" using q by simp
  then have "(unat a + 16 * j + k) div 16 = q + j" "(unat a + 16 * j + k) mod 16 = k"
    using assms(3) by (simp_all only: div_mult_self2 mod_mult_self2) simp_all
  ultimately show ?thesis by (simp add: entry_def)
qed

text \<open>A short burst, and the engine for short lists, mask their word correctly.\<close>

definition masked_entries :: "(u32 \<Rightarrow> weight_item) \<Rightarrow> nat \<Rightarrow> nat \<Rightarrow> nat \<Rightarrow> nat \<Rightarrow> u32 list" where
  "masked_entries mem lo hi a b = map (\<lambda>x. if lo \<le> x \<and> x < hi then entry mem x else 0) [a..<b]"

lemma masked_entries_append:
  assumes "a \<le> b" and "b \<le> c"
  shows "masked_entries mem lo hi a b @ masked_entries mem lo hi b c = masked_entries mem lo hi a c"
proof -
  from assms(2) obtain n where "c = b + n" by (auto simp: le_iff_add)
  with upt_add_eq_append [OF assms(1), of n] have "[a..<c] = [a..<b] @ [b..<c]" by simp
  then show ?thesis by (simp only: masked_entries_def map_append)
qed

lemma short_read:
  assumes "16 dvd unat (bc_addr (data pkg))" and "unat (bc_addr (data pkg)) + 16 \<le> 2 ^ 32"
  shows "concat (map (lanes \<circ> snd) (dynamic_burst_1 mem pkg)) =
      (let d = data pkg; a = unat (bc_addr d)
       in masked_entries mem (unat (bc_start d)) (unat (bc_end d)) a (a + 16))"
    and "concat (map (lanes \<circ> snd) (single_burst mem pkg)) =
      (let d = data pkg; a = unat (bc_addr d)
       in masked_entries mem (unat (bc_start d)) (unat (bc_end d)) a (a + 16))"
proof -
  let ?d = "data pkg"
  let ?a = "unat (bc_addr ?d)"
  have "lanes (mem (drop_bit 4 (bc_addr ?d))) ! k = entry mem (?a + k)" if "k < 16" for k
    using row_entry [OF assms(1), of 0 k] assms(2) that by simp
  then have row: "lanes (masked_out ?d (mem (drop_bit 4 (bc_addr ?d)))) =
      masked_entries mem (unat (bc_start ?d)) (unat (bc_end ?d)) ?a (?a + 16)"
    using assms(2) map_add_upt [of ?a 16]
    by (intro nth_equalityI) (simp_all add: lanes_masked_out masked_entries_def del: upt_rec_numeral)
  then show "concat (map (lanes \<circ> snd) (dynamic_burst_1 mem pkg)) =
      (let d = data pkg; a = unat (bc_addr d)
       in masked_entries mem (unat (bc_start d)) (unat (bc_end d)) a (a + 16))"
    and "concat (map (lanes \<circ> snd) (single_burst mem pkg)) =
      (let d = data pkg; a = unat (bc_addr d)
       in masked_entries mem (unat (bc_start d)) (unat (bc_end d)) a (a + 16))"
    by (simp_all add: dynamic_burst_1_def single_burst_def Let_def)
qed

lemma long_read:
  assumes "16 dvd unat (bc_addr (data pkg))" and "unat (bc_addr (data pkg)) + 512 \<le> 2 ^ 32"
  shows "concat (map (lanes \<circ> snd) (dynamic_burst_32 mem pkg)) =
    (let d = data pkg; a = unat (bc_addr d)
     in map (\<lambda>x. let y = a + (x - a) mod 16 in
               if unat (bc_start d) \<le> y \<and> y < unat (bc_end d) then entry mem x else 0) [a..<a + 512])"
proof -
  let ?d = "data pkg"
  let ?a = "unat (bc_addr ?d)"
  let ?f = "\<lambda>x. let y = ?a + (x - ?a) mod 16 in
    if unat (bc_start ?d) \<le> y \<and> y < unat (bc_end ?d) then entry mem x else 0"
  have rows: "[?a..<?a + 512] = concat (map (\<lambda>j. map (\<lambda>k. ?a + 16 * j + k) [0..<16]) [0..<32])"
    using upt_rows [of ?a 32] by (simp del: upt_rec_numeral)
  have row: "lanes (masked_out ?d (mem (drop_bit 4 (bc_addr ?d) + of_nat j))) =
      map (\<lambda>k. ?f (?a + 16 * j + k)) [0..<16]" if "j < 32" for j
  proof (rule nth_equalityI)
    fix k assume "k < length (lanes (masked_out ?d (mem (drop_bit 4 (bc_addr ?d) + of_nat j))))"
    then have k: "k < 16" by simp
    have "?a + 16 * j + k - ?a = k + 16 * j" by simp
    then have "(?a + 16 * j + k - ?a) mod 16 = k" using k by (simp only: mod_mult_self2) simp
    moreover have "lanes (mem (drop_bit 4 (bc_addr ?d) + of_nat j)) ! k = entry mem (?a + 16 * j + k)"
      using assms that k by (intro row_entry) auto
    ultimately show "lanes (masked_out ?d (mem (drop_bit 4 (bc_addr ?d) + of_nat j))) ! k =
        map (\<lambda>k. ?f (?a + 16 * j + k)) [0..<16] ! k"
      using k assms(2) by (simp add: lanes_masked_out Let_def del: upt_rec_numeral)
  qed simp
  have "concat (map (lanes \<circ> snd) (dynamic_burst_32 mem pkg)) =
      concat (map (\<lambda>j. map (\<lambda>k. ?f (?a + 16 * j + k)) [0..<16]) [0..<32])"
    unfolding dynamic_burst_32_def Let_def map_map comp_def snd_conv DYNAMIC_BURST_MAX_LENGTH_def
    by (intro arg_cong [where f = concat] map_cong) (simp_all add: row Let_def del: upt_rec_numeral)
  then show ?thesis
    unfolding Let_def rows map_concat map_map comp_def .
qed

lemma masked_entries_cong:
  "(\<And>x. a \<le> x \<Longrightarrow> x < b \<Longrightarrow> (lo \<le> x \<and> x < hi) = (lo' \<le> x \<and> x < hi')) \<Longrightarrow>
   masked_entries mem lo hi a b = masked_entries mem lo' hi' a b"
  by (auto simp: masked_entries_def)

text \<open>A long burst needs no mask: exactly then every row is right, whatever the memory holds.\<close>

lemma long_read_whole:
  assumes "16 dvd unat (bc_addr (data pkg))" and "unat (bc_addr (data pkg)) + 512 \<le> 2 ^ 32"
    and "unat (bc_start (data pkg)) = unat (bc_addr (data pkg))"
    and "unat (bc_end (data pkg)) = unat (bc_addr (data pkg)) + 512"
  shows "concat (map (lanes \<circ> snd) (dynamic_burst_32 mem pkg)) =
    masked_entries mem (unat (bc_start (data pkg))) (unat (bc_end (data pkg)))
      (unat (bc_addr (data pkg))) (unat (bc_addr (data pkg)) + 512)"
proof -
  have "(x - unat (bc_addr (data pkg))) mod 16 < 512" for x
    using mod_less_divisor [of 16 "x - unat (bc_addr (data pkg))"] by linarith
  then show ?thesis
    unfolding long_read [OF assms(1,2)] Let_def assms(3,4) masked_entries_def
    by (intro map_cong) (auto simp del: upt_rec_numeral)
qed

text \<open>
  C33: The engine of the long bursts masks correctly exactly when there is nothing to mask: it compares
  \<open>k + addr\<close>, without the row \<open>16 * j\<close>, with the ends of the list, so a start or an end inside the
  burst masks the same lanes of all 32 rows.
\<close>

theorem dynamic_burst_32_exact_iff:
  fixes pkg :: "burst_cmd pkg"
  defines "a \<equiv> unat (bc_addr (data pkg))" and "lo \<equiv> unat (bc_start (data pkg))"
    and "hi \<equiv> unat (bc_end (data pkg))"
  assumes "16 dvd a" and "a + 512 \<le> 2 ^ 32" and "a \<le> lo" and "lo < hi" and "hi \<le> a + 512"
  shows "(\<forall>mem. concat (map (lanes \<circ> snd) (dynamic_burst_32 mem pkg)) = masked_entries mem lo hi a (a + 512)) \<longleftrightarrow>
    lo = a \<and> hi = a + 512"
proof
  assume "lo = a \<and> hi = a + 512"
  then show "\<forall>mem. concat (map (lanes \<circ> snd) (dynamic_burst_32 mem pkg)) = masked_entries mem lo hi a (a + 512)"
    using long_read_whole [of pkg] assms(4,5) unfolding a_def lo_def hi_def by blast
next
  assume eq: "\<forall>mem. concat (map (lanes \<circ> snd) (dynamic_burst_32 mem pkg)) = masked_entries mem lo hi a (a + 512)"
  define ones :: "u32 \<Rightarrow> weight_item" where "ones = (\<lambda>_. pack_lanes (replicate 16 1))"
  have one: "entry ones x = 1" for x
    by (simp add: entry_def ones_def)
  have same: "(lo \<le> a + (x - a) mod 16 \<and> a + (x - a) mod 16 < hi) = (lo \<le> x \<and> x < hi)"
    if "a \<le> x" "x < a + 512" for x
  proof -
    have "map (\<lambda>x. if lo \<le> a + (x - a) mod 16 \<and> a + (x - a) mod 16 < hi then 1 else 0 :: u32) [a..<a + 512] =
        map (\<lambda>x. if lo \<le> x \<and> x < hi then 1 else 0) [a..<a + 512]"
      using trans [OF sym [OF long_read [of pkg ones, folded a_def lo_def hi_def, OF assms(4,5)]] spec [OF eq, of ones]]
      unfolding masked_entries_def Let_def one a_def lo_def hi_def .
    then have "\<forall>x \<in> set [a..<a + 512]. (if lo \<le> a + (x - a) mod 16 \<and> a + (x - a) mod 16 < hi then 1 else 0 :: u32) =
        (if lo \<le> x \<and> x < hi then 1 else 0)"
      by (simp only: map_eq_conv)
    moreover have "x \<in> set [a..<a + 512]" using that by (simp only: set_upt atLeastLessThan_iff)
    ultimately show ?thesis by (metis zero_neq_one)
  qed
  show "lo = a \<and> hi = a + 512"
  proof (rule ccontr)
    assume not: "\<not> (lo = a \<and> hi = a + 512)"
    consider "lo = a" "hi < a + 512" "a + 16 \<le> hi" | "lo = a" "hi < a + 16" | "a < lo" "lo < a + 16" "hi \<le> a + 16"
      | "a < lo" "lo < a + 16" "a + 16 < hi" | "a + 16 \<le> lo"
      using not assms(6,8) by linarith
    then show False
    proof cases
      case 1
      have "(hi - a) mod 16 < 16" by simp
      with 1 have "a + (hi - a) mod 16 < hi" by linarith
      with same [of hi] 1 show False by simp
    next
      case 2
      with same [of "a + 16"] assms(7) show False by simp
    next
      case 3
      then obtain k where k: "lo = a + k" "k < 16" by (metis less_imp_add_positive nat_add_left_cancel_less)
      have "a + 16 + k - a = k + 16" by simp
      then have "(a + 16 + k - a) mod 16 = k" using k(2) by (simp only: mod_add_self2) simp
      with same [of "a + 16 + k"] k 3 assms(7) show False by simp
    next
      case 4
      with same [of "a + 16"] show False by simp
    next
      case 5
      have "(lo - a) mod 16 < 16" by simp
      with 5 have "\<not> lo \<le> a + (lo - a) mod 16" by linarith
      with same [of lo] 5 assms(7,8) show False by simp
    qed
  qed
qed

text \<open>The witness: a list that starts at entry 3 loses the first three lanes of every row.\<close>

definition misaligned_cmd :: "burst_cmd pkg" where
  "misaligned_cmd = \<lparr>data = \<lparr>bc_addr = 0, bc_size = 32, bc_start = 3, bc_end = 512, bc_id = 0, bc_burst_id = 0,
     bc_dynamic_id = 0, bc_state = 1\<rparr>, last = False\<rparr>"

theorem dynamic_burst_32_exact_iff_witness:
  "\<not> (\<forall>mem. concat (map (lanes \<circ> snd) (dynamic_burst_32 mem misaligned_cmd)) = masked_entries mem 3 512 0 512)"
  using dynamic_burst_32_exact_iff [of misaligned_cmd] by (simp add: misaligned_cmd_def)

section \<open>The list of a descriptor\<close>

text \<open>The rows of all commands of a descriptor, in the order of the commands.\<close>

definition list_rows :: "(u32 \<Rightarrow> weight_item) \<Rightarrow> (bool \<times> burst_cmd pkg) list \<Rightarrow> (burst_sync pkg \<times> weight_item) list" where
  "list_rows mem cmds = concat (map (\<lambda>(long, c). if long then dynamic_burst_32 mem c else dynamic_burst_1 mem c) cmds)"

definition no_masked_burst :: "vertex_descriptor_ordered \<Rightarrow> bool" where
  "no_masked_burst vd \<longleftrightarrow>
     (16 dvd list_start vd \<or> word_end vd - word_start vd < 512) \<and>
     (16 dvd list_end vd \<or> \<not> 512 dvd word_end vd - word_start vd)"

lemma long_command_whole:
  assumes "no_masked_burst vd" and "(True, a) \<in> set (plan (word_start vd) (word_end vd))"
  shows "list_start vd \<le> a \<and> a + 512 \<le> list_end vd"
proof -
  note words = list_words [of vd]
  have a: "word_start vd \<le> a" "16 dvd a" "a + 512 \<le> word_end vd" "512 dvd a - word_start vd"
    using plan_bounds [OF words(8,6,7) assms(2)] by (auto simp: width_def)
  have "\<not> word_end vd - word_start vd < 512" using a by linarith
  with assms(1) have "16 dvd list_start vd" by (simp add: no_masked_burst_def)
  then have "word_start vd = list_start vd" by (simp add: word_start_def)
  with a(1) have s: "list_start vd \<le> a" by simp
  show ?thesis
  proof (cases "16 dvd list_end vd")
    case True
    then have "word_end vd = list_end vd" by (auto simp: word_end_def round_up_def)
    with a s show ?thesis by simp
  next
    case False
    with assms(1) have nd: "\<not> 512 dvd word_end vd - word_start vd" by (simp add: no_masked_burst_def)
    have "a + 512 \<noteq> word_end vd"
    proof
      assume "a + 512 = word_end vd"
      then have "word_end vd - word_start vd = a - word_start vd + 512" using a(1) by simp
      with a(4) nd show False by (metis dvd_add_triv_right_iff)
    qed
    moreover have "16 dvd a + 512" using a(2) by (intro dvd_add) simp_all
    moreover obtain k l where "a + 512 = 16 * k" "word_end vd = 16 * l"
      using \<open>16 dvd a + 512\<close> words(7) by (auto elim!: dvdE)
    ultimately show ?thesis using a(3) s words(5) by simp
  qed
qed

lemma command_read:
  assumes "no_masked_burst (data pkg)" and "list_end (data pkg) + 512 \<le> 2 ^ 32"
    and "(long, a) \<in> set (plan (word_start (data pkg)) (word_end (data pkg)))"
    and "c = fst (send_dynamic_cmd (if long then 32 else 1) pkg (vdo_start (data pkg) + vdo_size (data pkg))
      (of_nat (word_end (data pkg))) d (of_nat a))"
  shows "concat (map (lanes \<circ> snd) (if long then dynamic_burst_32 mem c else dynamic_burst_1 mem c)) =
    masked_entries mem (list_start (data pkg)) (list_end (data pkg)) a (a + width long)"
proof -
  note words = list_words [of "data pkg"]
  note e = cmd_generator_plan(2,3) [OF assms(2)]
  have a: "word_start (data pkg) \<le> a" "16 dvd a" "a + width long \<le> word_end (data pkg)"
    using plan_bounds [OF words(8,6,7) assms(3)] by auto
  note f = command_fields(1,3,4) [OF a(3) e(1) assms(4), unfolded e(2)]
  show ?thesis
  proof (cases long)
    case True
    with assms(3) have whole: "list_start (data pkg) \<le> a \<and> a + 512 \<le> list_end (data pkg)"
      using long_command_whole [OF assms(1)] by simp
    have "masked_entries mem (list_start (data pkg)) (list_end (data pkg)) a (a + 512) =
        masked_entries mem a (a + 512) a (a + 512)"
      using whole by (intro masked_entries_cong) auto
    then show ?thesis
      using long_read_whole [of c mem] f whole a e(1) True by (simp add: width_def flip: list_start_def)
  next
    case False
    have "masked_entries mem (max a (list_start (data pkg))) (min (a + 16) (list_end (data pkg))) a (a + 16) =
        masked_entries mem (list_start (data pkg)) (list_end (data pkg)) a (a + 16)"
      by (intro masked_entries_cong) auto
    then show ?thesis
      using short_read(1) [of c mem] f a e(1) False by (simp add: width_def Let_def flip: list_start_def)
  qed
qed

lemma list_rows_read:
  assumes "no_masked_burst (data pkg)" and "list_end (data pkg) + 512 \<le> 2 ^ 32"
  shows "\<exists>cmds d'. cmd_generator d pkg = Some (cmds, d') \<and>
    concat (map (lanes \<circ> snd) (list_rows mem cmds)) =
      masked_entries mem (list_start (data pkg)) (list_end (data pkg)) (word_start (data pkg)) (word_end (data pkg))"
proof -
  let ?vd = "data pkg"
  let ?cmds = "\<lambda>d p. commands pkg (vdo_start ?vd + vdo_size ?vd) (of_nat (word_end ?vd)) d p"
  note words = list_words [of ?vd]
  have "set (plan c (word_end ?vd)) \<subseteq> set (plan (word_start ?vd) (word_end ?vd)) \<Longrightarrow>
      concat (map (lanes \<circ> snd) (list_rows mem (?cmds d (plan c (word_end ?vd))))) =
      masked_entries mem (list_start ?vd) (list_end ?vd) c (word_end ?vd)"
    if "c \<le> word_end ?vd" "16 dvd c" "16 dvd word_end ?vd" for c
    using that
  proof (induction arbitrary: d rule: plan_induct)
    case (more c long)
    then have "(long, c) \<in> set (plan (word_start ?vd) (word_end ?vd))" by auto
    from command_read [OF assms this refl, of mem d, unfolded comp_def] more show ?case
      using masked_entries_append [of c "c + width long" "word_end ?vd"]
      by (simp add: list_rows_def split: if_splits)
  qed (simp add: list_rows_def masked_entries_def)
  from this [OF words(8,6,7)] show ?thesis
    by (simp add: cmd_generator_plan(1) [OF assms(2)] Let_def)
qed

text \<open>
  The rows read for a descriptor are its list: joined in the order of the commands they are the
  entries from the first to the last memory word of the list, with 0 for those outside it, provided no
  long burst has to be masked (the list starts at a word boundary or is shorter than a long burst, and
  does not end inside a long burst).
\<close>

theorem list_rows_read_list:
  assumes "no_masked_burst (data pkg)" and "list_end (data pkg) + 512 \<le> 2 ^ 32"
  shows "\<exists>cmds d'. cmd_generator d pkg = Some (cmds, d') \<and>
    concat (map (lanes \<circ> snd) (list_rows mem cmds)) =
      masked_entries mem (list_start (data pkg)) (list_end (data pkg)) (word_start (data pkg)) (word_end (data pkg))"
  using assms by (rule list_rows_read)

theorem list_rows_read_list_witness:
  "\<exists>cmds d'. cmd_generator 7 \<lparr>data = \<lparr>vdo_start = 1030, vdo_size = 20, vdo_id = 5, vdo_burst_id = 6, vdo_state = 2\<rparr>,
     last = True\<rparr> = Some (cmds, d') \<and>
    concat (map (lanes \<circ> snd) (list_rows (\<lambda>_. pack_lanes [1, 2, 3, 4, 5, 6, 7, 8, 9, 10, 11, 12, 13, 14, 15, 16]) cmds)) =
      [0, 0, 0, 0, 0, 0, 7, 8, 9, 10, 11, 12, 13, 14, 15, 16, 1, 2, 3, 4, 5, 6, 7, 8, 9, 10, 0, 0, 0, 0, 0, 0]"
  using list_rows_read_list [of "\<lparr>data = \<lparr>vdo_start = 1030, vdo_size = 20, vdo_id = 5, vdo_burst_id = 6, vdo_state = 2\<rparr>,
     last = True\<rparr>" 7 "\<lambda>_. pack_lanes [1, 2, 3, 4, 5, 6, 7, 8, 9, 10, 11, 12, 13, 14, 15, 16]"]
  by (simp add: no_masked_burst_def list_start_def list_end_def word_start_def word_end_def round_up_def
      masked_entries_def entry_def)

section \<open>Masks by table\<close>

lemma mask_luts: "mask_lut = map mask [0..<16]" "inv_mask_lut = map (\<lambda>e. mask (Suc e)) [0..<16]"
  by code_simp+

lemma unat_low4: "unat (ucast ((w :: u32) AND 0xf) :: u8) = unat w mod 16"
proof -
  have "w AND 0xf = take_bit 4 w"
    by (simp add: take_bit_eq_mask mask_eq_exp_minus_1)
  then show ?thesis
    by (simp add: unsigned_ucast_eq unsigned_take_bit_eq take_bit_take_bit) (simp add: take_bit_eq_mod)
qed

lemma bits_gen_mask:
  "i < 16 \<Longrightarrow> bit (gen_mask_in_16 s e) i \<longleftrightarrow> unat s mod 16 \<le> i \<and> i \<le> unat e mod 16"
  by (simp add: gen_mask_in_16_def mask_luts unat_low4 bit_and_iff bit_not_iff bit_mask_iff possible_bit_def
      not_less less_Suc_eq_le del: upt_rec_numeral upt_Suc)

lemma mask_row:
  assumes "c \<le> t" and "t < c + 16" and "c \<le> h" and "16 dvd c" and "h \<le> c + 15"
    and "unat s = t" and "unat e = h"
  shows "mask_bits (gen_mask_in_16 s e) = map (\<lambda>x. t \<le> x \<and> x \<le> h) [c..<c + 16]"
proof -
  obtain q where q: "c = 16 * q" using assms(4) ..
  define i j where "i = t - c" and "j = h - c"
  with assms have ij: "t = i + c" "h = j + c" "i < 16" "j < 16" by auto
  then have "t mod 16 = i" "h mod 16 = j"
    unfolding q ij(1,2) mod_mult_self2 by simp_all
  moreover have "[c..<c + 16] = map (\<lambda>k. c + k) [0..<16]"
    using map_add_upt [of c 16] by (simp add: add.commute)
  ultimately show ?thesis
    using ij by (auto simp: mask_bits_bit bits_gen_mask assms(6,7) simp del: upt_rec_numeral)
qed

lemma mask_gen_words:
  assumes "16 dvd c" and "c + 16 * Suc n < 2 ^ 32" and "c \<le> t" and "t < c + 16"
    and "c + 16 * n \<le> h" and "h < c + 16 * Suc n" and "t \<le> h"
  shows "map_option (concat \<circ> map mask_bits)
      (mask_gen (of_nat h) (of_nat (c + 16 * Suc n)) (of_nat c) (of_nat t) (of_nat (c + 15))) =
    Some (map (\<lambda>x. t \<le> x \<and> x \<le> h) [c..<c + 16 * Suc n])"
  using assms
proof (induction n arbitrary: c t)
  case 0
  then have "unat (of_nat h :: u32) = h" "unat (of_nat t :: u32) = t" "unat (of_nat (c + 15) :: u32) = c + 15"
    by (simp_all add: unat_of_nat del: of_nat_add)
  with 0 have e: "(if (of_nat (c + 15) :: u32) > of_nat h then of_nat h else of_nat (c + 15)) = (of_nat h :: u32)"
    by (cases "h = c + 15") (auto simp: word_less_nat_alt simp del: of_nat_add)
  have "mask_bits (gen_mask_in_16 (of_nat t) (of_nat h)) = map (\<lambda>x. t \<le> x \<and> x \<le> h) [c..<c + 16]"
    using 0 by (intro mask_row) (simp_all add: unat_of_nat)
  then show ?case
    by (subst mask_gen.simps) (simp only: Let_def e, simp)
next
  case (Suc n)
  have words: "unat (of_nat h :: u32) = h" "unat (of_nat t :: u32) = t" "unat (of_nat (c + 15) :: u32) = c + 15"
    using Suc.prems by (simp_all add: unat_of_nat del: of_nat_add)
  with Suc.prems have e: "(if (of_nat (c + 15) :: u32) > of_nat h then of_nat h else of_nat (c + 15)) = (of_nat (c + 15) :: u32)"
    by (auto simp: word_less_nat_alt simp del: of_nat_add)
  have row: "mask_bits (gen_mask_in_16 (of_nat t) (of_nat (c + 15))) = map (\<lambda>x. t \<le> x \<and> x \<le> c + 15) [c..<c + 16]"
    using Suc.prems words by (intro mask_row) simp_all
  have ne: "(of_nat (c + 16) :: u32) \<noteq> of_nat (c + 16 * Suc (Suc n))"
    using Suc.prems by (subst word_eq_of_nat) auto
  have "map_option (concat \<circ> map mask_bits) (mask_gen (of_nat h) (of_nat (c + 16 + 16 * Suc n))
      (of_nat (c + 16)) (of_nat (c + 16)) (of_nat (c + 16 + 15))) =
    Some (map (\<lambda>x. c + 16 \<le> x \<and> x \<le> h) [c + 16..<c + 16 + 16 * Suc n])"
    using Suc.prems by (intro Suc.IH) auto
  moreover have "map (\<lambda>x. c + 16 \<le> x \<and> x \<le> h) [c + 16..<c + 16 + 16 * Suc n] =
      map (\<lambda>x. t \<le> x \<and> x \<le> h) [c + 16..<c + 16 + 16 * Suc n]"
    using Suc.prems by auto
  ultimately obtain ms where ms: "mask_gen (of_nat h) (of_nat (c + 16 * Suc (Suc n)))
      (of_nat (c + 16)) (of_nat (c + 16)) (of_nat (c + 15) + 16) = Some ms"
    "concat (map mask_bits ms) = map (\<lambda>x. t \<le> x \<and> x \<le> h) [c + 16..<c + 16 + 16 * Suc n]"
    by (auto simp: algebra_simps)
  have step: "mask_gen (of_nat h) (of_nat (c + 16 * Suc (Suc n))) (of_nat c) (of_nat t) (of_nat (c + 15)) =
      Some (gen_mask_in_16 (of_nat t) (of_nat (c + 15)) # ms)"
    using ne ms(1) by (subst mask_gen.simps) (simp only: Let_def e, simp)
  have "map (\<lambda>x. t \<le> x \<and> x \<le> c + 15) [c..<c + 16] = map (\<lambda>x. t \<le> x \<and> x \<le> h) [c..<c + 16]"
    using Suc.prems by (intro map_cong) auto
  moreover have "[c..<c + 16 * Suc (Suc n)] = [c..<c + 16] @ [c + 16..<c + 16 + 16 * Suc n]"
    using upt_add_eq_append [of c "c + 16" "16 * Suc n"] by (simp add: algebra_simps)
  ultimately show ?case
    unfolding step option.map comp_def list.map concat.simps row ms(2) by (simp only: map_append)
qed

text \<open>
  C36: \<open>mask_generator\<close> computes the masks of a non-empty list below the top of the address space: it
  returns, with one 16-bit mask per memory word of the list, whose bits one after the other say of each
  entry whether it is in the list.
\<close>

theorem mask_generator_exact:
  assumes "unat start < unat end'" and "round_up (unat end') < 2 ^ 32"
  shows "map_option (concat \<circ> map mask_bits) (mask_generator start end') =
    Some (map (\<lambda>x. unat start \<le> x \<and> x < unat end') [16 * (unat start div 16)..<round_up (unat end')])"
proof -
  let ?c = "16 * (unat start div 16)" and ?e = "round_up (unat end')"
  note up = round_up [of "unat end'"] and down = round_up(4,5) [of "unat start"]
  from up(3) obtain m where m: "?e = 16 * m" ..
  with up(1) down assms(1) have "unat start div 16 < m" by simp
  then obtain n where n: "m = unat start div 16 + Suc n" using less_iff_Suc_add by auto
  then have e: "?e = ?c + 16 * Suc n" using m by simp
  have "unat (end' - 1) = unat end' - 1"
    using assms(1) by (cases "end' = 0") (simp_all add: unat_minus_one)
  then have h: "end' - 1 = of_nat (unat end' - 1)" by (rule word_eq_of_unat)
  have s: "start AND 0xfffffff0 = of_nat ?c"
    by (rule word_eq_of_unat) (rule unat_align)
  have r: "round_end end' = of_nat ?e"
    using assms(2) by (intro word_eq_of_unat unat_round_end)
  have start: "start = of_nat (unat start)" by simp
  have in0: "(of_nat ?c :: u32) - 1 + 16 = of_nat (?c + 15)" by simp
  have "mask_generator start end' = mask_gen (of_nat (unat end' - 1)) (of_nat (?c + 16 * Suc n)) (of_nat ?c)
      (of_nat (unat start)) (of_nat (?c + 15))"
    unfolding mask_generator_def Let_def s r h in0 e by simp
  moreover have "map_option (concat \<circ> map mask_bits) (mask_gen (of_nat (unat end' - 1)) (of_nat (?c + 16 * Suc n))
      (of_nat ?c) (of_nat (unat start)) (of_nat (?c + 15))) =
    Some (map (\<lambda>x. unat start \<le> x \<and> x \<le> unat end' - 1) [?c..<?c + 16 * Suc n])"
    using up down assms e by (intro mask_gen_words) auto
  moreover have "x \<le> unat end' - 1 \<longleftrightarrow> x < unat end'" for x
    using assms(1) by auto
  ultimately show ?thesis by (simp only: e)
qed

theorem mask_generator_exact_witness:
  "map_option (concat \<circ> map mask_bits) (mask_generator 13 34) =
    Some (replicate 13 False @ replicate 21 True @ replicate 14 False)"
proof -
  have "map (\<lambda>x. 13 \<le> x \<and> x < (34 :: nat)) [0..<48] = replicate 13 False @ replicate 21 True @ replicate 14 False"
    by code_simp
  then show ?thesis
    using mask_generator_exact [of 13 34] by (simp add: round_up_def del: upt_rec_numeral)
qed

end
