(* ===== verification/Reservoir.thy ===== *)
theory Reservoir
  imports Wrs
begin

text \<open>
  The specification of weighted reservoir sampling and the proof that the kernels of theory Wrs
  implement it: whatever the polling of the five kernels, the sampler returns for every burst what
  one pass over its weights would.
\<close>

section \<open>Reservoir sampling\<close>

text \<open>
  One pass over (weight, random number) pairs: item \<open>i\<close> replaces the selection if
  \<open>r * (sum of the weights so far) / 2 ^ 32 < w\<close>.
\<close>

fun reservoir :: "nat \<Rightarrow> nat \<Rightarrow> (nat \<times> nat) list \<Rightarrow> nat option \<Rightarrow> nat option" where
  "reservoir i acc [] sel = sel"
| "reservoir i acc ((w, r) # xs) sel =
     reservoir (Suc i) (acc + w) xs (if r * (acc + w) div 2 ^ 32 < w then Some i else sel)"

lemma reservoir_append:
  "reservoir i acc (xs @ ys) sel =
     reservoir (i + length xs) (acc + sum_list (map fst xs)) ys (reservoir i acc xs sel)"
  by (induction i acc xs sel rule: reservoir.induct) (simp_all add: add.assoc)

text \<open>The index of the last flag that is set.\<close>

fun last_set :: "nat \<Rightarrow> bool list \<Rightarrow> nat option \<Rightarrow> nat option" where
  "last_set i [] sel = sel"
| "last_set i (b # bs) sel = last_set (Suc i) bs (if b then Some i else sel)"

lemma last_set_append: "last_set i (xs @ ys) sel = last_set (i + length xs) ys (last_set i xs sel)"
  by (induction i xs sel rule: last_set.induct) simp_all

fun accepts :: "nat \<Rightarrow> (nat \<times> nat) list \<Rightarrow> bool list" where
  "accepts acc [] = []"
| "accepts acc ((w, r) # xs) = (r * (acc + w) div 2 ^ 32 < w) # accepts (acc + w) xs"

lemma reservoir_accepts: "reservoir i acc xs sel = last_set i (accepts acc xs) sel"
  by (induction i acc xs sel rule: reservoir.induct) simp_all

section \<open>The position of the highest set bit\<close>

lemma last_set_4: "last_set i [a, b, c, d] sel =
    (if d then Some (i + 3) else if c then Some (i + 2) else if b then Some (i + 1) else if a then Some i else sel)"
  by (simp add: numeral_eq_Suc)

lemma msb_of_4bit_block:
  assumes "length pre = k"
  shows "msb_of_4bit (pre @ [a, b, c, d] @ post) (k + 3) =
    (if d then k + 4 else if c then k + 3 else if b then k + 2 else if a then k + 1 else 0)"
proof -
  have "(pre @ [a, b, c, d] @ post) ! (k + 3) = d" "(pre @ [a, b, c, d] @ post) ! (k + 3 - 1) = c"
    "(pre @ [a, b, c, d] @ post) ! (k + 3 - 2) = b" "(pre @ [a, b, c, d] @ post) ! (k + 3 - 3) = a"
    using assms by (auto simp: nth_append numeral_eq_Suc)
  then show ?thesis
    by (simp only: msb_of_4bit_def) simp
qed

lemma last_set_block:
  assumes "length pre = k" and "m = msb_of_4bit (pre @ [a, b, c, d] @ post) (k + 3)"
  shows "last_set (i + k) [a, b, c, d] sel = (if m = 0 then sel else Some (i + m - 1))"
    and "m = 0 \<or> k < m \<and> m \<le> k + 4"
  using assms(2) unfolding msb_of_4bit_block [OF assms(1)] last_set_4 by auto

lemma list_4_blocks:
  assumes "length bs = 16"
  obtains a0 a1 a2 a3 b0 b1 b2 b3 c0 c1 c2 c3 d0 d1 d2 d3
  where "bs = [a0, a1, a2, a3] @ [b0, b1, b2, b3] @ [c0, c1, c2, c3] @ [d0, d1, d2, d3]"
  using assms by (simp add: numeral_eq_Suc length_Suc_conv) blast

lemma last_set_msb_bit:
  assumes "length bs = 16"
  shows "last_set i bs sel = (if msb_bit bs = 0 then sel else Some (i + msb_bit bs - 1))"
    and "msb_bit bs \<le> 16"
proof -
  obtain a0 a1 a2 a3 b0 b1 b2 b3 c0 c1 c2 c3 d0 d1 d2 d3
    where bs: "bs = [a0, a1, a2, a3] @ [b0, b1, b2, b3] @ [c0, c1, c2, c3] @ [d0, d1, d2, d3]"
    using assms by (rule list_4_blocks)
  let ?a = "[a0, a1, a2, a3]" and ?b = "[b0, b1, b2, b3]" and ?c = "[c0, c1, c2, c3]" and ?d = "[d0, d1, d2, d3]"
  define m0 where "m0 = msb_of_4bit bs 15"
  define m1 where "m1 = msb_of_4bit bs 11"
  define m2 where "m2 = msb_of_4bit bs 7"
  define m3 where "m3 = msb_of_4bit bs 3"
  note m = m0_def m1_def m2_def m3_def
  have 3: "last_set (i + 0) ?a s = (if m3 = 0 then s else Some (i + m3 - 1))" "m3 = 0 \<or> 0 < m3 \<and> m3 \<le> 0 + 4" for s
    by (rule last_set_block [of "[]" _ _ _ _ _ _ "?b @ ?c @ ?d"]; simp add: m bs)+
  have 2: "last_set (i + 4) ?b s = (if m2 = 0 then s else Some (i + m2 - 1))" "m2 = 0 \<or> 4 < m2 \<and> m2 \<le> 4 + 4" for s
    by (rule last_set_block [of ?a _ _ _ _ _ _ "?c @ ?d"]; simp add: m bs)+
  have 1: "last_set (i + 8) ?c s = (if m1 = 0 then s else Some (i + m1 - 1))" "m1 = 0 \<or> 8 < m1 \<and> m1 \<le> 8 + 4" for s
    by (rule last_set_block [of "?a @ ?b" _ _ _ _ _ _ ?d]; simp add: m bs)+
  have 0: "last_set (i + 12) ?d s = (if m0 = 0 then s else Some (i + m0 - 1))" "m0 = 0 \<or> 12 < m0 \<and> m0 \<le> 12 + 4" for s
    by (rule last_set_block [of "?a @ ?b @ ?c" _ _ _ _ _ _ "[]"]; simp add: m bs)+
  have "last_set i bs sel =
      (if m0 \<noteq> 0 then Some (i + m0 - 1) else if m1 \<noteq> 0 then Some (i + m1 - 1) else if m2 \<noteq> 0 then Some (i + m2 - 1)
       else if m3 \<noteq> 0 then Some (i + m3 - 1) else sel)"
  proof -
    have "last_set i bs sel = last_set (i + 12) ?d (last_set (i + 8) ?c (last_set (i + 4) ?b (last_set (i + 0) ?a sel)))"
      unfolding bs last_set_append by (simp add: numeral_eq_Suc del: last_set.simps)
    then show ?thesis
      unfolding 0(1) 1(1) 2(1) 3(1) by (simp del: last_set.simps)
  qed
  moreover have "msb_bit bs = (if m0 \<noteq> 0 then m0 else if m1 \<noteq> 0 then m1 else if m2 \<noteq> 0 then m2 else m3)"
  proof -
    have "msb_bit bs = max (max m0 m1) (max m2 m3)"
      unfolding msb_bit_def Let_def m [symmetric] by (simp add: max_def)
    with 0(2) 1(2) 2(2) 3(2) show ?thesis
      by (cases "m0 = 0"; cases "m1 = 0"; cases "m2 = 0") (auto simp: max_def)
  qed
  ultimately show "last_set i bs sel = (if msb_bit bs = 0 then sel else Some (i + msb_bit bs - 1))"
    and "msb_bit bs \<le> 16"
    using 0(2) 1(2) 2(2) 3(2) by auto
qed

section \<open>One group of sixteen weights\<close>

lemma length_pps_loop [simp]: "length (pps_loop p xs) = length xs"
  by (induction p xs rule: pps_loop.induct) simp_all

lemma length_pps [simp]: "length (pps xs) = length xs"
  by (cases xs) simp_all

lemma pps_loop_Nil_iff [simp]: "pps_loop p xs = [] \<longleftrightarrow> xs = []"
  by (cases xs) simp_all

lemma pps_eq_loop: "pps xs = pps_loop 0 xs"
  by (cases xs) simp_all

lemma nth_pps_loop:
  "i < length xs \<Longrightarrow> unat p + (\<Sum>x \<leftarrow> xs. unat x) < 2 ^ 32 \<Longrightarrow>
     unat (pps_loop p xs ! i) = unat p + (\<Sum>x \<leftarrow> take (Suc i) xs. unat x)"
proof (induction p xs arbitrary: i rule: pps_loop.induct)
  case (2 p x xs)
  then have "unat (p + x) = unat p + unat x"
    by (simp add: unat_word_ariths mod_less)
  with 2 show ?case by (cases i) auto
qed simp

lemma last_pps: "xs \<noteq> [] \<Longrightarrow> (\<Sum>x \<leftarrow> xs. unat x) < 2 ^ 32 \<Longrightarrow> unat (List.last (pps xs)) = (\<Sum>x \<leftarrow> xs. unat x)"
  using nth_pps_loop [of "length xs - 1" xs 0] length_pps [of xs]
  by (subst last_conv_nth) (auto simp: pps_eq_loop)

lemma nth_accepts:
  "i < length xs \<Longrightarrow>
     accepts acc xs ! i \<longleftrightarrow>
       snd (xs ! i) * (acc + sum_list (map fst (take (Suc i) xs))) div 2 ^ 32 < fst (xs ! i)"
proof (induction acc xs arbitrary: i rule: accepts.induct)
  case (2 acc w r xs)
  then show ?case by (cases i) (auto simp: add.assoc)
qed simp

lemma length_accepts [simp]: "length (accepts acc xs) = length xs"
  by (induction acc xs rule: accepts.induct) simp_all

lemma unat_scale_lane:
  assumes "unat p + unat b < 2 ^ 32"
  shows "unat (scale_lane r p b) = unat r * (unat p + unat b) div 2 ^ 32"
proof -
  let ?s = "ucast p + ucast b :: 33 word"
  let ?t = "ucast r * ucast ?s :: 65 word"
  have s: "unat ?s = unat p + unat b"
    using assms by (simp add: unat_word_ariths unsigned_ucast_eq take_bit_nat_eq_self unat_less_32 mod_less)
  have bound: "unat r * (unat p + unat b) < 2 ^ 32 * 2 ^ 32"
    using assms unat_less_32 [of r] by (intro mult_strict_mono') simp_all
  have "unat (ucast r :: 65 word) = unat r" "unat (ucast ?s :: 65 word) = unat p + unat b"
    using unat_less_32 [of r] s assms by (simp_all add: unsigned_ucast_eq take_bit_nat_eq_self)
  then have t: "unat ?t = unat r * (unat p + unat b)"
    using bound by (simp add: unat_word_ariths mod_less)
  then have u: "unat (ucast ?t :: u64) = unat r * (unat p + unat b)"
    using bound by (simp add: unsigned_ucast_eq take_bit_nat_eq_self)
  have "unat r * (unat p + unat b) div 2 ^ 32 < 2 ^ 32"
    using bound by (intro less_mult_imp_div_less) simp
  moreover have "ap_range 63 32 (v :: u64) = drop_bit 32 v" for v
    by (rule bit_word_eqI) (auto simp: range_bits bit_drop_bit_eq dest: bit_imp_le_length)
  moreover have "unat (drop_bit 32 (ucast ?t :: u64)) = unat r * (unat p + unat b) div 2 ^ 32"
    by (simp only: unat_drop_bit_eq u drop_bit_nat_def)
  ultimately have "unat (ucast (ap_range 63 32 (ucast ?t :: u64)) :: u32) = unat r * (unat p + unat b) div 2 ^ 32"
    by (simp add: unsigned_ucast_eq take_bit_nat_eq_self)
  then show ?thesis
    by (simp only: scale_lane_def Let_def)
qed

lemma lanes_scale_weight:
  "i < 16 \<Longrightarrow> lanes (scale_weight_step (R, P, B)) ! i = scale_lane (lanes R ! i) (lanes P ! i) (lanes B ! i)"
  unfolding scale_weight_step_def by (simp only: prod.case lanes_pack [OF nth_numbers(2)] nth_numbers(1))

text \<open>The mask of a group is what the reference accepts, if the sums do not overflow.\<close>

lemma group_mask:
  assumes "unat b + (\<Sum>w \<leftarrow> lanes W. unat w) < 2 ^ 32"
  shows "mask_bits (reservoir_mask_step
      (W, scale_weight_step (R, pack_lanes (replicate 16 b), pack_lanes (pps (lanes W))))) =
    accepts (unat b) (zip (map unat (lanes W)) (map unat (lanes R)))"
proof (rule nth_equalityI)
  fix i assume "i < length (mask_bits (reservoir_mask_step
      (W, scale_weight_step (R, pack_lanes (replicate 16 b), pack_lanes (pps (lanes W))))))"
  then have i: "i < 16" by (simp add: mask_bits_def NUM_OF_WEIGHTS_def)
  let ?P = "\<Sum>w \<leftarrow> take (Suc i) (lanes W). unat w"
  have "?P + (\<Sum>w \<leftarrow> drop (Suc i) (lanes W). unat w) = (\<Sum>w \<leftarrow> lanes W. unat w)"
    by (metis append_take_drop_id map_append sum_list_append)
  then have P: "unat b + ?P < 2 ^ 32"
    using assms by linarith
  have "unat (pps (lanes W) ! i) = ?P"
    using i assms by (simp add: pps_eq_loop nth_pps_loop)
  then have "unat (scale_lane (lanes R ! i) b (pps (lanes W) ! i)) = unat (lanes R ! i) * (unat b + ?P) div 2 ^ 32"
    using P by (subst unat_scale_lane) simp_all
  then show "mask_bits (reservoir_mask_step
      (W, scale_weight_step (R, pack_lanes (replicate 16 b), pack_lanes (pps (lanes W))))) ! i =
    accepts (unat b) (zip (map unat (lanes W)) (map unat (lanes R))) ! i"
    using i by (simp add: reservoir_mask_step_def mask_bits_fold nth_numbers lanes_scale_weight
        nth_accepts word_less_nat_alt take_zip flip: take_map)
qed (simp add: mask_bits_def NUM_OF_WEIGHTS_def)


section \<open>Bursts\<close>

text \<open>A group: the package of the burst, sixteen weights, sixteen random numbers.\<close>

type_synonym group = "burst_sync pkg \<times> weight_item \<times> weight_item"

definition ends :: "burst_sync pkg \<Rightarrow> bool" where
  "ends s \<longleftrightarrow> bs_burst_id (data s) AND 0x8000 \<noteq> 0"

definition is_burst :: "group list \<Rightarrow> bool" where
  "is_burst gs \<longleftrightarrow> gs \<noteq> [] \<and> ends (fst (List.last gs)) \<and> (\<forall>g \<in> set (butlast gs). \<not> ends (fst g))"

definition weights_of :: "group list \<Rightarrow> nat list" where
  "weights_of gs = concat (map (\<lambda>g. map unat (lanes (fst (snd g)))) gs)"

definition randoms_of :: "group list \<Rightarrow> nat list" where
  "randoms_of gs = concat (map (\<lambda>g. map unat (lanes (snd (snd g)))) gs)"

text \<open>What one pass of reservoir sampling over the burst selects.\<close>

definition burst_choice :: "group list \<Rightarrow> nat option" where
  "burst_choice gs = reservoir 0 0 (zip (weights_of gs) (randoms_of gs)) None"

lemma weights_of_simps:
  "weights_of [] = []" "weights_of (g # gs) = map unat (lanes (fst (snd g))) @ weights_of gs"
  "randoms_of [] = []" "randoms_of (g # gs) = map unat (lanes (snd (snd g))) @ randoms_of gs"
  by (simp_all add: weights_of_def randoms_of_def)

lemma reservoir_Some_not_None: "reservoir i acc xs (Some k) \<noteq> None"
  by (induction i acc xs "Some k" arbitrary: k rule: reservoir.induct) simp_all

lemma reservoir_Some:
  "reservoir i acc xs sel = Some k \<Longrightarrow> sel = Some k \<or> i \<le> k \<and> k < i + length xs \<and> 0 < fst (xs ! (k - i))"
proof (induction i acc xs sel rule: reservoir.induct)
  case (2 i acc w r xs sel)
  then have "(if r * (acc + w) div 2 ^ 32 < w then Some i else sel) = Some k \<or>
      Suc i \<le> k \<and> k < Suc i + length xs \<and> 0 < fst (xs ! (k - Suc i))" by simp
  then show ?case
  proof (elim disjE conjE)
    assume k: "Suc i \<le> k" "k < Suc i + length xs" "0 < fst (xs ! (k - Suc i))"
    then have "k - i = Suc (k - Suc i)" by simp
    with k show ?thesis by simp
  qed (auto split: if_splits)
qed simp

lemma reservoir_None:
  "list_all (\<lambda>(w, r). r < 2 ^ 32) xs \<Longrightarrow> reservoir i 0 xs None = None \<longleftrightarrow> list_all (\<lambda>(w, r). w = 0) xs"
proof (induction i "0 :: nat" xs "None :: nat option" rule: reservoir.induct)
  case (2 i w r xs)
  show ?case
  proof (cases "w = 0")
    case True
    with 2 show ?thesis by simp
  next
    case False
    have "r * w div 2 ^ 32 < w"
      using 2(2) False by (intro less_mult_imp_div_less) (simp add: mult.commute)
    with False show ?thesis by (simp add: reservoir_Some_not_None)
  qed
qed simp

lemma length_weights_of [simp]: "length (weights_of gs) = 16 * length gs" "length (randoms_of gs) = 16 * length gs"
  by (induction gs) (simp_all add: weights_of_simps)

lemma set_randoms: "r \<in> set (randoms_of gs) \<Longrightarrow> r < 2 ^ 32"
  by (auto simp: randoms_of_def intro: order_less_le_trans [OF unat_less_32])

lemma burst_choice_None: "burst_choice gs = None \<longleftrightarrow> (\<forall>w \<in> set (weights_of gs). w = 0)"
proof -
  have "list_all (\<lambda>(w, r). r < 2 ^ 32) (zip (weights_of gs) (randoms_of gs))"
    by (auto simp: list_all_iff intro: set_randoms [simplified] dest: set_zip_rightD)
  then have "burst_choice gs = None \<longleftrightarrow> list_all (\<lambda>(w, r). w = 0) (zip (weights_of gs) (randoms_of gs))"
    unfolding burst_choice_def by (rule reservoir_None)
  then show ?thesis
    by (simp add: list_all_length all_set_conv_all_nth case_prod_beta)
qed

lemma burst_choice_Some: "burst_choice gs = Some i \<Longrightarrow> i < 16 * length gs \<and> 0 < weights_of gs ! i"
  using reservoir_Some [of 0 0 "zip (weights_of gs) (randoms_of gs)" None i] by (auto simp: burst_choice_def)

text \<open>The five kernels fused: base sums, selection.  Every group comes with an item the sampler reads.\<close>

fun wrs_run ::
    "(u32 \<Rightarrow> 'p \<times> burst_sync pkg \<times> u16 \<Rightarrow> 'b list \<times> u32) \<Rightarrow> u32 list \<Rightarrow> u32 \<Rightarrow> ('p \<times> group) list \<Rightarrow> 'b list" where
  "wrs_run body base sel [] = []"
| "wrs_run body base sel ((item, s, W, R) # gs) =
     (let ((b, p), base') = perfix_sum_step base (s, snd (partial_sum_step W));
          m = reservoir_mask_step (W, scale_weight_step (R, b, p));
          (out, sel') = body sel (item, s, m)
      in out @ wrs_run body base' sel' gs)"

text \<open>
  A sampler turns the position of the highest set bit of a mask into a value, and emits a result at
  the end of a burst.
\<close>

locale sampler =
  fixes body :: "u32 \<Rightarrow> 'p \<times> burst_sync pkg \<times> u16 \<Rightarrow> 'b list \<times> u32"
    and val :: "'p \<Rightarrow> burst_sync pkg \<Rightarrow> nat \<Rightarrow> u32" and result :: "u32 \<Rightarrow> burst_sync pkg \<Rightarrow> 'b"
  assumes body_step: "body sel (item, s, m) =
    (let msb = msb_bit (mask_bits m); sel' = (if msb = 0 then sel else val item s (msb - 1))
     in if ends s then ([result sel' s], 0x80000000) else ([], sel'))"

context sampler begin

definition chosen :: "('p \<times> group) list \<Rightarrow> nat option \<Rightarrow> u32" where
  "chosen gs sel = (case sel of None \<Rightarrow> 0x80000000
     | Some i \<Rightarrow> val (fst (gs ! (i div 16))) (fst (snd (gs ! (i div 16)))) (i mod 16))"

lemma body_chosen:
  assumes "unat b + (\<Sum>w \<leftarrow> lanes W. unat w) < 2 ^ 32" and "gs = pre @ (item, s, W, R) # post"
  shows "body (chosen gs sel) (item, s, reservoir_mask_step
      (W, scale_weight_step (R, pack_lanes (replicate 16 b), pack_lanes (pps (lanes W))))) =
    (let sel' = chosen gs (reservoir (16 * length pre) (unat b) (zip (map unat (lanes W)) (map unat (lanes R))) sel)
     in if ends s then ([result sel' s], 0x80000000) else ([], sel'))"
proof -
  let ?m = "mask_bits (reservoir_mask_step
      (W, scale_weight_step (R, pack_lanes (replicate 16 b), pack_lanes (pps (lanes W)))))"
  have len: "length ?m = 16"
    by (simp add: mask_bits_def NUM_OF_WEIGHTS_def)
  have "reservoir (16 * length pre) (unat b) (zip (map unat (lanes W)) (map unat (lanes R))) sel =
      (if msb_bit ?m = 0 then sel else Some (16 * length pre + msb_bit ?m - 1))"
    by (simp only: reservoir_accepts group_mask [OF assms(1), symmetric] last_set_msb_bit(1) [OF len])
  moreover have "chosen gs (Some (16 * length pre + msb_bit ?m - 1)) = val item s (msb_bit ?m - 1)" if "msb_bit ?m \<noteq> 0"
  proof -
    have "msb_bit ?m - 1 < 16"
      using last_set_msb_bit(2) [OF len] that by linarith
    moreover have "16 * length pre + msb_bit ?m - 1 = 16 * length pre + (msb_bit ?m - 1)"
      using that by simp
    ultimately show ?thesis
      using assms(2) by (simp add: chosen_def del: One_nat_def)
  qed
  ultimately show ?thesis
    unfolding body_step Let_def by simp
qed

lemma burst_result:
  assumes "is_burst (map snd todo)" and "gs = pre @ todo" and "unat b + sum_list (weights_of (map snd todo)) < 2 ^ 32"
  shows "wrs_run body (replicate 16 b) (chosen gs sel) (todo @ rest) =
    result (chosen gs (reservoir (16 * length pre) (unat b) (zip (weights_of (map snd todo)) (randoms_of (map snd todo))) sel))
      (fst (snd (List.last todo))) # wrs_run body (replicate 16 0) 0x80000000 rest"
  using assms
proof (induction todo arbitrary: pre b sel)
  case (Cons g todo)
  obtain item s W R where g: "g = (item, s, W, R)" by (cases g) auto
  let ?sel = "reservoir (16 * length pre) (unat b) (zip (map unat (lanes W)) (map unat (lanes R))) sel"
  have sum: "unat b + (\<Sum>w \<leftarrow> lanes W. unat w) + sum_list (weights_of (map snd todo)) < 2 ^ 32"
    using Cons.prems(3) by (simp add: g weights_of_simps)
  note step = body_chosen [of b W gs pre item s R todo sel]
  show ?case
  proof (cases "todo = []")
    case True
    with Cons.prems sum step show ?thesis
      by (simp add: g is_burst_def weights_of_simps perfix_sum_step_def partial_sum_step_def Let_def ends_def)
  next
    case False
    with Cons.prems have burst: "is_burst (map snd todo)" and nends: "\<not> ends s"
      by (auto simp: is_burst_def g last_map map_butlast [symmetric])
    have top: "unat (List.last (pps (lanes W))) = (\<Sum>w \<leftarrow> lanes W. unat w)"
      using sum by (intro last_pps) simp_all
    then have b': "unat (b + List.last (pps (lanes W))) = unat b + (\<Sum>w \<leftarrow> lanes W. unat w)"
      using sum by (simp add: unat_word_ariths mod_less)
    have "wrs_run body (replicate 16 (b + List.last (pps (lanes W)))) (chosen gs ?sel) (todo @ rest) =
      result (chosen gs (reservoir (16 * length (pre @ [g])) (unat b + (\<Sum>w \<leftarrow> lanes W. unat w))
          (zip (weights_of (map snd todo)) (randoms_of (map snd todo))) ?sel))
        (fst (snd (List.last todo))) # wrs_run body (replicate 16 0) 0x80000000 rest"
      using Cons.IH [of "pre @ [g]" "b + List.last (pps (lanes W))" ?sel] burst Cons.prems(2) sum b' by simp
    moreover have "reservoir (16 * length pre) (unat b) (zip (weights_of (map snd (g # todo))) (randoms_of (map snd (g # todo)))) sel =
      reservoir (16 * length (pre @ [g])) (unat b + (\<Sum>w \<leftarrow> lanes W. unat w)) (zip (weights_of (map snd todo)) (randoms_of (map snd todo))) ?sel"
      by (simp add: g weights_of_simps zip_append reservoir_append add.commute)
    ultimately show ?thesis
      using Cons.prems(2) step sum nends False
      by (simp add: g perfix_sum_step_def partial_sum_step_def Let_def ends_def top_lane [simplified] map_replicate_const
          del: top_lane)
  qed
qed (simp add: is_burst_def)

lemma bursts_results:
  assumes "\<And>gs. gs \<in> set bursts \<Longrightarrow> is_burst (map snd gs) \<and> sum_list (weights_of (map snd gs)) < 2 ^ 32"
  shows "wrs_run body (replicate 16 0) 0x80000000 (concat bursts) =
    map (\<lambda>gs. result (chosen gs (burst_choice (map snd gs))) (fst (snd (List.last gs)))) bursts"
  using assms
proof (induction bursts)
  case (Cons gs bursts)
  then have "is_burst (map snd gs)" "unat (0 :: u32) + sum_list (weights_of (map snd gs)) < 2 ^ 32" by simp_all
  from burst_result [OF this(1) _ this(2), of gs "[]" None "concat bursts"] Cons show ?case
    by (simp add: chosen_def burst_choice_def)
qed simp

end


section \<open>The samplers\<close>

lemma masked_or: "(x :: u16) AND 0x8000 \<noteq> 0 \<longleftrightarrow> \<not> x AND 0x8000 = 0"
  by simp

interpretation ms: sampler "\<lambda>sel (item, s, m). msample_step sel (s, m)" "\<lambda>item s i. bs_addr (data s) + of_nat i"
  "\<lambda>sel s. \<lparr>data = \<lparr>nvo_vertex = sel, nvo_id = bs_id (data s)\<rparr>, last = last s\<rparr>"
  by unfold_locales (simp add: msample_step_def ends_def Let_def)

interpretation ss: sampler "\<lambda>sel (item, s, m). ssample_step sel (s, m, item)" "\<lambda>item s i. lanes item ! i"
  "\<lambda>sel s. \<lparr>data = \<lparr>nvo_vertex = sel AND 0x7fffffff, nvo_id = bs_id (data s)\<rparr>, last = last s\<rparr>"
  by unfold_locales (simp add: ssample_step_def ends_def Let_def)

text \<open>
  The streams of \<open>kernel.cfg\<close>: the polls of the four kernels find, in order, the groups' weights and
  what the kernels before them have written.
\<close>

definition wrs_connected ::
    "group list \<Rightarrow> weight_item option list \<Rightarrow> (burst_sync pkg \<times> weight_item) option list \<Rightarrow>
     (weight_item \<times> weight_item \<times> weight_item) option list \<Rightarrow> (weight_item \<times> weight_item) option list \<Rightarrow> bool" where
  "wrs_connected gs p1 p2 p3 p4 \<longleftrightarrow>
     arrivals p1 = map (\<lambda>g. fst (snd g)) gs \<and>
     arrivals p2 = zip (map fst gs) (map snd (partial_sum p1)) \<and>
     arrivals p3 = zip (map (\<lambda>g. snd (snd g)) gs) (perfix_sum p2) \<and>
     arrivals p4 = zip (map fst (partial_sum p1)) (scale_weight p3)"

lemma fused_msample:
  "sample_run msample_step sel (zip (map fst gs) (map reservoir_mask_step
     (zip (map (\<lambda>g. fst (snd g)) gs) (map scale_weight_step (zip (map (\<lambda>g. snd (snd g)) gs)
       (perfix_run base (map (\<lambda>g. (fst g, snd (partial_sum_step (fst (snd g))))) gs))))))) =
   wrs_run (\<lambda>sel (item, s, m). msample_step sel (s, m)) base sel (map (Pair ()) gs)"
  by (induction gs arbitrary: sel base) (auto split: prod.split)

lemma fused_ssample:
  "sample_run ssample_step sel (zip (map fst (map snd gs)) (zip (map reservoir_mask_step
     (zip (map (\<lambda>g. fst (snd g)) (map snd gs)) (map scale_weight_step (zip (map (\<lambda>g. snd (snd g)) (map snd gs))
       (perfix_run base (map (\<lambda>g. (fst g, snd (partial_sum_step (fst (snd g))))) (map snd gs))))))) (map fst gs))) =
   wrs_run (\<lambda>sel (item, s, m). ssample_step sel (s, m, item)) base sel gs"
  by (induction gs arbitrary: sel base) (auto split: prod.split)

lemma reservoir_mask_connected:
  assumes "wrs_connected gs p1 p2 p3 p4"
  shows "reservoir_mask p4 = map reservoir_mask_step
     (zip (map (\<lambda>g. fst (snd g)) gs) (map scale_weight_step (zip (map (\<lambda>g. snd (snd g)) gs)
       (perfix_run (replicate 16 0) (map (\<lambda>g. (fst g, snd (partial_sum_step (fst (snd g))))) gs)))))"
proof -
  have "partial_sum p1 = map (\<lambda>g. partial_sum_step (fst (snd g))) gs"
    using assms by (simp add: wrs_connected_def idle_polls)
  moreover have "zip (map fst gs) (map (\<lambda>g. snd (partial_sum_step (fst (snd g)))) gs) =
      map (\<lambda>g. (fst g, snd (partial_sum_step (fst (snd g))))) gs"
    by (induction gs) simp_all
  ultimately show ?thesis
    using assms by (simp add: wrs_connected_def idle_polls NUM_OF_WEIGHTS_def comp_def partial_sum_step_def)
qed

text \<open>The address of the item that a burst selects.\<close>

definition chosen_address :: "group list \<Rightarrow> u32" where
  "chosen_address gs =
     (case burst_choice gs of None \<Rightarrow> 0x80000000
      | Some i \<Rightarrow> bs_addr (data (fst (gs ! (i div 16)))) + of_nat (i mod 16))"

lemma msample_bursts:
  assumes "\<forall>gs \<in> set bursts. is_burst gs \<and> sum_list (weights_of gs) < 2 ^ 32"
    and "wrs_connected (concat bursts) p1 p2 p3 p4"
    and "arrivals p5 = zip (map fst (concat bursts)) (reservoir_mask p4)"
  shows "msample p5 =
    map (\<lambda>gs. \<lparr>data = \<lparr>nvo_vertex = chosen_address gs,
                        nvo_id = bs_id (data (fst (List.last gs)))\<rparr>,
               last = last (fst (List.last gs))\<rparr>) bursts"
proof -
  let ?bursts = "map (map (Pair ())) bursts"
  have all: "concat ?bursts = map (Pair ()) (concat bursts)" by (simp add: map_concat)
  have "msample p5 = wrs_run (\<lambda>sel (item, s, m). msample_step sel (s, m)) (replicate 16 0) 0x80000000 (concat ?bursts)"
    unfolding msample_def sample_loop_eq assms(3) reservoir_mask_connected [OF assms(2)] fused_msample all ..
  also have "\<dots> = map (\<lambda>gs. \<lparr>data = \<lparr>nvo_vertex = ms.chosen gs (burst_choice (map snd gs)),
      nvo_id = bs_id (data (fst (snd (List.last gs))))\<rparr>, last = last (fst (snd (List.last gs)))\<rparr>) ?bursts"
    using assms(1) by (intro ms.bursts_results) (auto simp: comp_def)
  also have "\<dots> = map (\<lambda>gs. \<lparr>data = \<lparr>nvo_vertex = chosen_address gs, nvo_id = bs_id (data (fst (List.last gs)))\<rparr>,
               last = last (fst (List.last gs))\<rparr>) bursts"
  proof -
    have "ms.chosen (map (Pair ()) gs) (burst_choice gs) = chosen_address gs" for gs
      using burst_choice_Some [of gs]
      by (auto simp: ms.chosen_def chosen_address_def case_prod_unfold less_mult_imp_div_less mult.commute split: option.split)
    moreover have "List.last (map (Pair ()) gs) = ((), List.last gs)" if "gs \<in> set bursts" for gs
      using that assms(1) by (auto simp: is_burst_def last_map)
    ultimately show ?thesis by (simp add: comp_def)
  qed
  finally show ?thesis .
qed


text \<open>
  C8: the sampling kernels are one pass of weighted reservoir sampling: however their polls find
  their inputs, \<open>msample\<close> writes exactly one package per burst, in order, with the address of the
  item that \<open>reservoir\<close> selects from the weights and random numbers of the burst (the flag
  \<open>0x80000000\<close> if it selects none) and with the burst's id and \<open>last\<close>, as long as the weights of
  a burst sum to less than \<open>2 ^ 32\<close>.
\<close>

theorem msample_is_reservoir_sampling:
  assumes "\<forall>gs \<in> set bursts. is_burst gs \<and> sum_list (weights_of gs) < 2 ^ 32"
    and "wrs_connected (concat bursts) p1 p2 p3 p4"
    and "arrivals p5 = zip (map fst (concat bursts)) (reservoir_mask p4)"
  shows "msample p5 =
    map (\<lambda>gs. \<lparr>data = \<lparr>nvo_vertex = chosen_address gs, nvo_id = bs_id (data (fst (List.last gs)))\<rparr>,
               last = last (fst (List.last gs))\<rparr>) bursts"
  using assms by (rule msample_bursts)

text \<open>\<open>ssample\<close> returns the chosen lane of the items it reads, without its top bit.\<close>

definition chosen_item :: "(weight_item \<times> group) list \<Rightarrow> u32" where
  "chosen_item gs =
     (case burst_choice (map snd gs) of None \<Rightarrow> 0x80000000 | Some i \<Rightarrow> lanes (fst (gs ! (i div 16))) ! (i mod 16))"

lemma ssample_bursts:
  assumes "\<forall>gs \<in> set bursts. is_burst (map snd gs) \<and> sum_list (weights_of (map snd gs)) < 2 ^ 32"
    and "wrs_connected (map snd (concat bursts)) p1 p2 p3 p4"
    and "arrivals p5 = zip (map fst (map snd (concat bursts))) (zip (reservoir_mask p4) (map fst (concat bursts)))"
  shows "ssample p5 =
    map (\<lambda>gs. \<lparr>data = \<lparr>nvo_vertex = chosen_item gs AND 0x7fffffff, nvo_id = bs_id (data (fst (snd (List.last gs))))\<rparr>,
               last = last (fst (snd (List.last gs)))\<rparr>) bursts"
proof -
  have "ssample p5 = wrs_run (\<lambda>sel (item, s, m). ssample_step sel (s, m, item)) (replicate 16 0) 0x80000000 (concat bursts)"
    unfolding ssample_def sample_loop_eq assms(3) reservoir_mask_connected [OF assms(2)] fused_ssample ..
  also have "\<dots> = map (\<lambda>gs. \<lparr>data = \<lparr>nvo_vertex = ss.chosen gs (burst_choice (map snd gs)) AND 0x7fffffff,
      nvo_id = bs_id (data (fst (snd (List.last gs))))\<rparr>, last = last (fst (snd (List.last gs)))\<rparr>) bursts"
    using assms(1) by (intro ss.bursts_results) blast
  finally show ?thesis
    by (simp add: ss.chosen_def chosen_item_def case_prod_unfold Let_def)
qed

lemma reservoir_zeros: "reservoir i acc (replicate n (0, r)) sel = sel"
  by (induction n arbitrary: i) simp_all

text \<open>One burst of one group whose first item has weight 3, the others 0, with an idle poll.\<close>

definition one_group :: group where
  "one_group = (\<lparr>data = \<lparr>bs_addr = 32, bs_id = 7, bs_burst_id = 0x8000, bs_dynamic_id = 0, bs_state = 0\<rparr>, last = True\<rparr>,
     pack_lanes (3 # replicate 15 0), pack_lanes (replicate 16 5))"

lemma one_group_burst: "is_burst [one_group]" "weights_of [one_group] = 3 # replicate 15 0"
  "randoms_of [one_group] = replicate 16 5" "burst_choice [one_group] = Some 0"
proof -
  show w: "weights_of [one_group] = 3 # replicate 15 0" and r: "randoms_of [one_group] = replicate 16 5"
    by (simp_all add: weights_of_def randoms_of_def one_group_def)
  have "zip (3 # replicate 15 (0 :: nat)) (replicate (Suc 15) 5) = (3, 5 :: nat) # replicate 15 (0, 5)"
    by (simp only: replicate_Suc zip_Cons_Cons zip_replicate) simp
  then have "zip (3 # replicate 15 (0 :: nat)) (replicate 16 5) = (3, 5 :: nat) # replicate 15 (0, 5)" by simp
  then show "burst_choice [one_group] = Some 0"
    unfolding burst_choice_def w r by (simp add: reservoir_zeros)
qed (simp add: is_burst_def ends_def one_group_def)

text \<open>Inputs that connect the kernels exist for all groups.\<close>

lemma connected_inputs:
  obtains p1 p2 p3 p4 p5 where "wrs_connected gs p1 p2 p3 p4"
    and "arrivals p5 = zip (map fst gs) (reservoir_mask p4)"
proof -
  define p1 where "p1 = None # map Some (map (\<lambda>g. fst (snd g)) gs)"
  define p2 where "p2 = map Some (zip (map fst gs) (map snd (partial_sum p1)))"
  define p3 where "p3 = map Some (zip (map (\<lambda>g. snd (snd g)) gs) (perfix_sum p2))"
  define p4 where "p4 = None # map Some (zip (map fst (partial_sum p1)) (scale_weight p3))"
  have "wrs_connected gs p1 p2 p3 p4"
    unfolding wrs_connected_def by (simp add: p1_def p2_def p3_def p4_def del: map_map)
  then show ?thesis
    using that [of p1 p2 p3 p4 "map Some (zip (map fst gs) (reservoir_mask p4))"] by simp
qed

lemma one_group_bursts: "\<forall>gs \<in> set [[one_group]]. is_burst gs \<and> sum_list (weights_of gs) < 2 ^ 32"
  by (simp add: one_group_burst sum_list_replicate)

lemma one_group_address: "chosen_address [one_group] = 32"
  by (simp add: chosen_address_def one_group_burst) (simp add: one_group_def)

theorem msample_is_reservoir_sampling_witness:
  "\<exists>p1 p2 p3 p4 p5. wrs_connected [one_group] p1 p2 p3 p4 \<and>
     arrivals p5 = zip (map fst [one_group]) (reservoir_mask p4) \<and>
     msample p5 = [\<lparr>data = \<lparr>nvo_vertex = 32, nvo_id = 7\<rparr>, last = True\<rparr>]"
proof -
  obtain p1 p2 p3 p4 p5 where wired: "wrs_connected (concat [[one_group]]) p1 p2 p3 p4"
    "arrivals p5 = zip (map fst (concat [[one_group]])) (reservoir_mask p4)"
    by (rule connected_inputs)
  from msample_is_reservoir_sampling [OF one_group_bursts this]
  have "msample p5 = [\<lparr>data = \<lparr>nvo_vertex = 32, nvo_id = 7\<rparr>, last = True\<rparr>]"
    by (simp add: one_group_address) (simp add: one_group_def)
  with wired show ?thesis
    by (intro exI [of _ p1] exI [of _ p2] exI [of _ p3] exI [of _ p4] exI [of _ p5]) simp
qed

section \<open>What the selection is\<close>

text \<open>How many random numbers let an item of weight \<open>w\<close> replace the selection.\<close>

lemma card_words_less: "n \<le> 2 ^ LENGTH('a) \<Longrightarrow> card {r :: 'a::len word. unat r < n} = n"
proof -
  assume n: "n \<le> 2 ^ LENGTH('a)"
  have "bij_betw unat {r :: 'a word. unat r < n} {..<n}"
  proof (rule bij_betw_byWitness [where f' = of_nat])
    show "of_nat ` {..<n} \<subseteq> {r :: 'a word. unat r < n}"
      using n by (auto simp: unat_of_nat mod_less)
    show "\<forall>k \<in> {..<n}. unat (of_nat k :: 'a word) = k"
      using n by (auto simp: unat_of_nat mod_less)
  qed auto
  then show ?thesis
    using bij_betw_same_card by fastforce
qed

lemma scale_accepts_iff:
  assumes "unat p + unat b = tot" and "tot < 2 ^ 32" and "0 < tot"
  shows "scale_lane r p b < w \<longleftrightarrow> unat r < (unat w * 2 ^ 32 + tot - 1) div tot"
proof -
  have "scale_lane r p b < w \<longleftrightarrow> unat r * tot div 2 ^ 32 < unat w"
    using assms by (simp add: word_less_nat_alt unat_scale_lane)
  also have "\<dots> \<longleftrightarrow> unat r * tot < unat w * 2 ^ 32"
    by (simp add: div_less_iff_less_mult)
  also have "\<dots> \<longleftrightarrow> (unat r + 1) * tot \<le> unat w * 2 ^ 32 + tot - 1"
    using assms(3) by (simp add: algebra_simps) linarith
  also have "\<dots> \<longleftrightarrow> unat r + 1 \<le> (unat w * 2 ^ 32 + tot - 1) div tot"
    using assms(3) by (rule less_eq_div_iff_mult_less_eq [symmetric])
  finally show ?thesis
    by (simp only: Suc_eq_plus1 [symmetric] Suc_le_eq)
qed

text \<open>
  The acceptance probability is the weight's share of the sum so far, up to \<open>2 ^ -32\<close>: of the
  \<open>2 ^ 32\<close> random numbers exactly \<open>\<lceil>w * 2 ^ 32 / tot\<rceil>\<close> let an item of weight \<open>w\<close> replace the
  selection, where \<open>tot\<close> is the sum of the weights up to and with it.
\<close>

theorem acceptance_count:
  assumes "unat base_sum + unat partial = tot" and "tot < 2 ^ 32" and "unat w \<le> tot" and "0 < tot"
  shows "card {rng. scale_lane rng base_sum partial < w} = (unat w * 2 ^ 32 + tot - 1) div tot \<and>
    unat w * 2 ^ 32 \<le> card {rng. scale_lane rng base_sum partial < w} * tot \<and>
    card {rng. scale_lane rng base_sum partial < w} * tot < unat w * 2 ^ 32 + tot"
proof -
  let ?c = "(unat w * 2 ^ 32 + tot - 1) div tot"
  have "unat w * 2 ^ 32 + tot - 1 < (2 ^ 32 + 1) * tot"
    using assms(3,4) by (simp add: algebra_simps)
  then have "?c < 2 ^ 32 + 1"
    by (rule less_mult_imp_div_less)
  then have "card {rng. scale_lane rng base_sum partial < w} = ?c"
    using card_words_less [of ?c, where 'a = 32] assms by (simp add: scale_accepts_iff)
  moreover have "unat w * 2 ^ 32 \<le> ?c * tot" "?c * tot < unat w * 2 ^ 32 + tot"
    using assms(4) div_mult_mod_eq [of "unat w * 2 ^ 32 + tot - 1" tot]
      mod_less_divisor [of tot "unat w * 2 ^ 32 + tot - 1"] by linarith+
  ultimately show ?thesis by simp
qed

theorem acceptance_count_witness: "card {rng. scale_lane rng 1 2 < 1} = 1431655766"
  using acceptance_count [of 1 2 3 1] by simp

text \<open>
  C35: \<open>msample\<close> only ever returns an item of positive weight, and the flag exactly for the bursts
  whose weights are all 0.
\<close>

theorem msample_returns_weighted_item:
  assumes "\<forall>gs \<in> set bursts. is_burst gs \<and> sum_list (weights_of gs) < 2 ^ 32"
    and "wrs_connected (concat bursts) p1 p2 p3 p4"
    and "arrivals p5 = zip (map fst (concat bursts)) (reservoir_mask p4)"
    and "k < length bursts" and "gs = bursts ! k" and "v = nvo_vertex (data (msample p5 ! k))"
  shows "length (msample p5) = length bursts \<and>
    (if \<forall>w \<in> set (weights_of gs). w = 0 then v = 0x80000000
     else \<exists>i < 16 * length gs. 0 < weights_of gs ! i \<and>
       v = bs_addr (data (fst (gs ! (i div 16)))) + of_nat (i mod 16))"
proof -
  have "v = chosen_address gs" and "length (msample p5) = length bursts"
    using assms(4-6) by (simp_all add: msample_bursts [OF assms(1-3)])
  then show ?thesis
    using burst_choice_None [of gs] burst_choice_Some [of gs]
    by (cases "burst_choice gs") (auto simp: chosen_address_def)
qed

theorem msample_returns_weighted_item_witness:
  "\<exists>p1 p2 p3 p4 p5. wrs_connected [one_group] p1 p2 p3 p4 \<and>
     arrivals p5 = zip (map fst [one_group]) (reservoir_mask p4) \<and>
     length (msample p5) = 1 \<and> nvo_vertex (data (msample p5 ! 0)) = 32"
proof -
  obtain p1 p2 p3 p4 p5 where wired: "wrs_connected (concat [[one_group]]) p1 p2 p3 p4"
    "arrivals p5 = zip (map fst (concat [[one_group]])) (reservoir_mask p4)"
    by (rule connected_inputs)
  have some: "\<not> (\<forall>w \<in> set (3 # replicate 15 (0 :: nat)). w = 0)" by simp
  from msample_returns_weighted_item [OF one_group_bursts wired, of 0 "[one_group]", OF _ _ refl] some
  obtain i where "length (msample p5) = 1" "0 < (3 # replicate 15 (0 :: nat)) ! i" "i < 16"
    "nvo_vertex (data (msample p5 ! 0)) = bs_addr (data (fst ([one_group] ! (i div 16)))) + of_nat (i mod 16)"
    unfolding one_group_burst by auto
  moreover from this have "i = 0" by (cases i) (simp_all add: nth_Cons')
  ultimately have "length (msample p5) = 1 \<and> nvo_vertex (data (msample p5 ! 0)) = 32" by (simp add: one_group_def)
  with wired show ?thesis
    by (intro exI [of _ p1] exI [of _ p2] exI [of _ p3] exI [of _ p4] exI [of _ p5]) simp
qed

end
