(* ===== verification/Metapath.thy ===== *)
theory Metapath
  imports Burst_Read Reservoir
begin

text \<open>
  A step of a metapath walk (\<open>app/metapath\<close>): the scheduler \<open>vd_scheduler\<close> numbers the lists of
  neighbours and chooses how each is read, the engines read it, \<open>label_filter\<close> gives weight 1 to the
  neighbours with the label of the query's state, and the sampler selects one of them.
\<close>

section \<open>vd\_scheduler\<close>

text \<open>\<open>vertex_descriptor_with_state_t\<close>: the fields the kernel reads.\<close>

record vertex_descriptor =
  vd_start :: u32
  vd_size :: u32

text \<open>
  \<open>sync_id_gen_instance\<close> and \<open>sync_burst_gen\<close> write the identifier and step to the next one; a stream
  they feed is represented by the identifier it supplies next.
\<close>

definition sync_id_next :: "u16 \<Rightarrow> u16" where
  "sync_id_next i = (i + 1) AND 0x7fff"

datatype scheduled = Update "next_vertex_ordered pkg" | Single_Burst "burst_cmd pkg"
  | Dynamic_Burst "vertex_descriptor_ordered pkg"

text \<open>One iteration, given the identifiers it reads; the flag says whether it reads a burst id.\<close>

definition vd_scheduler_step :: "u16 \<Rightarrow> u16 \<Rightarrow> vertex_descriptor pkg \<times> u16 \<Rightarrow> scheduled \<times> bool" where
  "vd_scheduler_step sync_id burst_id inp =
     (case inp of (pkg, state') \<Rightarrow>
        let start = vd_start (data pkg); size = vd_size (data pkg);
            start_addr = start AND 0xfffffff0;
            end' = start + size - 1;
            exclusive_end = start + size;
            end_addr = end' AND 0xfffffff0
        in if size = 0
           then (Update \<lparr>data = \<lparr>nvo_vertex = 0x80000000, nvo_id = sync_id\<rparr>, last = last pkg\<rparr>, False)
           else if start_addr = end_addr
           then (Single_Burst (burst_cmd_gen start_addr 1 start exclusive_end sync_id (burst_id AND 0x7fff) 0x8000
                   (last pkg) state'), True)
           else (Dynamic_Burst \<lparr>data = \<lparr>vdo_start = start, vdo_size = size, vdo_id = sync_id,
                     vdo_burst_id = burst_id AND 0x7fff, vdo_state = state'\<rparr>, last = last pkg\<rparr>, True))"

text \<open>The two packages that stop the engines.\<close>

definition single_stop :: "burst_cmd pkg" where
  "single_stop = burst_cmd_gen 0 1 0 0 0x8000 0x8000 0x8000 True 0"

definition dynamic_stop :: "vertex_descriptor_ordered pkg" where
  "dynamic_stop = \<lparr>data = \<lparr>vdo_start = 0, vdo_size = (DYNAMIC_BURST_MAX_LENGTH + 1) * 16, vdo_id = 0x8000,
     vdo_burst_id = 0x8000, vdo_state = 0\<rparr>, last = True\<rparr>"

text \<open>The kernel over the packages it finds.\<close>

fun vd_scheduler :: "u16 \<Rightarrow> u16 \<Rightarrow> (vertex_descriptor pkg \<times> u16) list \<Rightarrow> scheduled list" where
  "vd_scheduler sync_id burst_id [] = []"
| "vd_scheduler sync_id burst_id (x # ins) =
     (let (out, reads_burst_id) = vd_scheduler_step sync_id burst_id x
      in out # (if last (fst x) then [Single_Burst single_stop, Dynamic_Burst dynamic_stop] else [])
           @ vd_scheduler (sync_id_next sync_id) (if reads_burst_id then sync_id_next burst_id else burst_id) ins)"

section \<open>The rows of a list\<close>

text \<open>What the engines write for a package of the scheduler; \<open>d\<close> is the next dynamic identifier.\<close>

definition scheduled_rows :: "(u32 \<Rightarrow> weight_item) \<Rightarrow> u16 \<Rightarrow> scheduled \<Rightarrow> (burst_sync pkg \<times> weight_item) list" where
  "scheduled_rows mem d out =
     (case out of Update _ \<Rightarrow> []
      | Single_Burst c \<Rightarrow> single_burst mem c
      | Dynamic_Burst v \<Rightarrow> (case cmd_generator d v of None \<Rightarrow> [] | Some (cmds, _) \<Rightarrow> list_rows mem cmds))"

text \<open>Address, end-of-burst flag, state and identifier of a row.\<close>

definition row_info :: "burst_sync pkg \<times> weight_item \<Rightarrow> u32 \<times> bool \<times> u16 \<times> u16" where
  "row_info r = (let s = data (fst r) in (bs_addr s, ends (fst r), bs_state s, bs_id s))"

definition rows_info :: "nat \<Rightarrow> nat \<Rightarrow> nat \<Rightarrow> u16 \<Rightarrow> u16 \<Rightarrow> (u32 \<times> bool \<times> u16 \<times> u16) list" where
  "rows_info c n e st i = map (\<lambda>j. (of_nat (c + 16 * j), c + 16 * j + 16 = e, st, i)) [0..<n]"

lemma rows_info_append: "rows_info c n e st i @ rows_info (c + 16 * n) m e st i = rows_info c (n + m) e st i"
proof -
  have "[0..<n + m] = [0..<n] @ map (\<lambda>j. n + j) [0..<m]"
    using upt_add_eq_append [of 0 n m] map_add_upt [of n m] by (simp add: add.commute)
  then show ?thesis by (simp add: rows_info_def algebra_simps)
qed

lemma flag_clear: "(b AND 0x7fff) AND 0x8000 = (0 :: u16)"
  by (simp add: and.assoc)

lemma push_bit_4: "push_bit 4 (of_nat j :: u32) = of_nat (16 * j)"
  by (simp add: push_bit_eq_mult mult.commute)

lemma info_32:
  assumes "unat (bc_addr (data c)) = a" and "end_flag c \<longleftrightarrow> a + 512 = e" and "a + 512 \<le> e"
  shows "map row_info (dynamic_burst_32 mem c) = rows_info a 32 e (bc_state (data c)) (bc_id (data c))"
proof -
  have addr: "bc_addr (data c) = of_nat a" using assms(1) by (rule word_eq_of_unat)
  have "row_info (\<lparr>data = \<lparr>bs_addr = bc_addr (data c) + push_bit 4 (of_nat j), bs_id = bc_id (data c),
        bs_burst_id = (if j = 32 - 1 then bc_burst_id (data c) else bc_burst_id (data c) AND 0x7fff),
        bs_dynamic_id = (if j = 32 - 1 then bc_dynamic_id (data c) OR 0x8000 else bc_dynamic_id (data c)),
        bs_state = bc_state (data c)\<rparr>, last = last c\<rparr>, w) =
      (of_nat (a + 16 * j), a + 16 * j + 16 = e, bc_state (data c), bc_id (data c))" if "j < 32" for j w
  proof (cases "j = 31")
    case True
    with assms(2) show ?thesis
      by (simp add: row_info_def ends_def end_flag_def addr push_bit_4 add.commute)
  next
    case False
    with that have "j < 31" by simp
    then have "a + 16 * j + 16 \<noteq> e" using assms(3) by linarith
    then show ?thesis using False
      by (simp add: row_info_def ends_def addr push_bit_4 flag_clear)
  qed
  then show ?thesis
    unfolding dynamic_burst_32_def rows_info_def Let_def map_map comp_def DYNAMIC_BURST_MAX_LENGTH_def
    by (intro map_cong) simp_all
qed

lemma info_1:
  assumes "unat (bc_addr (data c)) = a"
  shows "end_flag c \<longleftrightarrow> a + 16 = e \<Longrightarrow>
      map row_info (dynamic_burst_1 mem c) = rows_info a 1 e (bc_state (data c)) (bc_id (data c))"
    and "map row_info (single_burst mem c) = rows_info a 1 (a + 16) (bc_state (data c)) (bc_id (data c))"
proof -
  have addr: "bc_addr (data c) = of_nat a" using assms(1) by (rule word_eq_of_unat)
  have set: "(b OR 0x8000) AND 0x8000 \<noteq> (0 :: u16)" for b
    by (simp only: bit_15) (simp add: bit_or_iff)
  show "end_flag c \<longleftrightarrow> a + 16 = e \<Longrightarrow>
      map row_info (dynamic_burst_1 mem c) = rows_info a 1 e (bc_state (data c)) (bc_id (data c))"
    by (simp add: dynamic_burst_1_def rows_info_def row_info_def Let_def ends_def end_flag_def addr)
  show "map row_info (single_burst mem c) = rows_info a 1 (a + 16) (bc_state (data c)) (bc_id (data c))"
    using set by (simp add: single_burst_def rows_info_def row_info_def Let_def ends_def addr)
qed


lemma list_rows_info:
  assumes "list_end (data pkg) + 512 \<le> 2 ^ 32"
    and "cmds = commands pkg (vdo_start (data pkg) + vdo_size (data pkg)) (of_nat (word_end (data pkg))) d
      (plan (word_start (data pkg)) (word_end (data pkg)))"
  shows "map row_info (list_rows mem cmds) = rows_info (word_start (data pkg))
    ((word_end (data pkg) - word_start (data pkg)) div 16) (word_end (data pkg)) (vdo_state (data pkg)) (vdo_id (data pkg))"
proof -
  let ?vd = "data pkg"
  let ?e = "word_end ?vd"
  note words = list_words [of ?vd]
  note e = cmd_generator_plan(2) [OF assms(1)]
  have "map row_info (list_rows mem (commands pkg (vdo_start ?vd + vdo_size ?vd) (of_nat ?e) d (plan c ?e))) =
      rows_info c ((?e - c) div 16) ?e (vdo_state ?vd) (vdo_id ?vd)"
    if "c \<le> ?e" "16 dvd c" "16 dvd ?e" for c
    using that
  proof (induction arbitrary: d rule: plan_induct)
    case (more c long)
    define n where "n = width long div 16"
    then have n: "width long = 16 * n" by (simp add: width_def)
    let ?cmd = "fst (send_dynamic_cmd (if long then 32 else 1) pkg (vdo_start ?vd + vdo_size ?vd) (of_nat ?e) d (of_nat c))"
    note f = command_fields(1,5,9,10) [OF more(4) e refl]
    have head: "map row_info (if long then dynamic_burst_32 mem ?cmd else dynamic_burst_1 mem ?cmd) =
        rows_info c n ?e (vdo_state ?vd) (vdo_id ?vd)"
      using f more(4) info_32 [of ?cmd c ?e mem] info_1(1) [of ?cmd c ?e mem]
      by (cases long) (simp_all add: width_def n_def)
    have "(?e - c) div 16 = n + (?e - (c + 16 * n)) div 16"
    proof -
      have "?e - c = (?e - (c + 16 * n)) + 16 * n" using more(4) n by simp
      then show ?thesis by (simp only: div_mult_self2 [of 16])
    qed
    then show ?case
      using more(6) [of "next_dynamic_id pkg d"] head rows_info_append [of c n ?e _ _ "(?e - (c + 16 * n)) div 16"]
      by (simp add: more(3) list_rows_def n split: if_splits)
  qed (simp add: list_rows_def rows_info_def)
  from this [OF words(8,6,7)] show ?thesis by (simp add: assms(2))
qed

section \<open>What the label filter selects\<close>

text \<open>The list a package of the scheduler stands for.\<close>

definition neighbour_list :: "u16 \<Rightarrow> u16 \<Rightarrow> vertex_descriptor pkg \<times> u16 \<Rightarrow> vertex_descriptor_ordered pkg" where
  "neighbour_list i b inp = \<lparr>data = \<lparr>vdo_start = vd_start (data (fst inp)), vdo_size = vd_size (data (fst inp)),
     vdo_id = i, vdo_burst_id = b AND 0x7fff, vdo_state = snd inp\<rparr>, last = last (fst inp)\<rparr>"

lemma scheduler_cases:
  assumes "vd = data (neighbour_list i b inp)" and "list_end vd < 2 ^ 32" and "list_start vd < list_end vd"
  shows "fst (vd_scheduler_step i b inp) =
    (if word_end vd = word_start vd + 16
     then Single_Burst (burst_cmd_gen (of_nat (word_start vd)) 1 (vdo_start vd) (of_nat (list_end vd)) i (b AND 0x7fff) 0x8000
       (last (fst inp)) (snd inp))
     else Dynamic_Burst (neighbour_list i b inp))"
proof -
  let ?s = "vd_start (data (fst inp))" and ?n = "vd_size (data (fst inp))"
  note words = list_words [of vd]
  have sn: "list_start vd = unat ?s" "list_end vd = unat ?s + unat ?n"
    using assms(1) by (simp_all add: list_start_def list_end_def neighbour_list_def)
  have ne: "?n \<noteq> 0" using assms(3) sn by auto
  have t: "unat (?s + ?n) = list_end vd"
    using assms(2) sn by (simp add: unat_word_ariths mod_less)
  then have t1: "unat (?s + ?n - 1) = list_end vd - 1"
    using assms(3) by (cases "?s + ?n = 0") (simp_all add: unat_minus_one)
  have "unat ((?s + ?n - 1) AND 0xfffffff0) = 16 * ((list_end vd - 1) div 16)"
    unfolding unat_align t1 ..
  moreover have s: "unat (?s AND 0xfffffff0) = word_start vd"
    unfolding unat_align by (simp add: word_start_def sn)
  moreover have "16 * ((list_end vd - 1) div 16) + 16 = word_end vd"
  proof -
    have "list_end vd + 15 = (list_end vd - 1) + 16" using assms(3) by simp
    then show ?thesis by (simp only: word_end_def round_up_def div_add_self2) simp
  qed
  ultimately have "(?s AND 0xfffffff0 = (?s + ?n - 1) AND 0xfffffff0) = (word_end vd = word_start vd + 16)"
    by (simp add: word_unat_eq_iff) linarith
  moreover have "?s AND 0xfffffff0 = of_nat (word_start vd)" "?s + ?n = of_nat (list_end vd)"
    using s t by (auto intro: word_eq_of_unat)
  ultimately show ?thesis
    using ne assms(1) by (cases inp) (simp add: vd_scheduler_step_def Let_def neighbour_list_def)
qed

text \<open>The rows of a scheduled list: its entries, padded, with the row addresses and one end flag.\<close>

lemma scheduled_list:
  assumes "vd = data (neighbour_list i b inp)" and "list_end vd + 512 \<le> 2 ^ 32" and "list_start vd < list_end vd"
    and "no_masked_burst vd" and "rows = scheduled_rows mem d (fst (vd_scheduler_step i b inp))"
  shows "concat (map (lanes \<circ> snd) rows) = masked_entries mem (list_start vd) (list_end vd) (word_start vd) (word_end vd)"
    and "map row_info rows = rows_info (word_start vd) ((word_end vd - word_start vd) div 16) (word_end vd) (snd inp) i"
proof -
  note words = list_words [of vd]
  have "list_end vd < 2 ^ 32" using assms(2) by simp
  note sched = scheduler_cases [OF assms(1) this assms(3)]
  have sid: "vdo_state vd = snd inp" "vdo_id vd = i" using assms(1) by (simp_all add: neighbour_list_def)
  have "concat (map (lanes \<circ> snd) rows) = masked_entries mem (list_start vd) (list_end vd) (word_start vd) (word_end vd) \<and>
    map row_info rows = rows_info (word_start vd) ((word_end vd - word_start vd) div 16) (word_end vd) (snd inp) i"
  proof (cases "word_end vd = word_start vd + 16")
    case True
    define c where "c = burst_cmd_gen (of_nat (word_start vd)) 1 (vdo_start vd) (of_nat (list_end vd)) i (b AND 0x7fff) 0x8000
       (last (fst inp)) (snd inp)"
    have rows: "rows = single_burst mem c"
      using True by (simp add: assms(5) sched scheduled_rows_def c_def)
    have c: "unat (bc_addr (data c)) = word_start vd" "unat (bc_start (data c)) = list_start vd"
      "unat (bc_end (data c)) = list_end vd" "bc_state (data c) = snd inp" "bc_id (data c) = i"
      using assms(2) words(1,3) by (simp_all add: c_def burst_cmd_gen_def unat_of_nat list_start_def)
    show ?thesis
      using short_read(2) [of c mem] info_1(2) [OF c(1), of mem] c words assms(2) True
      by (simp add: rows Let_def)
  next
    case False
    let ?pkg = "neighbour_list i b inp"
    have "rows = list_rows mem (fst (the (cmd_generator d ?pkg)))"
      using False cmd_generator_plan(1) [OF assms(2) [unfolded assms(1)]]
      by (simp add: assms(5) sched scheduled_rows_def Let_def)
    moreover obtain cmds d' where gen: "cmd_generator d ?pkg = Some (cmds, d')"
      "concat (map (lanes \<circ> snd) (list_rows mem cmds)) = masked_entries mem (list_start vd) (list_end vd) (word_start vd) (word_end vd)"
      using list_rows_read [of ?pkg d mem] assms(1,2,4) by auto
    moreover have "map row_info (list_rows mem cmds) =
        rows_info (word_start vd) ((word_end vd - word_start vd) div 16) (word_end vd) (snd inp) i"
      using list_rows_info [OF assms(2) [unfolded assms(1)], of cmds d mem] gen(1)
        cmd_generator_plan(1) [OF assms(2) [unfolded assms(1)], of d]
      by (simp add: Let_def sid flip: assms(1))
    ultimately show ?thesis by simp
  qed
  then show "concat (map (lanes \<circ> snd) rows) = masked_entries mem (list_start vd) (list_end vd) (word_start vd) (word_end vd)"
    and "map row_info rows = rows_info (word_start vd) ((word_end vd - word_start vd) div 16) (word_end vd) (snd inp) i"
    by simp_all
qed

text \<open>The groups the sampler sees: filtered rows with their random numbers.\<close>

definition filtered :: "(burst_sync pkg \<times> weight_item) list \<Rightarrow> weight_item list \<Rightarrow> group list" where
  "filtered rows rs = map (\<lambda>(row, r). (fst (label_filter_step row), snd (label_filter_step row), r)) (zip rows rs)"

lemma lanes_label_filter:
  "lanes (snd (label_filter_step r)) = map (\<lambda>x. if x = ucast (bs_state (data (fst r))) then 1 else 0) (lanes (snd r))"
  by (rule nth_equalityI)
    (simp_all add: label_filter_step_def split_beta lanes_pack [OF nth_numbers(2)] nth_numbers NUM_OF_WEIGHTS_def)

lemma weights_filtered:
  assumes "length rs = length rows" and "\<forall>r \<in> set rows. bs_state (data (fst r)) = st"
  shows "weights_of (filtered rows rs) = map (\<lambda>x. if x = ucast st then 1 else 0) (concat (map (lanes \<circ> snd) rows))"
  using assms
  by (induction rows rs rule: list_induct2') (auto simp: filtered_def weights_of_simps lanes_label_filter)

lemma is_burstI:
  assumes "gs \<noteq> []" and "\<And>j. j < length gs \<Longrightarrow> ends (fst (gs ! j)) \<longleftrightarrow> Suc j = length gs"
  shows "is_burst gs"
proof -
  have "ends (fst (List.last gs))"
    using assms(2) [of "length gs - 1"] assms(1) by (simp add: last_conv_nth)
  moreover have "\<not> ends (fst g)" if "g \<in> set (butlast gs)" for g
  proof -
    from that obtain j where "j < length gs - 1" "g = gs ! j"
      by (auto simp: in_set_conv_nth nth_butlast)
    with assms(2) [of j] show ?thesis by simp
  qed
  ultimately show ?thesis using assms(1) by (simp add: is_burst_def)
qed

text \<open>A request of the walk: identifiers, the list and its state, the random numbers of its rows.\<close>

type_synonym request = "u16 \<times> u16 \<times> u16 \<times> (vertex_descriptor pkg \<times> u16) \<times> weight_item list"

definition request_list :: "request \<Rightarrow> vertex_descriptor_ordered" where
  "request_list q = (case q of (i, b, d, inp, rs) \<Rightarrow> data (neighbour_list i b inp))"

definition request_groups :: "(u32 \<Rightarrow> weight_item) \<Rightarrow> request \<Rightarrow> group list" where
  "request_groups mem q =
     (case q of (i, b, d, inp, rs) \<Rightarrow> filtered (scheduled_rows mem d (fst (vd_scheduler_step i b inp))) rs)"

definition request_ok :: "(u32 \<Rightarrow> weight_item) \<Rightarrow> request \<Rightarrow> bool" where
  "request_ok mem q =
     (case q of (i, b, d, inp, rs) \<Rightarrow>
        length rs = length (scheduled_rows mem d (fst (vd_scheduler_step i b inp))) \<and>
        list_start (request_list q) < list_end (request_list q) \<and> list_end (request_list q) + 512 \<le> 2 ^ 32 \<and>
        no_masked_burst (request_list q) \<and> snd inp \<noteq> 0)"

definition labelled :: "(u32 \<Rightarrow> weight_item) \<Rightarrow> request \<Rightarrow> nat \<Rightarrow> bool" where
  "labelled mem q x \<longleftrightarrow> list_start (request_list q) \<le> x \<and> x < list_end (request_list q) \<and>
     entry mem x = ucast (vdo_state (request_list q))"

lemma request_burst:
  assumes "request_ok mem q" and "gs = request_groups mem q"
  shows "is_burst gs" and "sum_list (weights_of gs) < 2 ^ 32" and "bs_id (data (fst (List.last gs))) = fst q"
    and "chosen_address gs = 0x80000000 \<and> (\<nexists>x. labelled mem q x) \<or> (\<exists>x. labelled mem q x \<and> chosen_address gs = of_nat x)"
proof -
  obtain i b d inp rs where q: "q = (i, b, d, inp, rs)" by (cases q) auto
  define rows where "rows = scheduled_rows mem d (fst (vd_scheduler_step i b inp))"
  define vd where "vd = data (neighbour_list i b inp)"
  have ok: "length rs = length rows" "list_start vd < list_end vd" "list_end vd + 512 \<le> 2 ^ 32" "no_masked_burst vd"
    "snd inp \<noteq> 0" and vd: "request_list q = vd"
    using assms(1) by (simp_all add: request_ok_def request_list_def q rows_def vd_def)
  have gs: "gs = filtered rows rs" using assms(2) by (simp add: request_groups_def q rows_def)
  note words = list_words [of vd]
  note rows = scheduled_list [OF vd_def ok(3,2,4) rows_def]
  define n where "n = (word_end vd - word_start vd) div 16"
  have e: "word_end vd = word_start vd + 16 * n"
    using words(6-8) unfolding n_def by (auto elim!: dvdE)
  have n: "0 < n" using e ok(2) words(1,4) by (cases n) auto
  have len: "length rows = n" using arg_cong [OF rows(2), of length] by (simp add: rows_info_def n_def)
  then have len_gs: "length gs = n" using ok(1) by (simp add: gs filtered_def)
  have info: "row_info (rows ! j) = (of_nat (word_start vd + 16 * j), Suc j = n, snd inp, i)" if "j < n" for j
  proof -
    have "row_info (rows ! j) = map row_info rows ! j" using that len by simp
    also have "\<dots> = (of_nat (word_start vd + 16 * j), Suc j = n, snd inp, i)"
      unfolding rows(2) using that by (simp add: rows_info_def flip: n_def) (auto simp: e)
    finally show ?thesis .
  qed
  have fst_gs: "fst (gs ! j) = fst (rows ! j)" if "j < n" for j
    using that len ok(1) by (simp add: gs filtered_def split_beta label_filter_step_def)
  have "bs_state (data (fst r)) = snd inp" if "r \<in> set rows" for r
  proof -
    from that len obtain j where "j < n" "r = rows ! j" by (auto simp: in_set_conv_nth)
    with info [of j] show ?thesis by (simp add: row_info_def Let_def)
  qed
  then have weights: "weights_of gs =
      map (\<lambda>x. if x = ucast (snd inp) then 1 else 0) (masked_entries mem (list_start vd) (list_end vd) (word_start vd) (word_end vd))"
    unfolding gs using weights_filtered [OF ok(1), of "snd inp"] rows(1) by simp
  show "is_burst gs"
    using n len_gs info fst_gs by (intro is_burstI) (auto simp: row_info_def Let_def)
  have "sum_list (map (\<lambda>x. if P x then 1 else 0 :: nat) xs) \<le> length xs" for P :: "u32 \<Rightarrow> bool" and xs
    by (induction xs) auto
  then have "sum_list (weights_of gs) \<le>
      length (masked_entries mem (list_start vd) (list_end vd) (word_start vd) (word_end vd))"
    unfolding weights .
  then have "sum_list (weights_of gs) \<le> word_end vd - word_start vd"
    by (simp add: masked_entries_def)
  with words(5) ok(3) show "sum_list (weights_of gs) < 2 ^ 32" by simp
  show "bs_id (data (fst (List.last gs))) = fst q"
    using n len_gs info [of "n - 1"] fst_gs [of "n - 1"] by (subst last_conv_nth) (auto simp: row_info_def Let_def q)
  have weight: "0 < weights_of gs ! k \<longleftrightarrow> labelled mem q (word_start vd + k)" if "k < 16 * n" for k
  proof -
    have "(ucast (snd inp) :: u32) \<noteq> 0"
    proof
      assume "(ucast (snd inp) :: u32) = 0"
      then have "unat (ucast (snd inp) :: u32) = 0" by simp
      then have "unat (snd inp) = 0"
        using unat_less [of "snd inp"] by (simp add: unsigned_ucast_eq take_bit_nat_eq_self)
      with ok(5) show False by (simp add: unsigned_eq_0_iff)
    qed
    moreover have "vdo_state vd = snd inp" by (simp add: vd_def neighbour_list_def)
    ultimately show ?thesis
      using that unfolding weights by (auto simp: masked_entries_def e labelled_def vd)
  qed
  show "chosen_address gs = 0x80000000 \<and> (\<nexists>x. labelled mem q x) \<or> (\<exists>x. labelled mem q x \<and> chosen_address gs = of_nat x)"
  proof (cases "burst_choice gs")
    case None
    have "\<not> labelled mem q x" for x
    proof
      assume lab: "labelled mem q x"
      then have "word_start vd \<le> x" "x < word_end vd"
        using words(1,4) by (auto simp: labelled_def vd)
      then obtain k where k: "x = word_start vd + k" "k < 16 * n" using e by (auto simp: le_iff_add)
      with lab weight have "0 < weights_of gs ! k" by simp
      moreover have "k < length (weights_of gs)" using k(2) by (simp add: weights masked_entries_def e)
      ultimately show False using None burst_choice_None [of gs] by (metis nth_mem less_not_refl)
    qed
    with None show ?thesis by (simp add: chosen_address_def)
  next
    case (Some k)
    with burst_choice_Some [of gs k] len_gs have k: "k < 16 * n" "0 < weights_of gs ! k" by simp_all
    then have "k div 16 < n" by (simp add: less_mult_imp_div_less mult.commute)
    then have "bs_addr (data (fst (gs ! (k div 16)))) = of_nat (word_start vd + 16 * (k div 16))"
      using info fst_gs by (simp add: row_info_def Let_def)
    then have "chosen_address gs = of_nat (word_start vd + 16 * (k div 16)) + of_nat (k mod 16)"
      by (simp add: chosen_address_def Some)
    also have "\<dots> = of_nat (word_start vd + 16 * (k div 16) + k mod 16)" by (simp only: of_nat_add)
    also have "\<dots> = of_nat (word_start vd + k)" by (simp only: add.assoc mult_div_mod_eq)
    finally show ?thesis using weight [OF k(1)] k(2) by blast
  qed
qed

end
