(* ===== verification/Static_Burst.thy ===== *)
theory Static_Burst
  imports Metapath Neighbor_Mask
begin

text \<open>
  The readers of a node2vec walk: \<open>src/staburst\<close> reads the neighbours of the current vertex and
  \<open>src/siburst\<close> those of the vertex the walk came from, word by word.  Unlike the dynamic burst reader,
  their command generators end for every descriptor.
\<close>

section \<open>The schedulers\<close>

definition STATIC_BURST_MAX_LENGTH :: u32 where "STATIC_BURST_MAX_LENGTH = 1"

text \<open>What one iteration of \<open>sta_vd_scheduler\<close> writes: an update or a request, and the mask.\<close>

definition sta_vd_scheduler_step ::
    "u16 \<Rightarrow> u16 \<Rightarrow> vertex_descriptor pkg \<Rightarrow> (next_vertex_ordered pkg + vertex_descriptor_ordered pkg) \<times> u8 pkg" where
  "sta_vd_scheduler_step sync_id burst_id pkg =
     (let start = vd_start (data pkg); size = vd_size (data pkg)
      in if size = 0
         then (Inl \<lparr>data = \<lparr>nvo_vertex = 0x80000000, nvo_id = sync_id\<rparr>, last = last pkg\<rparr>, \<lparr>data = 0, last = False\<rparr>)
         else (Inr \<lparr>data = \<lparr>vdo_start = start, vdo_size = size, vdo_id = sync_id,
                            vdo_burst_id = burst_id AND 0x7fff, vdo_state = 0\<rparr>, last = last pkg\<rparr>,
               \<lparr>data = 1, last = False\<rparr>))"

text \<open>The package that stops the engine; \<open>w\<close> is its state, which is not assigned.\<close>

definition static_stop :: "u16 \<Rightarrow> vertex_descriptor_ordered pkg" where
  "static_stop w = \<lparr>data = \<lparr>vdo_start = 0, vdo_size = STATIC_BURST_MAX_LENGTH * 16, vdo_id = 0x8000,
     vdo_burst_id = 0x8000, vdo_state = w\<rparr>, last = True\<rparr>"

text \<open>The kernel: updates and requests in the order they are written, and the masks.\<close>

fun sta_vd_scheduler :: "u16 \<Rightarrow> u16 \<Rightarrow> u16 \<Rightarrow> vertex_descriptor pkg list \<Rightarrow>
    (next_vertex_ordered pkg + vertex_descriptor_ordered pkg) list \<times> u8 pkg list" where
  "sta_vd_scheduler w sync_id burst_id [] = ([], [])"
| "sta_vd_scheduler w sync_id burst_id (pkg # pkgs) =
     (let (out, assert_mask) = sta_vd_scheduler_step sync_id burst_id pkg;
          burst_id = (if isl out then burst_id else sync_id_next burst_id);
          (outs, masks) = sta_vd_scheduler w (sync_id_next sync_id) burst_id pkgs
      in (out # (if last pkg then [Inr (static_stop w)] else []) @ outs,
          assert_mask # (if last pkg then [\<lparr>data = 0xf1, last = True\<rparr>] else []) @ masks))"

text \<open>The two output streams.\<close>

definition updates_of :: "('a + 'b) list \<Rightarrow> 'a list" where
  "updates_of outs = concat (map (case_sum (\<lambda>u. [u]) (\<lambda>_. [])) outs)"

definition requests_of :: "('a + 'b) list \<Rightarrow> 'b list" where
  "requests_of outs = concat (map (case_sum (\<lambda>_. []) (\<lambda>r. [r])) outs)"

text \<open>\<open>si_vd_scheduler\<close> reads both identifiers before it looks at \<open>last\<close>.\<close>

fun si_vd_scheduler :: "u16 \<Rightarrow> u16 \<Rightarrow> u16 \<Rightarrow> vertex_descriptor pkg list \<Rightarrow> vertex_descriptor_ordered pkg list" where
  "si_vd_scheduler w sync_id burst_id [] = []"
| "si_vd_scheduler w sync_id burst_id (pkg # pkgs) =
     (if last pkg then static_stop w
      else \<lparr>data = \<lparr>vdo_start = vd_start (data pkg), vdo_size = vd_size (data pkg), vdo_id = sync_id,
                    vdo_burst_id = burst_id AND 0x7fff, vdo_state = 0\<rparr>, last = last pkg\<rparr>)
     # si_vd_scheduler w (sync_id_next sync_id) (sync_id_next burst_id) pkgs"

section \<open>The command generators\<close>

text \<open>\<open>SEND_DYNAMIC_CMD\<close>: the command and the new \<open>curr_addr\<close>.\<close>

definition send_static_cmd ::
    "u32 \<Rightarrow> vertex_descriptor_ordered pkg \<Rightarrow> u32 \<Rightarrow> u32 \<Rightarrow> u16 \<Rightarrow> u32 \<Rightarrow> burst_cmd pkg \<times> u32" where
  "send_static_cmd n vd_pkg end' end_addr dynamic_burst_id curr_addr =
     (let vd = data vd_pkg; start = vdo_start vd;
          last_addr = curr_addr;
          curr_addr = curr_addr + n * 16;
          end_of_burst = (curr_addr \<ge> end_addr);
          stream_last = (end_of_burst \<and> last vd_pkg);
          dynamic_id = dynamic_burst_id AND 0x7fff;
          burst_id_with_end = ap_set_range 15 15 (of_bool end_of_burst) (vdo_burst_id vd AND 0x7fff);
          mask_start = (if last_addr < start then start else last_addr);
          mask_end = (if curr_addr > end' then end' else curr_addr)
      in (burst_cmd_gen last_addr n mask_start mask_end (vdo_id vd) burst_id_with_end dynamic_id stream_last
            (of_bool end_of_burst), curr_addr))"

partial_function (option) static_decomposition ::
    "vertex_descriptor_ordered pkg \<Rightarrow> u32 \<Rightarrow> u32 \<Rightarrow> u32 \<Rightarrow> u16 \<Rightarrow> (burst_cmd pkg list \<times> u16) option" where
  "static_decomposition pkg end' end_addr curr_addr dynamic_burst_id =
     (if curr_addr < end_addr
      then let (cmd, curr_addr) = send_static_cmd STATIC_BURST_MAX_LENGTH pkg end' end_addr dynamic_burst_id curr_addr;
               dynamic_burst_id =
                 (if vdo_id (data pkg) AND 0x8000 \<noteq> 0 then dynamic_burst_id else dynamic_burst_id + 1)
           in Option.bind (static_decomposition pkg end' end_addr curr_addr dynamic_burst_id)
                (\<lambda>(cmds, d). Some (cmd # cmds, d))
      else Some ([], dynamic_burst_id))"

text \<open>One descriptor of \<open>sta_cmd_generator\<close> with its assertion, which is handed on with every command.\<close>

definition sta_cmd_generator ::
    "u16 \<Rightarrow> 'a pkg \<times> vertex_descriptor_ordered pkg \<Rightarrow> (burst_cmd pkg list \<times> 'a pkg list \<times> u16) option" where
  "sta_cmd_generator dynamic_burst_id inp =
     (case inp of (assert_pkg, pkg) \<Rightarrow>
        let start = vdo_start (data pkg); size = vdo_size (data pkg);
            start_addr = start AND 0xfffffff0;
            end' = start + size
        in map_option (\<lambda>(cmds, d). (cmds, concat (map (\<lambda>_. if last assert_pkg then [] else [assert_pkg]) cmds), d))
             (static_decomposition pkg end' (round_end end') start_addr dynamic_burst_id))"

text \<open>One descriptor of \<open>si_cmd_generator\<close>; an empty list gives a command without data.\<close>

definition si_cmd_generator :: "u16 \<Rightarrow> vertex_descriptor_ordered pkg \<Rightarrow> (burst_cmd pkg list \<times> u16) option" where
  "si_cmd_generator dynamic_burst_id pkg =
     (let vd = data pkg; start = vdo_start vd; size = vdo_size vd;
          start_addr = start AND 0xfffffff0;
          end' = start + size
      in if size \<noteq> 0
         then static_decomposition pkg end' (round_end end') start_addr dynamic_burst_id
         else let end_of_burst = False;
                  dynamic_id = dynamic_burst_id AND 0x7fff;
                  burst_id_with_end = ap_set_range 15 15 (of_bool end_of_burst) (vdo_burst_id vd AND 0x7fff)
              in Some ([burst_cmd_gen 0 0 0 0 (vdo_id vd) burst_id_with_end dynamic_id False 1], dynamic_burst_id))"

text \<open>The loops \<open>cmd_main\<close> over the packages they find.\<close>

fun sta_cmd_main :: "u16 \<Rightarrow> ('a pkg \<times> vertex_descriptor_ordered pkg) list \<Rightarrow> (burst_cmd pkg list \<times> 'a pkg list) option" where
  "sta_cmd_main d [] = Some ([], [])"
| "sta_cmd_main d (x # xs) =
     Option.bind (sta_cmd_generator d x) (\<lambda>(cmds, asserts, d).
       map_option (\<lambda>(cmds', asserts'). (cmds @ cmds', asserts @ asserts')) (sta_cmd_main d xs))"

fun si_cmd_main :: "u16 \<Rightarrow> vertex_descriptor_ordered pkg list \<Rightarrow> burst_cmd pkg list option" where
  "si_cmd_main d [] = Some []"
| "si_cmd_main d (x # xs) =
     Option.bind (si_cmd_generator d x) (\<lambda>(cmds, d). map_option (\<lambda>cmds'. cmds @ cmds') (si_cmd_main d xs))"

section \<open>The engines\<close>

text \<open>
  \<open>dynamic_burst_long\<close> of either core on one command; \<open>w\<close> is the state of the sync packages, which is
  not assigned.  The loop around it is \<open>burst_loop\<close>.
\<close>

definition sta_burst :: "u16 \<Rightarrow> (u32 \<Rightarrow> weight_item) \<Rightarrow> burst_cmd pkg \<Rightarrow> (burst_sync pkg \<times> weight_item pkg) list" where
  "sta_burst w mem pkg =
     (let d = data pkg; n = unat STATIC_BURST_MAX_LENGTH
      in map (\<lambda>j. (\<lparr>data = \<lparr>bs_addr = bc_addr d + push_bit 4 (of_nat j), bs_id = bc_id d,
                            bs_burst_id = (if j = n - 1 then bc_burst_id d else bc_burst_id d AND 0x7fff),
                            bs_dynamic_id = (if j = n - 1 then bc_dynamic_id d OR 0x8000 else bc_dynamic_id d),
                            bs_state = w\<rparr>, last = last pkg\<rparr>,
                   \<lparr>data = masked_out d (mem (drop_bit 4 (bc_addr d) + of_nat j)), last = (bc_state d AND 1 = 1)\<rparr>)) [0..<n])"

definition si_masked_out :: "burst_cmd \<Rightarrow> weight_item \<Rightarrow> weight_item" where
  "si_masked_out cmd burstbuffer =
     pack_lanes (map (\<lambda>k. if of_nat k + bc_addr cmd < bc_start cmd \<or> of_nat k + bc_addr cmd \<ge> bc_end cmd
                          then INVALID_VERTEX else lanes burstbuffer ! k) [0..<NUM_OF_WEIGHTS])"

definition si_burst :: "(u32 \<Rightarrow> weight_item) \<Rightarrow> burst_cmd pkg \<Rightarrow> weight_item pkg list" where
  "si_burst mem pkg =
     (let d = data pkg; n = unat STATIC_BURST_MAX_LENGTH
      in if bc_size d = 0
         then [\<lparr>data = pack_lanes (map (\<lambda>k. INVALID_VERTEX) [0..<16]), last = True\<rparr>]
         else map (\<lambda>j. \<lparr>data = si_masked_out d (mem (drop_bit 4 (bc_addr d) + of_nat j)), last = (bc_state d AND 1 = 1)\<rparr>) [0..<n])"

section \<open>The commands of a list\<close>

text \<open>The memory words from \<open>c\<close> to \<open>e\<close>.\<close>

function words :: "nat \<Rightarrow> nat \<Rightarrow> nat list" where
  "words c e = (if c < e then c # words (c + 16) e else [])"
  by pat_completeness auto
termination by (relation "measure (\<lambda>(c, e). e - c)") auto

declare words.simps [simp del]

lemma words_simps [simp]: "e \<le> c \<Longrightarrow> words c e = []" "c < e \<Longrightarrow> words c e = c # words (c + 16) e"
  by (simp_all add: words.simps [of c])

lemma words_Nil_iff [simp]: "words c e = [] \<longleftrightarrow> e \<le> c"
  by (cases "c < e") auto

lemma next_word: "16 dvd c \<Longrightarrow> 16 dvd e \<Longrightarrow> c < e \<Longrightarrow> c + 16 \<le> e" for c e :: nat
  by (auto elim!: dvdE)

lemma words_induct [consumes 2, case_names finish more]:
  fixes c e :: nat
  assumes "16 dvd c" and "16 dvd e" and "\<And>c. 16 dvd c \<Longrightarrow> e \<le> c \<Longrightarrow> P c"
    and "\<And>c. 16 dvd c \<Longrightarrow> c + 16 \<le> e \<Longrightarrow> P (c + 16) \<Longrightarrow> P c"
  shows "P c"
  using assms(1)
proof (induction "e - c" arbitrary: c rule: less_induct)
  case less
  show ?case
  proof (cases "e \<le> c")
    case False
    then have "c + 16 \<le> e" using less.prems assms(2) by (simp add: next_word)
    with False less.hyps [of "c + 16"] less.prems assms(4) show ?thesis by simp
  qed (use less.prems assms(3) in blast)
qed

fun static_commands :: "vertex_descriptor_ordered pkg \<Rightarrow> u32 \<Rightarrow> u32 \<Rightarrow> u16 \<Rightarrow> nat list \<Rightarrow> burst_cmd pkg list" where
  "static_commands pkg end' e d [] = []"
| "static_commands pkg end' e d (c # cs) =
     fst (send_static_cmd 1 pkg end' e d (of_nat c)) # static_commands pkg end' e (next_dynamic_id pkg d) cs"

lemma length_static_commands [simp]: "length (static_commands pkg end' e d cs) = length cs"
  by (induction pkg end' e d cs rule: static_commands.induct) simp_all

lemma snd_send_static_cmd [simp]: "snd (send_static_cmd n pkg end' e d c) = c + n * 16"
  by (simp add: send_static_cmd_def Let_def)

lemma word_less_of_nat: "a < 2 ^ 32 \<Longrightarrow> b < 2 ^ 32 \<Longrightarrow> (of_nat a :: u32) < of_nat b \<longleftrightarrow> a < b"
  by (simp add: word_less_nat_alt unat_of_nat)

lemma static_decomposition_step:
  "c < e \<Longrightarrow> static_decomposition pkg end' e c d =
     map_option (\<lambda>(cmds, d'). (fst (send_static_cmd 1 pkg end' e d c) # cmds, d'))
       (static_decomposition pkg end' e (c + 16) (next_dynamic_id pkg d))"
  by (subst static_decomposition.simps)
    (simp add: case_prod_unfold Let_def STATIC_BURST_MAX_LENGTH_def next_dynamic_id_def map_conv_bind_option comp_def)

lemma static_decomposition_words:
  assumes "16 dvd c" and "16 dvd e" and "c < 2 ^ 32" and "e < 2 ^ 32"
  shows "static_decomposition pkg end' (of_nat e) (of_nat c) d =
    Some (static_commands pkg end' (of_nat e) d (words c e), (next_dynamic_id pkg ^^ length (words c e)) d)"
  using assms(1-3)
proof (induction arbitrary: d rule: words_induct)
  case (finish c)
  with assms(4) show ?case
    by (subst static_decomposition.simps) (simp add: word_less_of_nat)
next
  case (more c)
  then have "c < e" "c < 2 ^ 32" "c + 16 < 2 ^ 32" using assms(4) by simp_all
  then have "(of_nat c :: u32) < of_nat e" using assms(4) by (simp add: word_less_of_nat)
  from static_decomposition_step [OF this] more(3) [OF \<open>c + 16 < 2 ^ 32\<close>] \<open>c < e\<close> show ?case
    by (simp add: funpow_swap1)
qed

text \<open>The words of a descriptor; they are none if the end of the list rounds up to \<open>2 ^ 32\<close>.\<close>

definition static_end :: "vertex_descriptor_ordered \<Rightarrow> nat" where
  "static_end vd = unat (round_end (vdo_start vd + vdo_size vd))"

definition list_commands :: "u16 \<Rightarrow> vertex_descriptor_ordered pkg \<Rightarrow> burst_cmd pkg list" where
  "list_commands d pkg = (let vd = data pkg
     in static_commands pkg (vdo_start vd + vdo_size vd) (of_nat (static_end vd)) d (words (word_start vd) (static_end vd)))"

lemma static_end: "16 dvd static_end vd" "static_end vd < 2 ^ 32"
proof -
  have "16 dvd unat (round_end w)" for w
  proof -
    have "16 dvd unat (w AND 0xfffffff0)" unfolding unat_align by simp
    moreover have "unat (x + 16) = (unat x + 16) mod 2 ^ 32" for x :: u32
      by (simp add: unat_word_ariths)
    moreover have "16 dvd n mod 2 ^ 32" if "16 dvd n" for n :: nat
      using that by (rule dvd_mod) simp
    ultimately show ?thesis unfolding round_end_def Let_def by (simp only: split: if_splits) simp
  qed
  then show "16 dvd static_end vd" by (simp add: static_end_def)
  show "static_end vd < 2 ^ 32" by (simp add: static_end_def unat_less_32)
qed

lemma decomposition_commands:
  "static_decomposition pkg (vdo_start (data pkg) + vdo_size (data pkg))
     (round_end (vdo_start (data pkg) + vdo_size (data pkg))) (vdo_start (data pkg) AND 0xfffffff0) d =
   Some (list_commands d pkg, (next_dynamic_id pkg ^^ length (list_commands d pkg)) d)"
proof -
  let ?vd = "data pkg"
  have "vdo_start ?vd AND 0xfffffff0 = of_nat (word_start ?vd)"
    by (rule word_eq_of_unat) (simp only: unat_align word_start_def list_start_def)
  moreover have "round_end (vdo_start ?vd + vdo_size ?vd) = of_nat (static_end ?vd)"
    by (rule word_eq_of_unat) (simp only: static_end_def)
  moreover have "word_start ?vd < 2 ^ 32"
    using list_words(1) [of ?vd] unat_less_32 [of "vdo_start ?vd"] by (simp add: list_start_def)
  ultimately show ?thesis
    using static_decomposition_words [OF list_words(6) static_end(1) _ static_end(2)]
    by (simp add: list_commands_def Let_def)
qed

lemma sta_cmd_generator_eq:
  "sta_cmd_generator d (a, pkg) = Some (list_commands d pkg,
     if last a then [] else replicate (length (list_commands d pkg)) a,
     (next_dynamic_id pkg ^^ length (list_commands d pkg)) d)"
  by (simp add: sta_cmd_generator_def decomposition_commands map_replicate_const)

lemma si_cmd_generator_eq:
  "vdo_size (data pkg) \<noteq> 0 \<Longrightarrow> si_cmd_generator d pkg =
     Some (list_commands d pkg, (next_dynamic_id pkg ^^ length (list_commands d pkg)) d)"
  by (simp add: si_cmd_generator_def decomposition_commands)

text \<open>What a command holds.\<close>

lemma static_fields:
  assumes "c + 16 \<le> e" and "e < 2 ^ 32"
    and "cmd = fst (send_static_cmd 1 pkg end' (of_nat e) d (of_nat c))"
  shows "unat (bc_addr (data cmd)) = c" and "bc_size (data cmd) = 1"
    and "unat (bc_start (data cmd)) = max c (unat (vdo_start (data pkg)))"
    and "unat (bc_end (data cmd)) = min (c + 16) (unat end')"
    and "end_flag cmd \<longleftrightarrow> c + 16 = e" and "bc_state (data cmd) = of_bool (c + 16 = e)"
    and "bc_id (data cmd) = vdo_id (data pkg)" and "last cmd \<longleftrightarrow> c + 16 = e \<and> last pkg"
proof -
  have uc: "unat (of_nat c :: u32) = c" using assms(1,2) by (simp add: unat_of_nat)
  have ue: "unat (of_nat e :: u32) = e" using assms(2) by (simp add: unat_of_nat)
  have up: "(of_nat c + 16 :: u32) = of_nat (c + 16)" by simp
  have un: "unat (of_nat c + 16 :: u32) = c + 16"
    using assms(1,2) unfolding up by (subst unat_of_nat) simp
  have end_iff: "(of_nat e :: u32) \<le> of_nat c + 16 \<longleftrightarrow> c + 16 = e"
    using assms(1) by (simp add: word_le_nat_alt ue un) auto
  note cmd = assms(3) send_static_cmd_def Let_def burst_cmd_gen_def
  show "unat (bc_addr (data cmd)) = c" "bc_size (data cmd) = 1" "bc_id (data cmd) = vdo_id (data pkg)"
    by (simp_all add: cmd uc)
  show "unat (bc_start (data cmd)) = max c (unat (vdo_start (data pkg)))"
    by (simp add: cmd uc word_less_nat_alt max_def)
  show "unat (bc_end (data cmd)) = min (c + 16) (unat end')"
    by (simp add: cmd un word_less_nat_alt min_def)
  show "bc_state (data cmd) = of_bool (c + 16 = e)" "last cmd \<longleftrightarrow> c + 16 = e \<and> last pkg"
    by (simp_all add: cmd end_iff)
  show "end_flag cmd \<longleftrightarrow> c + 16 = e"
    unfolding end_flag_def bit_15
    by (simp add: cmd end_iff bit_ap_set_range bit_of_bool_iff)
qed

section \<open>The rows of a list\<close>

text \<open>A memory word of the edge array, the entries outside \<open>lo..<hi\<close> replaced by \<open>fill\<close>.\<close>

definition list_row :: "u32 \<Rightarrow> (u32 \<Rightarrow> weight_item) \<Rightarrow> nat \<Rightarrow> nat \<Rightarrow> nat \<Rightarrow> weight_item" where
  "list_row fill mem lo hi c = pack_lanes (map (\<lambda>x. if lo \<le> x \<and> x < hi then entry mem x else fill) [c..<c + 16])"

lemma lanes_list_row: "lanes (list_row fill mem lo hi c) = map (\<lambda>x. if lo \<le> x \<and> x < hi then entry mem x else fill) [c..<c + 16]"
  by (simp add: list_row_def del: upt_rec_numeral)

lemma masked_row:
  assumes "unat (bc_addr d) = c" and "16 dvd c" and "c + 16 \<le> 2 ^ 32"
    and "unat (bc_start d) = max c lo" and "unat (bc_end d) = min (c + 16) hi"
  shows "pack_lanes (map (\<lambda>k. if of_nat k + bc_addr d < bc_start d \<or> of_nat k + bc_addr d \<ge> bc_end d
      then fill else lanes (mem (drop_bit 4 (bc_addr d))) ! k) [0..<NUM_OF_WEIGHTS]) = list_row fill mem lo hi c"
proof -
  have "(if of_nat k + bc_addr d < bc_start d \<or> of_nat k + bc_addr d \<ge> bc_end d
        then fill else lanes (mem (drop_bit 4 (bc_addr d))) ! k) =
      (if lo \<le> c + k \<and> c + k < hi then entry mem (c + k) else fill)" if "k < 16" for k
  proof -
    have "unat (of_nat k + bc_addr d) = c + k"
      using that assms(1,3) by (simp only: unat_word_ariths unat_of_nat) simp
    then have "of_nat k + bc_addr d < bc_start d \<or> of_nat k + bc_addr d \<ge> bc_end d \<longleftrightarrow> \<not> (lo \<le> c + k \<and> c + k < hi)"
      using that by (auto simp: word_less_nat_alt word_le_nat_alt assms(4,5))
    moreover have "lanes (mem (drop_bit 4 (bc_addr d))) ! k = entry mem (c + k)"
      using row_entry [of "bc_addr d" 0 k mem] assms(1-3) that by simp
    ultimately show ?thesis by simp
  qed
  moreover have "[c..<c + 16] = map (\<lambda>k. c + k) [0..<16]"
    using map_add_upt [of c 16] by (simp add: add.commute)
  ultimately show ?thesis
    unfolding list_row_def NUM_OF_WEIGHTS_def
    by (intro arg_cong [where f = pack_lanes]) (simp del: upt_rec_numeral)
qed

lemma word_and_1: "(of_bool b :: u16) AND 1 = 1 \<longleftrightarrow> b"
  by (cases b) simp_all

lemma static_burst_1: "unat STATIC_BURST_MAX_LENGTH = 1"
  by (simp add: STATIC_BURST_MAX_LENGTH_def)

text \<open>What later kernels read of a sync package.\<close>

definition sync_info :: "burst_sync pkg \<Rightarrow> u32 \<times> bool \<times> u16 \<times> bool" where
  "sync_info s = (bs_addr (data s), ends s, bs_id (data s), last s)"

text \<open>The command at \<open>c\<close> reads one row; the flag of the last one is the end of the list.\<close>

lemma static_rows:
  assumes "c + 16 \<le> e" and "e < 2 ^ 32" and "16 dvd c" and "hi = unat end'"
    and "lo = unat (vdo_start (data pkg))" and "cmd = fst (send_static_cmd 1 pkg end' (of_nat e) d (of_nat c))"
  shows "map snd (sta_burst w mem cmd) = [\<lparr>data = list_row 0 mem lo hi c, last = (c + 16 = e)\<rparr>]"
    and "map (sync_info \<circ> fst) (sta_burst w mem cmd) = [(of_nat c, c + 16 = e, vdo_id (data pkg), c + 16 = e \<and> last pkg)]"
    and "si_burst mem cmd = [\<lparr>data = list_row INVALID_VERTEX mem lo hi c, last = (c + 16 = e)\<rparr>]"
proof -
  note f = static_fields [OF assms(1,2,6)]
  have c: "c + 16 \<le> 2 ^ 32" using assms(1,2) by simp
  note row = masked_row [OF f(1) assms(3) c f(3) [folded assms(5)] f(4) [folded assms(4)], of _ mem]
  have offset: "x + of_nat 0 = x" for x :: u32 by simp
  have 0: "masked_out (data cmd) (mem (drop_bit 4 (bc_addr (data cmd)) + of_nat 0)) = list_row 0 mem lo hi c"
    and si: "si_masked_out (data cmd) (mem (drop_bit 4 (bc_addr (data cmd)) + of_nat 0)) = list_row INVALID_VERTEX mem lo hi c"
    unfolding offset masked_out_def si_masked_out_def row by (rule refl)+
  have one: "[0..<unat STATIC_BURST_MAX_LENGTH] = [0]" by (simp add: static_burst_1)
  show "map snd (sta_burst w mem cmd) = [\<lparr>data = list_row 0 mem lo hi c, last = (c + 16 = e)\<rparr>]"
    unfolding sta_burst_def Let_def one list.map 0 by (simp add: f(6) word_and_1)
  show "si_burst mem cmd = [\<lparr>data = list_row INVALID_VERTEX mem lo hi c, last = (c + 16 = e)\<rparr>]"
    unfolding si_burst_def Let_def one list.map si by (simp add: f(2,6) word_and_1)
  have "bc_addr (data cmd) = of_nat c" using f(1) by (rule word_eq_of_unat)
  then show "map (sync_info \<circ> fst) (sta_burst w mem cmd) = [(of_nat c, c + 16 = e, vdo_id (data pkg), c + 16 = e \<and> last pkg)]"
    using f(5,7,8) by (simp add: sta_burst_def static_burst_1 sync_info_def ends_def end_flag_def Let_def)
qed

text \<open>All rows of a list.\<close>

lemma static_rows_list:
  assumes "16 dvd c" and "16 dvd e" and "e < 2 ^ 32" and "hi = unat end'" and "lo = unat (vdo_start (data pkg))"
    and "cmds = static_commands pkg end' (of_nat e) d (words c e)"
  shows "map snd (concat (map (sta_burst w mem) cmds)) = flagged (map (list_row 0 mem lo hi) (words c e))"
    and "map (sync_info \<circ> fst) (concat (map (sta_burst w mem) cmds)) =
      map (\<lambda>a. (of_nat a, a + 16 = e, vdo_id (data pkg), a + 16 = e \<and> last pkg)) (words c e)"
    and "concat (map (si_burst mem) cmds) = flagged (map (list_row INVALID_VERTEX mem lo hi) (words c e))"
proof -
  let ?cmds = "static_commands pkg end' (of_nat e)"
  have "map snd (concat (map (sta_burst w mem) (?cmds d (words c e)))) = flagged (map (list_row 0 mem lo hi) (words c e)) \<and>
    map (sync_info \<circ> fst) (concat (map (sta_burst w mem) (?cmds d (words c e)))) =
      map (\<lambda>a. (of_nat a, a + 16 = e, vdo_id (data pkg), a + 16 = e \<and> last pkg)) (words c e) \<and>
    concat (map (si_burst mem) (?cmds d (words c e))) = flagged (map (list_row INVALID_VERTEX mem lo hi) (words c e))" for d
    using assms(1,2)
  proof (induction arbitrary: d rule: words_induct)
    case (more c)
    then have c: "c < e" by simp
    note rows = static_rows [OF more(2) assms(3) more(1) assms(4,5) refl]
    show ?case
    proof (cases "c + 16 = e")
      case True
      then show ?thesis using c rows by (simp add: comp_def)
    next
      case False
      then have "words (c + 16) e \<noteq> []" using more(2) by simp
      then show ?thesis using c rows more(3) False by (simp add: flagged_Cons comp_def)
    qed
  qed simp
  then show "map snd (concat (map (sta_burst w mem) cmds)) = flagged (map (list_row 0 mem lo hi) (words c e))"
    and "map (sync_info \<circ> fst) (concat (map (sta_burst w mem) cmds)) =
      map (\<lambda>a. (of_nat a, a + 16 = e, vdo_id (data pkg), a + 16 = e \<and> last pkg)) (words c e)"
    and "concat (map (si_burst mem) cmds) = flagged (map (list_row INVALID_VERTEX mem lo hi) (words c e))"
    by (simp_all only: assms(6))
qed

lemma length_words: "16 dvd c \<Longrightarrow> 16 dvd e \<Longrightarrow> length (words c e) = (e - c) div 16"
proof (induction rule: words_induct)
  case (more c)
  then have "e - c = (e - (c + 16)) + 16" by simp
  then have "(e - c) div 16 = (e - (c + 16)) div 16 + 1" by (simp only: div_add_self2)
  with more show ?case by simp
qed simp

text \<open>
  The static command generators end for every descriptor, also where the address wraps around, after
  one command for every memory word from the start to the end of the list; with each of them
  \<open>sta_cmd_generator\<close> hands the assertion of the walk on, unless it is the last one.
\<close>

lemma static_generators_end:
  "\<exists>cmds asserts d' no_data. sta_cmd_generator d (a, pkg) = Some (cmds, asserts, d') \<and>
     length cmds = (unat (round_end (vdo_start (data pkg) + vdo_size (data pkg))) - unat (vdo_start (data pkg) AND 0xfffffff0)) div 16 \<and>
     asserts = (if last a then [] else replicate (length cmds) a) \<and>
     si_cmd_generator d pkg = Some (if vdo_size (data pkg) = 0 then ([no_data], d) else (cmds, d')) \<and>
     bc_size (data no_data) = 0"
proof -
  have "length (list_commands d pkg) = (static_end (data pkg) - word_start (data pkg)) div 16"
    by (simp add: list_commands_def Let_def length_words static_end(1) list_words(6))
  moreover obtain no_data where "bc_size (data no_data) = 0"
    "vdo_size (data pkg) = 0 \<Longrightarrow> si_cmd_generator d pkg = Some ([no_data], d)"
    by (rule that [of "burst_cmd_gen 0 0 0 0 (vdo_id (data pkg)) (ap_set_range 15 15 0 (vdo_burst_id (data pkg) AND 0x7fff))
        (d AND 0x7fff) False 1"]) (simp_all add: si_cmd_generator_def burst_cmd_gen_def Let_def)
  ultimately show ?thesis
    by (intro exI [of _ no_data] exI [of _ "list_commands d pkg"]
        exI [of _ "if last a then [] else replicate (length (list_commands d pkg)) a"]
        exI [of _ "(next_dynamic_id pkg ^^ length (list_commands d pkg)) d"])
      (auto simp: sta_cmd_generator_eq si_cmd_generator_eq unat_align word_start_def list_start_def simp flip: static_end_def)
qed

text \<open>Where the end of a list rounds up to \<open>2 ^ 32\<close>, no command is left.\<close>

lemma static_end_eq:
  assumes "list_end vd \<le> 2 ^ 32" and "0 < unat (vdo_size vd)"
  shows "static_end vd = (if word_end vd < 2 ^ 32 then word_end vd else 0)"
    and "word_end vd < 2 ^ 32 \<Longrightarrow> unat (vdo_start vd + vdo_size vd) = list_end vd"
proof -
  have sum: "unat (vdo_start vd + vdo_size vd) = list_end vd mod 2 ^ 32"
    by (simp add: list_end_def unat_word_ariths)
  then show small: "word_end vd < 2 ^ 32 \<Longrightarrow> unat (vdo_start vd + vdo_size vd) = list_end vd"
    using list_words(4) [of vd] by simp
  show "static_end vd = (if word_end vd < 2 ^ 32 then word_end vd else 0)"
  proof (cases "word_end vd < 2 ^ 32")
    case True
    with small show ?thesis by (simp add: static_end_def unat_round_end word_end_def)
  next
    case False
    let ?w = "vdo_start vd + vdo_size vd"
    have "static_end vd = 0"
    proof (cases "list_end vd = 2 ^ 32")
      case True
      with sum have "unat ?w = 0" by simp
      then have "?w = 0" by (simp only: unsigned_eq_0_iff)
      then show ?thesis by (simp add: static_end_def round_end_def)
    next
      case less: False
      with assms(1) sum have w: "unat ?w = list_end vd" by simp
      have "round_up (unat ?w) \<le> 2 ^ 32" using assms(1) by (intro round_up_le) (simp_all add: w)
      with False have up: "round_up (unat ?w) = 2 ^ 32" by (simp add: word_end_def w)
      then have "unat ?w mod 16 \<noteq> 0" using unat_less_32 [of ?w] by (intro notI) (simp add: round_up_cases)
      then have "?w AND 0xfffffff0 \<noteq> ?w" using unat_align [of ?w] by (metis mod_mult_self1_is_0)
      moreover have "16 * (unat ?w div 16) + 16 = 2 ^ 32"
        using up \<open>unat ?w mod 16 \<noteq> 0\<close> by (simp add: round_up_cases)
      then have "unat ((?w AND 0xfffffff0) + 16) = 0"
        by (simp only: unat_word_ariths unat_align) simp
      ultimately show ?thesis by (simp add: static_end_def round_end_def Let_def)
    qed
    with False show ?thesis by simp
  qed
qed

lemma static_ranges:
  assumes "16 dvd c" and "16 dvd e" and "e < 2 ^ 32"
  shows "concat (map entry_range (static_commands pkg end' (of_nat e) d (words c e))) =
    [max c (unat (vdo_start (data pkg)))..<min e (unat end')]"
  using assms(1,2)
proof (induction arbitrary: d rule: words_induct)
  case (more c)
  note f = static_fields [OF more(2) assms(3) refl]
  have "entry_range (fst (send_static_cmd 1 pkg end' (of_nat e) d (of_nat c))) =
      [max c (unat (vdo_start (data pkg)))..<min (c + 16) (unat end')]"
    by (simp add: entry_range_def f)
  with more upt_clip [of c "c + 16" e] show ?case by simp
qed auto

text \<open>
  C37: The commands cover the list exactly as long as its last memory word is not the last one of the
  address space; there the rounded end wraps around to 0, and the generators write no command at all.
\<close>

theorem static_commands_cover_iff:
  assumes "0 < unat (vdo_size (data pkg))" and "list_end (data pkg) \<le> 2 ^ 32"
    and "sta_cmd_generator d (a, pkg) = Some (cmds, asserts, d')"
  shows "(concat (map entry_range cmds) = [list_start (data pkg)..<list_end (data pkg)] \<longleftrightarrow> word_end (data pkg) < 2 ^ 32) \<and>
    (\<not> word_end (data pkg) < 2 ^ 32 \<longrightarrow> cmds = [])"
proof (cases "word_end (data pkg) < 2 ^ 32")
  case True
  let ?vd = "data pkg"
  have "concat (map entry_range cmds) =
      [max (word_start ?vd) (list_start ?vd)..<min (word_end ?vd) (list_end ?vd)]"
    using static_ranges [OF list_words(6,7) True, of pkg "vdo_start ?vd + vdo_size ?vd" d] True
      static_end_eq [OF assms(2,1)] assms(3)
    by (auto simp: sta_cmd_generator_eq list_commands_def Let_def list_start_def)
  then show ?thesis using True list_words(1,4) [of ?vd] by (simp add: max_absorb2 min_absorb2)
next
  case False
  have "cmds = []"
    using False assms(3) by (auto simp: sta_cmd_generator_eq list_commands_def static_end_eq [OF assms(2,1)] Let_def)
  moreover have "list_start (data pkg) < list_end (data pkg)"
    using assms(1) by (simp add: list_start_def list_end_def)
  then have "[list_start (data pkg)..<list_end (data pkg)] \<noteq> []" by simp
  ultimately show ?thesis using False by (metis concat.simps(1) list.simps(8))
qed

theorem static_commands_cover_iff_witness:
  "(\<exists>cmds asserts d'. sta_cmd_generator 0 (\<lparr>data = (), last = False\<rparr>,
      \<lparr>data = \<lparr>vdo_start = 1020, vdo_size = 30, vdo_id = 5, vdo_burst_id = 6, vdo_state = 0\<rparr>, last = False\<rparr>) =
        Some (cmds, asserts, d') \<and> concat (map entry_range cmds) = [1020..<1050]) \<and>
   (\<exists>asserts d'. sta_cmd_generator 0 (\<lparr>data = (), last = False\<rparr>,
      \<lparr>data = \<lparr>vdo_start = 4294967290, vdo_size = 5, vdo_id = 5, vdo_burst_id = 6, vdo_state = 0\<rparr>, last = False\<rparr>) =
        Some ([], asserts, d'))"
proof -
  let ?a = "\<lparr>data = (), last = False\<rparr>"
    and ?p = "\<lparr>data = \<lparr>vdo_start = 1020, vdo_size = 30, vdo_id = 5, vdo_burst_id = 6, vdo_state = 0\<rparr>, last = False\<rparr>"
    and ?q = "\<lparr>data = \<lparr>vdo_start = 4294967290, vdo_size = 5, vdo_id = 5, vdo_burst_id = 6, vdo_state = 0\<rparr>, last = False\<rparr>"
  note defs = list_start_def list_end_def word_end_def round_up_def
  have "concat (map entry_range (list_commands 0 ?p)) = [1020..<1050]"
    using static_commands_cover_iff [OF _ _ sta_cmd_generator_eq [of 0 ?a ?p]] by (simp add: defs)
  moreover have "list_commands 0 ?q = []"
    using static_commands_cover_iff [OF _ _ sta_cmd_generator_eq [of 0 ?a ?q]] by (simp add: defs)
  ultimately show ?thesis by (simp add: sta_cmd_generator_eq)
qed

section \<open>Sorted lists\<close>

text \<open>The entries of a list, in ascending order, without the mark for entries outside the list.\<close>

definition neighbours :: "(u32 \<Rightarrow> weight_item) \<Rightarrow> nat \<Rightarrow> nat \<Rightarrow> u32 list" where
  "neighbours mem lo hi = map (entry mem) [lo..<hi]"

definition ascending :: "(u32 \<Rightarrow> weight_item) \<Rightarrow> nat \<Rightarrow> nat \<Rightarrow> bool" where
  "ascending mem lo hi \<longleftrightarrow> sorted_wrt (<) (neighbours mem lo hi) \<and> INVALID_VERTEX \<notin> set (neighbours mem lo hi)"

lemma ascendingD:
  assumes "ascending mem lo hi"
  shows "lo \<le> x \<Longrightarrow> x < y \<Longrightarrow> y < hi \<Longrightarrow> entry mem x < entry mem y"
    and "lo \<le> x \<Longrightarrow> x < hi \<Longrightarrow> entry mem x < INVALID_VERTEX"
proof -
  show "entry mem x < entry mem y" if "lo \<le> x" "x < y" "y < hi"
    using assms that sorted_wrt_nth_less [of "(<)" "neighbours mem lo hi" "x - lo" "y - lo"]
    by (simp add: ascending_def neighbours_def)
  have "w < INVALID_VERTEX" if "w \<noteq> INVALID_VERTEX" for w
  proof -
    have "INVALID_VERTEX = - 1" by (simp add: INVALID_VERTEX_def)
    with that show ?thesis by (metis word_order.not_eq_extremum)
  qed
  then show "entry mem x < INVALID_VERTEX" if "lo \<le> x" "x < hi"
    using assms that unfolding ascending_def neighbours_def by (metis atLeastLessThan_iff atLeastLessThan_upt imageI set_map)
qed

lemma entries_rows:
  assumes "16 dvd c" and "16 dvd e"
  shows "c \<le> e \<Longrightarrow> entries (map (list_row fill mem lo hi) (words c e)) =
    map (\<lambda>x. if lo \<le> x \<and> x < hi then entry mem x else fill) [c..<e]"
  using assms
proof (induction rule: words_induct)
  case (more c)
  then have "[c..<e] = [c..<c + 16] @ [c + 16..<e]"
    using upt_add_eq_append [of c "c + 16" "e - (c + 16)"] by simp
  with more show ?case by (simp add: entries_Cons lanes_list_row del: upt_rec_numeral)
qed simp

lemma rows_sorted_list:
  assumes "16 dvd c" and "16 dvd e" and "ascending mem lo hi" and "hi \<le> e" and "e < hi + 16"
  shows "c < e \<Longrightarrow> lo < c + 16 \<Longrightarrow> rows_sorted (map (list_row INVALID_VERTEX mem lo hi) (words c e))"
  using assms(1,2)
proof (induction rule: words_induct)
  case (more c)
  show ?case
  proof (cases "c + 16 = e")
    case False
    with more have "c + 16 < e" by simp
    moreover from this have "c + 16 + 16 \<le> e" using more.hyps(1) assms(2) by (intro next_word) simp_all
    ultimately have c: "c + 16 < e" "lo < c + 16 + 16" "c + 16 < hi"
      using more.prems assms(5) by simp_all
    let ?row = "list_row INVALID_VERTEX mem lo hi"
    have 15: "lanes (?row c) ! 15 = entry mem (c + 15)"
      using more.prems c by (simp add: lanes_list_row del: upt_rec_numeral)
    have "w \<le> entry mem (c + 15)" if "w \<in> set (lanes (?row c))" "w \<noteq> INVALID_VERTEX" for w
    proof -
      from that obtain x where "w = entry mem x" "lo \<le> x" "x \<le> c + 15"
        by (auto simp: lanes_list_row simp del: upt_rec_numeral split: if_splits)
      then show ?thesis using ascendingD(1) [OF assms(3), of x "c + 15"] c by (cases "x = c + 15") auto
    qed
    moreover have "entry mem (c + 15) < w" if "w \<in> set (entries (map ?row (words (c + 16) e)))" for w
    proof -
      have "w \<in> (\<lambda>x. if lo \<le> x \<and> x < hi then entry mem x else INVALID_VERTEX) ` {c + 16..<e}"
        using that c more.hyps(1) assms(2)
        by (subst (asm) entries_rows) (simp_all only: set_map set_upt dvd_add_right_iff dvd_refl dvd_add order_less_imp_le)
      then obtain x where "w = (if lo \<le> x \<and> x < hi then entry mem x else INVALID_VERTEX)" "c + 16 \<le> x"
        by (elim imageE) simp
      then show ?thesis using ascendingD [OF assms(3), of "c + 15"] c more.prems by simp
    qed
    moreover have "words c e = c # (c + 16) # words (c + 16 + 16) e" using c by simp
    ultimately show ?thesis using more.IH c 15 by simp
  qed (use more in simp)
qed simp

lemma vertices_sorted_list:
  assumes "ascending mem lo hi" and "c \<le> lo" and "hi \<le> e"
  shows "vertices_sorted (map (\<lambda>x. if lo \<le> x \<and> x < hi then entry mem x else 0) [c..<e])"
proof -
  let ?f = "\<lambda>x. if lo \<le> x \<and> x < hi then entry mem x else 0" and ?xs = "[c..<e]"
  have "sorted_wrt (\<lambda>x y. ?f x < ?f y) (filter (\<lambda>x. ?f x \<noteq> 0) ?xs)"
  proof (rule sorted_wrt_mono_rel)
    show "sorted_wrt (<) (filter (\<lambda>x. ?f x \<noteq> 0) ?xs)" by (rule sorted_wrt_filter) simp
    fix x y assume "x \<in> set (filter (\<lambda>x. ?f x \<noteq> 0) ?xs)" "y \<in> set (filter (\<lambda>x. ?f x \<noteq> 0) ?xs)" "x < y"
    then have "lo \<le> x" "y < hi" by (auto split: if_splits)
    with \<open>x < y\<close> show "?f x < ?f y" using ascendingD(1) [OF assms(1), of x y] by simp
  qed
  then have "sorted_wrt (<) (filter (\<lambda>v. v \<noteq> 0) (map ?f ?xs))"
    unfolding filter_map sorted_wrt_map comp_def .
  moreover have "INVALID_VERTEX \<noteq> 0" by (simp add: INVALID_VERTEX_def)
  ultimately show ?thesis
    using ascendingD(2) [OF assms(1)] by (fastforce simp: vertices_sorted_def)
qed

end
