(* ===== verification/Merge.thy ===== *)
theory Merge
  imports Wrs "HOL-Library.Sublist"
begin

text \<open>
  Putting the results of engines that run side by side back in order (\<open>intra_merge\<close>, \<open>inter_merge\<close>
  and \<open>update_merge\<close> of \<open>src/sdyburst\<close>).  The three kernels hold one package of each input and hand on
  the one that carries the current 15-bit identifier; the locale \<open>ordered_merge\<close> states that contract,
  and its theorem, that the output is in order and complete, holds for the three by interpretation.
\<close>

section \<open>The kernels\<close>

text \<open>
  One iteration of a kernel on what its input FIFOs hold; \<open>None\<close> if it waits in a blocking read.
\<close>

record 'w intra =
  ia_sync_in1 :: "burst_sync pkg list"
  ia_weight_in1 :: "'w list"
  ia_sync_in2 :: "burst_sync pkg list"
  ia_weight_in2 :: "'w list"
  ia_pkg_1 :: "(burst_sync pkg \<times> 'w) option"
  ia_pkg_2 :: "(burst_sync pkg \<times> 'w) option"
  ia_current_id :: u16

definition intra_poll1 :: "'w intra \<Rightarrow> 'w intra option" where
  "intra_poll1 s =
     (case ia_pkg_1 s of Some _ \<Rightarrow> Some s
      | None \<Rightarrow> (case ia_sync_in1 s of [] \<Rightarrow> Some s
          | x # xs \<Rightarrow> (case ia_weight_in1 s of [] \<Rightarrow> None
              | w # ws \<Rightarrow> Some (s\<lparr>ia_pkg_1 := Some (x, w), ia_sync_in1 := xs, ia_weight_in1 := ws\<rparr>))))"

definition intra_poll2 :: "'w intra \<Rightarrow> 'w intra option" where
  "intra_poll2 s =
     (case ia_pkg_2 s of Some _ \<Rightarrow> Some s
      | None \<Rightarrow> (case ia_sync_in2 s of [] \<Rightarrow> Some s
          | x # xs \<Rightarrow> (case ia_weight_in2 s of [] \<Rightarrow> None
              | w # ws \<Rightarrow> Some (s\<lparr>ia_pkg_2 := Some (x, w), ia_sync_in2 := xs, ia_weight_in2 := ws\<rparr>))))"

definition intra_matches :: "u16 \<Rightarrow> (burst_sync pkg \<times> 'w) option \<Rightarrow> bool" where
  "intra_matches current held = (case held of None \<Rightarrow> False | Some (x, _) \<Rightarrow> bs_dynamic_id (data x) AND 0x7fff = current)"

definition intra_next :: "u16 \<Rightarrow> burst_sync pkg \<Rightarrow> u16" where
  "intra_next current x = (if bs_dynamic_id (data x) AND 0x8000 \<noteq> 0 then (current + 1) AND 0x7fff else current)"

definition intra_hand_on :: "'w intra \<Rightarrow> 'w intra \<times> (burst_sync pkg \<times> 'w) list" where
  "intra_hand_on s =
     (let tmp_current_id = ia_current_id s
      in if intra_matches tmp_current_id (ia_pkg_1 s)
         then (s\<lparr>ia_pkg_1 := None, ia_current_id := intra_next tmp_current_id (fst (the (ia_pkg_1 s)))\<rparr>, [the (ia_pkg_1 s)])
         else if intra_matches tmp_current_id (ia_pkg_2 s)
         then (s\<lparr>ia_pkg_2 := None, ia_current_id := intra_next tmp_current_id (fst (the (ia_pkg_2 s)))\<rparr>, [the (ia_pkg_2 s)])
         else (s, []))"

definition intra_merge_step :: "'w intra \<Rightarrow> ('w intra \<times> (burst_sync pkg \<times> 'w) list) option" where
  "intra_merge_step s =
     Option.bind (intra_poll1 s) (\<lambda>s. Option.bind (intra_poll2 s) (\<lambda>s. Some (intra_hand_on s)))"

definition intra_init :: "'w intra" where
  "intra_init = \<lparr>ia_sync_in1 = [], ia_weight_in1 = [], ia_sync_in2 = [], ia_weight_in2 = [],
     ia_pkg_1 = None, ia_pkg_2 = None, ia_current_id = 0\<rparr>"

text \<open>\<open>inter_merge\<close> reads a weight only when it hands its package on.\<close>

record 'w inter =
  ie_sync_in1 :: "burst_sync pkg list"
  ie_weight_in1 :: "'w list"
  ie_sync_in2 :: "burst_sync pkg list"
  ie_weight_in2 :: "'w list"
  ie_pkg_1 :: "burst_sync pkg option"
  ie_pkg_2 :: "burst_sync pkg option"
  ie_current_id :: u16

definition inter_poll :: "'w inter \<Rightarrow> 'w inter" where
  "inter_poll s =
     (let s = (case (ie_pkg_1 s, ie_sync_in1 s) of
                 (None, x # xs) \<Rightarrow> s\<lparr>ie_pkg_1 := Some x, ie_sync_in1 := xs\<rparr> | _ \<Rightarrow> s)
      in case (ie_pkg_2 s, ie_sync_in2 s) of
           (None, x # xs) \<Rightarrow> s\<lparr>ie_pkg_2 := Some x, ie_sync_in2 := xs\<rparr> | _ \<Rightarrow> s)"

definition inter_matches :: "u16 \<Rightarrow> burst_sync pkg option \<Rightarrow> bool" where
  "inter_matches current held = (case held of None \<Rightarrow> False | Some x \<Rightarrow> bs_burst_id (data x) AND 0x7fff = current)"

definition inter_next :: "u16 \<Rightarrow> burst_sync pkg \<Rightarrow> u16" where
  "inter_next current x = (if bs_burst_id (data x) AND 0x8000 \<noteq> 0 then (current + 1) AND 0x7fff else current)"

definition inter_hand_on :: "'w inter \<Rightarrow> ('w inter \<times> (burst_sync pkg \<times> 'w) list) option" where
  "inter_hand_on s =
     (let tmp_current_id = ie_current_id s
      in if inter_matches tmp_current_id (ie_pkg_1 s)
         then (case ie_weight_in1 s of [] \<Rightarrow> None
           | w # ws \<Rightarrow> Some (s\<lparr>ie_pkg_1 := None, ie_weight_in1 := ws,
                 ie_current_id := inter_next tmp_current_id (the (ie_pkg_1 s))\<rparr>, [(the (ie_pkg_1 s), w)]))
         else if inter_matches tmp_current_id (ie_pkg_2 s)
         then (case ie_weight_in2 s of [] \<Rightarrow> None
           | w # ws \<Rightarrow> Some (s\<lparr>ie_pkg_2 := None, ie_weight_in2 := ws,
                 ie_current_id := inter_next tmp_current_id (the (ie_pkg_2 s))\<rparr>, [(the (ie_pkg_2 s), w)]))
         else Some (s, []))"

definition inter_merge_step :: "'w inter \<Rightarrow> ('w inter \<times> (burst_sync pkg \<times> 'w) list) option" where
  "inter_merge_step s = inter_hand_on (inter_poll s)"

definition inter_init :: "'w inter" where
  "inter_init = \<lparr>ie_sync_in1 = [], ie_weight_in1 = [], ie_sync_in2 = [], ie_weight_in2 = [],
     ie_pkg_1 = None, ie_pkg_2 = None, ie_current_id = 0\<rparr>"

text \<open>\<open>update_merge\<close>: single packages, compared with the whole identifier.\<close>

record update =
  up_in1 :: "next_vertex_ordered pkg list"
  up_in2 :: "next_vertex_ordered pkg list"
  up_pkg_1 :: "next_vertex_ordered pkg option"
  up_pkg_2 :: "next_vertex_ordered pkg option"
  up_current_id :: u16

definition update_poll :: "update \<Rightarrow> update" where
  "update_poll s =
     (let s = (case (up_pkg_1 s, up_in1 s) of
                 (None, x # xs) \<Rightarrow> s\<lparr>up_pkg_1 := Some x, up_in1 := xs\<rparr> | _ \<Rightarrow> s)
      in case (up_pkg_2 s, up_in2 s) of
           (None, x # xs) \<Rightarrow> s\<lparr>up_pkg_2 := Some x, up_in2 := xs\<rparr> | _ \<Rightarrow> s)"

definition update_matches :: "u16 \<Rightarrow> next_vertex_ordered pkg option \<Rightarrow> bool" where
  "update_matches current held = (case held of None \<Rightarrow> False | Some x \<Rightarrow> nvo_id (data x) = current)"

definition update_out :: "next_vertex_ordered pkg \<Rightarrow> u32 pkg" where
  "update_out x = \<lparr>data = nvo_vertex (data x), last = last x\<rparr>"

definition update_hand_on :: "update \<Rightarrow> update \<times> u32 pkg list" where
  "update_hand_on s =
     (let tmp_current_id = up_current_id s; next_id = (tmp_current_id + 1) AND 0x7fff
      in if update_matches tmp_current_id (up_pkg_1 s)
         then (s\<lparr>up_pkg_1 := None, up_current_id := next_id\<rparr>, [update_out (the (up_pkg_1 s))])
         else if update_matches tmp_current_id (up_pkg_2 s)
         then (s\<lparr>up_pkg_2 := None, up_current_id := next_id\<rparr>, [update_out (the (up_pkg_2 s))])
         else (s, []))"

definition update_merge_step :: "update \<Rightarrow> (update \<times> u32 pkg list) option" where
  "update_merge_step s = Some (update_hand_on (update_poll s))"

definition update_init :: update where
  "update_init = \<lparr>up_in1 = [], up_in2 = [], up_pkg_1 = None, up_pkg_2 = None, up_current_id = 0\<rparr>"

section \<open>The sequence to restore\<close>

text \<open>
  The elements of the sequence with the number of their group; \<open>fin\<close> says of an element that it is the
  last one of its group.  The tags are the numbers modulo 2 ^ 15.
\<close>

fun numbered :: "('a \<Rightarrow> bool) \<Rightarrow> nat \<Rightarrow> 'a list \<Rightarrow> (nat \<times> 'a) list" where
  "numbered fin g [] = []"
| "numbered fin g (x # xs) = (g, x) # numbered fin (if fin x then Suc g else g) xs"

definition tagged :: "('a \<Rightarrow> u16) \<Rightarrow> ('a \<Rightarrow> bool) \<Rightarrow> 'a list \<Rightarrow> bool" where
  "tagged tag fin xs \<longleftrightarrow> (\<forall>(g, x) \<in> set (numbered fin 0 xs). tag x = of_nat (g mod 2 ^ 15))"

text \<open>The part of the sequence that goes through one input: the groups \<open>R\<close> selects.\<close>

definition branch :: "(nat \<Rightarrow> bool) \<Rightarrow> ('a \<Rightarrow> bool) \<Rightarrow> nat \<Rightarrow> 'a list \<Rightarrow> (nat \<times> 'a) list" where
  "branch R fin g xs = filter (R \<circ> fst) (numbered fin g xs)"

text \<open>
  The kernel and its two inputs: \<open>f1\<close> and \<open>f2\<close> are still to arrive.  An element arrives when its
  group is fewer than 2 ^ 15 groups ahead of the output, which holds in the design because far fewer
  groups fit into the FIFOs between the numbering and the merge.
\<close>

inductive merge_run ::
    "('s \<Rightarrow> ('s \<times> 'b list) option) \<Rightarrow> ('a \<Rightarrow> 's \<Rightarrow> 's) \<Rightarrow> ('a \<Rightarrow> 's \<Rightarrow> 's) \<Rightarrow> ('b \<Rightarrow> bool) \<Rightarrow>
     's \<times> (nat \<times> 'a) list \<times> (nat \<times> 'a) list \<times> 'b list \<Rightarrow>
     's \<times> (nat \<times> 'a) list \<times> (nat \<times> 'a) list \<times> 'b list \<Rightarrow> bool"
  for kernel recv1 recv2 finb where
  arrive1: "h < length (filter finb out) + 2 ^ 15 \<Longrightarrow>
    merge_run kernel recv1 recv2 finb (s, (h, x) # f1, f2, out) (recv1 x s, f1, f2, out)"
| arrive2: "h < length (filter finb out) + 2 ^ 15 \<Longrightarrow>
    merge_run kernel recv1 recv2 finb (s, f1, (h, x) # f2, out) (recv2 x s, f1, f2, out)"
| iterate: "kernel s = Some (s', new) \<Longrightarrow>
    merge_run kernel recv1 recv2 finb (s, f1, f2, out) (s', f1, f2, out @ new)"

lemma map_snd_numbered [simp]: "map snd (numbered fin g xs) = xs"
  by (induction fin g xs rule: numbered.induct) simp_all

lemma numbered_ge: "(h, x) \<in> set (numbered fin g xs) \<Longrightarrow> g \<le> h"
  by (induction fin g xs rule: numbered.induct) (auto split: if_splits)

lemma of_nat_mod_15: "(of_nat (a mod 2 ^ 15) :: u16) = of_nat (b mod 2 ^ 15) \<longleftrightarrow> a mod 2 ^ 15 = b mod 2 ^ 15"
proof -
  have "a mod 2 ^ 15 < 2 ^ 16" "b mod 2 ^ 15 < 2 ^ 16" using mod_less_divisor [of "2 ^ 15 :: nat"] by (simp_all add: less_trans)
  then show ?thesis by (simp add: word_unat_eq_iff unat_of_nat)
qed

text \<open>Numbers that agree modulo 2 ^ 15 and are less than 2 ^ 15 apart are equal.\<close>

lemma window_eq:
  assumes "(g :: nat) \<le> h" and "h < g + 2 ^ 15" and "h mod 2 ^ 15 = g mod 2 ^ 15"
  shows "h = g"
proof (rule ccontr)
  assume "h \<noteq> g"
  have "2 ^ 15 dvd h - g"
    using assms(1,3) by (metis mod_eq_dvd_iff_nat)
  moreover have "0 < h - g" "h - g < 2 ^ 15" using assms \<open>h \<noteq> g\<close> by auto
  ultimately show False by (meson nat_dvd_not_less)
qed

definition advance :: "bool \<Rightarrow> u16 \<Rightarrow> u16" where
  "advance b c = (if b then (c + 1) AND 0x7fff else c)"

lemma word_of_unat: "unat (w :: u16) = n \<Longrightarrow> w = of_nat n"
  by auto

lemma advance_of_nat: "advance b (of_nat (g mod 2 ^ 15)) = of_nat ((if b then Suc g else g) mod 2 ^ 15)"
proof -
  have mask: "(0x7fff :: u16) = mask 15" by (simp add: mask_eq_exp_minus_1)
  have "(of_nat (g mod 2 ^ 15) + 1 :: u16) = of_nat (Suc (g mod 2 ^ 15))" by simp
  moreover have "unat (take_bit 15 (of_nat (Suc (g mod 2 ^ 15)) :: u16)) = Suc g mod 2 ^ 15"
  proof -
    have "Suc (g mod 2 ^ 15) \<le> 2 ^ 15" using mod_less_divisor [of "2 ^ 15" g] by simp
    then have "unat (of_nat (Suc (g mod 2 ^ 15)) :: u16) = Suc (g mod 2 ^ 15)"
      by (subst unat_of_nat) simp
    then have "unat (take_bit 15 (of_nat (Suc (g mod 2 ^ 15)) :: u16)) = Suc (g mod 2 ^ 15) mod 2 ^ 15"
      by (simp only: unsigned_take_bit_eq) (simp only: take_bit_eq_mod)
    then show ?thesis by (simp only: mod_Suc_eq)
  qed
  then have "take_bit 15 (of_nat (Suc (g mod 2 ^ 15)) :: u16) = of_nat (Suc g mod 2 ^ 15)"
    by (metis word_of_unat)
  ultimately show ?thesis
    by (simp only: advance_def mask flip: take_bit_eq_mask) (cases b; simp only: if_True if_False)
qed

lemma head_is_next:
  assumes "branch R fin g rest = (h, x) # q"
    and "\<forall>(h, x) \<in> set (numbered fin g rest). tag x = of_nat (h mod 2 ^ 15)"
    and "tag x = (of_nat (g mod 2 ^ 15) :: u16)" and "h < g + 2 ^ 15"
    and "g' = (if fin x then Suc g else g)"
  obtains rest' where "rest = x # rest'" and "branch R fin g' rest' = q"
    and "branch (\<lambda>g. \<not> R g) fin g rest = branch (\<lambda>g. \<not> R g) fin g' rest'"
proof -
  have "(h, x) \<in> set (branch R fin g rest)" using assms(1) by simp
  then have mem: "(h, x) \<in> set (numbered fin g rest)" "R h"
    by (auto simp: branch_def)
  with assms(2) have "tag x = of_nat (h mod 2 ^ 15)" by auto
  from trans [OF sym [OF this] assms(3)] have "h mod 2 ^ 15 = g mod 2 ^ 15" by (rule iffD1 [OF of_nat_mod_15])
  then have h: "h = g" by (rule window_eq [OF numbered_ge [OF mem(1)] assms(4)])
  obtain y rest' where rest: "rest = y # rest'"
    using mem(1) by (cases rest) auto
  with assms(1) h mem(2) have "y = x" by (auto simp: branch_def)
  with assms(1,5) h mem(2) rest show ?thesis
    by (intro that [of rest']) (auto simp: branch_def)
qed

definition in_window :: "nat \<Rightarrow> (nat \<times> 'a) list \<Rightarrow> bool" where
  "in_window g p \<longleftrightarrow> (\<forall>e \<in> set p. fst e < g + 2 ^ 15)"

lemma in_window_simps [simp]:
  "in_window g []" "in_window g ((h, x) # p) \<longleftrightarrow> h < g + 2 ^ 15 \<and> in_window g p"
  "in_window g (p @ q) \<longleftrightarrow> in_window g p \<and> in_window g q"
  by (auto simp: in_window_def)

lemma in_window_mono: "in_window g p \<Longrightarrow> g \<le> g' \<Longrightarrow> in_window g' p"
  by (fastforce simp: in_window_def)

section \<open>The contract of the kernels\<close>

text \<open>What an iteration does, in terms of what is pending.\<close>

definition one_taken :: "('s \<Rightarrow> 'a list) \<Rightarrow> ('s \<Rightarrow> 'a list) \<Rightarrow> ('s \<Rightarrow> u16) \<Rightarrow> ('a \<Rightarrow> u16) \<Rightarrow> ('a \<Rightarrow> bool) \<Rightarrow> ('a \<Rightarrow> 'b) \<Rightarrow>
    's \<Rightarrow> 's \<Rightarrow> 'b list \<Rightarrow> bool" where
  "one_taken p1 p2 cur tag fin emit s s' new \<longleftrightarrow>
     (\<exists>x. p1 s = x # p1 s' \<and> p2 s' = p2 s \<and> tag x = cur s \<and> cur s' = advance (fin x) (cur s) \<and> new = [emit x])"

definition none_taken :: "('s \<Rightarrow> 'a list) \<Rightarrow> ('s \<Rightarrow> 'a list) \<Rightarrow> ('s \<Rightarrow> u16) \<Rightarrow> ('a \<Rightarrow> u16) \<Rightarrow> 's \<Rightarrow> 's \<Rightarrow> 'b list \<Rightarrow> bool" where
  "none_taken p1 p2 cur tag s s' new \<longleftrightarrow>
     p1 s' = p1 s \<and> p2 s' = p2 s \<and> cur s' = cur s \<and> new = [] \<and>
     (\<forall>x \<in> set (take 1 (p1 s) @ take 1 (p2 s)). tag x \<noteq> cur s)"

definition kernel_takes :: "('s \<Rightarrow> 'a list) \<Rightarrow> ('s \<Rightarrow> 'a list) \<Rightarrow> ('s \<Rightarrow> u16) \<Rightarrow> ('a \<Rightarrow> u16) \<Rightarrow> ('a \<Rightarrow> bool) \<Rightarrow> ('a \<Rightarrow> 'b) \<Rightarrow>
    's \<Rightarrow> 's \<Rightarrow> 'b list \<Rightarrow> bool" where
  "kernel_takes p1 p2 cur tag fin emit s s' new \<longleftrightarrow>
     one_taken p1 p2 cur tag fin emit s s' new \<or> one_taken p2 p1 cur tag fin emit s s' new \<or>
     none_taken p1 p2 cur tag s s' new"

lemma kernel_takes_cong:
  "p1 t = p1 s \<Longrightarrow> p2 t = p2 s \<Longrightarrow> cur t = cur s \<Longrightarrow>
     kernel_takes p1 p2 cur tag fin emit t s' new = kernel_takes p1 p2 cur tag fin emit s s' new"
  by (simp add: kernel_takes_def one_taken_def none_taken_def)

text \<open>The shape the three kernels have: each input has its head held, or nothing pending.\<close>

lemma kernel_takesI:
  assumes "h1 = None \<Longrightarrow> p1 t = []" and "h2 = None \<Longrightarrow> p2 t = []"
    and "\<And>x. h1 = Some x \<Longrightarrow> p1 t = x # q1" and "\<And>x. h2 = Some x \<Longrightarrow> p2 t = x # q2"
    and "\<And>x. h1 = Some x \<Longrightarrow> tag x = cur t \<Longrightarrow>
      p1 t' = q1 \<and> p2 t' = p2 t \<and> cur t' = advance (fin x) (cur t) \<and> new = [emit x]"
    and "\<And>x. \<not> (\<exists>y. h1 = Some y \<and> tag y = cur t) \<Longrightarrow> h2 = Some x \<Longrightarrow> tag x = cur t \<Longrightarrow>
      p2 t' = q2 \<and> p1 t' = p1 t \<and> cur t' = advance (fin x) (cur t) \<and> new = [emit x]"
    and "\<not> (\<exists>y. h1 = Some y \<and> tag y = cur t) \<Longrightarrow> \<not> (\<exists>y. h2 = Some y \<and> tag y = cur t) \<Longrightarrow> t' = t \<and> new = []"
  shows "kernel_takes p1 p2 cur tag fin emit t t' new"
proof -
  consider (one) x where "h1 = Some x" "tag x = cur t"
    | (two) x where "\<not> (\<exists>y. h1 = Some y \<and> tag y = cur t)" "h2 = Some x" "tag x = cur t"
    | (idle) "\<not> (\<exists>y. h1 = Some y \<and> tag y = cur t)" "\<not> (\<exists>y. h2 = Some y \<and> tag y = cur t)"
    by blast
  then show ?thesis
  proof cases
    case (one x)
    with assms(3,5) show ?thesis by (simp add: kernel_takes_def one_taken_def)
  next
    case (two x)
    with assms(4,6) show ?thesis by (simp add: kernel_takes_def one_taken_def)
  next
    case idle
    have "\<forall>x \<in> set (take 1 (p1 t)). tag x \<noteq> cur t" using assms(1,3) idle(1) by (cases h1) auto
    moreover have "\<forall>x \<in> set (take 1 (p2 t)). tag x \<noteq> cur t" using assms(2,4) idle(2) by (cases h2) auto
    ultimately show ?thesis using assms(7) [OF idle] by (auto simp: kernel_takes_def none_taken_def)
  qed
qed

locale ordered_merge =
  fixes kernel :: "'s \<Rightarrow> ('s \<times> 'b list) option"
    and recv1 recv2 :: "'a \<Rightarrow> 's \<Rightarrow> 's"
    and pend1 pend2 :: "'s \<Rightarrow> 'a list"
    and cur :: "'s \<Rightarrow> u16"
    and wf :: "'s \<Rightarrow> bool"
    and tag :: "'a \<Rightarrow> u16"
    and fin :: "'a \<Rightarrow> bool"
    and emit :: "'a \<Rightarrow> 'b"
    and finb :: "'b \<Rightarrow> bool"
  assumes recv1: "wf s \<Longrightarrow> wf (recv1 x s) \<and> pend1 (recv1 x s) = pend1 s @ [x] \<and> pend2 (recv1 x s) = pend2 s \<and>
      cur (recv1 x s) = cur s"
    and recv2: "wf s \<Longrightarrow> wf (recv2 x s) \<and> pend2 (recv2 x s) = pend2 s @ [x] \<and> pend1 (recv2 x s) = pend1 s \<and>
      cur (recv2 x s) = cur s"
    and total: "wf s \<Longrightarrow> kernel s \<noteq> None"
    and kernel_wf: "wf s \<Longrightarrow> kernel s = Some (s', new) \<Longrightarrow> wf s'"
    and takes: "wf s \<Longrightarrow> kernel s = Some (s', new) \<Longrightarrow> kernel_takes pend1 pend2 cur tag fin emit s s' new"
    and finb_emit: "finb (emit x) = fin x"
begin

definition in_order :: "(nat \<Rightarrow> bool) \<Rightarrow> 'a list \<Rightarrow> 's \<times> (nat \<times> 'a) list \<times> (nat \<times> 'a) list \<times> 'b list \<Rightarrow> bool" where
  "in_order R whole c =
    (case c of (s, f1, f2, out) \<Rightarrow> wf s \<and>
      (\<exists>front rest g p1 p2. whole = front @ rest \<and> out = map emit front \<and> g = length (filter finb out) \<and>
        cur s = of_nat (g mod 2 ^ 15) \<and>
        (\<forall>(h, x) \<in> set (numbered fin g rest). tag x = of_nat (h mod 2 ^ 15)) \<and>
        map snd p1 = pend1 s \<and> p1 @ f1 = branch R fin g rest \<and>
        map snd p2 = pend2 s \<and> p2 @ f2 = branch (\<lambda>g. \<not> R g) fin g rest \<and>
        in_window g p1 \<and> in_window g p2))"

text \<open>Handing on the head of the input \<open>R\<close>; the other input is symmetric.\<close>

lemma take_head:
  assumes "p @ f = branch R fin g rest" and "map snd p = x # ps"
    and "p' @ f' = branch (\<lambda>g. \<not> R g) fin g rest"
    and "\<forall>(h, x) \<in> set (numbered fin g rest). tag x = of_nat (h mod 2 ^ 15)"
    and "tag x = of_nat (g mod 2 ^ 15)" and "in_window g p" and "in_window g p'"
    and "g' = (if fin x then Suc g else g)"
  obtains rest' q where "rest = x # rest'" and "map snd q = ps"
    and "q @ f = branch R fin g' rest'" and "p' @ f' = branch (\<lambda>g. \<not> R g) fin g' rest'"
    and "\<forall>(h, x) \<in> set (numbered fin g' rest'). tag x = of_nat (h mod 2 ^ 15)"
    and "in_window g' q" and "in_window g' p'"
proof -
  from assms(2) obtain h q where p: "p = (h, x) # q" "map snd q = ps" by auto
  have "branch R fin g rest = (h, x) # (q @ f)" using assms(1) p(1) by simp
  moreover note assms(4,5)
  moreover have "h < g + 2 ^ 15" using assms(6) p(1) by simp
  ultimately obtain rest' where rest': "rest = x # rest'" "branch R fin g' rest' = q @ f"
    "branch (\<lambda>g. \<not> R g) fin g rest = branch (\<lambda>g. \<not> R g) fin g' rest'"
    using assms(8) by (rule head_is_next)
  show ?thesis
  proof (rule that [OF rest'(1) p(2)])
    have "g \<le> g'" using assms(8) by simp
    then show "in_window g' q" "in_window g' p'"
      using assms(6,7) p(1) by (auto intro: in_window_mono)
  qed (use rest' assms(3,4,8) in auto)
qed

lemma in_orderE:
  assumes "in_order R whole (s, f1, f2, out)"
  obtains front rest g p1 p2 where "wf s" and "whole = front @ rest" and "out = map emit front"
    and "g = length (filter finb out)" and "cur s = of_nat (g mod 2 ^ 15)"
    and "\<forall>(h, x) \<in> set (numbered fin g rest). tag x = of_nat (h mod 2 ^ 15)"
    and "map snd p1 = pend1 s" and "p1 @ f1 = branch R fin g rest"
    and "map snd p2 = pend2 s" and "p2 @ f2 = branch (\<lambda>g. \<not> R g) fin g rest"
    and "in_window g p1" and "in_window g p2"
  using assms unfolding in_order_def by blast

lemma in_orderI:
  assumes "wf s" and "whole = front @ rest" and "out = map emit front"
    and "g = length (filter finb out)" and "cur s = of_nat (g mod 2 ^ 15)"
    and "\<forall>(h, x) \<in> set (numbered fin g rest). tag x = of_nat (h mod 2 ^ 15)"
    and "map snd p1 = pend1 s" and "p1 @ f1 = branch R fin g rest"
    and "map snd p2 = pend2 s" and "p2 @ f2 = branch (\<lambda>g. \<not> R g) fin g rest"
    and "in_window g p1" and "in_window g p2"
  shows "in_order R whole (s, f1, f2, out)"
  using assms unfolding in_order_def by blast

lemma in_order_start:
  assumes "wf s" and "pend1 s = []" and "pend2 s = []" and "cur s = 0" and "tagged tag fin whole"
  shows "in_order R whole (s, branch R fin 0 whole, branch (\<lambda>g. \<not> R g) fin 0 whole, [])"
  by (rule in_orderI [of s whole "[]" whole "[]" 0 "[]" _ _ "[]"])
    (use assms in \<open>auto simp: tagged_def\<close>)

lemma in_order_arrive:
  assumes "in_order R whole (s, f1, f2, out)" and "h < length (filter finb out) + 2 ^ 15"
  shows "f1 = (h, x) # f1' \<Longrightarrow> in_order R whole (recv1 x s, f1', f2, out)"
    and "f2 = (h, x) # f2' \<Longrightarrow> in_order R whole (recv2 x s, f1, f2', out)"
proof -
  from assms(1) obtain front rest g p1 p2 where inv: "wf s" "whole = front @ rest" "out = map emit front"
    "g = length (filter finb out)" "cur s = of_nat (g mod 2 ^ 15)"
    "\<forall>(h, x) \<in> set (numbered fin g rest). tag x = of_nat (h mod 2 ^ 15)"
    "map snd p1 = pend1 s" "p1 @ f1 = branch R fin g rest"
    "map snd p2 = pend2 s" "p2 @ f2 = branch (\<lambda>g. \<not> R g) fin g rest"
    "in_window g p1" "in_window g p2"
    by (rule in_orderE)
  show "in_order R whole (recv1 x s, f1', f2, out)" if "f1 = (h, x) # f1'"
    by (rule in_orderI [of _ whole front rest out g "p1 @ [(h, x)]" f1' R p2])
      (use inv recv1 [OF inv(1), of x] assms(2) that in auto)
  show "in_order R whole (recv2 x s, f1, f2', out)" if "f2 = (h, x) # f2'"
    by (rule in_orderI [of _ whole front rest out g p1 f1 R "p2 @ [(h, x)]"])
      (use inv recv2 [OF inv(1), of x] assms(2) that in auto)
qed

lemma in_order_iterate:
  assumes "in_order R whole (s, f1, f2, out)" and "kernel s = Some (s', new)"
  shows "in_order R whole (s', f1, f2, out @ new)"
proof -
  from assms(1) obtain front rest g p1 p2 where inv: "wf s" "whole = front @ rest" "out = map emit front"
    "g = length (filter finb out)" "cur s = of_nat (g mod 2 ^ 15)"
    "\<forall>(h, x) \<in> set (numbered fin g rest). tag x = of_nat (h mod 2 ^ 15)"
    "map snd p1 = pend1 s" "p1 @ f1 = branch R fin g rest"
    "map snd p2 = pend2 s" "p2 @ f2 = branch (\<lambda>g. \<not> R g) fin g rest"
    "in_window g p1" "in_window g p2"
    by (rule in_orderE)
  have wf': "wf s'" using kernel_wf inv(1) assms(2) .
  from takes [OF inv(1) assms(2)] consider
      (one) x where "pend1 s = x # pend1 s'" "pend2 s' = pend2 s" "tag x = cur s"
        "cur s' = advance (fin x) (cur s)" "new = [emit x]"
    | (two) x where "pend2 s = x # pend2 s'" "pend1 s' = pend1 s" "tag x = cur s"
        "cur s' = advance (fin x) (cur s)" "new = [emit x]"
    | (idle) "pend1 s' = pend1 s" "pend2 s' = pend2 s" "cur s' = cur s" "new = []"
    unfolding kernel_takes_def one_taken_def none_taken_def by blast
  then show ?thesis
  proof cases
    case (one x)
    define g' where "g' = (if fin x then Suc g else g)"
    from one inv(5) have tag: "tag x = of_nat (g mod 2 ^ 15)" by simp
    from take_head [OF inv(8) _ inv(10,6) tag inv(11,12) g'_def, of "pend1 s'"] one(1) inv(7)
    obtain rest' q where "rest = x # rest'" "map snd q = pend1 s'" "q @ f1 = branch R fin g' rest'"
      "p2 @ f2 = branch (\<lambda>g. \<not> R g) fin g' rest'"
      "\<forall>(h, x) \<in> set (numbered fin g' rest'). tag x = of_nat (h mod 2 ^ 15)"
      "in_window g' q" "in_window g' p2" by metis
    moreover from this have "g' = length (filter finb (out @ new))" "whole = (front @ [x]) @ rest'"
      using one(5) inv(2,4) by (simp_all add: g'_def finb_emit)
    moreover have "cur s' = of_nat (g' mod 2 ^ 15)"
      using one(4) inv(5) advance_of_nat [of "fin x" g] by (simp only: g'_def)
    ultimately show ?thesis
      using one(2,5) inv(3,9) wf' by (intro in_orderI [of s' whole "front @ [x]" rest' "out @ new" g' q f1 R p2]) simp_all
  next
    case (two x)
    define g' where "g' = (if fin x then Suc g else g)"
    from two inv(5) have tag: "tag x = of_nat (g mod 2 ^ 15)" by simp
    have "p1 @ f1 = branch (\<lambda>g. \<not> \<not> R g) fin g rest"
      using inv(8) by simp
    from take_head [OF inv(10) _ this(1) inv(6) tag inv(12,11) g'_def, of "pend2 s'"] two(1) inv(9)
    obtain rest' q where "rest = x # rest'" "map snd q = pend2 s'" "q @ f2 = branch (\<lambda>g. \<not> R g) fin g' rest'"
      "p1 @ f1 = branch (\<lambda>g. \<not> \<not> R g) fin g' rest'"
      "\<forall>(h, x) \<in> set (numbered fin g' rest'). tag x = of_nat (h mod 2 ^ 15)"
      "in_window g' q" "in_window g' p1" by metis
    moreover from this have "g' = length (filter finb (out @ new))" "whole = (front @ [x]) @ rest'"
      using two(5) inv(2,4) by (simp_all add: g'_def finb_emit)
    moreover have "cur s' = of_nat (g' mod 2 ^ 15)"
      using two(4) inv(5) advance_of_nat [of "fin x" g] by (simp only: g'_def)
    ultimately show ?thesis
      using two(2,5) inv(3,7) wf' by (intro in_orderI [of s' whole "front @ [x]" rest' "out @ new" g' p1 f1 R q]) simp_all
  next
    case idle
    show ?thesis
      by (rule in_orderI [of s' whole front rest "out @ new" g p1 f1 R p2])
        (use inv wf' idle in auto)
  qed
qed

lemma merge_run_in_order:
  assumes "(merge_run kernel recv1 recv2 finb)\<^sup>*\<^sup>* c c'" and "in_order R whole c"
  shows "in_order R whole c'"
  using assms(1)
proof induction
  case (step c d)
  from step(2,3) show ?case
    by cases (auto intro: in_order_arrive in_order_iterate)
qed (rule assms(2))

lemma in_order_prefix: "in_order R whole (s, f1, f2, out) \<Longrightarrow> prefix out (map emit whole) \<and> kernel s \<noteq> None"
  by (erule in_orderE) (use total in auto)

text \<open>Until the output is complete the next element can arrive, or has arrived and is handed on.\<close>

lemma next_element:
  assumes "in_order R whole (s, f1, f2, out)" and "out \<noteq> map emit whole"
  obtains (arrive) c where "merge_run kernel recv1 recv2 finb (s, f1, f2, out) c"
      and "\<exists>s' f1' f2'. c = (s', f1', f2', out) \<and> length f1' + length f2' < length f1 + length f2"
    | (emitted) s' y where "kernel s = Some (s', [y])"
proof -
  from assms(1) obtain front rest g p1 p2 where inv: "wf s" "whole = front @ rest" "out = map emit front"
    "g = length (filter finb out)" "cur s = of_nat (g mod 2 ^ 15)"
    "\<forall>(h, x) \<in> set (numbered fin g rest). tag x = of_nat (h mod 2 ^ 15)"
    "map snd p1 = pend1 s" "p1 @ f1 = branch R fin g rest"
    "map snd p2 = pend2 s" "p2 @ f2 = branch (\<lambda>g. \<not> R g) fin g rest"
    "in_window g p1" "in_window g p2"
    by (rule in_orderE)
  obtain y ys where rest: "rest = y # ys"
    using inv(2,3) assms(2) by (cases rest) auto
  have tag: "tag y = cur s" using inv(5,6) rest by auto
  obtain s' new where kernel: "kernel s = Some (s', new)" using total [OF inv(1)] by auto
  have emits: "\<exists>z. new = [z]" if "y \<in> set (take 1 (pend1 s) @ take 1 (pend2 s))"
    using takes [OF inv(1) kernel] that tag by (auto simp: kernel_takes_def one_taken_def none_taken_def)
  show ?thesis
  proof (cases "R g")
    case True
    then obtain zs where zs: "p1 @ f1 = (g, y) # zs" using inv(8) rest by (simp add: branch_def)
    show ?thesis
    proof (cases p1)
      case Nil
      with zs have "f1 = (g, y) # zs" by simp
      then show ?thesis
        using arrive1 [of g finb out kernel recv1 recv2 s y zs f2] inv(4) by (intro arrive) auto
    next
      case (Cons e p)
      with zs inv(7) have "pend1 s = y # map snd p" by auto
      then have "y \<in> set (take 1 (pend1 s) @ take 1 (pend2 s))" by simp
      with kernel emits show ?thesis by (metis emitted)
    qed
  next
    case False
    then obtain zs where zs: "p2 @ f2 = (g, y) # zs" using inv(10) rest by (simp add: branch_def)
    show ?thesis
    proof (cases p2)
      case Nil
      with zs have "f2 = (g, y) # zs" by simp
      then show ?thesis
        using arrive2 [of g finb out kernel recv1 recv2 s f1 y zs] inv(4) by (intro arrive) auto
    next
      case (Cons e p)
      with zs inv(9) have "pend2 s = y # map snd p" by auto
      then have "y \<in> set (take 1 (pend1 s) @ take 1 (pend2 s))" by simp
      with kernel emits show ?thesis by (metis emitted)
    qed
  qed
qed

lemma in_order_finished:
  assumes "in_order R whole (s, f1, f2, map emit whole)"
  shows "f1 = [] \<and> f2 = []"
  using assms by (rule in_orderE) (auto simp: branch_def dest: arg_cong [where f = length])

lemma merge_completes:
  assumes "in_order R whole (s, f1, f2, out)"
  shows "\<exists>s'. (merge_run kernel recv1 recv2 finb)\<^sup>*\<^sup>* (s, f1, f2, out) (s', [], [], map emit whole)"
  using assms
proof (induction "length f1 + length f2 + (length whole - length out)" arbitrary: s f1 f2 out rule: less_induct)
  case less
  show ?case
  proof (cases "out = map emit whole")
    case True
    with less.prems in_order_finished show ?thesis by blast
  next
    case False
    from less.prems False show ?thesis
    proof (cases rule: next_element)
      case (arrive c)
      then obtain s' f1' f2' where c: "c = (s', f1', f2', out)" "length f1' + length f2' < length f1 + length f2" by auto
      with arrive(1) merge_run_in_order [OF r_into_rtranclp less.prems] have "in_order R whole (s', f1', f2', out)" by simp
      with c less.hyps [of f1' f2' out s'] arrive(1) show ?thesis
        by (auto intro: converse_rtranclp_into_rtranclp)
    next
      case (emitted s' y)
      then have inv: "in_order R whole (s', f1, f2, out @ [y])" using in_order_iterate less.prems by blast
      then have "length (out @ [y]) \<le> length whole"
        using in_order_prefix prefix_length_le by fastforce
      then have "length f1 + length f2 + (length whole - length (out @ [y])) <
          length f1 + length f2 + (length whole - length out)" by simp
      from less.hyps [OF this inv] iterate [of kernel s s' "[y]" recv1 recv2 finb f1 f2 out, OF emitted] show ?thesis
        by (auto intro: converse_rtranclp_into_rtranclp)
    qed
  qed
qed

text \<open>The contract as it is used outside: from the start, whatever the schedule.\<close>

lemma merge_correct:
  assumes "wf s0" and "pend1 s0 = []" and "pend2 s0 = []" and "cur s0 = 0" and "tagged tag fin whole"
    and "(merge_run kernel recv1 recv2 finb)\<^sup>*\<^sup>*
      (s0, branch R fin 0 whole, branch (\<lambda>g. \<not> R g) fin 0 whole, []) (s, f1, f2, out)"
  shows "prefix out (map emit whole)" and "kernel s \<noteq> None"
    and "\<exists>s'. (merge_run kernel recv1 recv2 finb)\<^sup>*\<^sup>* (s, f1, f2, out) (s', [], [], map emit whole)"
proof -
  have "in_order R whole (s, f1, f2, out)"
    using merge_run_in_order assms(6) in_order_start [OF assms(1-5)] .
  then show "prefix out (map emit whole)" and "kernel s \<noteq> None"
    and "\<exists>s'. (merge_run kernel recv1 recv2 finb)\<^sup>*\<^sup>* (s, f1, f2, out) (s', [], [], map emit whole)"
    using in_order_prefix merge_completes by blast+
qed

end

end
