(* ===== verification/Merge_Order.thy ===== *)
theory Merge_Order
  imports Merge
begin

text \<open>
  The three merges of theory Merge satisfy the contract \<open>ordered_merge\<close>, so their outputs are in order and
  complete for every schedule of arrivals.
\<close>

section \<open>The three kernels satisfy it\<close>

fun intra_recv1 :: "burst_sync pkg \<times> 'w \<Rightarrow> 'w intra \<Rightarrow> 'w intra" where
  "intra_recv1 (x, w) s = s\<lparr>ia_sync_in1 := ia_sync_in1 s @ [x], ia_weight_in1 := ia_weight_in1 s @ [w]\<rparr>"

fun intra_recv2 :: "burst_sync pkg \<times> 'w \<Rightarrow> 'w intra \<Rightarrow> 'w intra" where
  "intra_recv2 (x, w) s = s\<lparr>ia_sync_in2 := ia_sync_in2 s @ [x], ia_weight_in2 := ia_weight_in2 s @ [w]\<rparr>"

definition held :: "'a option \<Rightarrow> 'a list" where
  "held p = (case p of None \<Rightarrow> [] | Some x \<Rightarrow> [x])"

definition intra_wf :: "'w intra \<Rightarrow> bool" where
  "intra_wf s \<longleftrightarrow> length (ia_sync_in1 s) = length (ia_weight_in1 s) \<and> length (ia_sync_in2 s) = length (ia_weight_in2 s)"

definition intra_pend1 :: "'w intra \<Rightarrow> (burst_sync pkg \<times> 'w) list" where
  "intra_pend1 s = held (ia_pkg_1 s) @ zip (ia_sync_in1 s) (ia_weight_in1 s)"

definition intra_pend2 :: "'w intra \<Rightarrow> (burst_sync pkg \<times> 'w) list" where
  "intra_pend2 s = held (ia_pkg_2 s) @ zip (ia_sync_in2 s) (ia_weight_in2 s)"

definition dyn_tag :: "burst_sync pkg \<times> 'w \<Rightarrow> u16" where
  "dyn_tag e = bs_dynamic_id (data (fst e)) AND 0x7fff"

definition dyn_end :: "burst_sync pkg \<times> 'w \<Rightarrow> bool" where
  "dyn_end e \<longleftrightarrow> bs_dynamic_id (data (fst e)) AND 0x8000 \<noteq> 0"

lemma intra_poll1:
  "intra_wf s \<Longrightarrow> intra_poll1 s \<noteq> None"
  "intra_wf s \<Longrightarrow> intra_poll1 s = Some s' \<Longrightarrow> intra_wf s' \<and> intra_pend1 s' = intra_pend1 s \<and>
     intra_pend2 s' = intra_pend2 s \<and> ia_current_id s' = ia_current_id s \<and>
     (ia_pkg_1 s' = None \<longrightarrow> intra_pend1 s = []) \<and> ia_pkg_2 s' = ia_pkg_2 s"
  by (auto simp: intra_poll1_def intra_wf_def intra_pend1_def intra_pend2_def held_def split: option.splits list.splits)

lemma intra_poll2:
  "intra_wf s \<Longrightarrow> intra_poll2 s \<noteq> None"
  "intra_wf s \<Longrightarrow> intra_poll2 s = Some s' \<Longrightarrow> intra_wf s' \<and> intra_pend1 s' = intra_pend1 s \<and>
     intra_pend2 s' = intra_pend2 s \<and> ia_current_id s' = ia_current_id s \<and>
     (ia_pkg_2 s' = None \<longrightarrow> intra_pend2 s = []) \<and> ia_pkg_1 s' = ia_pkg_1 s"
  by (auto simp: intra_poll2_def intra_wf_def intra_pend1_def intra_pend2_def held_def split: option.splits list.splits)

text \<open>After the polls a stream that has anything pending has its head held.\<close>

definition intra_polled :: "'w intra \<Rightarrow> bool" where
  "intra_polled s \<longleftrightarrow> intra_wf s \<and> (ia_pkg_1 s = None \<longrightarrow> intra_pend1 s = []) \<and> (ia_pkg_2 s = None \<longrightarrow> intra_pend2 s = [])"

lemma intra_polls:
  assumes "intra_wf s"
  obtains t where "Option.bind (intra_poll1 s) intra_poll2 = Some t" and "intra_polled t"
    and "intra_pend1 t = intra_pend1 s" and "intra_pend2 t = intra_pend2 s" and "ia_current_id t = ia_current_id s"
proof -
  from intra_poll1 [OF assms] obtain u where u: "intra_poll1 s = Some u" "intra_wf u" "intra_pend1 u = intra_pend1 s"
    "intra_pend2 u = intra_pend2 s" "ia_current_id u = ia_current_id s" "ia_pkg_1 u = None \<longrightarrow> intra_pend1 s = []"
    by blast
  from intra_poll2 [OF u(2)] obtain t where "intra_poll2 u = Some t" "intra_wf t" "intra_pend1 t = intra_pend1 u"
    "intra_pend2 t = intra_pend2 u" "ia_current_id t = ia_current_id u" "ia_pkg_2 t = None \<longrightarrow> intra_pend2 u = []"
    "ia_pkg_1 t = ia_pkg_1 u"
    by blast
  with u show ?thesis by (intro that [of t]) (simp_all add: intra_polled_def)
qed

lemma intra_matches_simps:
  "intra_matches c h \<longleftrightarrow> (\<exists>x. h = Some x \<and> dyn_tag x = c)"
  by (cases h) (auto simp: intra_matches_def dyn_tag_def split: prod.splits)

lemma intra_takes_polled:
  assumes "intra_polled t"
  shows "intra_wf (fst (intra_hand_on t)) \<and> kernel_takes intra_pend1 intra_pend2 ia_current_id dyn_tag dyn_end (\<lambda>x. x) t
    (fst (intra_hand_on t)) (snd (intra_hand_on t))"
proof
  show "intra_wf (fst (intra_hand_on t))"
    using assms by (simp add: intra_polled_def intra_wf_def intra_hand_on_def Let_def)
  have next': "intra_next c (fst x) = advance (dyn_end x) c" for c and x :: "burst_sync pkg \<times> 'w"
    by (simp add: intra_next_def advance_def dyn_end_def)
  show "kernel_takes intra_pend1 intra_pend2 ia_current_id dyn_tag dyn_end (\<lambda>x. x) t
    (fst (intra_hand_on t)) (snd (intra_hand_on t))"
    by (rule kernel_takesI [of "ia_pkg_1 t" _ _ "ia_pkg_2 t" _ "zip (ia_sync_in1 t) (ia_weight_in1 t)"
          "zip (ia_sync_in2 t) (ia_weight_in2 t)"])
      (use assms in \<open>auto simp: intra_polled_def intra_pend1_def intra_pend2_def held_def intra_hand_on_def
        intra_matches_simps next' Let_def simp del: split_paired_Ex split_paired_All\<close>)
qed

lemma intra_takes:
  assumes "intra_wf s"
  obtains r where "intra_merge_step s = Some r" and "intra_wf (fst r)"
    and "kernel_takes intra_pend1 intra_pend2 ia_current_id dyn_tag dyn_end (\<lambda>x. x) s (fst r) (snd r)"
proof -
  from assms obtain t where t: "Option.bind (intra_poll1 s) intra_poll2 = Some t" "intra_polled t"
    "intra_pend1 t = intra_pend1 s" "intra_pend2 t = intra_pend2 s" "ia_current_id t = ia_current_id s"
    by (rule intra_polls)
  have "intra_merge_step s = Option.bind (Option.bind (intra_poll1 s) intra_poll2) (\<lambda>t. Some (intra_hand_on t))"
    by (simp add: intra_merge_step_def)
  then have "intra_merge_step s = Some (intra_hand_on t)" by (simp only: t(1) bind.bind_lunit)
  with intra_takes_polled [OF t(2)] show ?thesis
    unfolding kernel_takes_cong [OF t(3-5)] by (intro that) auto
qed

interpretation intra: ordered_merge intra_merge_step intra_recv1 intra_recv2 intra_pend1 intra_pend2 ia_current_id
    intra_wf dyn_tag dyn_end "\<lambda>x. x" dyn_end
proof
  fix s s' :: "'w intra" and x :: "burst_sync pkg \<times> 'w" and new
  show "intra_wf s \<Longrightarrow> intra_wf (intra_recv1 x s) \<and> intra_pend1 (intra_recv1 x s) = intra_pend1 s @ [x] \<and>
      intra_pend2 (intra_recv1 x s) = intra_pend2 s \<and> ia_current_id (intra_recv1 x s) = ia_current_id s"
    and "intra_wf s \<Longrightarrow> intra_wf (intra_recv2 x s) \<and> intra_pend2 (intra_recv2 x s) = intra_pend2 s @ [x] \<and>
      intra_pend1 (intra_recv2 x s) = intra_pend1 s \<and> ia_current_id (intra_recv2 x s) = ia_current_id s"
    by (cases x; simp add: intra_wf_def intra_pend1_def intra_pend2_def)+
  show "intra_wf s \<Longrightarrow> intra_merge_step s \<noteq> None"
    by (metis intra_takes option.distinct(1))
  show "intra_wf s \<Longrightarrow> intra_merge_step s = Some (s', new) \<Longrightarrow> intra_wf s'"
    by (metis intra_takes option.inject fst_conv snd_conv)
  show "intra_wf s \<Longrightarrow> intra_merge_step s = Some (s', new) \<Longrightarrow>
      kernel_takes intra_pend1 intra_pend2 ia_current_id dyn_tag dyn_end (\<lambda>x. x) s s' new"
    by (metis intra_takes option.inject fst_conv snd_conv)
qed (rule refl)

subsection \<open>inter\_merge\<close>

fun inter_recv1 :: "burst_sync pkg \<times> 'w \<Rightarrow> 'w inter \<Rightarrow> 'w inter" where
  "inter_recv1 (x, w) s = s\<lparr>ie_sync_in1 := ie_sync_in1 s @ [x], ie_weight_in1 := ie_weight_in1 s @ [w]\<rparr>"

fun inter_recv2 :: "burst_sync pkg \<times> 'w \<Rightarrow> 'w inter \<Rightarrow> 'w inter" where
  "inter_recv2 (x, w) s = s\<lparr>ie_sync_in2 := ie_sync_in2 s @ [x], ie_weight_in2 := ie_weight_in2 s @ [w]\<rparr>"

definition inter_wf :: "'w inter \<Rightarrow> bool" where
  "inter_wf s \<longleftrightarrow> length (held (ie_pkg_1 s)) + length (ie_sync_in1 s) = length (ie_weight_in1 s) \<and>
     length (held (ie_pkg_2 s)) + length (ie_sync_in2 s) = length (ie_weight_in2 s)"

definition inter_pend1 :: "'w inter \<Rightarrow> (burst_sync pkg \<times> 'w) list" where
  "inter_pend1 s = zip (held (ie_pkg_1 s) @ ie_sync_in1 s) (ie_weight_in1 s)"

definition inter_pend2 :: "'w inter \<Rightarrow> (burst_sync pkg \<times> 'w) list" where
  "inter_pend2 s = zip (held (ie_pkg_2 s) @ ie_sync_in2 s) (ie_weight_in2 s)"

definition burst_tag :: "burst_sync pkg \<times> 'w \<Rightarrow> u16" where
  "burst_tag e = bs_burst_id (data (fst e)) AND 0x7fff"

definition burst_end :: "burst_sync pkg \<times> 'w \<Rightarrow> bool" where
  "burst_end e \<longleftrightarrow> bs_burst_id (data (fst e)) AND 0x8000 \<noteq> 0"

definition inter_polled :: "'w inter \<Rightarrow> bool" where
  "inter_polled s \<longleftrightarrow> inter_wf s \<and> (ie_pkg_1 s = None \<longrightarrow> inter_pend1 s = []) \<and> (ie_pkg_2 s = None \<longrightarrow> inter_pend2 s = [])"

lemma inter_polls:
  "inter_wf s \<Longrightarrow> inter_polled (inter_poll s)"
  "inter_wf s \<Longrightarrow> inter_pend1 (inter_poll s) = inter_pend1 s"
  "inter_wf s \<Longrightarrow> inter_pend2 (inter_poll s) = inter_pend2 s"
  "ie_current_id (inter_poll s) = ie_current_id s"
  by (cases "ie_pkg_1 s"; cases "ie_sync_in1 s"; cases "ie_pkg_2 s"; cases "ie_sync_in2 s";
      simp add: inter_poll_def inter_polled_def inter_wf_def inter_pend1_def inter_pend2_def held_def)+

definition inter_head :: "burst_sync pkg option \<Rightarrow> 'w list \<Rightarrow> (burst_sync pkg \<times> 'w) option" where
  "inter_head p ws = map_option (\<lambda>x. (x, hd ws)) p"

lemma inter_matches_simps:
  "inter_matches c h \<longleftrightarrow> (\<exists>y. inter_head h ws = Some y \<and> burst_tag y = c)"
  by (cases h) (auto simp: inter_matches_def burst_tag_def inter_head_def)

lemma inter_takes_polled:
  assumes "inter_polled t"
  obtains r where "inter_hand_on t = Some r" and "inter_wf (fst r)"
    and "kernel_takes inter_pend1 inter_pend2 ie_current_id burst_tag burst_end (\<lambda>x. x) t (fst r) (snd r)"
proof -
  have next': "inter_next c x = advance (burst_end (x, w)) c" for c x and w :: 'w
    by (simp add: inter_next_def advance_def burst_end_def)
  have heads: "ie_pkg_1 t = Some x \<Longrightarrow> \<exists>w ws. ie_weight_in1 t = w # ws" "ie_pkg_2 t = Some x \<Longrightarrow> \<exists>w ws. ie_weight_in2 t = w # ws" for x
    using assms by (cases "ie_weight_in1 t"; cases "ie_weight_in2 t"; auto simp: inter_polled_def inter_wf_def held_def)+
  have "inter_hand_on t \<noteq> None"
    using heads by (cases "ie_pkg_1 t"; cases "ie_pkg_2 t"; fastforce simp: inter_hand_on_def inter_matches_def Let_def)
  then obtain r where r: "inter_hand_on t = Some r" by blast
  moreover have "inter_wf (fst r)"
    using assms r by (auto simp: inter_polled_def inter_wf_def inter_hand_on_def inter_matches_def held_def Let_def
        split: option.splits list.splits if_splits)
  moreover have "kernel_takes inter_pend1 inter_pend2 ie_current_id burst_tag burst_end (\<lambda>x. x) t (fst r) (snd r)"
    by (rule kernel_takesI [of "inter_head (ie_pkg_1 t) (ie_weight_in1 t)" _ _ "inter_head (ie_pkg_2 t) (ie_weight_in2 t)" _
          "zip (ie_sync_in1 t) (tl (ie_weight_in1 t))" "zip (ie_sync_in2 t) (tl (ie_weight_in2 t))"])
      (use assms r heads in \<open>auto simp: inter_polled_def inter_pend1_def inter_pend2_def held_def inter_hand_on_def
        inter_matches_def inter_head_def burst_tag_def next' Let_def split: if_splits list.splits option.splits\<close>)
  ultimately show ?thesis by (rule that)
qed

lemma inter_takes:
  assumes "inter_wf s"
  obtains r where "inter_merge_step s = Some r" and "inter_wf (fst r)"
    and "kernel_takes inter_pend1 inter_pend2 ie_current_id burst_tag burst_end (\<lambda>x. x) s (fst r) (snd r)"
  using inter_takes_polled [OF inter_polls(1) [OF assms]]
    kernel_takes_cong [of inter_pend1 "inter_poll s" s inter_pend2 ie_current_id,
      OF inter_polls(2) [OF assms] inter_polls(3) [OF assms] inter_polls(4)]
  by (metis inter_merge_step_def)

interpretation inter: ordered_merge inter_merge_step inter_recv1 inter_recv2 inter_pend1 inter_pend2 ie_current_id
    inter_wf burst_tag burst_end "\<lambda>x. x" burst_end
proof
  fix s s' :: "'w inter" and x :: "burst_sync pkg \<times> 'w" and new
  show "inter_wf s \<Longrightarrow> inter_wf (inter_recv1 x s) \<and> inter_pend1 (inter_recv1 x s) = inter_pend1 s @ [x] \<and>
      inter_pend2 (inter_recv1 x s) = inter_pend2 s \<and> ie_current_id (inter_recv1 x s) = ie_current_id s"
    and "inter_wf s \<Longrightarrow> inter_wf (inter_recv2 x s) \<and> inter_pend2 (inter_recv2 x s) = inter_pend2 s @ [x] \<and>
      inter_pend1 (inter_recv2 x s) = inter_pend1 s \<and> ie_current_id (inter_recv2 x s) = ie_current_id s"
    by (cases x; simp add: inter_wf_def inter_pend1_def inter_pend2_def flip: append_assoc)+
  show "inter_wf s \<Longrightarrow> inter_merge_step s \<noteq> None"
    by (metis inter_takes option.distinct(1))
  show "inter_wf s \<Longrightarrow> inter_merge_step s = Some (s', new) \<Longrightarrow> inter_wf s'"
    by (metis inter_takes option.inject fst_conv snd_conv)
  show "inter_wf s \<Longrightarrow> inter_merge_step s = Some (s', new) \<Longrightarrow>
      kernel_takes inter_pend1 inter_pend2 ie_current_id burst_tag burst_end (\<lambda>x. x) s s' new"
    by (metis inter_takes option.inject fst_conv snd_conv)
qed (rule refl)

subsection \<open>update\_merge\<close>

definition update_recv1 :: "next_vertex_ordered pkg \<Rightarrow> update \<Rightarrow> update" where
  "update_recv1 x s = s\<lparr>up_in1 := up_in1 s @ [x]\<rparr>"

definition update_recv2 :: "next_vertex_ordered pkg \<Rightarrow> update \<Rightarrow> update" where
  "update_recv2 x s = s\<lparr>up_in2 := up_in2 s @ [x]\<rparr>"

definition update_pend1 :: "update \<Rightarrow> next_vertex_ordered pkg list" where
  "update_pend1 s = held (up_pkg_1 s) @ up_in1 s"

definition update_pend2 :: "update \<Rightarrow> next_vertex_ordered pkg list" where
  "update_pend2 s = held (up_pkg_2 s) @ up_in2 s"

definition update_tag :: "next_vertex_ordered pkg \<Rightarrow> u16" where
  "update_tag x = nvo_id (data x)"

definition update_polled :: "update \<Rightarrow> bool" where
  "update_polled s \<longleftrightarrow> (up_pkg_1 s = None \<longrightarrow> update_pend1 s = []) \<and> (up_pkg_2 s = None \<longrightarrow> update_pend2 s = [])"

lemma update_polls:
  "update_polled (update_poll s)"
  "update_pend1 (update_poll s) = update_pend1 s"
  "update_pend2 (update_poll s) = update_pend2 s"
  "up_current_id (update_poll s) = up_current_id s"
  by (cases "up_pkg_1 s"; cases "up_in1 s"; cases "up_pkg_2 s"; cases "up_in2 s";
      simp add: update_poll_def update_polled_def update_pend1_def update_pend2_def held_def)+

lemma update_takes_polled:
  assumes "update_polled t"
  shows "kernel_takes update_pend1 update_pend2 up_current_id update_tag (\<lambda>_. True) update_out t
    (fst (update_hand_on t)) (snd (update_hand_on t))"
  by (rule kernel_takesI [of "up_pkg_1 t" _ _ "up_pkg_2 t" _ "up_in1 t" "up_in2 t"])
    (use assms in \<open>auto simp: update_polled_def update_pend1_def update_pend2_def held_def update_hand_on_def
      update_matches_def update_tag_def advance_def Let_def split: option.splits\<close>)

lemma update_takes:
  assumes "update_merge_step s = Some (s', new)"
  shows "kernel_takes update_pend1 update_pend2 up_current_id update_tag (\<lambda>_. True) update_out s s' new"
  using assms update_takes_polled [OF update_polls(1) [of s]]
    kernel_takes_cong [of update_pend1 "update_poll s" s update_pend2 up_current_id, OF update_polls(2-4)]
  by (metis update_merge_step_def option.inject fst_conv snd_conv)

interpretation update: ordered_merge update_merge_step update_recv1 update_recv2 update_pend1 update_pend2 up_current_id
    "\<lambda>_. True" update_tag "\<lambda>_. True" update_out "\<lambda>_. True"
  by unfold_locales
    (auto simp: update_recv1_def update_recv2_def update_pend1_def update_pend2_def update_merge_step_def
      intro: update_takes)

section \<open>The outputs are in order\<close>

text \<open>Two groups of one row each, the second one on the other input.\<close>

definition one_row :: "u16 \<Rightarrow> burst_sync pkg \<times> nat" where
  "one_row i = (\<lparr>data = \<lparr>bs_addr = 0, bs_id = i, bs_burst_id = i OR 0x8000, bs_dynamic_id = i OR 0x8000, bs_state = 0\<rparr>,
     last = False\<rparr>, unat i)"

lemma one_row_tags: "dyn_tag (one_row 0) = 0" "dyn_tag (one_row 1) = 1" "dyn_end (one_row 0)" "dyn_end (one_row 1)"
  "burst_tag (one_row 0) = 0" "burst_tag (one_row 1) = 1" "burst_end (one_row 0)" "burst_end (one_row 1)"
  by (simp_all add: one_row_def dyn_tag_def dyn_end_def burst_tag_def burst_end_def)

lemma intra_merged:
  assumes "tagged dyn_tag dyn_end whole"
    and "(merge_run intra_merge_step intra_recv1 intra_recv2 dyn_end)\<^sup>*\<^sup>*
      (intra_init, branch R dyn_end 0 whole, branch (\<lambda>g. \<not> R g) dyn_end 0 whole, []) (s, f1, f2, out)"
  shows "prefix out whole \<and> intra_merge_step s \<noteq> None \<and>
    (\<exists>s'. (merge_run intra_merge_step intra_recv1 intra_recv2 dyn_end)\<^sup>*\<^sup>* (s, f1, f2, out) (s', [], [], whole))"
proof -
  have "intra_wf (intra_init :: 'a intra)" "intra_pend1 (intra_init :: 'a intra) = []"
    "intra_pend2 (intra_init :: 'a intra) = []" "ia_current_id (intra_init :: 'a intra) = 0"
    by (simp_all add: intra_init_def intra_wf_def intra_pend1_def intra_pend2_def held_def)
  from intra.merge_correct [OF this assms] show ?thesis by simp
qed

text \<open>
  C14: \<open>intra_merge\<close> restores the order of the commands: for results whose dynamic identifiers number
  the commands modulo 2 ^ 15, however the commands are divided between the two engines and however the
  results arrive, what it hands on is at any time an initial part of the whole sequence, it is never
  stuck, and the run can always be continued until everything has been handed on.
\<close>

theorem intra_merge_in_order:
  assumes "tagged dyn_tag dyn_end whole"
    and "(merge_run intra_merge_step intra_recv1 intra_recv2 dyn_end)\<^sup>*\<^sup>*
      (intra_init, branch R dyn_end 0 whole, branch (\<lambda>g. \<not> R g) dyn_end 0 whole, []) (s, f1, f2, out)"
  shows "prefix out whole \<and> intra_merge_step s \<noteq> None \<and>
    (\<exists>s'. (merge_run intra_merge_step intra_recv1 intra_recv2 dyn_end)\<^sup>*\<^sup>* (s, f1, f2, out) (s', [], [], whole))"
  using assms by (rule intra_merged)

theorem intra_merge_in_order_witness:
  "\<exists>s'. (merge_run intra_merge_step intra_recv1 intra_recv2 dyn_end)\<^sup>*\<^sup>*
     (intra_init, [(0, one_row 0)], [(1, one_row 1)], []) (s', [], [], [one_row 0, one_row 1])"
  using intra_merge_in_order [of "[one_row 0, one_row 1]" even intra_init]
  by (simp add: tagged_def branch_def one_row_tags)

text \<open>
  The same for \<open>inter_merge\<close>, which joins the lists read in bursts with those that fit into one
  word by the number of the list.
\<close>

theorem inter_merge_in_order:
  assumes "tagged burst_tag burst_end whole"
    and "(merge_run inter_merge_step inter_recv1 inter_recv2 burst_end)\<^sup>*\<^sup>*
      (inter_init, branch R burst_end 0 whole, branch (\<lambda>g. \<not> R g) burst_end 0 whole, []) (s, f1, f2, out)"
  shows "prefix out whole \<and> inter_merge_step s \<noteq> None \<and>
    (\<exists>s'. (merge_run inter_merge_step inter_recv1 inter_recv2 burst_end)\<^sup>*\<^sup>* (s, f1, f2, out) (s', [], [], whole))"
proof -
  have "inter_wf (inter_init :: 'a inter)" "inter_pend1 (inter_init :: 'a inter) = []"
    "inter_pend2 (inter_init :: 'a inter) = []" "ie_current_id (inter_init :: 'a inter) = 0"
    by (simp_all add: inter_init_def inter_wf_def inter_pend1_def inter_pend2_def held_def)
  from inter.merge_correct [OF this assms] show ?thesis by simp
qed

theorem inter_merge_in_order_witness:
  "\<exists>s'. (merge_run inter_merge_step inter_recv1 inter_recv2 burst_end)\<^sup>*\<^sup>*
     (inter_init, [(0, one_row 0)], [(1, one_row 1)], []) (s', [], [], [one_row 0, one_row 1])"
  using inter_merge_in_order [of "[one_row 0, one_row 1]" even inter_init]
  by (simp add: tagged_def branch_def one_row_tags)

lemma update_merge_correct:
  assumes "tagged update_tag (\<lambda>_. True) whole"
    and "(merge_run update_merge_step update_recv1 update_recv2 (\<lambda>_. True))\<^sup>*\<^sup>*
      (update_init, branch R (\<lambda>_. True) 0 whole, branch (\<lambda>g. \<not> R g) (\<lambda>_. True) 0 whole, []) (s, f1, f2, out)"
  shows "prefix out (map update_out whole) \<and>
    (\<exists>s'. (merge_run update_merge_step update_recv1 update_recv2 (\<lambda>_. True))\<^sup>*\<^sup>*
       (s, f1, f2, out) (s', [], [], map update_out whole))"
proof -
  have "update_pend1 update_init = []" "update_pend2 update_init = []" "up_current_id update_init = 0"
    by (simp_all add: update_init_def update_pend1_def update_pend2_def held_def)
  from update.merge_correct [OF TrueI this assms] show ?thesis by simp
qed

text \<open>
  \<open>update_merge\<close> puts the sampled vertices and the vertices without neighbours back into the order
  of the queries.
\<close>

theorem update_merge_in_order:
  assumes "tagged update_tag (\<lambda>_. True) whole"
    and "(merge_run update_merge_step update_recv1 update_recv2 (\<lambda>_. True))\<^sup>*\<^sup>*
      (update_init, branch R (\<lambda>_. True) 0 whole, branch (\<lambda>g. \<not> R g) (\<lambda>_. True) 0 whole, []) (s, f1, f2, out)"
  shows "prefix out (map update_out whole) \<and>
    (\<exists>s'. (merge_run update_merge_step update_recv1 update_recv2 (\<lambda>_. True))\<^sup>*\<^sup>*
       (s, f1, f2, out) (s', [], [], map update_out whole))"
  using assms by (rule update_merge_correct)

theorem update_merge_in_order_witness:
  "\<exists>s'. (merge_run update_merge_step update_recv1 update_recv2 (\<lambda>_. True))\<^sup>*\<^sup>*
     (update_init, [(0, \<lparr>data = \<lparr>nvo_vertex = 7, nvo_id = 0\<rparr>, last = False\<rparr>)],
       [(1, \<lparr>data = \<lparr>nvo_vertex = 9, nvo_id = 1\<rparr>, last = True\<rparr>)], [])
     (s', [], [], [\<lparr>data = 7, last = False\<rparr>, \<lparr>data = 9, last = True\<rparr>])"
  using update_merge_in_order [of "[\<lparr>data = \<lparr>nvo_vertex = 7, nvo_id = 0\<rparr>, last = False\<rparr>,
      \<lparr>data = \<lparr>nvo_vertex = 9, nvo_id = 1\<rparr>, last = True\<rparr>]" even update_init]
  by (simp add: tagged_def branch_def update_tag_def update_out_def)

end
