(* ===== verification/Burst_Flow.thy ===== *)
theory Burst_Flow
  imports Metapath Merge_Order
begin

text \<open>
  The reading of lists composed: \<open>cmd_generator\<close> over a stream of descriptors, the two engines of
  \<open>dyburst_core\<close> behind it and \<open>intra_merge\<close> behind them hand on the rows of all lists in order.
\<close>

section \<open>The loop of cmd\_generator\<close>

fun cmd_main :: "u16 \<Rightarrow> vertex_descriptor_ordered pkg list \<Rightarrow> (bool \<times> burst_cmd pkg) list option" where
  "cmd_main dynamic_burst_id [] = Some []"
| "cmd_main dynamic_burst_id (pkg # input) =
     Option.bind (cmd_generator dynamic_burst_id pkg)
       (\<lambda>(cmds, dynamic_burst_id). map_option (\<lambda>rest. cmds @ rest) (cmd_main dynamic_burst_id input))"

text \<open>The commands, numbered from \<open>g\<close>.\<close>

definition ids_from :: "nat \<Rightarrow> (bool \<times> burst_cmd pkg) list \<Rightarrow> bool" where
  "ids_from g cmds \<longleftrightarrow> map (\<lambda>c. bc_dynamic_id (data (snd c))) cmds = map (\<lambda>j. of_nat ((g + j) mod 2 ^ 15)) [0..<length cmds]"

lemma low_15: "(of_nat g :: u16) AND 0x7fff = of_nat (g mod 2 ^ 15)"
proof -
  have "unat ((of_nat g :: u16) AND 0x7fff) = unat (take_bit 15 (of_nat g :: u16))"
    by (simp add: take_bit_eq_mask mask_eq_exp_minus_1)
  also have "\<dots> = g mod 2 ^ 16 mod 2 ^ 15"
    by (simp only: unsigned_take_bit_eq) (simp add: take_bit_eq_mod unat_of_nat)
  also have "\<dots> = g mod 2 ^ 15"
    by (rule mod_mod_cancel) simp
  finally show ?thesis by (rule word_of_unat)
qed

lemma ids_from_append: "ids_from g (xs @ ys) \<longleftrightarrow> ids_from g xs \<and> ids_from (g + length xs) ys"
proof -
  have "[0..<length xs + length ys] = [0..<length xs] @ map (\<lambda>j. length xs + j) [0..<length ys]"
    using upt_add_eq_append [of 0 "length xs" "length ys"] map_add_upt [of "length xs" "length ys"] by (simp add: add.commute)
  then show ?thesis by (simp add: ids_from_def add.assoc comp_def)
qed

text \<open>A descriptor whose commands can be generated and numbered.\<close>

definition descriptor_ok :: "vertex_descriptor_ordered pkg \<Rightarrow> bool" where
  "descriptor_ok pkg \<longleftrightarrow> list_end (data pkg) + 512 \<le> 2 ^ 32 \<and> vdo_id (data pkg) AND 0x8000 = 0"

lemma cmd_generator_ids:
  assumes "descriptor_ok pkg"
  obtains cmds where "cmd_generator (of_nat g) pkg = Some (cmds, of_nat (g + length cmds))" and "ids_from g cmds"
proof -
  let ?vd = "data pkg"
  let ?cmds = "commands pkg (vdo_start ?vd + vdo_size ?vd) (of_nat (word_end ?vd)) (of_nat g)
      (plan (word_start ?vd) (word_end ?vd))"
  note words = list_words [of ?vd]
  have ok: "list_end ?vd + 512 \<le> 2 ^ 32" "vdo_id ?vd AND 0x8000 = 0" using assms by (simp_all add: descriptor_ok_def)
  note gen = cmd_generator_plan [OF ok(1)]
  have "(of_nat g + of_nat j) AND 0x7fff = (of_nat ((g + j) mod 2 ^ 15) :: u16)" for j
    using low_15 [of "g + j"] by simp
  then have "ids_from g ?cmds"
    using commands_dynamic_ids [OF words(8,6,7) gen(2) ok(2), of _ "of_nat g"] by (simp add: ids_from_def)
  then show ?thesis
    by (intro that [of ?cmds]) (simp_all add: gen(1) Let_def next_dynamic_id_funpow ok(2))
qed

lemma cmd_main_ids:
  "\<forall>pkg \<in> set input. descriptor_ok pkg \<Longrightarrow> \<exists>cmds. cmd_main (of_nat g) input = Some cmds \<and> ids_from g cmds"
proof (induction input arbitrary: g)
  case Nil
  then show ?case by (simp add: ids_from_def)
next
  case (Cons pkg input)
  then have "descriptor_ok pkg" by simp
  then obtain cmds where c: "cmd_generator (of_nat g) pkg = Some (cmds, of_nat (g + length cmds))" "ids_from g cmds"
    by (rule cmd_generator_ids)
  from Cons obtain rest where "cmd_main (of_nat (g + length cmds)) input = Some rest" "ids_from (g + length cmds) rest"
    by (metis list.set_intros(2))
  with c show ?case
    by (intro exI [of _ "cmds @ rest"]) (simp add: ids_from_append)
qed

section \<open>The rows and their numbers\<close>

definition command_rows :: "(u32 \<Rightarrow> weight_item) \<Rightarrow> bool \<times> burst_cmd pkg \<Rightarrow> (burst_sync pkg \<times> weight_item) list" where
  "command_rows mem c = (if fst c then dynamic_burst_32 mem (snd c) else dynamic_burst_1 mem (snd c))"

lemma list_rows_eq: "list_rows mem cmds = concat (map (command_rows mem) cmds)"
  unfolding list_rows_def by (intro arg_cong [where f = concat] map_cong) (auto simp: command_rows_def)

lemma numbered_append:
  "numbered fin g (xs @ ys) = numbered fin g xs @ numbered fin (g + length (filter fin xs)) ys"
  by (induction fin g xs rule: numbered.induct) auto

lemma numbered_group:
  assumes "\<forall>x \<in> set xs. \<not> fin x" and "fin y"
  shows "numbered fin g (xs @ [y]) = map (\<lambda>x. (g, x)) (xs @ [y])" and "length (filter fin (xs @ [y])) = 1"
proof -
  show "numbered fin g (xs @ [y]) = map (\<lambda>x. (g, x)) (xs @ [y])"
    using assms by (induction xs) auto
  show "length (filter fin (xs @ [y])) = 1"
    using assms by (simp add: filter_False)
qed

lemma or_flag: "(b OR 0x8000) AND 0x7fff = (b AND 0x7fff :: u16)" "(b OR 0x8000) AND 0x8000 \<noteq> (0 :: u16)"
  by (simp add: bit.conj_disj_distrib2) (simp only: bit_15, simp add: bit_or_iff)

lemma low_id: "(of_nat (g mod 2 ^ 15) :: u16) AND 0x7fff = of_nat (g mod 2 ^ 15)"
  "(of_nat (g mod 2 ^ 15) :: u16) AND 0x8000 = 0"
proof -
  show low: "(of_nat (g mod 2 ^ 15) :: u16) AND 0x7fff = of_nat (g mod 2 ^ 15)"
    using low_15 [of "g mod 2 ^ 15"] by (simp only: mod_mod_trivial)
  show "(of_nat (g mod 2 ^ 15) :: u16) AND 0x8000 = 0"
    by (metis low flag_clear)
qed

text \<open>The rows of a command are a group: they carry its identifier, and the last one ends it.\<close>

lemma command_rows_group:
  assumes "bc_dynamic_id (data (snd c)) = of_nat (g mod 2 ^ 15)"
  obtains xs y where "command_rows mem c = xs @ [y]" and "\<forall>x \<in> set xs. \<not> dyn_end x" and "dyn_end y"
    and "\<forall>x \<in> set (xs @ [y]). dyn_tag x = of_nat (g mod 2 ^ 15)"
proof (cases "fst c")
  case True
  let ?rows = "command_rows mem c"
  have len: "length ?rows = 32"
    using True by (simp add: command_rows_def dynamic_burst_32_def Let_def DYNAMIC_BURST_MAX_LENGTH_def)
  have ids: "bs_dynamic_id (data (fst (?rows ! j))) =
      (if j = 31 then of_nat (g mod 2 ^ 15) OR 0x8000 else of_nat (g mod 2 ^ 15))" if "j < 32" for j
    using True assms that by (simp add: command_rows_def dynamic_burst_32_def Let_def DYNAMIC_BURST_MAX_LENGTH_def)
  have init: "\<not> dyn_end x \<and> dyn_tag x = of_nat (g mod 2 ^ 15)" if "x \<in> set (take 31 ?rows)" for x
  proof -
    from that len obtain j where "j < 31" "x = ?rows ! j" by (auto simp: in_set_conv_nth)
    with ids [of j] show ?thesis by (simp only: dyn_end_def dyn_tag_def) (simp add: low_id [simplified])
  qed
  have fin: "dyn_end (?rows ! 31) \<and> dyn_tag (?rows ! 31) = of_nat (g mod 2 ^ 15)"
    using ids [of 31] or_flag low_id by (simp add: dyn_end_def dyn_tag_def)
  have "?rows = take 31 ?rows @ [?rows ! 31]"
    using take_Suc_conv_app_nth [of 31 ?rows] len by simp
  then show ?thesis
  proof (rule that)
    show "\<forall>x \<in> set (take 31 ?rows @ [?rows ! 31]). dyn_tag x = of_nat (g mod 2 ^ 15)"
      using init fin by (auto simp only: set_append list.set Un_iff insert_iff empty_iff)
  qed (use init fin in blast)+
next
  case False
  then show ?thesis
    using assms that [of "[]"]
    by (simp add: command_rows_def dynamic_burst_1_def Let_def dyn_end_def dyn_tag_def or_flag low_id [simplified])
qed

text \<open>Numbering the rows of numbered commands.\<close>

lemma numbered_rows:
  "ids_from g cmds \<Longrightarrow>
     numbered dyn_end g (list_rows mem cmds) =
       concat (map (\<lambda>j. map (\<lambda>r. (g + j, r)) (command_rows mem (cmds ! j))) [0..<length cmds]) \<and>
     (\<forall>(h, x) \<in> set (numbered dyn_end g (list_rows mem cmds)). dyn_tag x = of_nat (h mod 2 ^ 15))"
proof (induction cmds arbitrary: g)
  case (Cons c cmds)
  have ids: "bc_dynamic_id (data (snd c)) = of_nat (g mod 2 ^ 15)" "ids_from (Suc g) cmds"
    using Cons.prems ids_from_append [of g "[c]" cmds] by (auto simp: ids_from_def [of _ "[c]"])
  from ids(1) obtain xs y where rows: "command_rows mem c = xs @ [y]" "\<forall>x \<in> set xs. \<not> dyn_end x" "dyn_end y"
    "\<forall>x \<in> set (xs @ [y]). dyn_tag x = of_nat (g mod 2 ^ 15)"
    by (rule command_rows_group)
  have "numbered dyn_end g (list_rows mem (c # cmds)) =
      map (\<lambda>r. (g, r)) (command_rows mem c) @ numbered dyn_end (Suc g) (list_rows mem cmds)"
    using numbered_group [OF rows(2,3)] by (simp add: list_rows_eq numbered_append rows(1) del: append_assoc)
  moreover have "[0..<length (c # cmds)] = 0 # map Suc [0..<length cmds]"
    by (simp add: upt_conv_Cons map_Suc_upt del: upt_Suc)
  ultimately show ?case
    using Cons.IH [OF ids(2)] rows(1,4) by (auto simp: comp_def)
qed (simp add: list_rows_def)

section \<open>The engines\<close>

text \<open>An engine whose commands all have the top bit of \<open>id\<close> clear executes them all.\<close>

lemma burst_loop_eq:
  "\<forall>c \<in> set (arrivals ps). bc_id (data c) AND 0x8000 = 0 \<Longrightarrow>
     burst_loop engine s ps = (concat (map engine (arrivals ps)), False)"
  by (induction engine s ps rule: burst_loop.induct) auto

lemma concat_filter: "concat (map (\<lambda>c. if P c then f c else []) xs) = concat (map f (filter P xs))"
  by (induction xs) simp_all

lemma filter_pairs: "filter (R \<circ> fst) (map (\<lambda>r. (j, r)) rows) = (if R j then map (\<lambda>r. (j, r)) rows else [])"
  by (induction rows) auto

lemma branch_rows:
  assumes "ids_from 0 cmds" and "\<And>j. j < length cmds \<Longrightarrow> R j = P (cmds ! j)"
  shows "map snd (branch R dyn_end 0 (list_rows mem cmds)) = concat (map (command_rows mem) (filter P cmds))"
proof -
  have eq: "branch R dyn_end 0 (list_rows mem cmds) =
      concat (map (\<lambda>j. filter (R \<circ> fst) (map (\<lambda>r. (j, r)) (command_rows mem (cmds ! j)))) [0..<length cmds])"
    using conjunct1 [OF numbered_rows [OF assms(1), of mem]] by (simp add: branch_def filter_concat comp_def)
  have "map snd (branch R dyn_end 0 (list_rows mem cmds)) =
      concat (map (\<lambda>j. if P (cmds ! j) then command_rows mem (cmds ! j) else []) [0..<length cmds])"
    unfolding eq filter_pairs map_concat map_map
    by (intro arg_cong [where f = concat] map_cong) (auto simp: assms(2) comp_def)
  also have "\<dots> = concat (map (\<lambda>c. if P c then command_rows mem c else []) (map (\<lambda>j. cmds ! j) [0..<length cmds]))"
    by (simp add: comp_def)
  finally show ?thesis
    unfolding map_nth concat_filter .
qed

lemma commands_bc_id: "c \<in> set (commands pkg end' e d p) \<Longrightarrow> bc_id (data (snd c)) = vdo_id (data pkg)"
  by (induction pkg end' e d p rule: commands.induct)
    (auto simp: send_dynamic_cmd_def burst_cmd_gen_def Let_def)

lemma cmd_main_bc_id:
  "\<forall>pkg \<in> set input. descriptor_ok pkg \<Longrightarrow> cmd_main d input = Some cmds \<Longrightarrow>
     \<forall>c \<in> set cmds. bc_id (data (snd c)) AND 0x8000 = 0"
proof (induction input arbitrary: d cmds)
  case (Cons pkg input)
  then have ok: "list_end (data pkg) + 512 \<le> 2 ^ 32" "vdo_id (data pkg) AND 0x8000 = 0"
    by (simp_all add: descriptor_ok_def)
  from Cons.prems(2) obtain cs d' rest where c: "cmd_generator d pkg = Some (cs, d')" "cmd_main d' input = Some rest"
    "cmds = cs @ rest"
    by (auto simp: bind_eq_Some_conv)
  have "\<forall>c \<in> set cs. bc_id (data (snd c)) = vdo_id (data pkg)"
    using c(1) commands_bc_id by (auto simp: cmd_generator_plan(1) [OF ok(1)] Let_def)
  with ok(2) Cons.IH [OF _ c(2)] Cons.prems(1) c(3) show ?case by auto
qed simp

text \<open>
  C11: The burst reader works as a whole.  For a stream of lists that end at least 512 entries below the
  top of the address space \<open>cmd_generator\<close> returns its commands, and however the two engines are polled
  and however their rows arrive at \<open>intra_merge\<close>, what it hands on is at any time an initial part of
  the rows of all lists in order, and it can always be continued until all have been handed on.
\<close>

theorem bursts_read_in_order:
  assumes "\<forall>pkg \<in> set input. descriptor_ok pkg" and "cmds = the (cmd_main 0 input)"
    and "arrivals polls0 = map snd (filter (Not \<circ> fst) cmds)" and "arrivals polls1 = map snd (filter fst cmds)"
    and "rows0 = branch (\<lambda>g. \<not> fst (cmds ! g)) dyn_end 0 (list_rows mem cmds)"
    and "rows1 = branch (\<lambda>g. fst (cmds ! g)) dyn_end 0 (list_rows mem cmds)"
    and "(merge_run intra_merge_step intra_recv1 intra_recv2 dyn_end)\<^sup>*\<^sup>* (intra_init, rows0, rows1, []) (s, f1, f2, out)"
  shows "cmd_main 0 input = Some cmds \<and>
    burst_loop (dynamic_burst_1 mem) (0, False) polls0 = (map snd rows0, False) \<and>
    burst_loop (dynamic_burst_32 mem) (0, False) polls1 = (map snd rows1, False) \<and>
    prefix out (list_rows mem cmds) \<and>
    (\<exists>s'. (merge_run intra_merge_step intra_recv1 intra_recv2 dyn_end)\<^sup>*\<^sup>* (s, f1, f2, out) (s', [], [], list_rows mem cmds))"
proof -
  have cmds: "cmd_main 0 input = Some cmds" "ids_from 0 cmds"
    using cmd_main_ids [OF assms(1), of 0] assms(2) by auto
  note ids = cmd_main_bc_id [OF assms(1) cmds(1)]
  have "burst_loop (dynamic_burst_1 mem) (0, False) polls0 = (map snd rows0, False)"
    using ids assms(3) branch_rows [OF cmds(2), of "\<lambda>g. \<not> fst (cmds ! g)" "Not \<circ> fst" mem] assms(5) by (subst burst_loop_eq) (auto simp: command_rows_def comp_def intro!: arg_cong [where f = concat])
  moreover have "burst_loop (dynamic_burst_32 mem) (0, False) polls1 = (map snd rows1, False)"
    using ids assms(4) branch_rows [OF cmds(2), of "\<lambda>g. fst (cmds ! g)" fst mem] assms(6) by (subst burst_loop_eq) (auto simp: command_rows_def intro!: arg_cong [where f = concat])
  moreover have "tagged dyn_tag dyn_end (list_rows mem cmds)"
    using numbered_rows [OF cmds(2), of mem] by (simp add: tagged_def)
  note intra_merged [OF this, of "\<lambda>g. \<not> fst (cmds ! g)" s f1 f2 out]
  ultimately show ?thesis
    using cmds(1) assms(7) by (simp add: assms(5,6))
qed

text \<open>A list of 530 entries: both engines have commands.\<close>

theorem bursts_read_in_order_witness:
  "\<exists>cmds s. cmd_main 0 [\<lparr>data = \<lparr>vdo_start = 1020, vdo_size = 530, vdo_id = 5, vdo_burst_id = 6, vdo_state = 2\<rparr>,
       last = True\<rparr>] = Some cmds \<and>
     burst_loop (dynamic_burst_32 (\<lambda>_. 0)) (0, False) (map Some (map snd (filter fst cmds))) =
       (map snd (branch (\<lambda>g. fst (cmds ! g)) dyn_end 0 (list_rows (\<lambda>_. 0) cmds)), False) \<and>
     (merge_run intra_merge_step intra_recv1 intra_recv2 dyn_end)\<^sup>*\<^sup>*
       (intra_init, branch (\<lambda>g. \<not> fst (cmds ! g)) dyn_end 0 (list_rows (\<lambda>_. 0) cmds),
         branch (\<lambda>g. fst (cmds ! g)) dyn_end 0 (list_rows (\<lambda>_. 0) cmds), []) (s, [], [], list_rows (\<lambda>_. 0) cmds)"
proof -
  let ?input = "[\<lparr>data = \<lparr>vdo_start = 1020, vdo_size = 530, vdo_id = 5, vdo_burst_id = 6, vdo_state = 2\<rparr>, last = True\<rparr>]"
  let ?cmds = "the (cmd_main 0 ?input)"
  have ok: "\<forall>pkg \<in> set ?input. descriptor_ok pkg"
    by (simp add: descriptor_ok_def list_end_def)
  have polls: "arrivals (map Some (map snd (filter (Not \<circ> fst) ?cmds))) = map snd (filter (Not \<circ> fst) ?cmds)"
    "arrivals (map Some (map snd (filter fst ?cmds))) = map snd (filter fst ?cmds)"
    by (simp_all only: arrivals_Some)
  from bursts_read_in_order [OF ok refl polls refl refl rtranclp.rtrancl_refl, of "\<lambda>_. 0"]
  show ?thesis by (intro exI [of _ ?cmds]) blast
qed

end
