(* ===== verification/Ring.thy ===== *)
theory Ring
  imports Stream_Ops "HOL-Library.Multiset"
begin

text \<open>
  The kernels that keep a set of walks running: \<open>src/step_loader/step_loader.cpp\<close> reads the queries,
  \<open>src/ring_manager/ring_manager.cpp\<close> gives each a slot and sends it round the walk pipeline until
  it has no steps left, and \<open>step_update\<close> (\<open>src/lv_sample/step_update.hpp\<close>) at the end of the
  pipeline counts its steps.
\<close>

section \<open>Queries\<close>

text \<open>\<open>step_metadata_t\<close> of \<open>rw_data_struct.h\<close>.\<close>

record step_metadata =
  curr_vertex :: u32
  remain_step :: u32
  state :: u16
  ring_state :: u16
  inner_state :: u32
  assert :: u32

type_synonym step_pkg = "step_metadata pkg"

definition RING_SIZE :: nat where "RING_SIZE = 256"
definition LOG2_RING_SIZE :: nat where "LOG2_RING_SIZE = 9"

text \<open>The two parts of \<open>ring_state\<close>: the slot (\<open>LOG2_RING_SIZE\<close> bits) and the flag of the last query.\<close>

definition slot_of :: "step_metadata \<Rightarrow> 9 word" where
  "slot_of d = ucast (ap_range (0 + LOG2_RING_SIZE - 1) 0 (ring_state d))"

definition last_bit :: "step_metadata \<Rightarrow> bool" where
  "last_bit d \<longleftrightarrow> ap_range (LOG2_RING_SIZE + 1 - 1) LOG2_RING_SIZE (ring_state d) = 1"

definition set_ring_state :: "9 word \<Rightarrow> bool \<Rightarrow> step_metadata \<Rightarrow> step_metadata" where
  "set_ring_state index l d =
     d\<lparr>ring_state := ap_set_range (LOG2_RING_SIZE + 1 - 1) LOG2_RING_SIZE (of_bool l)
         (ap_set_range (0 + LOG2_RING_SIZE - 1) 0 (ucast index) (ring_state d))\<rparr>"

interpretation ring_state: packed_pair "\<lambda>i l. set_ring_state i l d" slot_of last_bit for d
proof
  fix i :: "9 word" and l
  show "slot_of (set_ring_state i l d) = i"
    by (intro bit_word_eqI)
      (auto simp: slot_of_def set_ring_state_def LOG2_RING_SIZE_def range_bits dest: bit_imp_le_length)
  show "last_bit (set_ring_state i l d) = l"
    by (simp add: last_bit_def set_ring_state_def LOG2_RING_SIZE_def ap_range_bit range_bits bit_of_bool_iff)
qed

section \<open>The loader\<close>

definition BURST_BUFFER_SIZE :: int where "BURST_BUFFER_SIZE = 32"

text \<open>The package made of entry \<open>i + j\<close> of \<open>mem\<close> (vertex and number of steps).\<close>

definition load_query :: "(int \<Rightarrow> u32 \<times> u32) \<Rightarrow> int \<Rightarrow> u32 \<Rightarrow> int \<Rightarrow> int \<Rightarrow> step_pkg" where
  "load_query mem sz prp i j =
     (let a = mem (i + j)
      in \<lparr>data = \<lparr>curr_vertex = fst a, remain_step = snd a, state = 0, ring_state = 0,
                  inner_state = of_int (i + j), assert = prp\<rparr>,
          last = (i + j = sz - 1)\<rparr>)"

text \<open>
  \<open>i\<close> and \<open>size\<close> are \<open>int\<close>s of 32 bits; \<open>None\<close> where \<open>i += BURST_BUFFER_SIZE\<close> overflows, which is undefined
  in C.
\<close>

definition INT_MAX :: int where "INT_MAX = 2 ^ 31 - 1"

function step_loader_from :: "int \<Rightarrow> (int \<Rightarrow> u32 \<times> u32) \<Rightarrow> int \<Rightarrow> u32 \<Rightarrow> step_pkg list option" where
  "step_loader_from i mem sz prp =
     (if i < sz
      then if i + BURST_BUFFER_SIZE \<le> INT_MAX
           then map_option (\<lambda>later. map (load_query mem sz prp i) [0..BURST_BUFFER_SIZE - 1] @ later)
                  (step_loader_from (i + BURST_BUFFER_SIZE) mem sz prp)
           else None
      else Some [])"
  by pat_completeness auto
termination
  by (relation "measure (\<lambda>(i, mem, sz, prp). nat (sz - i))") (auto simp: BURST_BUFFER_SIZE_def)

declare step_loader_from.simps [simp del]

definition step_loader :: "(int \<Rightarrow> u32 \<times> u32) \<Rightarrow> int \<Rightarrow> u32 \<Rightarrow> step_pkg list option" where
  "step_loader mem sz prp = step_loader_from 0 mem sz prp"

section \<open>The step update\<close>

definition step_update :: "step_pkg \<Rightarrow> u64 pkg \<Rightarrow> step_pkg" where
  "step_update origin_step update_vertex_pkg =
     (let update_vertex = data update_vertex_pkg; d = data origin_step
      in \<lparr>data = \<lparr>curr_vertex =
                    (if update_vertex AND 0x80000000 = 0x80000000 then curr_vertex d OR 0x80000000
                     else ucast update_vertex),
                  remain_step = remain_step d - 1, state = state d, ring_state = ring_state d,
                  inner_state = inner_state d, assert = assert d\<rparr>,
          last = last update_vertex_pkg\<rparr>)"

section \<open>The ring manager\<close>

text \<open>
  The state of the manager between its steps: the slots, the counter, the slot update decided on in
  this iteration (\<open>slot_update_index\<close> and \<open>slot_update_val\<close>, if the flag is set) once the old query
  has been handled, whether it has returned, and its streams.  \<open>rm_source\<close> holds the queries still
  to come, \<open>rm_finished\<close> those that have ended; both are only observed.
\<close>

record ring =
  slot_status :: "u8 list"
  ring_counter :: u8
  rm_update :: "(nat \<times> u8) option option"
  rm_returned :: bool
  old_query :: "step_pkg list"
  new_query :: "step_pkg list"
  rm_out :: "step_pkg list"
  rm_source :: "step_pkg list"
  rm_finished :: "step_pkg list"

definition ring_manager_init :: "step_pkg list \<Rightarrow> ring" where
  "ring_manager_init queries =
     \<lparr>slot_status = replicate RING_SIZE 0, ring_counter = 0, rm_update = None, rm_returned = False,
      old_query = [], new_query = [], rm_out = [], rm_source = queries, rm_finished = []\<rparr>"

text \<open>A new query as it is sent out with the slot \<open>index\<close>.\<close>

definition start_query :: "9 word \<Rightarrow> step_pkg \<Rightarrow> step_pkg" where
  "start_query index origin = \<lparr>data = set_ring_state index (last origin) (data origin), last = False\<rparr>"

text \<open>First half of an iteration: the old query (lines 103 to 150).\<close>

definition ring_old_query :: "ring \<Rightarrow> ring" where
  "ring_old_query r =
     (case old_query r of
        [] \<Rightarrow> r\<lparr>rm_update := Some None\<rparr>
      | update # olds \<Rightarrow>
         if remain_step (data update) = 0 then
           (let index = (ucast (slot_of (data update)) :: u8);
                r = r\<lparr>old_query := olds, rm_finished := rm_finished r @ [update]\<rparr>
            in if last update then r\<lparr>rm_returned := True\<rparr>
               else case new_query r of
                 origin # news \<Rightarrow>
                   r\<lparr>new_query := news, rm_out := rm_out r @ [start_query (ucast index) origin],
                     rm_update := Some None\<rparr>
               | [] \<Rightarrow> r\<lparr>rm_update := Some (Some (unat index, 0))\<rparr>)
         else
           r\<lparr>old_query := olds, rm_update := Some None,
             rm_out := rm_out r @
               [update\<lparr>last := (remain_step (data update) = 1 \<and> last_bit (data update))\<rparr>]\<rparr>)"

text \<open>Second half: ring insertion (lines 153 to 177), then the slot update (lines 181 to 184).\<close>

definition ring_insertion :: "ring \<Rightarrow> (nat \<times> u8) option \<Rightarrow> ring \<times> (nat \<times> u8) option" where
  "ring_insertion r upd =
     (if slot_status r ! unat (ring_counter r) = 0 then
        (case new_query r of
           ring_insert # news \<Rightarrow>
             (r\<lparr>new_query := news, rm_out := rm_out r @ [start_query (ucast (ring_counter r)) ring_insert],
                ring_counter := ring_counter r + 1\<rparr>,
              Some (unat (ring_counter r), 1))
         | [] \<Rightarrow> (r, upd))
      else (r, upd))"

definition ring_slot_update :: "(nat \<times> u8) option \<Rightarrow> ring \<Rightarrow> ring" where
  "ring_slot_update upd r =
     (case upd of
        Some (i, v) \<Rightarrow> r\<lparr>slot_status := (slot_status r)[i := v]\<rparr>
      | None \<Rightarrow> r)"

definition ring_insert_query :: "(nat \<times> u8) option \<Rightarrow> ring \<Rightarrow> ring" where
  "ring_insert_query upd r =
     (let (r, upd) = ring_insertion r upd in (ring_slot_update upd r)\<lparr>rm_update := None\<rparr>)"

text \<open>
  The manager and its surroundings: queries arrive in order at any time, also between the two polls
  of \<open>new_query\<close> in one iteration; the walk pipeline is first-in first-out, moves a walk to some
  vertex, counts the step with \<open>step_update\<close> and hands \<open>last\<close> on.
\<close>

inductive ring_step :: "ring \<Rightarrow> ring \<Rightarrow> bool" where
  arrive: "rm_source r = q # qs \<Longrightarrow> ring_step r (r\<lparr>rm_source := qs, new_query := new_query r @ [q]\<rparr>)"
| walk: "rm_out r = p # ps \<Longrightarrow> last nv = last p
    \<Longrightarrow> ring_step r (r\<lparr>rm_out := ps, old_query := old_query r @ [step_update p nv]\<rparr>)"
| old: "\<not> rm_returned r \<Longrightarrow> rm_update r = None \<Longrightarrow> ring_step r (ring_old_query r)"
| insert: "\<not> rm_returned r \<Longrightarrow> rm_update r = Some upd \<Longrightarrow> ring_step r (ring_insert_query upd r)"

inductive_cases ring_stepE: "ring_step r s"

inductive ring_reachable :: "step_pkg list \<Rightarrow> ring \<Rightarrow> bool" for queries where
  init: "ring_reachable queries (ring_manager_init queries)"
| step: "ring_reachable queries r \<Longrightarrow> ring_step r s \<Longrightarrow> ring_reachable queries s"

text \<open>The walks on their way: in front of the pipeline, and back from it.\<close>

definition ring_walks :: "ring \<Rightarrow> step_pkg list" where
  "ring_walks r = old_query r @ rm_out r"

section \<open>The loader sends whole bursts\<close>

lemma load_query_shift: "load_query mem sz prp i j = load_query mem sz prp 0 (i + j)"
  by (simp add: load_query_def)

lemma step_loader_from_eq:
  assumes "sz \<le> INT_MAX - 31" and "i mod 32 = 0"
  shows "step_loader_from i mem sz prp = Some (map (load_query mem sz prp 0) [i..i + (sz - i + 31) div 32 * 32 - 1])"
  using assms
proof (induction i mem sz prp rule: step_loader_from.induct)
  case (1 i mem sz prp)
  show ?case
  proof (cases "i < sz")
    case True
    let ?n = "i + (sz - i + 31) div 32 * 32"
    have "i div 32 * 32 = i" using 1(3) by (simp add: minus_mod_eq_div_mult [symmetric])
    moreover have "i div 32 \<le> (2 ^ 31 - 33) div 32"
      using True 1(2) by (intro zdiv_mono1) (simp_all add: INT_MAX_def)
    ultimately have fits: "i + 32 \<le> INT_MAX" by (simp add: INT_MAX_def)
    have n: "i + 32 + (sz - (i + 32) + 31) div 32 * 32 = ?n"
    proof -
      have "sz - i + 31 = (sz - (i + 32) + 31) + 32" by simp
      then have "(sz - i + 31) div 32 = (sz - (i + 32) + 31) div 32 + 1"
        by (simp only: div_add_self2)
      then show ?thesis by simp
    qed
    have "1 \<le> (sz - i + 31) div 32"
      using True by simp
    then have le: "i + 32 \<le> ?n" by linarith
    have shift: "map (load_query mem sz prp i) [0..31] = map (load_query mem sz prp 0) [i..i + 31]"
    proof -
      have "[i..i + 31] = map (\<lambda>j. i + j) [0..31]"
        by (rule nth_equalityI) (simp_all del: upto_rec_numeral)
      then show ?thesis
        by (simp add: load_query_shift [of mem sz prp i] del: upto_rec_numeral)
    qed
    have "[i..?n - 1] = [i..i + 31] @ [i + 32..?n - 1]"
      using le upto_split2 [of i "i + 31" "?n - 1"] by (simp add: add.assoc)
    moreover have "step_loader_from (i + 32) mem sz prp = Some (map (load_query mem sz prp 0) [i + 32..?n - 1])"
      using 1 True fits by (simp only: BURST_BUFFER_SIZE_def n mod_add_self2)
    moreover have "step_loader_from i mem sz prp =
        map_option (\<lambda>later. map (load_query mem sz prp i) [0..31] @ later) (step_loader_from (i + 32) mem sz prp)"
      using True fits by (subst step_loader_from.simps) (simp add: BURST_BUFFER_SIZE_def del: upto_rec_numeral)
    ultimately show ?thesis
      by (simp only: shift map_append option.map)
  next
    case False
    then have "(sz - i + 31) div 32 \<le> 0" by simp
    then have "[i..i + (sz - i + 31) div 32 * 32 - 1] = []"
      by (intro upto_empty) linarith
    with False show ?thesis
      by (subst step_loader_from.simps) simp
  qed
qed

lemma step_loader_overflow:
  assumes "INT_MAX - 31 < sz" and "i mod 32 = 0" and "i \<le> INT_MAX - 31"
  shows "step_loader_from i mem sz prp = None"
  using assms
proof (induction i mem sz prp rule: step_loader_from.induct)
  case (1 i mem sz prp)
  have "i < sz" using 1(2,4) by simp
  show ?case
  proof (cases "i + 32 \<le> INT_MAX")
    case True
    have "(i + 32) mod 32 = 0" using 1(3) by simp
    moreover have "i + 32 \<le> INT_MAX - 31"
    proof -
      have i: "i div 32 * 32 = i" using 1(3) by (simp add: minus_mod_eq_div_mult [symmetric])
      moreover have "i div 32 \<le> (2 ^ 31 - 33) div 32"
        using True by (intro zdiv_mono1) (simp_all add: INT_MAX_def)
      ultimately show ?thesis by (simp add: INT_MAX_def)
    qed
    ultimately have "step_loader_from (i + 32) mem sz prp = None"
      using 1 True \<open>i < sz\<close> by (simp add: BURST_BUFFER_SIZE_def)
    then show ?thesis using True \<open>i < sz\<close> by (subst step_loader_from.simps) (simp add: BURST_BUFFER_SIZE_def)
  next
    case False
    then show ?thesis using \<open>i < sz\<close> by (subst step_loader_from.simps) (simp add: BURST_BUFFER_SIZE_def)
  qed
qed

text \<open>
  C28: the loader sends the queries in whole bursts of 32: entries \<open>0\<close> to \<open>sz - 1\<close> rounded up to a
  multiple of 32, in order, each with its index as \<open>inner_state\<close>, and \<open>last\<close> on entry \<open>sz - 1\<close> only.
  (For sizes that are not a multiple of 32 it reads past the end and sends queries after the last.)
  It does so for every size up to \<open>INT_MAX - 31\<close>; for the 31 larger ones its counter overflows.
\<close>

theorem step_loader_bursts:
  assumes "sz \<le> INT_MAX"
  shows "step_loader mem sz prp =
     (if sz \<le> INT_MAX - 31
      then Some (map (\<lambda>k. \<lparr>data = \<lparr>curr_vertex = fst (mem k), remain_step = snd (mem k), state = 0, ring_state = 0,
                                   inner_state = of_int k, assert = prp\<rparr>,
                           last = (k = sz - 1)\<rparr>)
                   [0..(sz + 31) div 32 * 32 - 1])
      else None)"
proof (cases "sz \<le> INT_MAX - 31")
  case True
  then show ?thesis using step_loader_from_eq [OF True, of 0 mem prp] by (simp add: step_loader_def load_query_def Let_def)
next
  case False
  then show ?thesis using step_loader_overflow [of sz 0 mem prp] by (simp add: step_loader_def INT_MAX_def)
qed

theorem step_loader_bursts_witness:
  "step_loader (\<lambda>k. (of_int k, 5)) 1 0 =
     Some (map (\<lambda>k. \<lparr>data = \<lparr>curr_vertex = of_int k, remain_step = 5, state = 0, ring_state = 0,
                                 inner_state = of_int k, assert = 0\<rparr>, last = (k = 0)\<rparr>) [0..31])"
  using step_loader_bursts [of 1 "\<lambda>k. (of_int k, 5)" 0] by (simp add: INT_MAX_def del: upto_rec_numeral)

section \<open>Slots\<close>

lemmas ring_state_fields = ring_state.fst_pack ring_state.snd_pack

lemma start_query_sel:
  "slot_of (data (start_query i q)) = i" "last_bit (data (start_query i q)) = last q"
  "remain_step (data (start_query i q)) = remain_step (data q)" "last (start_query i q) = False"
  "inner_state (data (start_query i q)) = inner_state (data q)"
  "state (data (start_query i q)) = state (data q)" "assert (data (start_query i q)) = assert (data q)"
  by (simp_all only: start_query_def pkg.simps ring_state_fields) (simp_all add: set_ring_state_def)

lemma step_update_sel:
  "slot_of (data (step_update p nv)) = slot_of (data p)" "last_bit (data (step_update p nv)) = last_bit (data p)"
  "remain_step (data (step_update p nv)) = remain_step (data p) - 1" "last (step_update p nv) = last nv"
  "inner_state (data (step_update p nv)) = inner_state (data p)"
  "state (data (step_update p nv)) = state (data p)" "assert (data (step_update p nv)) = assert (data p)"
  by (simp_all add: step_update_def Let_def slot_of_def last_bit_def)

definition slots :: "ring \<Rightarrow> nat list" where
  "slots r = map (\<lambda>p. unat (slot_of (data p))) (ring_walks r)"

definition slot_inv :: "ring \<Rightarrow> bool" where
  "slot_inv r \<longleftrightarrow> length (slot_status r) = 256 \<and> distinct (slots r) \<and>
     (\<forall>i \<in> set (slots r). i < 256 \<and> slot_status r ! i \<noteq> 0) \<and>
     (\<forall>i v. rm_update r = Some (Some (i, v)) \<longrightarrow> v = 0 \<and> i \<notin> set (slots r))"

lemma ucast_slot: "unat (ucast (i :: u8) :: 9 word) = unat i"
  using unat_less_8 [of i] by (simp add: unsigned_ucast_eq take_bit_nat_eq_self)

lemma slot_small: "unat (w :: 9 word) < 256 \<Longrightarrow> unat (ucast w :: u8) = unat w"
  by (simp add: unsigned_ucast_eq take_bit_nat_eq_self)

lemma ucast_slot_back: "unat (w :: 9 word) < 256 \<Longrightarrow> ucast (ucast w :: u8) = w"
  by (simp add: word_unat_eq_iff ucast_slot slot_small)

lemma marks_update:
  "\<forall>i \<in> I. i < 256 \<and> ss ! i \<noteq> (0 :: u8) \<Longrightarrow> a \<notin> I \<Longrightarrow> \<forall>i \<in> I. i < 256 \<and> ss[a := v] ! i \<noteq> 0"
  by (metis nth_list_update_neq)

lemma slots_old_query:
  assumes "old_query r = p # ps" and "unat (slot_of (data p)) < 256"
  shows "slots (ring_old_query r) =
      (if remain_step (data p) = 0 \<and> (last p \<or> new_query r = []) then tl (slots r)
       else tl (slots r) @ [unat (slot_of (data p))])"
    and "rm_update (ring_old_query r) =
      (if remain_step (data p) = 0 then
         if last p then rm_update r
         else if new_query r = [] then Some (Some (unat (slot_of (data p)), 0)) else Some None
       else Some None)"
    and "slots r = unat (slot_of (data p)) # tl (slots r)"
  using assms
  by (auto simp: ring_old_query_def slots_def ring_walks_def Let_def start_query_sel ucast_slot slot_small
      split: list.split)

lemma slot_status_old: "slot_status (ring_old_query r) = slot_status r"
  by (auto simp: ring_old_query_def Let_def split: list.split)

lemma slot_inv_old:
  assumes "slot_inv r" and "rm_update r = None"
  shows "slot_inv (ring_old_query r)"
proof (cases "old_query r")
  case Nil
  with assms show ?thesis
    by (simp add: slot_inv_def ring_old_query_def slots_def ring_walks_def)
next
  case (Cons p ps)
  then have i: "unat (slot_of (data p)) < 256"
    using assms(1) by (auto simp: slot_inv_def slots_def ring_walks_def)
  note eff = slots_old_query [OF Cons i]
  obtain x xs where slots: "slots r = x # xs" and x: "unat (slot_of (data p)) = x"
    using eff(3) by blast
  with assms show ?thesis
    unfolding slot_inv_def eff(1,2) slot_status_old
    by (auto split: if_splits)
qed

lemma slot_inv_insert:
  assumes "slot_inv r" and "rm_update r = Some upd"
  shows "slot_inv (ring_insert_query upd r)"
proof (cases "slot_status r ! unat (ring_counter r) = 0 \<and> new_query r \<noteq> []")
  case True
  let ?c = "unat (ring_counter r)"
  from True obtain q qs where q: "new_query r = q # qs"
    by (auto simp: neq_Nil_conv)
  have c: "?c \<notin> set (slots r)" "?c < 256"
    using True assms(1) unat_less_8 [of "ring_counter r"] by (auto simp: slot_inv_def)
  have "slots (ring_insert_query upd r) = slots r @ [?c]"
    and "slot_status (ring_insert_query upd r) = (slot_status r)[?c := 1]"
    and "rm_update (ring_insert_query upd r) = None"
    using True q by (simp_all add: slots_def ring_walks_def ring_insert_query_def ring_insertion_def Let_def
        ring_slot_update_def start_query_sel ucast_slot)
  with assms(1) c marks_update [of "set (slots r)" "slot_status r" ?c 1] show ?thesis
    by (auto simp: slot_inv_def)
next
  case False
  then have ins: "ring_insertion r upd = (r, upd)"
    by (auto simp: ring_insertion_def split: list.split)
  have same: "slots (ring_insert_query upd r) = slots r" "rm_update (ring_insert_query upd r) = None"
    by (simp_all add: ring_insert_query_def ins slots_def ring_walks_def ring_slot_update_def split: option.split)
  show ?thesis
  proof (cases upd)
    case None
    have "slot_status (ring_insert_query upd r) = slot_status r"
      unfolding ring_insert_query_def ins by (simp add: None ring_slot_update_def)
    with assms(1) same show ?thesis by (simp add: slot_inv_def)
  next
    case (Some iv)
    obtain i v where "iv = (i, v)" by (cases iv)
    with Some have upd: "upd = Some (i, v)" by simp
    have "slot_status (ring_insert_query upd r) = (slot_status r)[i := v]"
      unfolding ring_insert_query_def ins by (simp add: upd ring_slot_update_def)
    moreover have "i \<notin> set (slots r)"
      using assms upd by (auto simp: slot_inv_def)
    ultimately show ?thesis
      using assms(1) same marks_update [of "set (slots r)" "slot_status r" i v] by (simp add: slot_inv_def)
  qed
qed

lemma ring_slot_inv: "ring_reachable queries r \<Longrightarrow> slot_inv r"
proof (induction rule: ring_reachable.induct)
  case init
  then show ?case
    by (simp add: slot_inv_def ring_manager_init_def slots_def ring_walks_def RING_SIZE_def)
next
  case (step r s)
  from step.hyps(2) step.IH show ?case
  proof (cases rule: ring_step.cases)
    case (walk p ps nv)
    with step.IH show ?thesis
      by (auto simp: slot_inv_def slots_def ring_walks_def step_update_sel)
  qed (auto simp: slot_inv_old slot_inv_insert, auto simp: slot_inv_def slots_def ring_walks_def)
qed

text \<open>
  C21: the ring manager never gives a slot twice: in every reachable state the walks on their way
  have different slots, all marked as taken, so at most 256 walks run at a time.
\<close>

theorem ring_slots_distinct:
  assumes "ring_reachable queries r"
  shows "distinct (map (\<lambda>p. slot_of (data p)) (ring_walks r)) \<and>
    (\<forall>p \<in> set (ring_walks r). slot_status r ! unat (slot_of (data p)) \<noteq> 0) \<and>
    length (ring_walks r) \<le> RING_SIZE"
proof -
  have inv: "slot_inv r"
    using assms by (rule ring_slot_inv)
  have "set (slots r) \<subseteq> {..<256}"
    using inv by (auto simp: slot_inv_def)
  then have "card (set (slots r)) \<le> 256"
    using card_mono [of "{..<256::nat}"] by simp
  then have "length (ring_walks r) \<le> 256"
    using inv by (simp add: slot_inv_def distinct_card) (simp add: slots_def)
  moreover have "distinct (map (\<lambda>p. slot_of (data p)) (ring_walks r))"
    using inv by (auto simp: slot_inv_def slots_def distinct_map inj_on_def)
  ultimately show ?thesis
    using inv by (auto simp: slot_inv_def slots_def RING_SIZE_def)
qed

text \<open>Runs of the manager as lists of events, for concrete executions.\<close>

datatype ring_event = Arrive | Walk "u64 pkg" | Old | Insert

fun ring_exec :: "ring_event \<Rightarrow> ring \<Rightarrow> ring option" where
  "ring_exec Arrive r =
     (case rm_source r of [] \<Rightarrow> None | q # qs \<Rightarrow> Some (r\<lparr>rm_source := qs, new_query := new_query r @ [q]\<rparr>))"
| "ring_exec (Walk nv) r =
     (case rm_out r of
        [] \<Rightarrow> None
      | p # ps \<Rightarrow> if last nv = last p then Some (r\<lparr>rm_out := ps, old_query := old_query r @ [step_update p nv]\<rparr>)
                 else None)"
| "ring_exec Old r = (if rm_returned r \<or> rm_update r \<noteq> None then None else Some (ring_old_query r))"
| "ring_exec Insert r =
     (if rm_returned r then None
      else case rm_update r of None \<Rightarrow> None | Some upd \<Rightarrow> Some (ring_insert_query upd r))"

fun ring_run :: "ring_event list \<Rightarrow> ring \<Rightarrow> ring option" where
  "ring_run [] r = Some r"
| "ring_run (e # es) r = (case ring_exec e r of None \<Rightarrow> None | Some s \<Rightarrow> ring_run es s)"

lemma ring_exec_step: "ring_exec e r = Some s \<Longrightarrow> ring_step r s"
  by (cases e) (auto intro: ring_step.intros split: list.splits if_splits option.splits)

lemma ring_run_reachable: "ring_run es r = Some s \<Longrightarrow> ring_reachable queries r \<Longrightarrow> ring_reachable queries s"
  by (induction es arbitrary: r) (auto split: option.splits dest: ring_exec_step intro: ring_reachable.step)

lemmas ring_run_init = ring_run_reachable [OF _ ring_reachable.init]

definition sample_query :: "u32 \<Rightarrow> u32 \<Rightarrow> bool \<Rightarrow> step_pkg" where
  "sample_query n i l =
     \<lparr>data = \<lparr>curr_vertex = i, remain_step = n, state = 0, ring_state = 0, inner_state = i, assert = 0\<rparr>, last = l\<rparr>"

definition after_walk :: "bool \<Rightarrow> ring_event" where
  "after_walk l = Walk \<lparr>data = 7, last = l\<rparr>"

lemma two_walks_running:
  "map_option (\<lambda>r. map (\<lambda>p. slot_of (data p)) (ring_walks r))
     (ring_run [Arrive, Old, Insert, Arrive, Old, Insert]
         (ring_manager_init [sample_query 2 0 False, sample_query 2 1 True])) = Some [0, 1]"
  by code_simp

theorem ring_slots_distinct_witness:
  "\<exists>r. ring_reachable [sample_query 2 0 False, sample_query 2 1 True] r \<and>
     map (\<lambda>p. slot_of (data p)) (ring_walks r) = [0, 1] \<and> slot_status r ! 0 \<noteq> 0 \<and> slot_status r ! 1 \<noteq> 0"
proof -
  obtain r where run: "ring_run [Arrive, Old, Insert, Arrive, Old, Insert]
         (ring_manager_init [sample_query 2 0 False, sample_query 2 1 True]) = Some r"
    and slots: "map (\<lambda>p. slot_of (data p)) (ring_walks r) = [0, 1]"
    using two_walks_running by (auto simp: map_option_eq_Some)
  have "\<forall>i \<in> set (map (\<lambda>p. slot_of (data p)) (ring_walks r)). slot_status r ! unat i \<noteq> 0"
    using ring_slots_distinct [OF ring_run_init [OF run]] by simp
  with slots ring_run_init [OF run] show ?thesis by (intro exI [of _ r]) (auto simp: slots)
qed

section \<open>No query is lost\<close>

definition query_id :: "step_pkg \<Rightarrow> u32 \<times> u16 \<times> u32" where
  "query_id p = (inner_state (data p), state (data p), assert (data p))"

definition ring_contents :: "ring \<Rightarrow> step_pkg list" where
  "ring_contents r = rm_finished r @ ring_walks r @ new_query r @ rm_source r"

lemma query_id_sel: "query_id (start_query i q) = query_id q" "query_id (step_update p nv) = query_id p"
  "query_id (p\<lparr>last := l\<rparr>) = query_id p"
  by (simp_all add: query_id_def start_query_sel step_update_sel)

lemma ring_old_query_conserves:
  "image_mset query_id (mset (ring_contents (ring_old_query r))) = image_mset query_id (mset (ring_contents r))"
  by (auto simp: ring_old_query_def ring_contents_def ring_walks_def Let_def query_id_sel split: list.split)

lemma ring_insert_query_conserves:
  "image_mset query_id (mset (ring_contents (ring_insert_query upd r))) = image_mset query_id (mset (ring_contents r))"
  by (auto simp: ring_insert_query_def ring_insertion_def ring_slot_update_def ring_contents_def ring_walks_def
      Let_def query_id_sel split: list.split option.split)

lemma ring_step_conserves:
  "ring_step r s \<Longrightarrow> image_mset query_id (mset (ring_contents s)) = image_mset query_id (mset (ring_contents r))"
  by (induction rule: ring_step.induct)
    (simp_all only: ring_old_query_conserves ring_insert_query_conserves,
      simp_all add: ring_contents_def ring_walks_def query_id_sel)

lemma ring_conserves:
  "ring_reachable queries r \<Longrightarrow> image_mset query_id (mset (ring_contents r)) = image_mset query_id (mset queries)"
  by (induction rule: ring_reachable.induct)
    (simp_all add: ring_step_conserves, simp add: ring_contents_def ring_walks_def ring_manager_init_def)

section \<open>When the manager returns\<close>

text \<open>
  The walks on their way as a circular list of (flag of the last query, remaining steps once counted,
  \<open>last\<close>), the flags of the queries still to start, and whether the manager has returned.
\<close>

type_synonym lap_state = "(bool \<times> nat \<times> bool) list \<times> bool list \<times> bool"

inductive lap :: "nat \<Rightarrow> lap_state \<Rightarrow> lap_state \<Rightarrow> bool" for L where
  idle: "lap L s s"
| stop: "lap L ((b, 0, True) # W, fs, False) (W, fs, True)"
| free: "lap L ((b, 0, False) # W, fs, False) (W, fs, False)"
| refill: "lap L ((b, 0, False) # W, f # fs, False) (W @ [(f, L - 1, False)], fs, False)"
| around: "lap L ((b, Suc n, l) # W, fs, False) (W @ [(b, n, n = 0 \<and> b)], fs, False)"
| put: "lap L (W, f # fs, False) (W @ [(f, L - 1, False)], fs, False)"

text \<open>Walks of other queries, with at most \<open>n\<close> steps left.\<close>

definition others :: "nat \<Rightarrow> (bool \<times> nat \<times> bool) list \<Rightarrow> bool" where
  "others k = list_all (\<lambda>(b, n, l). \<not> b \<and> \<not> l \<and> n < k)"

lemma others_simps [simp]:
  "others k []" "others k ((b, n, l) # W) \<longleftrightarrow> \<not> b \<and> \<not> l \<and> n < k \<and> others k W"
  "others k (V @ W) \<longleftrightarrow> others k V \<and> others k W"
  by (auto simp: others_def)

lemma others_mono: "others k W \<Longrightarrow> k \<le> m \<Longrightarrow> others m W"
  by (fastforce simp: others_def list_all_iff)

lemma others_0: "others 0 W \<longleftrightarrow> W = []"
  by (cases W) (auto simp: others_def)

inductive phase :: "nat \<Rightarrow> lap_state \<Rightarrow> bool" for L where
  starting: "True \<notin> set xs \<Longrightarrow> others L W \<Longrightarrow> phase L (W, xs @ [True], False)"
| running: "n < L \<Longrightarrow> others (Suc n) A \<Longrightarrow> others n B
    \<Longrightarrow> phase L (A @ (True, n, n = 0 \<and> 2 \<le> L) # B, [], False)"
| ended: "phase L ([], [], 2 \<le> L)"

lemma phase_running:
  "n < L \<Longrightarrow> others (Suc n) A \<Longrightarrow> others n B \<Longrightarrow> l = (n = 0 \<and> 2 \<le> L) \<Longrightarrow> W = A @ (True, n, l) # B
    \<Longrightarrow> phase L (W, [], False)"
  using phase.running by blast

lemma phase_put:
  assumes "phase L (W, f # fs, False)" and "others L W \<Longrightarrow> others L V" and "1 \<le> L"
  shows "phase L (V @ [(f, L - 1, False)], fs, False)"
  using assms(1)
proof (cases rule: phase.cases)
  case (starting xs)
  then have V: "others L V"
    using assms(2) by simp
  show ?thesis
  proof (cases xs)
    case Nil
    then have "f" "fs = []"
      using starting by auto
    with V assms(3) show ?thesis
      using phase_running [of "L - 1" L V "[]" False] by auto
  next
    case (Cons x ys)
    with starting V assms(3) show ?thesis
      by (auto intro!: phase.starting)
  qed
qed

lemma lap_phase: "lap L s t \<Longrightarrow> phase L s \<Longrightarrow> 1 \<le> L \<Longrightarrow> phase L t"
proof (induction rule: lap.induct)
  case (stop b W fs)
  from stop(1) show ?case
  proof (cases rule: phase.cases)
    case (running n A B)
    then show ?thesis
      by (cases A) (use phase.ended [of L] in \<open>auto simp: others_0\<close>)
  qed auto
next
  case (free b W fs)
  from free(1) show ?case
  proof (cases rule: phase.cases)
    case (starting xs)
    then show ?thesis by (auto intro: phase.starting)
  next
    case (running n A B)
    then show ?thesis
      by (cases A) (use phase.ended [of L] in \<open>auto simp: others_0 intro: phase_running\<close>)
  qed
next
  case (refill b W f fs)
  then show ?case
    by (elim phase_put) simp
next
  case (around b n l W fs)
  from around(1) show ?case
  proof (cases rule: phase.cases)
    case (starting xs)
    then show ?thesis by (auto intro: phase.starting)
  next
    case (running m A B)
    show ?thesis
    proof (cases A)
      case Nil
      with running have "fs = []" "b" "m = Suc n" "W = B"
        by auto
      with running show ?thesis
        using phase_running [of n L B "[]" "n = 0 \<and> b"] by auto
    next
      case (Cons a A')
      with running show ?thesis
        using phase_running [of m L A' "B @ [(b, n, n = 0 \<and> b)]" "m = 0 \<and> 2 \<le> L"] by auto
    qed
  qed
next
  case (put W f fs)
  then show ?case
    by (elim phase_put)
qed simp

text \<open>The manager refines the circular list.\<close>

definition old_entry :: "step_pkg \<Rightarrow> bool \<times> nat \<times> bool" where
  "old_entry p = (last_bit (data p), unat (remain_step (data p)), last p)"

definition out_entry :: "step_pkg \<Rightarrow> bool \<times> nat \<times> bool" where
  "out_entry p = (last_bit (data p), unat (remain_step (data p)) - 1, last p)"

definition lap_of :: "ring \<Rightarrow> lap_state" where
  "lap_of r = (map old_entry (old_query r) @ map out_entry (rm_out r),
     map (\<lambda>p. last p) (new_query r @ rm_source r), rm_returned r)"

definition counts_ok :: "u32 \<Rightarrow> ring \<Rightarrow> bool" where
  "counts_ok n r \<longleftrightarrow> (\<forall>q \<in> set (new_query r @ rm_source r). remain_step (data q) = n) \<and>
     (\<forall>p \<in> set (rm_out r). remain_step (data p) \<noteq> 0)"

lemma start_entry: "remain_step (data q) = n \<Longrightarrow> out_entry (start_query i q) = (last q, unat n - 1, False)"
  by (simp add: out_entry_def start_query_sel)

lemma walk_entry: "remain_step (data p) \<noteq> 0 \<Longrightarrow> last nv = last p \<Longrightarrow> old_entry (step_update p nv) = out_entry p"
  by (simp add: old_entry_def out_entry_def step_update_sel unat_minus_one)

lemma around_entry:
  "remain_step (data p) \<noteq> 0 \<Longrightarrow>
     out_entry (p\<lparr>last := (remain_step (data p) = 1 \<and> last_bit (data p))\<rparr>) =
       (last_bit (data p), unat (remain_step (data p)) - 1,
        unat (remain_step (data p)) - 1 = 0 \<and> last_bit (data p))"
proof -
  assume "remain_step (data p) \<noteq> 0"
  then have "unat (remain_step (data p)) \<noteq> 0"
    by (simp add: unat_eq_0)
  then have "remain_step (data p) = 1 \<longleftrightarrow> unat (remain_step (data p)) - 1 = 0"
    by (simp add: word_unat_eq_iff) linarith
  then show ?thesis by (simp add: out_entry_def)
qed

lemma lap_old_query:
  assumes "counts_ok n r" and "n \<noteq> 0" and "\<not> rm_returned r"
  shows "lap (unat n) (lap_of r) (lap_of (ring_old_query r)) \<and> counts_ok n (ring_old_query r)"
proof (cases "old_query r")
  case Nil
  with assms show ?thesis
    by (simp add: ring_old_query_def lap_of_def counts_ok_def lap.idle)
next
  case (Cons p ps)
  show ?thesis
  proof (cases "remain_step (data p) = 0")
    case True
    then have p: "old_entry p = (last_bit (data p), 0, last p)"
      by (simp add: old_entry_def)
    show ?thesis
    proof (cases "last p \<or> new_query r = []")
      case True
      with assms Cons p \<open>remain_step (data p) = 0\<close> show ?thesis
        by (cases "last p") (simp_all add: ring_old_query_def lap_of_def counts_ok_def Let_def lap.stop lap.free)
    next
      case False
      then obtain q qs where q: "new_query r = q # qs" and l: "\<not> last p"
        by (auto simp: neq_Nil_conv)
      moreover have "remain_step (data q) = n"
        using assms(1) q by (simp add: counts_ok_def)
      ultimately show ?thesis
        using assms Cons p True
          lap.refill [of "unat n" "last_bit (data p)" "map old_entry ps @ map out_entry (rm_out r)" "last q"]
        by (auto simp: ring_old_query_def lap_of_def counts_ok_def Let_def start_entry start_query_sel)
    qed
  next
    case False
    then obtain k where k: "unat (remain_step (data p)) = Suc k"
      by (metis not0_implies_Suc unat_eq_0)
    with assms Cons False lap.around [of "unat n" "last_bit (data p)" k "last p"
        "map old_entry ps @ map out_entry (rm_out r)"] around_entry [OF False]
    show ?thesis
      by (simp add: ring_old_query_def lap_of_def counts_ok_def old_entry_def)
  qed
qed

lemma lap_insert_query:
  assumes "counts_ok n r" and "n \<noteq> 0" and "\<not> rm_returned r"
  shows "lap (unat n) (lap_of r) (lap_of (ring_insert_query upd r)) \<and> counts_ok n (ring_insert_query upd r)"
proof (cases "slot_status r ! unat (ring_counter r) = 0 \<and> new_query r \<noteq> []")
  case True
  then obtain q qs where q: "new_query r = q # qs"
    by (auto simp: neq_Nil_conv)
  moreover have "remain_step (data q) = n"
    using assms(1) q by (simp add: counts_ok_def)
  ultimately show ?thesis
    using assms True lap.put [of "unat n" "map old_entry (old_query r) @ map out_entry (rm_out r)" "last q"]
    by (auto simp: ring_insert_query_def ring_insertion_def ring_slot_update_def lap_of_def counts_ok_def
        start_entry start_query_sel)
next
  case False
  then have "ring_insertion r upd = (r, upd)"
    by (auto simp: ring_insertion_def split: list.split)
  with assms(1) show ?thesis
    by (auto simp: ring_insert_query_def ring_slot_update_def lap_of_def counts_ok_def lap.idle split: option.split)
qed

lemma lap_step:
  assumes "ring_step r s" and "counts_ok n r" and "n \<noteq> 0"
  shows "lap (unat n) (lap_of r) (lap_of s) \<and> counts_ok n s"
  using assms(1)
proof (cases rule: ring_step.cases)
  case (arrive q qs)
  with assms(2) show ?thesis
    by (auto simp: lap_of_def counts_ok_def lap.idle)
next
  case (walk p ps nv)
  with assms(2) show ?thesis
    by (auto simp: lap_of_def counts_ok_def lap.idle walk_entry)
qed (use assms lap_old_query lap_insert_query in auto)

lemma ring_phase:
  assumes "ring_reachable (qs @ [q]) r" and "\<forall>p \<in> set (qs @ [q]). remain_step (data p) = n" and "n \<noteq> 0"
    and "last q" and "\<forall>p \<in> set qs. \<not> last p"
  shows "phase (unat n) (lap_of r) \<and> counts_ok n r"
  using assms(1)
proof (induction rule: ring_reachable.induct)
  case init
  have "True \<notin> set (map (\<lambda>p. last p) qs)"
    using assms(5) by auto
  with assms(2,4) show ?case
    using phase.starting [of "map (\<lambda>p. last p) qs" "unat n" "[]"]
    by (auto simp: lap_of_def counts_ok_def ring_manager_init_def)
next
  case (step r s)
  have "1 \<le> unat n"
    using assms(3) by (simp add: Suc_le_eq unat_gt_0)
  with step lap_step [OF step.hyps(2) _ assms(3)] lap_phase show ?case
    by blast
qed

text \<open>
  C7: for queries of equal length \<open>n\<close>, only the last of them flagged, the ring manager never loses or
  duplicates a query, and it returns exactly when all of them have ended, provided \<open>n\<close> is at least 2
  (with \<open>n = 1\<close> it never returns: the flag is only set on a walk that comes round with one step left).
\<close>

theorem ring_manager_returns:
  assumes "ring_reachable (qs @ [q]) r" and "\<forall>p \<in> set (qs @ [q]). remain_step (data p) = n" and "n \<noteq> 0"
    and "last q" and "\<forall>p \<in> set qs. \<not> last p"
  shows "(rm_returned r = (2 \<le> unat n \<and> ring_walks r = [] \<and> new_query r = [] \<and> rm_source r = [])) \<and>
    mset (map query_id (rm_finished r)) + mset (map query_id (ring_walks r @ new_query r @ rm_source r)) =
      mset (map query_id (qs @ [q]))"
proof -
  have "phase (unat n) (lap_of r)"
    using ring_phase [OF assms] by simp
  then have "rm_returned r = (2 \<le> unat n \<and> ring_walks r = [] \<and> new_query r = [] \<and> rm_source r = [])"
    by (cases rule: phase.cases) (auto simp: lap_of_def ring_walks_def)
  with ring_conserves [OF assms(1)] show ?thesis
    by (simp add: ring_contents_def)
qed

text \<open>Two queries of two steps each, from their arrival to the return of the manager.\<close>

definition two_queries :: "ring_event list" where
  "two_queries =
     [Arrive, Old, Insert, Arrive, Old, Insert, after_walk False, after_walk False,
      Old, Insert, Old, Insert, after_walk False, after_walk True, Old, Insert, Old]"

lemma two_queries_run:
  "map_option (\<lambda>r. (rm_returned r, map query_id (rm_finished r), ring_walks r, new_query r, rm_source r))
     (ring_run two_queries (ring_manager_init ([sample_query 2 0 False] @ [sample_query 2 1 True]))) =
   Some (True, [(0, 0, 0), (1, 0, 0)], [], [], [])"
  by code_simp

theorem ring_manager_returns_witness:
  "\<exists>r. ring_run two_queries (ring_manager_init ([sample_query 2 0 False] @ [sample_query 2 1 True])) = Some r \<and>
     rm_returned r \<and> ring_walks r = [] \<and> mset (map query_id (rm_finished r)) = {#(0, 0, 0), (1, 0, 0)#}"
proof -
  obtain r where run: "ring_run two_queries
        (ring_manager_init ([sample_query 2 0 False] @ [sample_query 2 1 True])) = Some r"
    and ret: "rm_returned r"
    using two_queries_run by (auto simp: map_option_eq_Some)
  have "(rm_returned r = (2 \<le> unat (2 :: u32) \<and> ring_walks r = [] \<and> new_query r = [] \<and> rm_source r = [])) \<and>
    mset (map query_id (rm_finished r)) + mset (map query_id (ring_walks r @ new_query r @ rm_source r)) =
      mset (map query_id ([sample_query 2 0 False] @ [sample_query 2 1 True]))"
    by (rule ring_manager_returns [OF ring_run_init [OF run]]) (simp_all add: sample_query_def)
  with run ret show ?thesis
    by (intro exI [of _ r]) (simp add: query_id_def sample_query_def)
qed

section \<open>Where the manager goes wrong\<close>

text \<open>
  A slot is lost when a query arrives between the two polls of one iteration in which an old query
  has ended: slot 0 stays marked although no walk has it.
\<close>

lemma ring_slot_lost:
  "map_option (\<lambda>r. (rm_update r, slot_status r ! 0, map (\<lambda>p. slot_of (data p)) (ring_walks r)))
     (ring_run [Arrive, Old, Insert, after_walk False, Old, Arrive, Insert]
        (ring_manager_init [sample_query 1 0 False, sample_query 1 1 True])) =
   Some (None, 1, [1])"
  by code_simp

text \<open>With queries of different lengths the manager returns while another walk is under way.\<close>

lemma ring_returns_early:
  "map_option (\<lambda>r. (rm_returned r, map query_id (ring_walks r)))
     (ring_run
       [Arrive, Old, Insert, Arrive, Old, Insert, after_walk False, after_walk False, Old, Insert, Old, Insert,
        after_walk False, after_walk True, Old, Insert, Old]
        (ring_manager_init [sample_query 3 0 False, sample_query 2 1 True])) =
   Some (True, [(0, 0, 0)])"
  by code_simp

end
