(* ===== verification/Node2vec_Lists.thy ===== *)
theory Node2vec_Lists
  imports Node2vec Static_Burst Burst_Flow Ring
begin

text \<open>
  The first half of a step of a node2vec walk (\<open>app/node2vec/kernel.cfg\<close>): \<open>step_duplicator\<close> asks for the
  lists of the current vertex and of the vertex the walk came from, \<open>vertex_loader\<close> finds them,
  \<open>vd_dispatch\<close> separates the two, and the static readers read them.
\<close>

section \<open>Kernels\<close>

text \<open>\<open>src/srw/step_duplicator.cpp\<close>: the packages to \<open>query\<close> and to \<open>assert_out1\<close>; \<open>origin\<close> gets the query itself.\<close>

definition duplicator_query :: "step_pkg \<Rightarrow> u64 pkg list" where
  "duplicator_query v = [\<lparr>data = ucast (curr_vertex (data v)), last = False\<rparr>,
     \<lparr>data = ucast (assert (data v)), last = last v\<rparr>]"

definition duplicator_assert :: "step_pkg \<Rightarrow> assert_item pkg" where
  "duplicator_assert v =
     \<lparr>data = \<lparr>as_last_vertex = assert (data v), as_curr_vertex = curr_vertex (data v)\<rparr>, last = False\<rparr>"

definition step_duplicator :: "step_pkg list \<Rightarrow> u64 pkg list \<times> step_pkg list \<times> assert_item pkg list" where
  "step_duplicator vs = (concat (map duplicator_query vs), vs, map duplicator_assert vs)"

text \<open>\<open>src/vndirect/vertex_loader.cpp\<close>: what it writes for a package, and over its polls until it returns.\<close>

definition load_vertex :: "(u32 \<Rightarrow> vertex_descriptor) \<Rightarrow> u64 pkg \<Rightarrow> vertex_descriptor pkg" where
  "load_vertex vertex nv_pkg =
     (let v = ucast (data nv_pkg) :: u32
      in if v AND 0x80000000 = 0x80000000
         then \<lparr>data = \<lparr>vd_start = v, vd_size = 0\<rparr>, last = last nv_pkg\<rparr>
         else \<lparr>data = \<lparr>vd_start = vd_start (vertex v), vd_size = vd_size (vertex v)\<rparr>, last = last nv_pkg\<rparr>)"

fun vertex_loader :: "(u32 \<Rightarrow> vertex_descriptor) \<Rightarrow> u8 \<times> bool \<Rightarrow> u64 pkg option list \<Rightarrow> vertex_descriptor pkg list \<times> bool" where
  "vertex_loader vertex s [] = ([], False)"
| "vertex_loader vertex s (None # ps) = vertex_loader vertex (flush_idle 16 s) ps"
| "vertex_loader vertex s (Some nv_pkg # ps) =
     (if last nv_pkg then ([load_vertex vertex nv_pkg], True)
      else let (out, returned) = vertex_loader vertex (0, True) ps in (load_vertex vertex nv_pkg # out, returned))"

text \<open>
  \<open>vd_dispatch\<close> from its counter and \<open>last_pkg\<close> on, over the packages it finds: descriptors come in
  pairs, the first one goes to \<open>current\<close>, the second one to \<open>last\<close> unless the first one is empty.
\<close>

fun vd_dispatch :: "u8 \<Rightarrow> vertex_descriptor pkg \<Rightarrow> vertex_descriptor pkg list \<Rightarrow>
    vertex_descriptor pkg list \<times> vertex_descriptor pkg list" where
  "vd_dispatch counter last_pkg [] = ([], [])"
| "vd_dispatch counter last_pkg (in_pkg # ins) =
     (if counter AND 1 = 0 then vd_dispatch (counter + 1) in_pkg ins
      else let size = vd_size (data last_pkg); last_pkg = last_pkg\<lparr>last := last in_pkg\<rparr>;
               (current, lasts) = vd_dispatch (counter + 1) last_pkg ins
           in (last_pkg # current, (if size \<noteq> 0 \<or> last in_pkg then [in_pkg] else []) @ lasts))"

text \<open>
  \<open>assert_filter_woe\<close> over the masks it finds; it waits for an assertion when there is none.
\<close>

definition assert_end :: "assert_item pkg" where
  "assert_end = \<lparr>data = \<lparr>as_last_vertex = 0xff, as_curr_vertex = 0\<rparr>, last = True\<rparr>"

fun assert_filter_woe :: "assert_item pkg list \<Rightarrow> u8 pkg list \<Rightarrow> assert_item pkg list" where
  "assert_filter_woe as [] = []"
| "assert_filter_woe as (sync_pkg # ms) =
     (if last sync_pkg then assert_end # assert_filter_woe as ms
      else case as of [] \<Rightarrow> []
        | a # as \<Rightarrow> (if data sync_pkg = 1 then [a] else []) @ assert_filter_woe as ms)"

text \<open>\<open>weight_duplicate\<close> and \<open>weight_duplicate_4\<close>.\<close>

definition weight_duplicate :: "weight_item pkg option list \<Rightarrow> weight_item pkg list \<times> weight_item pkg list \<times> weight_item pkg list" where
  "weight_duplicate polls = (arrivals polls, arrivals polls, arrivals polls)"

definition weight_duplicate_4 :: "weight_item pkg option list \<Rightarrow> weight_item pkg list list" where
  "weight_duplicate_4 polls = [arrivals polls, arrivals polls, arrivals polls, arrivals polls]"

section \<open>The descriptors\<close>

definition node_vd :: "(u32 \<Rightarrow> vertex_descriptor) \<Rightarrow> u32 \<Rightarrow> vertex_descriptor" where
  "node_vd vertex v = (if v AND 0x80000000 = 0x80000000 then \<lparr>vd_start = v, vd_size = 0\<rparr> else vertex v)"

lemma load_vertex_eq: "load_vertex vertex \<lparr>data = ucast v, last = l\<rparr> = \<lparr>data = node_vd vertex v, last = l\<rparr>"
proof -
  have "ucast (ucast v :: u64) = v" for v :: u32 by (rule ucast_up_ucast_id) (simp add: is_up)
  then show ?thesis by (cases "vertex v") (simp add: load_vertex_def node_vd_def Let_def)
qed

lemma vertex_loader_eq:
  "\<forall>x \<in> set (arrivals ps). \<not> last x \<Longrightarrow> vertex_loader vertex s ps = (map (load_vertex vertex) (arrivals ps), False)"
  by (induction vertex s ps rule: vertex_loader.induct) simp_all

lemma vd_dispatch_pair:
  "c AND 1 = 0 \<Longrightarrow> vd_dispatch c p (x # y # ins) =
     (let (current, lasts) = vd_dispatch (c + 2) (x\<lparr>last := last y\<rparr>) ins
      in (x\<lparr>last := last y\<rparr> # current, (if vd_size (data x) \<noteq> 0 \<or> last y then [y] else []) @ lasts))"
proof -
  assume c: "c AND 1 = 0"
  have even: "(w AND 1 = 0) = even w" for w :: u8 by (simp add: and_one_eq even_iff_mod_2_eq_zero)
  from c have "(c + 1) AND 1 \<noteq> 0" unfolding even by simp
  then show ?thesis using c by (simp add: Let_def case_prod_unfold add.commute)
qed

text \<open>The descriptors of queries that are not the last ones.\<close>

definition current_vd :: "(u32 \<Rightarrow> vertex_descriptor) \<Rightarrow> step_pkg \<Rightarrow> vertex_descriptor" where
  "current_vd vertex q = node_vd vertex (curr_vertex (data q))"

definition last_vd :: "(u32 \<Rightarrow> vertex_descriptor) \<Rightarrow> step_pkg \<Rightarrow> vertex_descriptor" where
  "last_vd vertex q = node_vd vertex (assert (data q))"

definition live :: "(u32 \<Rightarrow> vertex_descriptor) \<Rightarrow> step_pkg \<Rightarrow> bool" where
  "live vertex q \<longleftrightarrow> vd_size (current_vd vertex q) \<noteq> 0"

lemma vd_dispatch_queries:
  "c AND 1 = 0 \<Longrightarrow> vd_dispatch c p (concat (map (\<lambda>q. [\<lparr>data = current_vd vertex q, last = False\<rparr>, \<lparr>data = last_vd vertex q, last = False\<rparr>]) qs)) =
     (map (\<lambda>q. \<lparr>data = current_vd vertex q, last = False\<rparr>) qs,
      map (\<lambda>q. \<lparr>data = last_vd vertex q, last = False\<rparr>) (filter (live vertex) qs))"
proof (induction qs arbitrary: c p)
  case (Cons q qs)
  have even: "(w AND 1 = 0) = even w" for w :: u8 by (simp add: and_one_eq even_iff_mod_2_eq_zero)
  from Cons.prems have "(c + 2) AND 1 = 0" unfolding even by simp
  with Cons show ?case by (simp add: vd_dispatch_pair live_def del: vd_dispatch.simps)
qed simp

lemma duplicator_descriptors:
  assumes "\<forall>q \<in> set qs. \<not> last q" and "arrivals ps = fst (step_duplicator qs)"
  shows "vertex_loader vertex s ps =
    (concat (map (\<lambda>q. [\<lparr>data = current_vd vertex q, last = False\<rparr>, \<lparr>data = last_vd vertex q, last = False\<rparr>]) qs), False)"
proof -
  have "\<forall>x \<in> set (arrivals ps). \<not> last x"
    using assms by (auto simp: step_duplicator_def duplicator_query_def)
  moreover have "map (load_vertex vertex) (concat (map duplicator_query qs)) =
      concat (map (\<lambda>q. [\<lparr>data = current_vd vertex q, last = False\<rparr>, \<lparr>data = last_vd vertex q, last = False\<rparr>]) qs)"
    using assms(1) by (induction qs) (simp_all add: duplicator_query_def load_vertex_eq current_vd_def last_vd_def)
  then have "map (load_vertex vertex) (arrivals ps) =
      concat (map (\<lambda>q. [\<lparr>data = current_vd vertex q, last = False\<rparr>, \<lparr>data = last_vd vertex q, last = False\<rparr>]) qs)"
    by (simp only: assms(2) step_duplicator_def fst_conv)
  ultimately show ?thesis by (simp add: vertex_loader_eq)
qed


section \<open>The requests\<close>

text \<open>The queries whose current vertex has neighbours, with their identifiers.\<close>

fun requests :: "(u32 \<Rightarrow> vertex_descriptor) \<Rightarrow> u16 \<Rightarrow> u16 \<Rightarrow> step_pkg list \<Rightarrow> (step_pkg \<times> u16 \<times> u16) list" where
  "requests vertex i b [] = []"
| "requests vertex i b (q # qs) =
     (if live vertex q then (q, i, b) # requests vertex (sync_id_next i) (sync_id_next b) qs
      else requests vertex (sync_id_next i) b qs)"

lemma map_fst_requests [simp]: "map fst (requests vertex i b qs) = filter (live vertex) qs"
  by (induction vertex i b qs rule: requests.induct) simp_all

lemma requests_live: "(q, i', b') \<in> set (requests vertex i b qs) \<Longrightarrow> q \<in> set qs \<and> live vertex q"
  by (induction vertex i b qs rule: requests.induct) (auto split: if_splits)

lemma sync_id_next_clear: "sync_id_next i AND 0x8000 = 0"
  by (simp add: sync_id_next_def and.assoc)

lemma requests_clear:
  "(q, i', b') \<in> set (requests vertex i b qs) \<Longrightarrow> i AND 0x8000 = 0 \<Longrightarrow> i' AND 0x8000 = 0"
  by (induction vertex i b qs rule: requests.induct) (auto simp: sync_id_next_clear split: if_splits)

definition request_vdo :: "vertex_descriptor \<Rightarrow> u16 \<Rightarrow> u16 \<Rightarrow> vertex_descriptor_ordered pkg" where
  "request_vdo vd i b = \<lparr>data = \<lparr>vdo_start = vd_start vd, vdo_size = vd_size vd, vdo_id = i,
     vdo_burst_id = b AND 0x7fff, vdo_state = 0\<rparr>, last = False\<rparr>"

lemma sta_scheduled:
  "sta_vd_scheduler w i b (map (\<lambda>q. \<lparr>data = current_vd vertex q, last = False\<rparr>) qs) = (outs, masks) \<Longrightarrow>
     requests_of outs = map (\<lambda>(q, i, b). request_vdo (current_vd vertex q) i b) (requests vertex i b qs) \<and>
     masks = map (\<lambda>q. \<lparr>data = of_bool (live vertex q), last = False\<rparr>) qs"
proof (induction qs arbitrary: i b outs masks)
  case (Cons q qs)
  obtain outs' masks' where rec: "sta_vd_scheduler w (sync_id_next i) (if live vertex q then sync_id_next b else b)
      (map (\<lambda>q. \<lparr>data = current_vd vertex q, last = False\<rparr>) qs) = (outs', masks')" by (rule prod.exhaust)
  with Cons show ?case
    by (cases "live vertex q")
      (auto simp: sta_vd_scheduler_step_def live_def requests_of_def request_vdo_def Let_def)
qed (simp add: requests_of_def)

fun numbered_ids :: "u16 \<Rightarrow> u16 \<Rightarrow> 'a list \<Rightarrow> ('a \<times> u16 \<times> u16) list" where
  "numbered_ids i b [] = []"
| "numbered_ids i b (q # qs) = (q, i, b) # numbered_ids (sync_id_next i) (sync_id_next b) qs"

lemma map_fst_numbered_ids [simp]: "map fst (numbered_ids i b qs) = qs"
  by (induction i b qs rule: numbered_ids.induct) simp_all

lemma numbered_ids_clear: "(q, i', b') \<in> set (numbered_ids i b qs) \<Longrightarrow> i AND 0x8000 = 0 \<Longrightarrow> i' AND 0x8000 = 0"
  by (induction i b qs rule: numbered_ids.induct) (auto simp: sync_id_next_clear)

lemma si_scheduled:
  "si_vd_scheduler w i b (map (\<lambda>q. \<lparr>data = last_vd vertex q, last = False\<rparr>) qs) =
     map (\<lambda>(q, i, b). request_vdo (last_vd vertex q) i b) (numbered_ids i b qs)"
  by (induction qs arbitrary: i b) (simp_all add: request_vdo_def)

lemma assert_filter_live:
  "assert_filter_woe (map f qs) (map (\<lambda>q. \<lparr>data = of_bool (P q), last = False\<rparr>) qs) = map f (filter P qs)"
  by (induction qs) auto

section \<open>The rows\<close>

text \<open>The rows of the list of a descriptor, whose last memory word must not be the last one of the address space.\<close>

definition vd_rows :: "u32 \<Rightarrow> (u32 \<Rightarrow> weight_item) \<Rightarrow> vertex_descriptor \<Rightarrow> weight_item list" where
  "vd_rows fill mem vd = (let lo = unat (vd_start vd); hi = lo + unat (vd_size vd)
     in map (list_row fill mem lo hi) (words (16 * (lo div 16)) (round_up hi)))"

definition vd_fits :: "vertex_descriptor \<Rightarrow> bool" where
  "vd_fits vd \<longleftrightarrow> round_up (unat (vd_start vd) + unat (vd_size vd)) < 2 ^ 32"

definition last_rows :: "(u32 \<Rightarrow> weight_item) \<Rightarrow> vertex_descriptor \<Rightarrow> weight_item list" where
  "last_rows mem vd =
     (if vd_size vd = 0 then [pack_lanes (replicate 16 INVALID_VERTEX)] else vd_rows INVALID_VERTEX mem vd)"

lemma request_commands:
  assumes "vd_fits vd" and "vd_size vd \<noteq> 0" and "e = round_up (unat (vd_start vd) + unat (vd_size vd))"
  shows "list_commands d (request_vdo vd i b) = static_commands (request_vdo vd i b) (vd_start vd + vd_size vd) (of_nat e) d
      (words (16 * (unat (vd_start vd) div 16)) e)"
    and "unat (vd_start vd + vd_size vd) = unat (vd_start vd) + unat (vd_size vd)"
proof -
  let ?v = "data (request_vdo vd i b)"
  have defs: "word_start ?v = 16 * (unat (vd_start vd) div 16)" "word_end ?v = e" "list_end ?v = unat (vd_start vd) + unat (vd_size vd)"
    "vdo_start ?v = vd_start vd" "vdo_size ?v = vd_size vd"
    by (simp_all add: request_vdo_def word_start_def word_end_def list_start_def list_end_def assms(3))
  have "word_end ?v < 2 ^ 32" using assms(1,3) unfolding defs by (simp add: vd_fits_def)
  moreover have "list_end ?v \<le> 2 ^ 32" using calculation list_words(4) [of ?v] by simp
  moreover have "0 < unat (vdo_size ?v)" using assms(2) by (simp add: defs unat_gt_0)
  ultimately have "static_end ?v = e" "unat (vdo_start ?v + vdo_size ?v) = list_end ?v"
    using static_end_eq [of ?v] by (simp_all add: defs)
  then show "list_commands d (request_vdo vd i b) = static_commands (request_vdo vd i b) (vd_start vd + vd_size vd) (of_nat e) d
      (words (16 * (unat (vd_start vd) div 16)) e)"
    and "unat (vd_start vd + vd_size vd) = unat (vd_start vd) + unat (vd_size vd)"
    by (simp_all add: list_commands_def Let_def defs)
qed


definition vd_words :: "vertex_descriptor \<Rightarrow> nat list" where
  "vd_words vd = words (16 * (unat (vd_start vd) div 16)) (round_up (unat (vd_start vd) + unat (vd_size vd)))"

text \<open>What is read of the sync packages of a list: addresses, end of the list, identifier, end of the stream.\<close>

definition vd_syncs :: "vertex_descriptor \<Rightarrow> u16 \<Rightarrow> (u32 \<times> bool \<times> u16 \<times> bool) list" where
  "vd_syncs vd i = map (\<lambda>a. (of_nat a, a + 16 = round_up (unat (vd_start vd) + unat (vd_size vd)), i, False)) (vd_words vd)"

lemma length_vd_rows [simp]: "length (vd_rows fill mem vd) = length (vd_words vd)" "length (vd_syncs vd i) = length (vd_words vd)"
  by (simp_all add: vd_rows_def vd_words_def vd_syncs_def Let_def)

lemma static_commands_id: "c \<in> set (static_commands pkg end' e d cs) \<Longrightarrow> bc_id (data c) = vdo_id (data pkg)"
  by (induction pkg end' e d cs rule: static_commands.induct)
    (auto simp: send_static_cmd_def burst_cmd_gen_def Let_def)

lemma request_rows:
  assumes "vd_fits vd" and "vd_size vd \<noteq> 0" and "cmds = list_commands d (request_vdo vd i b)"
  shows "map snd (concat (map (sta_burst w mem) cmds)) = flagged (vd_rows 0 mem vd)"
    and "map (\<lambda>r. sync_info (fst r)) (concat (map (sta_burst w mem) cmds)) = vd_syncs vd i"
    and "concat (map (si_burst mem) cmds) = flagged (vd_rows INVALID_VERTEX mem vd)"
    and "length cmds = length (vd_words vd)" and "\<forall>c \<in> set cmds. bc_id (data c) = i"
proof -
  let ?e = "round_up (unat (vd_start vd) + unat (vd_size vd))"
  note cmds = request_commands [OF assms(1,2) refl]
  have vdo_start: "unat (vdo_start (data (request_vdo vd i b))) = unat (vd_start vd)"
    and request_vdo: "vdo_id (data (request_vdo vd i b)) = i" "\<not> last (request_vdo vd i b)" by (simp_all add: request_vdo_def)
  have "16 dvd 16 * (unat (vd_start vd) div 16)" "16 dvd ?e" "?e < 2 ^ 32"
    using assms(1) round_up(3) by (simp_all add: vd_fits_def)
  note rows = static_rows_list [OF this cmds(2) [symmetric] vdo_start [symmetric] trans [OF assms(3) cmds(1)]]
  show "map snd (concat (map (sta_burst w mem) cmds)) = flagged (vd_rows 0 mem vd)"
    using rows(1) by (simp add: vd_rows_def Let_def)
  show "map (\<lambda>r. sync_info (fst r)) (concat (map (sta_burst w mem) cmds)) = vd_syncs vd i"
    using rows(2) by (simp add: comp_def request_vdo vd_words_def vd_syncs_def)
  show "concat (map (si_burst mem) cmds) = flagged (vd_rows INVALID_VERTEX mem vd)"
    using rows(3) by (simp add: vd_rows_def Let_def)
  show "length cmds = length (vd_words vd)" "\<forall>c \<in> set cmds. bc_id (data c) = i"
    using static_commands_id request_vdo(1) by (simp_all add: assms(3) cmds(1) vd_words_def)
qed

lemma no_data_row:
  "vd_size vd = 0 \<Longrightarrow> \<exists>c. si_cmd_generator d (request_vdo vd i b) = Some ([c], d) \<and> bc_id (data c) = i \<and>
     si_burst mem c = flagged (last_rows mem vd)"
  by (simp add: si_cmd_generator_def request_vdo_def burst_cmd_gen_def si_burst_def last_rows_def Let_def map_replicate_const)

lemma sta_main_rows:
  assumes "\<forall>r \<in> set rs. vd_fits (f (fst r)) \<and> vd_size (f (fst r)) \<noteq> 0"
  shows "\<exists>cmds asserts. sta_cmd_main d (map (\<lambda>r. (duplicator_assert (fst r), request_vdo (f (fst r)) (fst (snd r)) (snd (snd r)))) rs) = Some (cmds, asserts) \<and>
    map snd (concat (map (sta_burst w mem) cmds)) = concat (map (\<lambda>r. flagged (vd_rows 0 mem (f (fst r)))) rs) \<and>
    map (\<lambda>r. sync_info (fst r)) (concat (map (sta_burst w mem) cmds)) = concat (map (\<lambda>r. vd_syncs (f (fst r)) (fst (snd r))) rs) \<and>
    asserts = concat (map (\<lambda>r. replicate (length (vd_words (f (fst r)))) (duplicator_assert (fst r))) rs) \<and>
    (\<forall>c \<in> set cmds. bc_id (data c) \<in> (\<lambda>r. fst (snd r)) ` set rs)"
  using assms
proof (induction rs arbitrary: d)
  case (Cons r rs)
  obtain q i b where r: "r = (q, i, b)" by (cases r) auto
  have ok: "vd_fits (f q)" "vd_size (f q) \<noteq> 0" using Cons.prems by (auto simp: r)
  define cs where "cs = list_commands d (request_vdo (f q) i b)"
  note rows = request_rows [OF ok cs_def]
  have gen: "sta_cmd_generator d (duplicator_assert q, request_vdo (f q) i b) =
      Some (cs, replicate (length (vd_words (f q))) (duplicator_assert q),
        (next_dynamic_id (request_vdo (f q) i b) ^^ length cs) d)"
    using rows(4) by (simp add: sta_cmd_generator_eq duplicator_assert_def flip: cs_def)
  from Cons.IH [of "(next_dynamic_id (request_vdo (f q) i b) ^^ length cs) d"] Cons.prems obtain cmds asserts where
    "sta_cmd_main ((next_dynamic_id (request_vdo (f q) i b) ^^ length cs) d)
      (map (\<lambda>r. (duplicator_assert (fst r), request_vdo (f (fst r)) (fst (snd r)) (snd (snd r)))) rs) = Some (cmds, asserts)"
    "map snd (concat (map (sta_burst w mem) cmds)) = concat (map (\<lambda>r. flagged (vd_rows 0 mem (f (fst r)))) rs)"
    "map (\<lambda>r. sync_info (fst r)) (concat (map (sta_burst w mem) cmds)) = concat (map (\<lambda>r. vd_syncs (f (fst r)) (fst (snd r))) rs)"
    "asserts = concat (map (\<lambda>r. replicate (length (vd_words (f (fst r)))) (duplicator_assert (fst r))) rs)"
    "\<forall>c \<in> set cmds. bc_id (data c) \<in> (\<lambda>r. fst (snd r)) ` set rs" by auto
  then show ?case
    using rows(1,2) [of w mem] rows(5) gen
    by (intro exI [of _ "cs @ cmds"]) (simp add: r ball_Un)
qed simp

lemma si_main_rows:
  assumes "\<forall>r \<in> set rs. vd_fits (f (fst r))"
  shows "\<exists>cmds. si_cmd_main d (map (\<lambda>r. request_vdo (f (fst r)) (fst (snd r)) (snd (snd r))) rs) = Some cmds \<and>
    concat (map (si_burst mem) cmds) = concat (map (\<lambda>r. flagged (last_rows mem (f (fst r)))) rs) \<and>
    (\<forall>c \<in> set cmds. bc_id (data c) \<in> (\<lambda>r. fst (snd r)) ` set rs)"
  using assms
proof (induction rs arbitrary: d)
  case (Cons r rs)
  obtain q i b where r: "r = (q, i, b)" by (cases r) auto
  have fits: "vd_fits (f q)" using Cons.prems by (auto simp: r)
  obtain cs d' where gen: "si_cmd_generator d (request_vdo (f q) i b) = Some (cs, d')" "\<forall>c \<in> set cs. bc_id (data c) = i"
    "concat (map (si_burst mem) cs) = flagged (last_rows mem (f q))"
  proof (cases "vd_size (f q) = 0")
    case True
    from no_data_row [OF this, of d i b mem] that show ?thesis by auto
  next
    case False
    then have "vdo_size (data (request_vdo (f q) i b)) \<noteq> 0" by (simp add: request_vdo_def)
    from si_cmd_generator_eq [OF this] that request_rows(3,5) [OF fits False refl] False show ?thesis
      by (simp add: last_rows_def)
  qed
  from Cons.IH [of d'] Cons.prems obtain cmds where
    "si_cmd_main d' (map (\<lambda>r. request_vdo (f (fst r)) (fst (snd r)) (snd (snd r))) rs) = Some cmds"
    "concat (map (si_burst mem) cmds) = concat (map (\<lambda>r. flagged (last_rows mem (f (fst r)))) rs)"
    "\<forall>c \<in> set cmds. bc_id (data c) \<in> (\<lambda>r. fst (snd r)) ` set rs" by auto
  then show ?case
    using gen by (intro exI [of _ "cs @ cmds"]) (auto simp: r)
qed simp


section \<open>The lists are read\<close>

definition node_request_of :: "(u32 \<Rightarrow> vertex_descriptor) \<Rightarrow> (u32 \<Rightarrow> weight_item) \<Rightarrow> step_pkg \<Rightarrow> node_request" where
  "node_request_of vertex mem q =
     (last_rows mem (last_vd vertex q), vd_rows 0 mem (current_vd vertex q), assert (data q))"

definition node_requests :: "(u32 \<Rightarrow> vertex_descriptor) \<Rightarrow> (u32 \<Rightarrow> weight_item) \<Rightarrow> step_pkg list \<Rightarrow> node_request list" where
  "node_requests vertex mem qs = map (node_request_of vertex mem) (filter (live vertex) qs)"

definition lists_fit :: "(u32 \<Rightarrow> vertex_descriptor) \<Rightarrow> step_pkg list \<Rightarrow> bool" where
  "lists_fit vertex qs \<longleftrightarrow>
     (\<forall>q \<in> set qs. \<not> last q \<and> (live vertex q \<longrightarrow> vd_fits (current_vd vertex q) \<and> vd_fits (last_vd vertex q)))"

lemma zip_map_fst: "zip (map f (map fst xs)) (map g xs) = map (\<lambda>r. (f (fst r), g r)) xs"
  by (induction xs) simp_all

lemma concat_fst: "concat (map (\<lambda>r. f (fst r)) xs) = concat (map f (map fst xs))"
  by (simp add: comp_def)

text \<open>The streams between the kernels, up to the commands.\<close>

definition lists_wired ::
    "(u32 \<Rightarrow> vertex_descriptor) \<Rightarrow> step_pkg list \<Rightarrow> (next_vertex_ordered pkg + vertex_descriptor_ordered pkg) list \<Rightarrow>
     burst_cmd pkg list \<Rightarrow> assert_item pkg list \<Rightarrow> burst_cmd pkg list \<Rightarrow> bool" where
  "lists_wired vertex qs outs cmds asserts si_cmds \<longleftrightarrow>
     (\<exists>loader_polls pkg vds currents lasts masks w w'.
        arrivals loader_polls = fst (step_duplicator qs) \<and>
        vds = fst (vertex_loader vertex (0, False) loader_polls) \<and>
        (currents, lasts) = vd_dispatch 0 pkg vds \<and>
        (outs, masks) = sta_vd_scheduler w 0 0 currents \<and>
        sta_cmd_main 0 (zip (assert_filter_woe (snd (snd (step_duplicator qs))) masks) (requests_of outs)) =
          Some (cmds, asserts) \<and>
        si_cmd_main 0 (si_vd_scheduler w' 0 0 lasts) = Some si_cmds)"

lemma lists_wired_scheduled:
  assumes "\<forall>q \<in> set qs. \<not> last q" and "lists_wired vertex qs outs cmds asserts si_cmds"
  shows "\<exists>masks w. sta_vd_scheduler w 0 0 (map (\<lambda>q. \<lparr>data = current_vd vertex q, last = False\<rparr>) qs) = (outs, masks)"
proof -
  obtain loader_polls pkg currents lasts masks w where wired: "arrivals loader_polls = fst (step_duplicator qs)"
    "(currents, lasts) = vd_dispatch 0 pkg (fst (vertex_loader vertex (0, False) loader_polls))"
    "(outs, masks) = sta_vd_scheduler w 0 0 currents"
    using assms(2) unfolding lists_wired_def by metis
  then have "currents = map (\<lambda>q. \<lparr>data = current_vd vertex q, last = False\<rparr>) qs"
    using duplicator_descriptors [OF assms(1) wired(1)] vd_dispatch_queries [of 0 pkg vertex qs] by simp
  with wired(3) show ?thesis by metis
qed

lemma lists_read:
  assumes "lists_fit vertex qs" and "lists_wired vertex qs outs cmds asserts si_cmds"
  shows "arrivals ps = cmds \<Longrightarrow> map snd (fst (burst_loop (sta_burst w mem) (0, False) ps)) = neighbour_rows (node_requests vertex mem qs)"
    and "arrivals ps = cmds \<Longrightarrow> map (\<lambda>r. sync_info (fst r)) (fst (burst_loop (sta_burst w mem) (0, False) ps)) =
      concat (map (\<lambda>r. vd_syncs (current_vd vertex (fst r)) (fst (snd r))) (requests vertex 0 0 qs))"
    and "arrivals ps = si_cmds \<Longrightarrow> fst (burst_loop (si_burst mem) (0, False) ps) = other_rows (node_requests vertex mem qs)"
    and "map (as_last_vertex \<circ> data) asserts = map (\<lambda>(R, u, x). u) (tagged_rows (node_requests vertex mem qs))"
proof -
  let ?rs = "requests vertex 0 0 qs"
  obtain loader_polls pkg vds currents lasts masks w1 w' where wired: "arrivals loader_polls = fst (step_duplicator qs)"
    "vds = fst (vertex_loader vertex (0, False) loader_polls)" "(currents, lasts) = vd_dispatch 0 pkg vds"
    "(outs, masks) = sta_vd_scheduler w1 0 0 currents"
    "sta_cmd_main 0 (zip (assert_filter_woe (snd (snd (step_duplicator qs))) masks) (requests_of outs)) = Some (cmds, asserts)"
    "si_cmd_main 0 (si_vd_scheduler w' 0 0 lasts) = Some si_cmds"
    using assms(2) unfolding lists_wired_def by metis
  have flags: "\<forall>q \<in> set qs. \<not> last q" using assms(1) by (simp add: lists_fit_def)
  have disp: "currents = map (\<lambda>q. \<lparr>data = current_vd vertex q, last = False\<rparr>) qs"
    "lasts = map (\<lambda>q. \<lparr>data = last_vd vertex q, last = False\<rparr>) (filter (live vertex) qs)"
    using wired(2,3) duplicator_descriptors [OF flags wired(1), of vertex "(0, False)"] vd_dispatch_queries [of 0 pkg vertex qs]
    by simp_all
  have sched: "requests_of outs = map (\<lambda>(q, i, b). request_vdo (current_vd vertex q) i b) ?rs"
    "masks = map (\<lambda>q. \<lparr>data = of_bool (live vertex q), last = False\<rparr>) qs"
    using sta_scheduled [OF wired(4) [symmetric, unfolded disp(1)]] by simp_all
  have "zip (assert_filter_woe (snd (snd (step_duplicator qs))) masks) (requests_of outs) =
      zip (map duplicator_assert (map fst ?rs)) (map (\<lambda>(q, i, b). request_vdo (current_vd vertex q) i b) ?rs)"
    unfolding sched step_duplicator_def snd_conv assert_filter_live map_fst_requests ..
  also have "\<dots> = map (\<lambda>r. (duplicator_assert (fst r), request_vdo (current_vd vertex (fst r)) (fst (snd r)) (snd (snd r)))) ?rs"
    by (simp only: zip_map_fst case_prod_unfold)
  finally have inputs: "sta_cmd_main 0 (map (\<lambda>r. (duplicator_assert (fst r),
      request_vdo (current_vd vertex (fst r)) (fst (snd r)) (snd (snd r)))) ?rs) = Some (cmds, asserts)"
    using wired(5) by simp
  have live: "\<forall>r \<in> set ?rs. vd_fits (current_vd vertex (fst r)) \<and> vd_size (current_vd vertex (fst r)) \<noteq> 0"
    using assms(1) requests_live [of _ _ _ vertex 0 0 qs] by (fastforce simp: lists_fit_def live_def)
  from sta_main_rows [OF this, of 0 w mem] inputs
  have sta: "map snd (concat (map (sta_burst w mem) cmds)) = concat (map (\<lambda>r. flagged (vd_rows 0 mem (current_vd vertex (fst r)))) ?rs)"
    "map (\<lambda>r. sync_info (fst r)) (concat (map (sta_burst w mem) cmds)) =
      concat (map (\<lambda>r. vd_syncs (current_vd vertex (fst r)) (fst (snd r))) ?rs)"
    "asserts = concat (map (\<lambda>r. replicate (length (vd_words (current_vd vertex (fst r)))) (duplicator_assert (fst r))) ?rs)"
    "\<forall>c \<in> set cmds. bc_id (data c) \<in> (\<lambda>r. fst (snd r)) ` set ?rs" by auto
  have "bc_id (data c) AND 0x8000 = 0" if "c \<in> set cmds" for c
    using sta(4) that requests_clear [of _ _ _ vertex 0 0 qs] by fastforce
  then have loop: "arrivals ps = cmds \<Longrightarrow> fst (burst_loop (sta_burst w mem) (0, False) ps) = concat (map (sta_burst w mem) cmds)"
    by (simp add: burst_loop_eq)
  show "arrivals ps = cmds \<Longrightarrow> map snd (fst (burst_loop (sta_burst w mem) (0, False) ps)) = neighbour_rows (node_requests vertex mem qs)"
    using loop sta(1) concat_fst [of "\<lambda>q. flagged (vd_rows 0 mem (current_vd vertex q))" ?rs]
    by (simp add: neighbour_rows_def node_requests_def node_request_of_def comp_def)
  show "arrivals ps = cmds \<Longrightarrow> map (\<lambda>r. sync_info (fst r)) (fst (burst_loop (sta_burst w mem) (0, False) ps)) =
      concat (map (\<lambda>r. vd_syncs (current_vd vertex (fst r)) (fst (snd r))) ?rs)"
    using loop sta(2) by simp
  have "asserts = concat (map (\<lambda>q. replicate (length (vd_words (current_vd vertex q))) (duplicator_assert q)) (filter (live vertex) qs))"
    unfolding sta(3) concat_fst [of "\<lambda>q. replicate (length (vd_words (current_vd vertex q))) (duplicator_assert q)"]
      map_fst_requests ..
  then show "map (as_last_vertex \<circ> data) asserts = map (\<lambda>(R, u, x). u) (tagged_rows (node_requests vertex mem qs))"
    by (simp add: tagged_rows_def node_requests_def node_request_of_def map_concat comp_def duplicator_assert_def map_replicate_const)
  let ?ns = "numbered_ids 0 0 (filter (live vertex) qs)"
  have "si_cmd_main 0 (map (\<lambda>r. request_vdo (last_vd vertex (fst r)) (fst (snd r)) (snd (snd r))) ?ns) = Some si_cmds"
    using wired(6) unfolding disp(2) si_scheduled by (simp add: case_prod_unfold)
  moreover have "\<forall>r \<in> set ?ns. vd_fits (last_vd vertex (fst r))"
  proof
    fix r assume "r \<in> set ?ns"
    then have "fst r \<in> set (map fst ?ns)" unfolding set_map by (rule imageI)
    then show "vd_fits (last_vd vertex (fst r))" using assms(1) by (simp only: map_fst_numbered_ids) (auto simp: lists_fit_def)
  qed
  ultimately have si: "concat (map (si_burst mem) si_cmds) = concat (map (\<lambda>r. flagged (last_rows mem (last_vd vertex (fst r)))) ?ns)"
    "\<forall>c \<in> set si_cmds. bc_id (data c) \<in> (\<lambda>r. fst (snd r)) ` set ?ns"
    using si_main_rows [of ?ns "last_vd vertex" 0 mem] by auto
  have "bc_id (data c) AND 0x8000 = 0" if "c \<in> set si_cmds" for c
    using si(2) that numbered_ids_clear [of _ _ _ 0 0 "filter (live vertex) qs"] by fastforce
  then show "arrivals ps = si_cmds \<Longrightarrow> fst (burst_loop (si_burst mem) (0, False) ps) = other_rows (node_requests vertex mem qs)"
    using si(1) concat_fst [of "\<lambda>q. flagged (last_rows mem (last_vd vertex q))" ?ns]
    by (simp add: burst_loop_eq other_rows_def node_requests_def node_request_of_def comp_def)
qed


text \<open>The commands are written for all queries.\<close>

lemma sta_cmd_main_total: "sta_cmd_main d xs \<noteq> None"
proof (induction xs arbitrary: d)
  case (Cons x xs)
  obtain a pkg where "x = (a, pkg)" by (cases x)
  with Cons show ?case by (simp add: sta_cmd_generator_eq)
qed simp

lemma si_cmd_main_total: "si_cmd_main d xs \<noteq> None"
proof (induction xs arbitrary: d)
  case (Cons x xs)
  have "si_cmd_generator d x \<noteq> None"
    by (cases "vdo_size (data x) = 0") (simp_all add: si_cmd_generator_eq, simp add: si_cmd_generator_def Let_def)
  with Cons show ?case by auto
qed simp

lemma lists_wired_exist: "\<exists>outs cmds asserts si_cmds. lists_wired vertex qs outs cmds asserts si_cmds"
proof -
  obtain currents lasts where d: "(currents, lasts) =
      vd_dispatch 0 \<lparr>data = \<lparr>vd_start = 0, vd_size = 0\<rparr>, last = False\<rparr>
        (fst (vertex_loader vertex (0, False) (map Some (fst (step_duplicator qs)))))"
    by (metis surj_pair)
  obtain outs masks where o: "(outs, masks) = sta_vd_scheduler 0 0 0 currents" by (metis surj_pair)
  obtain cmds asserts where "sta_cmd_main 0 (zip (assert_filter_woe (snd (snd (step_duplicator qs))) masks) (requests_of outs)) =
      Some (cmds, asserts)"
    using sta_cmd_main_total by fast
  moreover obtain si_cmds where "si_cmd_main 0 (si_vd_scheduler 0 0 0 lasts) = Some si_cmds"
    using si_cmd_main_total by fast
  ultimately show ?thesis
    unfolding lists_wired_def using d o arrivals_Some by metis
qed

section \<open>Sorted lists make good requests\<close>

definition vd_list :: "(u32 \<Rightarrow> weight_item) \<Rightarrow> vertex_descriptor \<Rightarrow> u32 list" where
  "vd_list mem vd = neighbours mem (unat (vd_start vd)) (unat (vd_start vd) + unat (vd_size vd))"

definition vd_ascending :: "(u32 \<Rightarrow> weight_item) \<Rightarrow> vertex_descriptor \<Rightarrow> bool" where
  "vd_ascending mem vd \<longleftrightarrow> ascending mem (unat (vd_start vd)) (unat (vd_start vd) + unat (vd_size vd))"

lemma vd_bounds:
  fixes vd :: vertex_descriptor
  defines "c \<equiv> 16 * (unat (vd_start vd) div 16)" and "e \<equiv> round_up (unat (vd_start vd) + unat (vd_size vd))"
  shows "16 dvd c" "16 dvd e" "c \<le> unat (vd_start vd)" "unat (vd_start vd) < c + 16"
    "unat (vd_start vd) + unat (vd_size vd) \<le> e" "e < unat (vd_start vd) + unat (vd_size vd) + 16" "c \<le> e"
  using round_up [of "unat (vd_start vd) + unat (vd_size vd)"] round_up(4,5) [of "unat (vd_start vd)"]
  by (simp_all add: c_def e_def)

lemma entries_vd_rows:
  "entries (vd_rows fill mem vd) =
     map (\<lambda>x. if unat (vd_start vd) \<le> x \<and> x < unat (vd_start vd) + unat (vd_size vd) then entry mem x else fill)
       [16 * (unat (vd_start vd) div 16)..<round_up (unat (vd_start vd) + unat (vd_size vd))]"
  using entries_rows [OF vd_bounds(1,2,7)] by (simp add: vd_rows_def Let_def)

lemma masked_image:
  fixes a b lo hi :: nat
  assumes "a \<le> lo" and "hi \<le> b" and "v \<noteq> fill"
  shows "v \<in> (\<lambda>x. if lo \<le> x \<and> x < hi then f x else fill) ` {a..<b} \<longleftrightarrow> v \<in> f ` {lo..<hi}"
proof
  assume "v \<in> f ` {lo..<hi}"
  then obtain x where "v = f x" "lo \<le> x" "x < hi" by auto
  with assms(1,2) show "v \<in> (\<lambda>x. if lo \<le> x \<and> x < hi then f x else fill) ` {a..<b}"
    by (intro image_eqI [of _ _ x]) auto
qed (use assms(3) in \<open>auto split: if_splits\<close>)

lemma set_vd_rows:
  assumes "v \<noteq> fill"
  shows "v \<in> set (entries (vd_rows fill mem vd)) \<longleftrightarrow> v \<in> set (vd_list mem vd)"
  unfolding entries_vd_rows vd_list_def neighbours_def set_map set_upt
  using vd_bounds(3,5) assms by (rule masked_image)

lemma set_last_rows:
  assumes "v \<noteq> INVALID_VERTEX"
  shows "v \<in> set (entries (last_rows mem vd)) \<longleftrightarrow> v \<in> set (vd_list mem vd)"
proof (cases "vd_size vd = 0")
  case True
  with assms show ?thesis by (auto simp: last_rows_def vd_list_def neighbours_def entries_def)
qed (simp add: last_rows_def set_vd_rows [OF assms])

lemma vd_words_ne: "vd_size vd \<noteq> 0 \<Longrightarrow> vd_words vd \<noteq> []"
  using vd_bounds [of vd] unat_gt_0 [of "vd_size vd"] by (simp add: vd_words_def)

lemma node_request_ok:
  assumes "live vertex q" and "vd_ascending mem (current_vd vertex q)" and "vd_ascending mem (last_vd vertex q)"
    and "node_request_of vertex mem q = (R, W, u)"
    and "\<forall>v \<in> set (drop 12 (lanes (List.last W))). v \<in> set (entries R) \<and> v \<noteq> 0 \<longrightarrow> v \<in> set (end_entries R)"
  shows "node_ok (node_request_of vertex mem q)"
proof -
  have W: "W = vd_rows 0 mem (current_vd vertex q)" and R: "R = last_rows mem (last_vd vertex q)"
    using assms(4) by (simp_all add: node_request_of_def)
  have "W \<noteq> []"
    using vd_words_ne [of "current_vd vertex q"] assms(1) W length_vd_rows(1) [of 0 mem "current_vd vertex q"]
    by (auto simp: live_def simp del: length_vd_rows)
  moreover have "vertices_sorted (entries W)"
    unfolding W entries_vd_rows using assms(2) vd_bounds by (intro vertices_sorted_list) (simp_all add: vd_ascending_def)
  moreover have "rows_sorted R"
  proof (cases "vd_size (last_vd vertex q) = 0")
    case False
    let ?vd = "last_vd vertex q"
    have "16 * (unat (vd_start ?vd) div 16) < round_up (unat (vd_start ?vd) + unat (vd_size ?vd))"
      using vd_words_ne [OF False] by (simp add: vd_words_def)
    then have "rows_sorted (map (list_row INVALID_VERTEX mem (unat (vd_start ?vd)) (unat (vd_start ?vd) + unat (vd_size ?vd)))
        (words (16 * (unat (vd_start ?vd) div 16)) (round_up (unat (vd_start ?vd) + unat (vd_size ?vd)))))"
      using assms(3) vd_bounds [of ?vd] by (intro rows_sorted_list) (simp_all add: vd_ascending_def)
    with False show ?thesis by (simp add: R last_rows_def vd_rows_def Let_def)
  qed (simp add: R last_rows_def)
  ultimately show ?thesis using assms(4,5) by (simp add: node_ok_def)
qed

end
