(* ===== verification/Walk_Order.thy ===== *)
theory Walk_Order
  imports Node2vec_Lists
begin

text \<open>
  What the steps of the weighted walks share: the identifiers of queries and bursts, rows with the numbers
  of their groups on their way through the merges, updates and sampled vertices that \<open>update_merge\<close>
  puts in the order of the queries, and the rows of a burst as the sampler's groups.
\<close>

section \<open>Numbered queries\<close>

definition query_id :: "nat \<Rightarrow> u16" where
  "query_id k = of_nat (k mod 2 ^ 15)"

lemma query_id [simp]: "sync_id_next (query_id n) = query_id (Suc n)" "query_id 0 = 0"
  using advance_of_nat [of True n] by (simp_all only: query_id_def advance_def sync_id_next_def if_True) simp

text \<open>Queries with their number.\<close>

definition update_of :: "nat \<times> 'a \<Rightarrow> u32 \<Rightarrow> next_vertex_ordered pkg" where
  "update_of kq v = \<lparr>data = \<lparr>nvo_vertex = v, nvo_id = query_id (fst kq)\<rparr>, last = False\<rparr>"

lemma numbered_enumerate: "numbered (\<lambda>_. True) n xs = enumerate n xs"
  by (induction xs arbitrary: n) simp_all

lemma enumerate_map: "enumerate n (map f (enumerate n xs)) = map (\<lambda>kq. (fst kq, f kq)) (enumerate n xs)"
  by (induction xs arbitrary: n) simp_all

lemma zip_numbers: "zip (map fst xs) (map f xs) = map (\<lambda>kq. (fst kq, f kq)) xs"
  by (induction xs) auto

section \<open>Rows with the numbers of their groups\<close>

text \<open>The groups of a stream, numbered by the entries of \<open>js\<close>.\<close>

fun annotate :: "('a \<Rightarrow> bool) \<Rightarrow> nat list \<Rightarrow> 'a list \<Rightarrow> (nat \<times> 'a) list" where
  "annotate fin js [] = []"
| "annotate fin js (x # xs) = (hd js, x) # annotate fin (if fin x then tl js else js) xs"

definition group :: "('a \<Rightarrow> bool) \<Rightarrow> 'a list \<Rightarrow> bool" where
  "group fin xs \<longleftrightarrow> (\<exists>ys y. xs = ys @ [y] \<and> (\<forall>x \<in> set ys. \<not> fin x) \<and> fin y)"

definition keyed :: "nat \<times> 'a list \<Rightarrow> (nat \<times> 'a) list" where
  "keyed jxs = map (Pair (fst jxs)) (snd jxs)"

lemma annotate_group: "group fin xs \<Longrightarrow> annotate fin (j # js) (xs @ zs) = keyed (j, xs) @ annotate fin js zs"
proof -
  have "\<forall>x \<in> set ys. \<not> fin x \<Longrightarrow> fin y \<Longrightarrow>
      annotate fin (j # js) (ys @ y # zs) = keyed (j, ys @ [y]) @ annotate fin js zs" for ys y
    by (induction ys) (auto simp: keyed_def)
  then show "group fin xs \<Longrightarrow> annotate fin (j # js) (xs @ zs) = keyed (j, xs) @ annotate fin js zs"
    by (auto simp: group_def)
qed

lemma annotate_groups:
  "length js = length groups \<Longrightarrow> \<forall>xs \<in> set groups. group fin xs \<Longrightarrow>
     annotate fin js (concat groups) = concat (map keyed (zip js groups))"
  by (induction js groups rule: list_induct2) (simp_all add: annotate_group)

lemma numbered_group_append:
  "group fin xs \<Longrightarrow> numbered fin g (xs @ zs) = keyed (g, xs) @ numbered fin (Suc g) zs"
proof -
  have "\<forall>x \<in> set ys. \<not> fin x \<Longrightarrow> fin y \<Longrightarrow>
      numbered fin g (ys @ y # zs) = keyed (g, ys @ [y]) @ numbered fin (Suc g) zs" for ys y
    by (induction ys) (auto simp: keyed_def)
  then show "group fin xs \<Longrightarrow> numbered fin g (xs @ zs) = keyed (g, xs) @ numbered fin (Suc g) zs"
    by (auto simp: group_def)
qed

lemma numbered_groups:
  "\<forall>xs \<in> set groups. group fin xs \<Longrightarrow>
     numbered fin g (concat groups) = concat (map keyed (enumerate g groups))"
  by (induction groups arbitrary: g) (simp_all add: numbered_group_append)

lemma filter_keyed: "filter (R \<circ> fst) (keyed jxs) = (if R (fst jxs) then keyed jxs else [])"
  by (cases jxs) (auto simp: keyed_def filter_empty_conv)

text \<open>An input that gets some of the groups, each with its number, is a branch of the sequence.\<close>

lemma annotate_branch:
  assumes "\<forall>xs \<in> set groups. group fin xs" and "picked = filter (R \<circ> fst) (enumerate 0 groups)"
  shows "annotate fin (map fst picked) (concat (map snd picked)) = branch R fin 0 (concat groups)"
proof -
  have "\<forall>xs \<in> set (map snd picked). group fin xs"
    using assms by (auto simp: in_set_enumerate_eq)
  then have "annotate fin (map fst picked) (concat (map snd picked)) = concat (map keyed (zip (map fst picked) (map snd picked)))"
    by (intro annotate_groups) simp_all
  also have "\<dots> = concat (map keyed picked)" by (simp add: zip_map_fst_snd)
  also have "\<dots> = filter (R \<circ> fst) (concat (map keyed (enumerate 0 groups)))"
    unfolding filter_concat map_map comp_def [of "filter _" keyed] filter_keyed assms(2)
    by (simp add: concat_filter comp_def)
  finally show ?thesis
    using numbered_groups [OF assms(1)] by (simp add: branch_def)
qed

text \<open>The positions of the elements that satisfy \<open>P\<close>.\<close>

definition places :: "('a \<Rightarrow> bool) \<Rightarrow> 'a list \<Rightarrow> nat list" where
  "places P xs = map fst (filter (P \<circ> snd) (enumerate 0 xs))"

lemma places_map: "places P (map f xs) = places (P \<circ> f) xs"
proof -
  have "map fst (filter (P \<circ> snd) (enumerate n (map f xs))) = map fst (filter ((P \<circ> f) \<circ> snd) (enumerate n xs))" for n
    by (induction xs arbitrary: n) simp_all
  then show ?thesis by (simp only: places_def)
qed

lemma places_branch:
  assumes "\<forall>x \<in> set xs. group fin (f x)"
  shows "annotate fin (places P xs) (concat (map f (filter P xs))) = branch (\<lambda>j. P (xs ! j)) fin 0 (concat (map f xs))"
proof -
  let ?picked = "filter ((\<lambda>j. P (xs ! j)) \<circ> fst) (enumerate 0 (map f xs))"
  have "filter ((\<lambda>j. P (xs ! j)) \<circ> fst) (enumerate 0 xs) = filter (P \<circ> snd) (enumerate 0 xs)"
    by (auto simp: in_set_enumerate_eq intro!: filter_cong)
  moreover have "?picked = map (apsnd f) (filter ((\<lambda>j. P (xs ! j)) \<circ> fst) (enumerate 0 xs))"
    by (simp add: enumerate_eq_zip zip_map2 filter_map comp_def apsnd_def map_prod_def case_prod_unfold)
  ultimately have picked: "?picked = map (apsnd f) (filter (P \<circ> snd) (enumerate 0 xs))" by simp
  have "map snd (filter (P \<circ> snd) (enumerate n xs)) = filter P xs" for n
    by (induction xs arbitrary: n) simp_all
  moreover have "map snd (map (apsnd f) zs) = map f (map snd zs)" "map fst (map (apsnd f) zs) = map fst zs" for zs :: "(nat \<times> 'a) list"
    by (induction zs) auto
  ultimately have "map snd ?picked = map f (filter P xs)" "map fst ?picked = places P xs"
    unfolding picked places_def by (simp_all only:)
  with annotate_branch [OF _ refl, of "map f xs" fin "\<lambda>j. P (xs ! j)"] assms show ?thesis by simp
qed

lemma length_split:
  "length (concat (map f (filter P xs))) + length (concat (map f (filter (Not \<circ> P) xs))) = length (concat (map f xs))"
  by (induction xs) simp_all

lemma tagged_groups:
  assumes "\<forall>xs \<in> set groups. group fin xs"
    and "\<And>g x. g < length groups \<Longrightarrow> x \<in> set (groups ! g) \<Longrightarrow> tag x = of_nat (g mod 2 ^ 15)"
  shows "tagged tag fin (concat groups)"
  using assms(2) by (auto simp: tagged_def numbered_groups [OF assms(1)] keyed_def in_set_enumerate_eq)

section \<open>Updates in the order of the queries\<close>

text \<open>
  \<open>P\<close> says of a numbered query that it takes the second way to \<open>update_merge\<close>, \<open>v\<close> is what is
  written for it.
\<close>

lemma updates_in_order:
  fixes qs :: "'a list" and v :: "nat \<times> 'a \<Rightarrow> u32"
  defines "xs \<equiv> enumerate 0 qs"
  assumes "(merge_run update_merge_step update_recv1 update_recv2 (\<lambda>_. True))\<^sup>*\<^sup>*
      (update_init, map (\<lambda>kq. (fst kq, update_of kq (v kq))) (filter (\<lambda>kq. \<not> P kq) xs),
        map (\<lambda>kq. (fst kq, update_of kq (v kq))) (filter P xs), []) (s, f1, f2, out)"
  shows "prefix out (map (\<lambda>kq. update_out (update_of kq (v kq))) xs)"
    and "\<exists>s'. (merge_run update_merge_step update_recv1 update_recv2 (\<lambda>_. True))\<^sup>*\<^sup>* (s, f1, f2, out)
      (s', [], [], map (\<lambda>kq. update_out (update_of kq (v kq))) xs)"
proof -
  let ?whole = "map (\<lambda>kq. update_of kq (v kq)) xs" and ?R = "\<lambda>k. \<not> P (k, qs ! k)"
  have whole: "numbered (\<lambda>_. True) 0 ?whole = map (\<lambda>kq. (fst kq, update_of kq (v kq))) xs"
    by (simp add: numbered_enumerate xs_def enumerate_map)
  have split: "filter (R \<circ> fst) (map (\<lambda>kq. (fst kq, f kq)) ys) = map (\<lambda>kq. (fst kq, f kq)) (filter (R \<circ> fst) ys)"
    for R :: "nat \<Rightarrow> bool" and f :: "nat \<times> 'a \<Rightarrow> next_vertex_ordered pkg" and ys
    by (induction ys) auto
  have "filter (?R \<circ> fst) xs = filter (\<lambda>kq. \<not> P kq) xs" "filter ((\<lambda>k. \<not> ?R k) \<circ> fst) xs = filter P xs"
    by (auto simp: xs_def in_set_enumerate_eq intro!: filter_cong)
  then have "branch ?R (\<lambda>_. True) 0 ?whole = map (\<lambda>kq. (fst kq, update_of kq (v kq))) (filter (\<lambda>kq. \<not> P kq) xs)"
    "branch (\<lambda>k. \<not> ?R k) (\<lambda>_. True) 0 ?whole = map (\<lambda>kq. (fst kq, update_of kq (v kq))) (filter P xs)"
    unfolding branch_def whole split by simp_all
  note run = assms(2) [folded this]
  have "tagged update_tag (\<lambda>_. True) ?whole"
    unfolding tagged_def whole by (auto simp: update_tag_def update_of_def query_id_def)
  from update_merge_correct [OF this run]
  show "prefix out (map (\<lambda>kq. update_out (update_of kq (v kq))) xs)"
    and "\<exists>s'. (merge_run update_merge_step update_recv1 update_recv2 (\<lambda>_. True))\<^sup>*\<^sup>* (s, f1, f2, out)
      (s', [], [], map (\<lambda>kq. update_out (update_of kq (v kq))) xs)"
    by (simp_all add: comp_def)
qed

section \<open>The groups of the sampler\<close>

lemma entries_nth: "i < 16 * length rows \<Longrightarrow> entries rows ! i = lanes (rows ! (i div 16)) ! (i mod 16)"
proof (induction rows arbitrary: i)
  case (Cons r rows)
  show ?case
  proof (cases "i < 16")
    case False
    then obtain j where i: "i = j + 16" by (metis add.commute le_Suc_ex not_less)
    with Cons show ?thesis by (simp add: entries_Cons nth_append div_add_self2)
  qed (simp add: entries_Cons nth_append)
qed simp

lemma length_entries [simp]: "length (entries rows) = 16 * length rows"
  by (induction rows) (simp_all add: entries_Cons)

lemma groups_of:
  assumes "length W = length ss" and "length R = length ss"
  shows "weights_of (zip ss (zip W R)) = map unat (entries W)" and "randoms_of (zip ss (zip W R)) = map unat (entries R)"
proof -
  have "weights_of (zip ss (zip W R)) = map unat (entries W) \<and> randoms_of (zip ss (zip W R)) = map unat (entries R)"
    using assms
  proof (induction ss arbitrary: W R)
    case (Cons s ss)
    then obtain w W' r R' where "W = w # W'" "R = r # R'" by (metis length_Suc_conv)
    with Cons show ?case by (simp add: weights_of_simps entries_Cons)
  qed (simp add: weights_of_def randoms_of_def)
  then show "weights_of (zip ss (zip W R)) = map unat (entries W)" "randoms_of (zip ss (zip W R)) = map unat (entries R)"
    by simp_all
qed

end
