(* ===== verification/Node2vec_Step.thy ===== *)
theory Node2vec_Step
  imports Walk_Order
begin

text \<open>
  A step of a node2vec walk, from the queries to the queries of the next step: the lists are read
  (theory Node2vec\_Lists) and weighted (theory Node2vec), \<open>ssample\<close> selects a neighbour, \<open>update_merge\<close>
  puts the vertices without neighbours in between, and \<open>fetch_next\<close> makes the next query.
\<close>

section \<open>fetch\_next (src/srw)\<close>

definition fetch_next_instance :: "u32 pkg \<Rightarrow> u64 pkg" where
  "fetch_next_instance in_pkg =
     (let sample_index = data in_pkg; new_v = sample_index in \<lparr>data = ucast new_v, last = last in_pkg\<rparr>)"

definition srw_step_update :: "step_pkg \<Rightarrow> u64 pkg \<Rightarrow> step_pkg" where
  "srw_step_update origin_step update_vertex_pkg =
     (let update_vertex = ucast (data update_vertex_pkg) :: u32; d = data origin_step;
          new_vertex = (if update_vertex AND 0x80000000 = 0x80000000 then curr_vertex d OR 0x80000000 else update_vertex)
      in \<lparr>data = \<lparr>curr_vertex = (if remain_step d = 2 then update_vertex OR 0x80000000 else new_vertex),
                  remain_step = remain_step d - 1, state = state d, ring_state = ring_state d,
                  inner_state = inner_state d, assert = curr_vertex d\<rparr>,
          last = last update_vertex_pkg\<rparr>)"

definition fetch_next :: "step_pkg list \<Rightarrow> u32 pkg list \<Rightarrow> step_pkg list" where
  "fetch_next origins inputs = map2 srw_step_update origins (map fetch_next_instance inputs)"

section \<open>Which query gets an update\<close>

lemma updates_scheduled:
  "sta_vd_scheduler w (query_id n) b (map (\<lambda>q. \<lparr>data = current_vd vertex q, last = False\<rparr>) qs) = (outs, masks) \<Longrightarrow>
     updates_of outs = map (\<lambda>kq. update_of kq 0x80000000) (filter (\<lambda>kq. \<not> live vertex (snd kq)) (enumerate n qs))"
proof (induction qs arbitrary: n b outs masks)
  case (Cons q qs)
  obtain outs' masks' where rec: "sta_vd_scheduler w (query_id (Suc n)) (if live vertex q then sync_id_next b else b)
      (map (\<lambda>q. \<lparr>data = current_vd vertex q, last = False\<rparr>) qs) = (outs', masks')" by (rule prod.exhaust)
  from Cons.IH [OF this] Cons.prems rec show ?case
    by (cases "live vertex q")
      (auto simp: sta_vd_scheduler_step_def live_def updates_of_def update_of_def Let_def)
qed (simp add: updates_of_def)

lemma requests_enumerate:
  "map (\<lambda>r. (fst r, fst (snd r))) (requests vertex (query_id n) b qs) =
     map (\<lambda>kq. (snd kq, query_id (fst kq))) (filter (\<lambda>kq. live vertex (snd kq)) (enumerate n qs))"
  by (induction qs arbitrary: n b) simp_all

section \<open>The sampled neighbour\<close>

text \<open>
  The neighbour that one pass of reservoir sampling over the list of the current vertex selects: the
  weight of a neighbour is 1 for the vertex the query came from, 2 for a neighbour of that vertex and 4
  for others, and \<open>list_randoms\<close> are the random numbers in the lanes where the list lies.
\<close>

definition walk_weight :: "(u32 \<Rightarrow> vertex_descriptor) \<Rightarrow> (u32 \<Rightarrow> weight_item) \<Rightarrow> step_pkg \<Rightarrow> u32 \<Rightarrow> nat" where
  "walk_weight vertex mem q v =
     (if v = assert (data q) then 1 else if v \<in> set (vd_list mem (last_vd vertex q)) then 2 else 4)"

definition list_randoms :: "vertex_descriptor \<Rightarrow> weight_item list \<Rightarrow> u32 list" where
  "list_randoms vd rnd = take (unat (vd_size vd)) (drop (unat (vd_start vd) mod 16) (entries rnd))"

definition node_choice :: "(u32 \<Rightarrow> vertex_descriptor) \<Rightarrow> (u32 \<Rightarrow> weight_item) \<Rightarrow> step_pkg \<Rightarrow> weight_item list \<Rightarrow> u32" where
  "node_choice vertex mem q rnd =
     (let ns = vd_list mem (current_vd vertex q);
          rs = list_randoms (current_vd vertex q) rnd
      in case reservoir 0 0 (zip (map (walk_weight vertex mem q) ns) (map unat rs)) None of
           None \<Rightarrow> 0x80000000 | Some j \<Rightarrow> ns ! j)"

text \<open>The same over the rows of the list, where the lanes around it hold 0.\<close>

definition row_weight :: "(u32 \<Rightarrow> vertex_descriptor) \<Rightarrow> (u32 \<Rightarrow> weight_item) \<Rightarrow> step_pkg \<Rightarrow> u32 \<Rightarrow> nat" where
  "row_weight vertex mem q v =
     (if v = assert (data q) then 1 else if v = 0 then 0
      else if v \<in> set (vd_list mem (last_vd vertex q)) then 2 else 4)"

definition row_choice :: "(u32 \<Rightarrow> vertex_descriptor) \<Rightarrow> (u32 \<Rightarrow> weight_item) \<Rightarrow> step_pkg \<Rightarrow> weight_item list \<Rightarrow> u32" where
  "row_choice vertex mem q rnd =
     (let xs = entries (vd_rows 0 mem (current_vd vertex q))
      in case reservoir 0 0 (zip (map (row_weight vertex mem q) xs) (map unat (entries rnd))) None of
           None \<Rightarrow> 0x80000000 | Some j \<Rightarrow> xs ! j)"

lemma reservoir_weightless: "\<forall>x \<in> set xs. fst x = 0 \<Longrightarrow> reservoir i acc xs sel = sel"
  by (induction i acc xs sel rule: reservoir.induct) simp_all

lemma reservoir_shift: "reservoir (i + k) acc xs (map_option (\<lambda>j. j + k) sel) = map_option (\<lambda>j. j + k) (reservoir i acc xs sel)"
proof (induction i acc xs sel rule: reservoir.induct)
  case (2 i acc w r xs sel)
  then show ?case by (cases "r * (acc + w) div 2 ^ 32 < w") simp_all
qed simp

lemma reservoir_inner:
  assumes "\<forall>x \<in> set as. fst x = 0" and "\<forall>x \<in> set bs. fst x = 0"
  shows "reservoir 0 0 (as @ zs @ bs) None = map_option (\<lambda>j. j + length as) (reservoir 0 0 zs None)"
proof -
  have sum: "sum_list (map fst as) = 0" using assms(1) by (induction as) simp_all
  show ?thesis
    using reservoir_shift [of 0 "length as" 0 zs None] assms by (simp add: reservoir_append reservoir_weightless sum del: sum_list_eq_0_iff)
qed

lemma upt_split: "i \<le> j \<Longrightarrow> j \<le> k \<Longrightarrow> [i..<k] = [i..<j] @ [j..<k]"
  using upt_add_eq_append [of i j "k - j"] by simp

lemma entries_padded:
  fixes vd :: vertex_descriptor
  defines "a \<equiv> unat (vd_start vd) mod 16"
  obtains b where "entries (vd_rows 0 mem vd) = replicate a 0 @ vd_list mem vd @ replicate b 0"
proof -
  let ?s = "unat (vd_start vd)" and ?c = "16 * (unat (vd_start vd) div 16)"
    and ?t = "unat (vd_start vd) + unat (vd_size vd)" and ?e = "round_up (unat (vd_start vd) + unat (vd_size vd))"
  let ?f = "\<lambda>x. if ?s \<le> x \<and> x < ?t then entry mem x else 0"
  have "[?c..<?e] = [?c..<?s] @ [?s..<?t] @ [?t..<?e]"
    using vd_bounds(3,5) [of vd] upt_split [of ?c ?s ?e] upt_split [of ?s ?t ?e] by simp
  moreover have "map ?f [?c..<?s] = map (\<lambda>_. 0) [?c..<?s]" by (rule map_cong) simp_all
  then have "map ?f [?c..<?s] = replicate a 0" by (simp only: map_replicate_const length_upt a_def minus_mult_div_eq_mod)
  moreover have "map ?f [?t..<?e] = replicate (?e - ?t) 0" by (rule nth_equalityI) simp_all
  moreover have "map ?f [?s..<?t] = vd_list mem vd" by (simp add: vd_list_def neighbours_def)
  ultimately have "entries (vd_rows 0 mem vd) = replicate a 0 @ vd_list mem vd @ replicate (?e - ?t) 0"
    unfolding entries_vd_rows by (simp only: map_append)
  then show ?thesis by (rule that)
qed

lemma length_vd_list: "length (vd_list mem vd) = unat (vd_size vd)"
  by (simp add: vd_list_def neighbours_def)

lemma length_list_randoms:
  assumes "length rnd = length (vd_words vd)"
  shows "length (list_randoms vd rnd) = unat (vd_size vd)"
proof -
  obtain b where "entries (vd_rows 0 (\<lambda>_. 0) vd) = replicate (unat (vd_start vd) mod 16) 0 @ vd_list (\<lambda>_. 0) vd @ replicate b 0"
    by (rule entries_padded)
  from arg_cong [OF this, of length] have "unat (vd_start vd) mod 16 + unat (vd_size vd) \<le> length (entries rnd)"
    using assms by (simp add: length_vd_list length_entries)
  then show ?thesis by (simp add: list_randoms_def)
qed

text \<open>The lanes around the list have weight 0 and are never selected.\<close>

lemma row_choice_eq:
  assumes "assert (data q) \<noteq> 0" and "0 \<notin> set (vd_list mem (current_vd vertex q))"
    and "length rnd = length (vd_words (current_vd vertex q))"
  shows "row_choice vertex mem q rnd = node_choice vertex mem q rnd"
proof -
  let ?vd = "current_vd vertex q" and ?w = "row_weight vertex mem q"
  let ?ns = "vd_list mem ?vd" and ?a = "unat (vd_start ?vd) mod 16" and ?r = "map unat (entries rnd)"
  obtain b where xs: "entries (vd_rows 0 mem ?vd) = replicate ?a 0 @ ?ns @ replicate b 0" by (rule entries_padded)
  have len: "length ?r = ?a + (length ?ns + b)"
    using arg_cong [OF xs, of length] assms(3) by (simp add: length_entries)
  have zero: "?w 0 = 0" using assms(1) by (simp add: row_weight_def)
  have weights: "map ?w ?ns = map (walk_weight vertex mem q) ?ns"
    using assms(2) by (auto simp: row_weight_def walk_weight_def)
  have rs: "map unat (list_randoms ?vd rnd) = take (length ?ns) (drop ?a ?r)"
    by (simp add: list_randoms_def take_map drop_map length_vd_list)
  let ?zs = "zip (map (walk_weight vertex mem q) ?ns) (map unat (list_randoms ?vd rnd))"
  have "zip (map ?w (entries (vd_rows 0 mem ?vd))) ?r =
      zip (replicate ?a 0) (take ?a ?r) @ ?zs @ zip (replicate b 0) (drop (?a + length ?ns) ?r)"
    unfolding xs rs weights [symmetric] using len
    by (simp add: zip_append1 zero add.commute take_zip drop_zip)
  moreover have "\<forall>x \<in> set (zip (replicate n 0) ys). fst x = 0" for n and ys :: "nat list" by (auto dest: set_zip_leftD)
  moreover have "length (zip (replicate ?a (0 :: nat)) (take ?a ?r)) = ?a" using len by simp
  ultimately have "reservoir 0 0 (zip (map ?w (entries (vd_rows 0 mem ?vd))) ?r) None =
      map_option (\<lambda>j. j + ?a) (reservoir 0 0 ?zs None)"
    using reservoir_inner [of "zip (replicate ?a 0) (take ?a ?r)" "zip (replicate b 0) (drop (?a + length ?ns) ?r)" ?zs] by metis
  moreover have "entries (vd_rows 0 mem ?vd) ! (j + ?a) = ?ns ! j" if "reservoir 0 0 ?zs None = Some j" for j
    using reservoir_Some [OF that] by (simp add: xs nth_append)
  ultimately show ?thesis
    by (cases "reservoir 0 0 ?zs None") (simp_all add: row_choice_def node_choice_def Let_def)
qed

text \<open>The rows of a list with their sync packages are a burst.\<close>

lemma words_ends:
  assumes "16 dvd c" and "16 dvd e"
  shows "c < e \<Longrightarrow> map (\<lambda>a. a + 16 = e) (words c e) = replicate (length (words c e) - 1) False @ [True]"
  using assms
proof (induction rule: words_induct)
  case (finish c)
  then have False by simp
  then show ?case ..
next
  case (more c)
  have here: "words c e = c # words (c + 16) e" using more(4) by simp
  show ?case
  proof (cases "c + 16 = e")
    case True
    then show ?thesis unfolding here by simp
  next
    case False
    with more(2) have "c + 16 < e" by simp
    from more(3) [OF this] words_Nil_iff [of "c + 16" e] this False show ?thesis
      unfolding here by (cases "words (c + 16) e") (simp_all del: words_simps)
  qed
qed

lemma is_burst_flags:
  assumes "map (ends \<circ> fst) gs = replicate m False @ [True]"
  shows "is_burst gs"
proof -
  from assms obtain gs' g where gs: "gs = gs' @ [g]" by (cases gs rule: rev_cases) auto
  with assms have "map (ends \<circ> fst) gs' = replicate m False" "ends (fst g)" by auto
  then have "\<forall>x \<in> set gs'. \<not> ends (fst x)" by (metis comp_apply image_eqI in_set_replicate list.set_map)
  with \<open>ends (fst g)\<close> show ?thesis by (simp add: is_burst_def gs)
qed

lemma sync_burst:
  assumes "map sync_info ss = vd_syncs vd i" and "vd_size vd \<noteq> 0" and "length W = length ss" and "length R = length ss"
  shows "is_burst (zip ss (zip W R))" and "bs_id (data (List.last ss)) = i" and "\<not> last (List.last ss)"
    and "length ss = length (vd_words vd)" and "ss \<noteq> []"
proof -
  let ?c = "16 * (unat (vd_start vd) div 16)" and ?e = "round_up (unat (vd_start vd) + unat (vd_size vd))"
  show len: "length ss = length (vd_words vd)" using arg_cong [OF assms(1), of length] by simp
  then show ne: "ss \<noteq> []" using vd_words_ne [OF assms(2)] by auto
  have "map ends ss = map (fst \<circ> snd) (map sync_info ss)" by (simp add: sync_info_def comp_def)
  also have "\<dots> = map (\<lambda>a. a + 16 = ?e) (words ?c ?e)"
    unfolding assms(1) by (simp add: vd_syncs_def vd_words_def comp_def)
  also have "\<dots> = replicate (length (words ?c ?e) - 1) False @ [True]"
    using vd_words_ne [OF assms(2)] vd_bounds(1,2) [of vd] by (intro words_ends) (simp_all add: vd_words_def)
  finally have "map ends ss = replicate (length (words ?c ?e) - 1) False @ [True]" .
  moreover have "map (ends \<circ> fst) (zip ss (zip W R)) = map ends ss"
    using assms(3,4) by (simp add: map_fst_zip flip: map_map)
  ultimately show "is_burst (zip ss (zip W R))" by (intro is_burst_flags) simp
  have "sync_info (List.last ss) \<in> set (vd_syncs vd i)"
    using ne assms(1) by (metis last_in_set last_map list.map_disc_iff)
  then show "bs_id (data (List.last ss)) = i" "\<not> last (List.last ss)"
    by (auto simp: vd_syncs_def sync_info_def)
qed

text \<open>Splitting a stream as its images are split.\<close>

lemma map_eq_concat: "map f xs = concat yss \<Longrightarrow> \<exists>xss. xs = concat xss \<and> map (map f) xss = yss"
proof (induction yss arbitrary: xs)
  case (Cons ys yss)
  then obtain us vs where "xs = us @ vs" "map f us = ys" "map f vs = concat yss"
    by (auto simp: map_eq_append_conv)
  with Cons.IH [of vs] show ?case by (metis concat.simps(2) list.simps(9))
qed auto

lemma concat_zip:
  "(\<And>x. x \<in> set xs \<Longrightarrow> length (f x) = length (g x)) \<Longrightarrow>
     zip (concat (map f xs)) (concat (map g xs)) = concat (map (\<lambda>x. zip (f x) (g x)) xs)"
  by (induction xs) auto

lemma entries_node_weights:
  "node_weights (R, W, u) = Wt \<Longrightarrow> length Wt = length W \<and> entries Wt = map (node_weight R u) (entries W)"
  by (auto simp: node_weights_def entries_def map_concat comp_def)

text \<open>
  \<open>neighbor_mask\<close> is exact on the last four neighbours of a row's end only for vertices that lie in the
  last two rows of the other list (theory Neighbor\_Mask).  \<open>last_lanes_exact\<close>: of the vertices in lanes 12
  to 15 of the last row of the current list, those that occur in the list of the vertex the query came
  from occur in the last two rows of that list.
\<close>

definition last_lanes_exact :: "(u32 \<Rightarrow> vertex_descriptor) \<Rightarrow> (u32 \<Rightarrow> weight_item) \<Rightarrow> step_pkg \<Rightarrow> bool" where
  "last_lanes_exact vertex mem q \<longleftrightarrow>
     (let (R, W, u) = node_request_of vertex mem q
      in \<forall>v \<in> set (drop 12 (lanes (List.last W))). v \<in> set (entries R) \<and> v \<noteq> 0 \<longrightarrow> v \<in> set (end_entries R))"

text \<open>
  What a query needs: sorted lists, a list short enough for 32-bit sums of weights, a random number for
  every lane of its rows, no vertex 0 (which the kernels take for a masked lane) as a neighbour or as the
  vertex it came from, no vertex that looks like the end mark, and \<open>last_lanes_exact\<close>.
\<close>

definition query_ok :: "(u32 \<Rightarrow> vertex_descriptor) \<Rightarrow> (u32 \<Rightarrow> weight_item) \<Rightarrow> step_pkg \<Rightarrow> weight_item list \<Rightarrow> bool" where
  "query_ok vertex mem q rnd \<longleftrightarrow>
     vd_ascending mem (current_vd vertex q) \<and> vd_ascending mem (last_vd vertex q) \<and>
     unat (vd_size (current_vd vertex q)) + 32 \<le> 2 ^ 30 \<and> length rnd = length (vd_words (current_vd vertex q)) \<and>
     assert (data q) \<noteq> 0 \<and> (\<forall>v \<in> set (vd_list mem (current_vd vertex q)). v \<noteq> 0 \<and> v < 0x80000000) \<and>
     last_lanes_exact vertex mem q"

lemma node_weight_walk:
  assumes "vd_ascending mem (current_vd vertex q)" and "v \<in> set (entries (vd_rows 0 mem (current_vd vertex q)))"
  shows "unat (node_weight (last_rows mem (last_vd vertex q)) (assert (data q)) v) = row_weight vertex mem q v"
proof -
  have "v \<noteq> INVALID_VERTEX" if "v \<noteq> 0"
    using assms set_vd_rows [OF that] by (auto simp: vd_ascending_def ascending_def vd_list_def)
  then show ?thesis
    using set_last_rows [of v mem "last_vd vertex q"]
    by (auto simp: node_weight_def row_weight_def answer_def)
qed

lemma sum_list_bound: "(\<And>x. x \<in> set xs \<Longrightarrow> f x \<le> (b :: nat)) \<Longrightarrow> sum_list (map f xs) \<le> b * length xs"
  by (induction xs) (auto simp: add_mono)

lemma walk_burst:
  fixes i :: u16
  assumes "query_ok vertex mem q rnd" and "live vertex q"
    and "map sync_info ss = vd_syncs (current_vd vertex q) i"
    and "W = vd_rows 0 mem (current_vd vertex q)" and "Wt = node_weights (node_request_of vertex mem q)"
    and "gs = zip W (zip ss (zip Wt rnd))"
  shows "is_burst (map snd gs)" and "sum_list (weights_of (map snd gs)) < 2 ^ 32"
    and "chosen_item gs = node_choice vertex mem q rnd"
    and "bs_id (data (fst (snd (List.last gs)))) = i" and "\<not> last (fst (snd (List.last gs)))"
    and "length W = length ss" and "length Wt = length ss" and "length rnd = length ss"
proof -
  let ?vd = "current_vd vertex q"
  have ok: "vd_ascending mem ?vd" "unat (vd_size ?vd) + 32 \<le> 2 ^ 30" "length rnd = length (vd_words ?vd)"
    using assms(1) by (simp_all add: query_ok_def)
  have ne: "vd_size ?vd \<noteq> 0" using assms(2) by (simp add: live_def)
  have ss: "length ss = length (vd_words ?vd)" using arg_cong [OF assms(3), of length] by simp
  have Wt: "length Wt = length W" "entries Wt = map (node_weight (last_rows mem (last_vd vertex q)) (assert (data q))) (entries W)"
    using entries_node_weights [of "last_rows mem (last_vd vertex q)" W "assert (data q)" Wt] assms(4,5)
    by (simp_all add: node_request_of_def)
  show len: "length W = length ss" "length Wt = length ss" "length rnd = length ss"
    using ss Wt(1) ok(3) by (simp_all add: assms(4))
  have snd_gs: "map snd gs = zip ss (zip Wt rnd)" using len by (simp add: assms(6))
  note burst = sync_burst [OF assms(3) ne len(2,3)]
  show "is_burst (map snd gs)" using burst(1) by (simp add: snd_gs)
  have "W \<noteq> []" "Wt \<noteq> []" "rnd \<noteq> []" using burst(5) len by (metis length_0_conv)+
  then have "List.last gs = (List.last W, List.last ss, List.last Wt, List.last rnd)"
    using burst(5) len by (simp add: assms(6) last_zip zip_eq_Nil_iff)
  then show "bs_id (data (fst (snd (List.last gs)))) = i" "\<not> last (fst (snd (List.last gs)))"
    using burst(2,3) by simp_all
  have weights: "weights_of (map snd gs) = map (row_weight vertex mem q) (entries W)"
    unfolding snd_gs groups_of(1) [OF len(2,3)] Wt(2) using node_weight_walk [OF ok(1)] assms(4) by simp
  have "sum_list (map (row_weight vertex mem q) (entries W)) \<le> 4 * length (entries W)"
    by (rule sum_list_bound) (simp add: row_weight_def)
  also have "length (entries W) < unat (vd_size ?vd) + 32"
    using vd_bounds [of ?vd] unfolding assms(4) entries_vd_rows by simp
  finally show "sum_list (weights_of (map snd gs)) < 2 ^ 32"
    using ok(2) unfolding weights by simp
  have choice: "burst_choice (map snd gs) = reservoir 0 0 (zip (map (row_weight vertex mem q) (entries W)) (map unat (entries rnd))) None"
    unfolding burst_choice_def weights by (simp add: snd_gs groups_of(2) [OF len(2,3)])
  have "assert (data q) \<noteq> 0" "0 \<notin> set (vd_list mem ?vd)" using assms(1) by (auto simp: query_ok_def)
  note row = row_choice_eq [OF this ok(3), symmetric]
  have "chosen_item gs = row_choice vertex mem q rnd"
  proof (cases "burst_choice (map snd gs)")
    case None
    then show ?thesis using choice assms(4) by (simp add: chosen_item_def row_choice_def Let_def)
  next
    case (Some j)
    then have j: "j < 16 * length gs" using burst_choice_Some [OF Some] by simp
    then have "fst (gs ! (j div 16)) = W ! (j div 16)" "j < 16 * length W"
      using len by (simp_all add: assms(6) less_mult_imp_div_less mult.commute)
    then show ?thesis
      using entries_nth [of j W]
      unfolding chosen_item_def row_choice_def Let_def assms(4) [symmetric] choice [symmetric] Some option.case by simp
  qed
  then show "chosen_item gs = node_choice vertex mem q rnd" by (simp only: row)
qed

section \<open>The whole step\<close>

text \<open>The queries with neighbours and those without, with their numbers.\<close>

definition live_queries :: "(u32 \<Rightarrow> vertex_descriptor) \<Rightarrow> step_pkg list \<Rightarrow> (nat \<times> step_pkg) list" where
  "live_queries vertex qs = filter (\<lambda>kq. live vertex (snd kq)) (enumerate 0 qs)"

definition dead_queries :: "(u32 \<Rightarrow> vertex_descriptor) \<Rightarrow> step_pkg list \<Rightarrow> (nat \<times> step_pkg) list" where
  "dead_queries vertex qs = filter (\<lambda>kq. \<not> live vertex (snd kq)) (enumerate 0 qs)"

text \<open>\<open>rnd k\<close> are the random numbers of query \<open>k\<close>.\<close>

definition walk_ok :: "(u32 \<Rightarrow> vertex_descriptor) \<Rightarrow> (u32 \<Rightarrow> weight_item) \<Rightarrow> (nat \<Rightarrow> weight_item list) \<Rightarrow> step_pkg list \<Rightarrow> bool" where
  "walk_ok vertex mem rnd qs \<longleftrightarrow> lists_fit vertex qs \<and>
     (\<forall>kq \<in> set (live_queries vertex qs). query_ok vertex mem (snd kq) (rnd (fst kq)))"

definition next_vertex :: "(u32 \<Rightarrow> vertex_descriptor) \<Rightarrow> (u32 \<Rightarrow> weight_item) \<Rightarrow> (nat \<Rightarrow> weight_item list) \<Rightarrow> nat \<times> step_pkg \<Rightarrow> u32" where
  "next_vertex vertex mem rnd kq =
     (if live vertex (snd kq) then node_choice vertex mem (snd kq) (rnd (fst kq)) AND 0x7fffffff else 0x80000000)"

text \<open>The readers execute their commands; the kernels of the weights are fed with the rows.\<close>

definition readers_run :: "(u32 \<Rightarrow> weight_item) \<Rightarrow> burst_cmd pkg list \<Rightarrow> burst_cmd pkg list \<Rightarrow>
    (burst_sync pkg \<times> weight_item pkg) list \<Rightarrow> weight_item pkg list \<Rightarrow> bool" where
  "readers_run mem cmds si_cmds rows olds \<longleftrightarrow>
     (\<exists>ps ps' w. arrivals ps = cmds \<and> arrivals ps' = si_cmds \<and>
        rows = fst (burst_loop (sta_burst w mem) (0, False) ps) \<and> olds = fst (burst_loop (si_burst mem) (0, False) ps'))"

definition weights_wired :: "weight_item pkg list \<Rightarrow> weight_item pkg list \<Rightarrow> assert_item pkg list \<Rightarrow> weight_item list \<Rightarrow> bool" where
  "weights_wired rows olds asserts weights \<longleftrightarrow>
     (\<exists>polls found marked marks merged quartets w. arrivals polls = rows \<and>
        masks_done olds (weight_dispatch polls) found \<and> current_done rows asserts marked \<and>
        map data (arrivals marks) = marked \<and>
        (\<forall>r < 4. arrivals (merged r) = zip (found r) (weight_dispatch marks ! r)) \<and>
        arrivals quartets = zip (merge_mask (merged 0)) (zip (merge_mask (merged 1))
          (zip (merge_mask (merged 2)) (merge_mask (merged 3)))) \<and>
        length w = 16 \<and> weights = merge_weight w quartets)"

definition sampler_wired :: "(burst_sync pkg \<times> weight_item pkg) list \<Rightarrow> weight_item list \<Rightarrow> weight_item list \<Rightarrow>
    next_vertex_ordered pkg list \<Rightarrow> bool" where
  "sampler_wired rows weights randoms sampled \<longleftrightarrow>
     (\<exists>p1 p2 p3 p4 p5. wrs_connected (zip (map fst rows) (zip weights randoms)) p1 p2 p3 p4 \<and>
        arrivals p5 = zip (map fst rows) (zip (reservoir_mask p4) (map (data \<circ> snd) rows)) \<and> sampled = ssample p5)"

lemma map_snd_live: "map snd (live_queries vertex qs) = filter (live vertex) qs"
proof -
  have "map snd (filter (\<lambda>kq. live vertex (snd kq)) (enumerate n qs)) = filter (live vertex) qs" for n
    by (induction qs arbitrary: n) simp_all
  then show ?thesis by (simp only: live_queries_def)
qed

lemma node_requests_live:
  "node_requests vertex mem qs = map (\<lambda>kq. node_request_of vertex mem (snd kq)) (live_queries vertex qs)"
  unfolding node_requests_def map_snd_live [symmetric] by simp

lemma walk_okD:
  assumes "walk_ok vertex mem rnd qs"
  shows "lists_fit vertex qs"
    and "kq \<in> set (live_queries vertex qs) \<Longrightarrow> query_ok vertex mem (snd kq) (rnd (fst kq))"
    and "kq \<in> set (live_queries vertex qs) \<Longrightarrow> live vertex (snd kq)"
  using assms by (simp_all add: walk_ok_def live_queries_def)

lemma walk_requests_ok:
  assumes "walk_ok vertex mem rnd qs"
  shows "\<forall>r \<in> set (node_requests vertex mem qs). node_ok r"
proof
  fix r assume "r \<in> set (node_requests vertex mem qs)"
  then obtain kq where kq: "kq \<in> set (live_queries vertex qs)" "r = node_request_of vertex mem (snd kq)"
    by (auto simp: node_requests_live)
  obtain R W u where RWu: "node_request_of vertex mem (snd kq) = (R, W, u)"
    by (cases "node_request_of vertex mem (snd kq)") auto
  from walk_okD(2) [OF assms kq(1)]
  have "vd_ascending mem (current_vd vertex (snd kq))" "vd_ascending mem (last_vd vertex (snd kq))"
    "\<forall>v \<in> set (drop 12 (lanes (List.last W))). v \<in> set (entries R) \<and> v \<noteq> 0 \<longrightarrow> v \<in> set (end_entries R)"
    by (simp_all add: query_ok_def last_lanes_exact_def RWu)
  from node_request_ok [OF walk_okD(3) [OF assms kq(1)] this(1,2) RWu this(3)] show "node_ok r" by (simp only: kq(2))
qed

lemma walk_streams:
  assumes "walk_ok vertex mem rnd qs" and "lists_wired vertex qs outs cmds asserts si_cmds"
    and "readers_run mem cmds si_cmds rows olds"
  shows "map snd rows = neighbour_rows (node_requests vertex mem qs)" and "olds = other_rows (node_requests vertex mem qs)"
    and "map sync_info (map fst rows) =
      concat (map (\<lambda>kq. vd_syncs (current_vd vertex (snd kq)) (query_id (fst kq))) (live_queries vertex qs))"
    and "map (as_last_vertex \<circ> data) asserts = map (\<lambda>(R, u, x). u) (tagged_rows (node_requests vertex mem qs))"
proof -
  obtain ps ps' w where readers: "arrivals ps = cmds" "arrivals ps' = si_cmds"
    "rows = fst (burst_loop (sta_burst w mem) (0, False) ps)" "olds = fst (burst_loop (si_burst mem) (0, False) ps')"
    using assms(3) by (auto simp: readers_run_def)
  note read = lists_read [OF walk_okD(1) [OF assms(1)] assms(2)]
  show "map snd rows = neighbour_rows (node_requests vertex mem qs)" "olds = other_rows (node_requests vertex mem qs)"
    "map (as_last_vertex \<circ> data) asserts = map (\<lambda>(R, u, x). u) (tagged_rows (node_requests vertex mem qs))"
    using read(1) [OF readers(1), of w mem] read(3) [OF readers(2), of mem] read(4) [of mem]
    by (simp_all only: readers(3,4))
  have "map sync_info (map fst rows) = concat (map (\<lambda>r. vd_syncs (current_vd vertex (fst r)) (snd r))
      (map (\<lambda>r. (fst r, fst (snd r))) (requests vertex 0 0 qs)))"
    using read(2) [OF readers(1)] by (simp add: readers(3) comp_def)
  also have "\<dots> = concat (map (\<lambda>kq. vd_syncs (current_vd vertex (snd kq)) (query_id (fst kq))) (live_queries vertex qs))"
    using requests_enumerate [of vertex 0 0 qs] by (simp add: live_queries_def comp_def)
  finally show "map sync_info (map fst rows) =
      concat (map (\<lambda>kq. vd_syncs (current_vd vertex (snd kq)) (query_id (fst kq))) (live_queries vertex qs))" .
qed

lemma walk_weights:
  assumes "walk_ok vertex mem rnd qs" and "lists_wired vertex qs outs cmds asserts si_cmds"
    and "readers_run mem cmds si_cmds rows olds" and "weights_wired (map snd rows) olds asserts weights"
  shows "weights = concat (map node_weights (node_requests vertex mem qs))"
  using assms(4) weights_computed [OF walk_requests_ok [OF assms(1)] _ _ _ walk_streams(4) [OF assms(1-3)]]
  unfolding weights_wired_def walk_streams(1,2) [OF assms(1-3)] by blast

text \<open>The rows of a query with their random numbers and sync packages.\<close>

definition walk_group :: "(u32 \<Rightarrow> vertex_descriptor) \<Rightarrow> (u32 \<Rightarrow> weight_item) \<Rightarrow> (nat \<Rightarrow> weight_item list) \<Rightarrow>
    (nat \<times> step_pkg) \<times> burst_sync pkg list \<Rightarrow> (weight_item \<times> group) list" where
  "walk_group vertex mem rnd x = zip (vd_rows 0 mem (current_vd vertex (snd (fst x))))
     (zip (snd x) (zip (node_weights (node_request_of vertex mem (snd (fst x)))) (rnd (fst (fst x)))))"

lemma walk_groups:
  assumes "walk_ok vertex mem rnd qs" and "xs = zip (live_queries vertex qs) SS"
    and "map (map sync_info) SS = map (\<lambda>kq. vd_syncs (current_vd vertex (snd kq)) (query_id (fst kq))) (live_queries vertex qs)"
    and "x \<in> set xs" and "gs = walk_group vertex mem rnd x"
  shows "is_burst (map snd gs)" "sum_list (weights_of (map snd gs)) < 2 ^ 32"
    "chosen_item gs = node_choice vertex mem (snd (fst x)) (rnd (fst (fst x)))"
    "bs_id (data (fst (snd (List.last gs)))) = query_id (fst (fst x))" "\<not> last (fst (snd (List.last gs)))"
    "length (vd_rows 0 mem (current_vd vertex (snd (fst x)))) = length (snd x)"
    "length (node_weights (node_request_of vertex mem (snd (fst x)))) = length (snd x)"
    "length (rnd (fst (fst x))) = length (snd x)" "live vertex (snd (fst x))"
proof -
  from assms(2,4) obtain j where "j < length (live_queries vertex qs)" "j < length SS" "x = (live_queries vertex qs ! j, SS ! j)"
    by (auto simp: in_set_zip)
  then have "fst x \<in> set (live_queries vertex qs)"
    "map sync_info (snd x) = vd_syncs (current_vd vertex (snd (fst x))) (query_id (fst (fst x)))"
    using arg_cong [OF assms(3), of "\<lambda>l. l ! j"] by simp_all
  note facts = walk_burst [OF walk_okD(2) [OF assms(1) this(1)] walk_okD(3) [OF assms(1) this(1)] this(2) refl refl
      trans [OF assms(5) walk_group_def]]
  show "is_burst (map snd gs)" "sum_list (weights_of (map snd gs)) < 2 ^ 32"
    "chosen_item gs = node_choice vertex mem (snd (fst x)) (rnd (fst (fst x)))"
    "bs_id (data (fst (snd (List.last gs)))) = query_id (fst (fst x))" "\<not> last (fst (snd (List.last gs)))"
    "length (vd_rows 0 mem (current_vd vertex (snd (fst x)))) = length (snd x)"
    "length (node_weights (node_request_of vertex mem (snd (fst x)))) = length (snd x)"
    "length (rnd (fst (fst x))) = length (snd x)"
    by (rule facts)+
  show "live vertex (snd (fst x))" using walk_okD(3) [OF assms(1) \<open>fst x \<in> set (live_queries vertex qs)\<close>] .
qed

lemma concat_groups:
  assumes "walk_ok vertex mem rnd qs" and "xs = zip (live_queries vertex qs) SS"
    and "map (map sync_info) SS = map (\<lambda>kq. vd_syncs (current_vd vertex (snd kq)) (query_id (fst kq))) (live_queries vertex qs)"
  shows "map fst (concat (map (walk_group vertex mem rnd) xs)) =
      concat (map (\<lambda>kq. vd_rows 0 mem (current_vd vertex (snd kq))) (live_queries vertex qs))"
    and "map snd (concat (map (walk_group vertex mem rnd) xs)) =
      zip (concat SS) (zip (concat (map node_weights (node_requests vertex mem qs))) (concat (map (rnd \<circ> fst) (live_queries vertex qs))))"
    and "map fst xs = live_queries vertex qs"
proof -
  have "length SS = length (live_queries vertex qs)" using arg_cong [OF assms(3), of length] by simp
  then have xs: "map fst xs = live_queries vertex qs" "map snd xs = SS" by (simp_all add: assms(2))
  then show "map fst xs = live_queries vertex qs" by simp
  note len = walk_groups(6-8) [OF assms _ refl]
  have "map fst (concat (map (walk_group vertex mem rnd) xs)) = concat (map (\<lambda>x. vd_rows 0 mem (current_vd vertex (snd (fst x)))) xs)"
    unfolding map_concat map_map
    by (intro arg_cong [where f = concat] map_cong) (simp_all add: walk_group_def len del: length_vd_rows)
  then show "map fst (concat (map (walk_group vertex mem rnd) xs)) =
      concat (map (\<lambda>kq. vd_rows 0 mem (current_vd vertex (snd kq))) (live_queries vertex qs))"
    unfolding xs(1) [symmetric] map_map comp_def .
  have "map snd (concat (map (walk_group vertex mem rnd) xs)) =
      concat (map (\<lambda>x. zip (snd x) (zip (node_weights (node_request_of vertex mem (snd (fst x)))) (rnd (fst (fst x))))) xs)"
    unfolding map_concat map_map
    by (intro arg_cong [where f = concat] map_cong) (simp_all add: walk_group_def len del: length_vd_rows)
  also have "\<dots> = zip (concat (map snd xs)) (zip (concat (map (\<lambda>x. node_weights (node_request_of vertex mem (snd (fst x)))) xs))
      (concat (map (\<lambda>x. rnd (fst (fst x))) xs)))"
    using len by (subst concat_zip [symmetric], simp, subst concat_zip [symmetric]) simp_all
  also have "concat (map (\<lambda>x. node_weights (node_request_of vertex mem (snd (fst x)))) xs) =
      concat (map node_weights (node_requests vertex mem qs))"
    unfolding node_requests_live xs(1) [symmetric] map_map comp_def ..
  also have "concat (map (\<lambda>x. rnd (fst (fst x))) xs) = concat (map (rnd \<circ> fst) (live_queries vertex qs))"
    unfolding xs(1) [symmetric] map_map comp_def ..
  finally show "map snd (concat (map (walk_group vertex mem rnd) xs)) =
      zip (concat SS) (zip (concat (map node_weights (node_requests vertex mem qs))) (concat (map (rnd \<circ> fst) (live_queries vertex qs))))"
    by (simp only: xs(2))
qed

lemma sampled_choices:
  assumes "walk_ok vertex mem rnd qs" and "lists_wired vertex qs outs cmds asserts si_cmds"
    and "readers_run mem cmds si_cmds rows olds" and "weights_wired (map snd rows) olds asserts weights"
    and "sampler_wired rows weights (concat (map (rnd \<circ> fst) (live_queries vertex qs))) sampled"
  shows "sampled = map (\<lambda>kq. update_of kq (next_vertex vertex mem rnd kq)) (live_queries vertex qs)"
proof -
  note streams = walk_streams [OF assms(1-3)] and weights = walk_weights [OF assms(1-4)]
  obtain SS where SS: "map fst rows = concat SS"
    "map (map sync_info) SS = map (\<lambda>kq. vd_syncs (current_vd vertex (snd kq)) (query_id (fst kq))) (live_queries vertex qs)"
    using map_eq_concat [OF streams(3)] by blast
  define xs where "xs = zip (live_queries vertex qs) SS"
  note groups = concat_groups [OF assms(1) xs_def SS(2), folded weights SS(1)]
  let ?gs = "concat (map (walk_group vertex mem rnd) xs)"
  have "map (data \<circ> snd) rows = map data (neighbour_rows (node_requests vertex mem qs))"
    unfolding streams(1) [symmetric] by simp
  also have "\<dots> = map fst ?gs"
    unfolding groups(1) by (simp add: node_requests_live neighbour_rows_def node_request_of_def map_concat comp_def)
  finally have items: "map (data \<circ> snd) rows = map fst ?gs" .
  have keys: "map fst (map snd ?gs) = map fst rows"
  proof -
    have "map fst (map snd ?gs) = concat (map snd xs)"
      unfolding map_concat map_map using walk_groups(6-8) [OF assms(1) xs_def SS(2) _ refl]
      by (intro arg_cong [where f = concat] map_cong) (simp_all add: walk_group_def del: length_vd_rows)
    moreover have "map snd xs = SS" using arg_cong [OF SS(2), of length] by (simp add: xs_def)
    ultimately show ?thesis by (simp only: SS(1))
  qed
  obtain p1 p2 p3 p4 p5 where p: "wrs_connected (map snd ?gs) p1 p2 p3 p4"
    "arrivals p5 = zip (map fst (map snd ?gs)) (zip (reservoir_mask p4) (map fst ?gs))" "sampled = ssample p5"
    using assms(5) unfolding sampler_wired_def groups(2) [symmetric] keys items by blast
  note facts = walk_groups [OF assms(1) xs_def SS(2) _ refl]
  have "\<forall>gs \<in> set (map (walk_group vertex mem rnd) xs). is_burst (map snd gs) \<and> sum_list (weights_of (map snd gs)) < 2 ^ 32"
    using facts(1,2) by auto
  from ssample_bursts [OF this p(1,2)] have "sampled = map (\<lambda>x. update_of (fst x) (next_vertex vertex mem rnd (fst x))) xs"
    unfolding p(3) map_map by (auto simp: facts update_of_def next_vertex_def)
  also have "\<dots> = map (\<lambda>kq. update_of kq (next_vertex vertex mem rnd kq)) (map fst xs)" by (simp add: comp_def)
  finally show ?thesis by (simp only: groups(3))
qed

text \<open>\<open>sta_update_merge\<close>: one iteration; the holding registers and the order of the tests are those of \<open>update_merge\<close>.\<close>

definition sta_update_merge_step :: "update \<Rightarrow> (update \<times> u32 pkg list) option" where
  "sta_update_merge_step s = Some (update_hand_on (update_poll s))"

lemma sta_update_merge_eq: "sta_update_merge_step = update_merge_step"
  by (simp add: fun_eq_iff sta_update_merge_step_def update_merge_step_def)

text \<open>The query of the next step.\<close>

definition next_query :: "(u32 \<Rightarrow> vertex_descriptor) \<Rightarrow> (u32 \<Rightarrow> weight_item) \<Rightarrow> (nat \<Rightarrow> weight_item list) \<Rightarrow> nat \<times> step_pkg \<Rightarrow> step_pkg" where
  "next_query vertex mem rnd kq =
     (let d = data (snd kq); v = next_vertex vertex mem rnd kq
      in \<lparr>data = \<lparr>curr_vertex = (if remain_step d = 2 then v OR 0x80000000
                                 else if v AND 0x80000000 = 0x80000000 then curr_vertex d OR 0x80000000 else v),
                  remain_step = remain_step d - 1, state = state d, ring_state = ring_state d,
                  inner_state = inner_state d, assert = curr_vertex d\<rparr>, last = False\<rparr>)"

lemma fetch_next_all:
  "fetch_next qs (map (\<lambda>kq. update_out (update_of kq (next_vertex vertex mem rnd kq))) (enumerate 0 qs)) =
     map (next_query vertex mem rnd) (enumerate 0 qs)"
proof -
  have down: "ucast (ucast v :: u64) = v" for v :: u32 by (rule ucast_up_ucast_id) (simp add: is_up)
  have "fetch_next qs (map (\<lambda>kq. update_out (update_of kq (next_vertex vertex mem rnd kq))) (enumerate n qs)) =
      map (next_query vertex mem rnd) (enumerate n qs)" for n
    by (induction qs arbitrary: n)
      (simp_all add: fetch_next_def update_out_def update_of_def next_query_def fetch_next_instance_def
        srw_step_update_def Let_def down)
  then show ?thesis .
qed

lemma fetch_next_prefix: "prefix out out' \<Longrightarrow> prefix (fetch_next qs out) (fetch_next qs out')"
proof (induction qs arbitrary: out out')
  case (Cons q qs)
  then show ?case by (cases out; cases out') (auto simp: fetch_next_def)
qed (simp add: fetch_next_def)

lemma and_low_bits: "v < 0x80000000 \<Longrightarrow> v AND 0x7fffffff = v" for v :: u32
proof -
  assume "v < 0x80000000"
  then have "unat v < 2 ^ 31" by (simp add: word_less_nat_alt)
  then have "take_bit 31 v = v" by (simp add: word_unat_eq_iff unsigned_take_bit_eq take_bit_nat_eq_self)
  moreover have "(0x7fffffff :: u32) = mask 31" by (simp add: mask_eq_exp_minus_1)
  ultimately show ?thesis by (simp only: take_bit_eq_mask [symmetric])
qed


lemma choice_in_list:
  assumes "query_ok vertex mem q rnd" and "live vertex q"
  shows "node_choice vertex mem q rnd \<in> set (vd_list mem (current_vd vertex q))"
    and "node_choice vertex mem q rnd AND 0x7fffffff = node_choice vertex mem q rnd"
proof -
  let ?vd = "current_vd vertex q" and ?ns = "vd_list mem (current_vd vertex q)"
  let ?zs = "zip (map (walk_weight vertex mem q) ?ns) (map unat (list_randoms ?vd rnd))"
  have len: "length (list_randoms ?vd rnd) = length ?ns"
    using assms(1) by (simp add: query_ok_def length_list_randoms length_vd_list)
  have "length ?ns \<noteq> 0" using assms(2) by (simp only: length_vd_list) (simp add: live_def unat_eq_0)
  then obtain n ns r rs where cons: "?ns = n # ns" "list_randoms ?vd rnd = r # rs"
    using len by (cases ?ns; cases "list_randoms ?vd rnd") simp_all
  have small: "list_all (\<lambda>(w, r). r < 2 ^ 32) ?zs"
    unfolding list_all_iff by (auto dest!: set_zip_rightD intro: unat_less_32)
  have "walk_weight vertex mem q n \<noteq> 0" by (simp add: walk_weight_def)
  then have "reservoir 0 0 ?zs None \<noteq> None" unfolding reservoir_None [OF small] by (simp add: cons)
  then obtain j where j: "reservoir 0 0 ?zs None = Some j" by blast
  then have "j < length ?ns" using reservoir_Some [OF j] by simp
  then show v: "node_choice vertex mem q rnd \<in> set ?ns" by (simp add: node_choice_def Let_def j)
  then have "node_choice vertex mem q rnd < 0x80000000" using assms(1) by (simp add: query_ok_def)
  then show "node_choice vertex mem q rnd AND 0x7fffffff = node_choice vertex mem q rnd" by (rule and_low_bits)
qed

text \<open>
  C3: A step of a node2vec walk, under \<open>walk_ok\<close>: no query is flagged \<open>last\<close>, the lists lie below the top
  of the address space, and for every query with neighbours the lists are sorted, its list has at most
  \<open>2 ^ 30 - 32\<close> entries (so that the sums of weights stay below \<open>2 ^ 32\<close>), vertex 0 is neither a neighbour nor the vertex the query came from, and those vertices in
  lanes 12 to 15 of the last row of the list that occur in the list of the vertex it came from are in the
  last two rows of that one (\<open>last_lanes_exact\<close>: elsewhere \<open>neighbor_mask\<close> misses them).  Then however the
  kernels are fed and polled, what \<open>fetch_next\<close> has written is a prefix of the queries of the next step,
  which it can always complete: the current vertex becomes the one the query came from, and its new vertex
  is a neighbour, selected from the list of the current one by one pass of reservoir sampling with the
  weights 1 for the vertex it came from, 2 for a neighbour of that vertex and 4 for others; a query whose
  vertex has no neighbours ends, and so does one with no steps left.
\<close>

theorem node2vec_step:
  assumes "walk_ok vertex mem rnd qs" and "lists_wired vertex qs outs cmds asserts si_cmds"
    and "readers_run mem cmds si_cmds rows olds" and "weights_wired (map snd rows) olds asserts weights"
    and "sampler_wired rows weights (concat (map (rnd \<circ> fst) (live_queries vertex qs))) sampled"
    and "(merge_run sta_update_merge_step update_recv1 update_recv2 (\<lambda>_. True))\<^sup>*\<^sup>*
      (update_init, zip (map fst (dead_queries vertex qs)) (updates_of outs),
        zip (map fst (live_queries vertex qs)) sampled, []) (s, f1, f2, out)"
  shows "prefix (fetch_next qs out) (map (next_query vertex mem rnd) (enumerate 0 qs)) \<and>
    (\<exists>s' out'. (merge_run sta_update_merge_step update_recv1 update_recv2 (\<lambda>_. True))\<^sup>*\<^sup>* (s, f1, f2, out) (s', [], [], out') \<and>
       fetch_next qs out' = map (next_query vertex mem rnd) (enumerate 0 qs)) \<and>
    (\<forall>kq \<in> set (live_queries vertex qs).
       next_vertex vertex mem rnd kq \<in> set (vd_list mem (current_vd vertex (snd kq))))"
proof -
  have updates: "updates_of outs = map (\<lambda>kq. update_of kq 0x80000000) (dead_queries vertex qs)"
  proof -
    have flags: "\<forall>q \<in> set qs. \<not> last q" using assms(1) by (simp add: walk_ok_def lists_fit_def)
    obtain masks w where "sta_vd_scheduler w 0 0 (map (\<lambda>q. \<lparr>data = current_vd vertex q, last = False\<rparr>) qs) = (outs, masks)"
      using lists_wired_scheduled [OF flags assms(2)] by blast
    from updates_scheduled [of w 0 0 vertex qs outs masks] this show ?thesis by (simp add: dead_queries_def)
  qed
  have "map (\<lambda>kq. (fst kq, update_of kq 0x80000000)) (dead_queries vertex qs) =
      map (\<lambda>kq. (fst kq, update_of kq (next_vertex vertex mem rnd kq))) (dead_queries vertex qs)"
    by (simp add: dead_queries_def next_vertex_def)
  note run = assms(6) [unfolded updates sampled_choices [OF assms(1-5)] zip_numbers this sta_update_merge_eq,
      unfolded dead_queries_def live_queries_def]
  have "prefix (fetch_next qs out) (map (next_query vertex mem rnd) (enumerate 0 qs))"
    using fetch_next_prefix [OF updates_in_order(1) [OF run], of qs] by (simp only: fetch_next_all)
  moreover have "\<exists>s' out'. (merge_run update_merge_step update_recv1 update_recv2 (\<lambda>_. True))\<^sup>*\<^sup>* (s, f1, f2, out) (s', [], [], out') \<and>
       fetch_next qs out' = map (next_query vertex mem rnd) (enumerate 0 qs)"
  proof -
    from updates_in_order(2) [OF run] obtain s' where "(merge_run update_merge_step update_recv1 update_recv2 (\<lambda>_. True))\<^sup>*\<^sup>* (s, f1, f2, out)
      (s', [], [], map (\<lambda>kq. update_out (update_of kq (next_vertex vertex mem rnd kq))) (enumerate 0 qs))" ..
    then show ?thesis by (intro exI conjI) (assumption, rule fetch_next_all)
  qed
  moreover have "next_vertex vertex mem rnd kq \<in> set (vd_list mem (current_vd vertex (snd kq)))"
    if "kq \<in> set (live_queries vertex qs)" for kq
    using assms(1) that choice_in_list [of vertex mem "snd kq" "rnd (fst kq)"]
    by (auto simp: next_vertex_def walk_ok_def live_queries_def)
  ultimately show ?thesis by (simp add: sta_update_merge_eq)
qed

text \<open>The kernels can be wired and fed so for all such queries.\<close>

lemma weights_wired_exist:
  assumes "\<forall>r \<in> set (node_requests vertex mem qs). node_ok r"
    and "map (as_last_vertex \<circ> data) asserts = map (\<lambda>(R, u, x). u) (tagged_rows (node_requests vertex mem qs))"
  shows "\<exists>weights. weights_wired (neighbour_rows (node_requests vertex mem qs)) (other_rows (node_requests vertex mem qs)) asserts weights"
proof -
  let ?rows = "neighbour_rows (node_requests vertex mem qs)"
  have polls: "arrivals (map Some ?rows) = ?rows" by simp
  obtain found where found: "masks_done (other_rows (node_requests vertex mem qs)) (weight_dispatch (map Some ?rows)) found"
    using masks_done_exist [OF assms(1) polls] by blast
  have "length (flagged W) = length W" for W :: "weight_item list" by (induction W rule: flagged.induct) simp_all
  then have "length (neighbour_rows rs) = length (tagged_rows rs)" for rs
    by (induction rs) (auto simp: neighbour_rows_def tagged_rows_def)
  with arg_cong [OF assms(2), of length] have marked: "current_done ?rows asserts (current_rows ?rows asserts)"
    by (intro current_done_exists) simp
  let ?marks = "map Some (unflagged (current_rows ?rows asserts))"
  have merged: "\<forall>r < 4. arrivals (map Some (zip (found r) (weight_dispatch ?marks ! r))) = zip (found r) (weight_dispatch ?marks ! r)"
    by simp
  have row: "length (replicate 16 (0 :: u32)) = 16" by simp
  show ?thesis
    unfolding weights_wired_def
    by (intro exI conjI) (rule polls, rule found, rule marked, rule data_unflagged, rule merged, rule arrivals_Some, rule row, rule refl)
qed

lemma walk_inputs:
  assumes "walk_ok vertex mem rnd qs"
  obtains outs cmds asserts si_cmds rows olds weights sampled where
    "lists_wired vertex qs outs cmds asserts si_cmds" "readers_run mem cmds si_cmds rows olds"
    "weights_wired (map snd rows) olds asserts weights"
    "sampler_wired rows weights (concat (map (rnd \<circ> fst) (live_queries vertex qs))) sampled"
proof -
  obtain outs cmds asserts si_cmds where lists: "lists_wired vertex qs outs cmds asserts si_cmds"
    using lists_wired_exist by blast
  obtain rows olds where readers: "readers_run mem cmds si_cmds rows olds"
    unfolding readers_run_def using arrivals_Some by metis
  note streams = walk_streams [OF assms lists readers]
  obtain weights where weights: "weights_wired (map snd rows) olds asserts weights"
    using weights_wired_exist [OF walk_requests_ok [OF assms] streams(4)] unfolding streams(1,2) by blast
  obtain p1 p2 p3 p4 where
    "wrs_connected (zip (map fst rows) (zip weights (concat (map (rnd \<circ> fst) (live_queries vertex qs))))) p1 p2 p3 p4"
    by (rule connected_inputs)
  moreover have "arrivals (map Some (zip (map fst rows) (zip (reservoir_mask p4) (map (data \<circ> snd) rows)))) =
      zip (map fst rows) (zip (reservoir_mask p4) (map (data \<circ> snd) rows))" by simp
  ultimately have "\<exists>sampled. sampler_wired rows weights (concat (map (rnd \<circ> fst) (live_queries vertex qs))) sampled"
    unfolding sampler_wired_def by blast
  with that lists readers weights show ?thesis by blast
qed

definition sample_graph :: "u32 \<Rightarrow> vertex_descriptor" where
  "sample_graph v = (if v = 9 then \<lparr>vd_start = 3, vd_size = 2\<rparr> else if v = 5 then \<lparr>vd_start = 6, vd_size = 1\<rparr>
     else \<lparr>vd_start = 0, vd_size = 0\<rparr>)"

definition sample_columns :: "u32 \<Rightarrow> weight_item" where
  "sample_columns a = pack_lanes [0, 0, 0, 5, 7, 0, 9, 0, 0, 0, 0, 0, 0, 0, 0, 0]"

definition sample_walks :: "step_pkg list" where
  "sample_walks =
     [\<lparr>data = \<lparr>curr_vertex = 9, remain_step = 6, state = 0, ring_state = 0, inner_state = 0, assert = 5\<rparr>, last = False\<rparr>,
      \<lparr>data = \<lparr>curr_vertex = 0x80000009, remain_step = 4, state = 0, ring_state = 0, inner_state = 0, assert = 9\<rparr>, last = False\<rparr>]"

lemma sample_lists:
  "current_vd sample_graph (sample_walks ! 0) = \<lparr>vd_start = 3, vd_size = 2\<rparr>"
  "last_vd sample_graph (sample_walks ! 0) = \<lparr>vd_start = 6, vd_size = 1\<rparr>"
  "live_queries sample_graph sample_walks = [(0, sample_walks ! 0)]"
  by (simp_all add: sample_graph_def sample_walks_def current_vd_def last_vd_def node_vd_def live_queries_def live_def)

lemma sample_columns:
  "neighbours sample_columns 3 5 = [5, 7]" "neighbours sample_columns 6 7 = [9]"
  "vd_list sample_columns \<lparr>vd_start = 3, vd_size = 2\<rparr> = [5, 7]"
  "vd_list sample_columns \<lparr>vd_start = 6, vd_size = 1\<rparr> = [9]"
  "vd_words \<lparr>vd_start = 3, vd_size = 2\<rparr> = [0]"
  "entries (vd_rows 0 sample_columns \<lparr>vd_start = 3, vd_size = 2\<rparr>) = [0, 0, 0, 5, 7, 0, 0, 0, 0, 0, 0, 0, 0, 0, 0, 0]"
  by (simp_all add: sample_columns_def vd_list_def neighbours_def entry_def vd_words_def round_up_def entries_vd_rows upt_rec)

lemma sample_last_row: "drop 12 (lanes (List.last (vd_rows 0 sample_columns \<lparr>vd_start = 3, vd_size = 2\<rparr>))) = [0, 0, 0, 0]"
proof -
  have "length (vd_rows 0 sample_columns \<lparr>vd_start = 3, vd_size = 2\<rparr>) = 1" by (simp add: sample_columns(5))
  then obtain w where "vd_rows 0 sample_columns \<lparr>vd_start = 3, vd_size = 2\<rparr> = [w]" by (auto simp: length_Suc_conv simp del: length_vd_rows)
  with sample_columns(6) show ?thesis by (simp add: entries_def)
qed

lemma sample_walks_ok: "walk_ok sample_graph sample_columns (\<lambda>_. [pack_lanes (replicate 16 0)]) sample_walks"
proof -
  have "query_ok sample_graph sample_columns (sample_walks ! 0) [pack_lanes (replicate 16 0)]"
    by (simp add: query_ok_def last_lanes_exact_def sample_lists vd_ascending_def ascending_def sample_columns
        INVALID_VERTEX_def node_request_of_def sample_last_row) (simp add: sample_walks_def)
  moreover have "lists_fit sample_graph sample_walks"
    by (simp add: lists_fit_def sample_walks_def live_def current_vd_def last_vd_def node_vd_def sample_graph_def vd_fits_def round_up_def)
  ultimately show ?thesis by (simp add: walk_ok_def sample_lists)
qed

lemma sample_choice:
  "node_choice sample_graph sample_columns (sample_walks ! 0) [pack_lanes (replicate 16 0)] = 7"
proof -
  have "entries [pack_lanes (replicate 16 0)] = [0, 0, 0, 0, 0, 0, 0, 0, 0, 0, 0, 0, 0, 0, 0, 0]"
    by (simp add: entries_def numeral_eq_Suc)
  moreover have "assert (data (sample_walks ! 0)) = 5" by (simp add: sample_walks_def)
  ultimately show ?thesis
    by (simp add: node_choice_def sample_lists sample_columns walk_weight_def list_randoms_def Let_def)
qed

lemma sample_next:
  "map (next_query sample_graph sample_columns (\<lambda>_. [pack_lanes (replicate 16 0)])) (enumerate 0 sample_walks) =
     [\<lparr>data = \<lparr>curr_vertex = 7, remain_step = 5, state = 0, ring_state = 0, inner_state = 0, assert = 9\<rparr>, last = False\<rparr>,
      \<lparr>data = \<lparr>curr_vertex = 0x80000009, remain_step = 3, state = 0, ring_state = 0, inner_state = 0, assert = 0x80000009\<rparr>, last = False\<rparr>]"
proof -
  have "enumerate 0 sample_walks = [(0, sample_walks ! 0), (1, sample_walks ! 1)]" by (simp add: sample_walks_def)
  moreover have "live sample_graph (sample_walks ! 0)" "\<not> live sample_graph (sample_walks ! 1)"
    by (simp_all add: sample_walks_def live_def current_vd_def node_vd_def sample_graph_def)
  ultimately show ?thesis
    by (simp add: next_query_def next_vertex_def sample_choice) (simp add: sample_walks_def)
qed

theorem node2vec_step_witness:
  "\<exists>outs cmds asserts si_cmds sampled. lists_wired sample_graph sample_walks outs cmds asserts si_cmds \<and>
     (\<exists>s' out'. (merge_run sta_update_merge_step update_recv1 update_recv2 (\<lambda>_. True))\<^sup>*\<^sup>*
        (update_init, zip (map fst (dead_queries sample_graph sample_walks)) (updates_of outs),
          zip (map fst (live_queries sample_graph sample_walks)) sampled, []) (s', [], [], out') \<and>
      fetch_next sample_walks out' =
        [\<lparr>data = \<lparr>curr_vertex = 7, remain_step = 5, state = 0, ring_state = 0, inner_state = 0, assert = 9\<rparr>, last = False\<rparr>,
         \<lparr>data = \<lparr>curr_vertex = 0x80000009, remain_step = 3, state = 0, ring_state = 0, inner_state = 0, assert = 0x80000009\<rparr>, last = False\<rparr>])"
proof -
  obtain outs cmds asserts si_cmds rows olds weights sampled where w:
    "lists_wired sample_graph sample_walks outs cmds asserts si_cmds" "readers_run sample_columns cmds si_cmds rows olds"
    "weights_wired (map snd rows) olds asserts weights"
    "sampler_wired rows weights (concat (map ((\<lambda>_. [pack_lanes (replicate 16 0)]) \<circ> fst) (live_queries sample_graph sample_walks))) sampled"
    by (rule walk_inputs [OF sample_walks_ok])
  from node2vec_step [OF sample_walks_ok w rtranclp.rtrancl_refl, unfolded sample_next] w(1) show ?thesis by blast
qed


section \<open>Walks that have ended\<close>

lemma flag_stays: "(x OR 0x80000000) AND 0x80000000 = (0x80000000 :: u32)"
  by (simp add: word_ao_absorbs)

lemma flagged_dead: "curr_vertex (data q) AND 0x80000000 = 0x80000000 \<Longrightarrow> \<not> live vertex q"
  by (simp add: live_def current_vd_def node_vd_def)

lemma dead_update:
  "curr_vertex (data (srw_step_update q (fetch_next_instance \<lparr>data = 0x80000000, last = l\<rparr>))) AND 0x80000000 = 0x80000000"
  using flag_stays [of "curr_vertex (data q)"]
  by (simp add: srw_step_update_def fetch_next_instance_def Let_def)

text \<open>
  C12: A walk that cannot go on.  A query whose vertex is marked as the end of a walk or has no
  neighbours is answered with the mark and its own identifier, exactly once and in order; no list is
  requested for it, neither its own nor that of the vertex it came from, its assertion is dropped, and
  the query of its next step is marked and so is not read for again.  Every other query has exactly one
  request in each reader, and its assertion is kept.
\<close>

theorem ended_walks_read_nothing:
  assumes "\<forall>q \<in> set qs. \<not> last q" and "arrivals polls = fst (step_duplicator qs)"
    and "(currents, lasts) = vd_dispatch 0 pkg (fst (vertex_loader vertex (0, False) polls))"
    and "(outs, masks) = sta_vd_scheduler w 0 0 currents"
  shows "updates_of outs = map (\<lambda>kq. update_of kq 0x80000000) (dead_queries vertex qs) \<and>
    map (\<lambda>v. (vdo_id (data v), vdo_start (data v), vdo_size (data v))) (requests_of outs) =
      map (\<lambda>kq. (query_id (fst kq), vd_start (current_vd vertex (snd kq)), vd_size (current_vd vertex (snd kq))))
        (live_queries vertex qs) \<and>
    map data lasts = map (\<lambda>kq. last_vd vertex (snd kq)) (live_queries vertex qs) \<and>
    assert_filter_woe (snd (snd (step_duplicator qs))) masks = map (\<lambda>kq. duplicator_assert (snd kq)) (live_queries vertex qs) \<and>
    (\<forall>kq \<in> set (dead_queries vertex qs).
       \<not> live vertex (srw_step_update (snd kq) (fetch_next_instance (update_out (update_of kq 0x80000000)))))"
proof -
  have disp: "currents = map (\<lambda>q. \<lparr>data = current_vd vertex q, last = False\<rparr>) qs"
    "lasts = map (\<lambda>q. \<lparr>data = last_vd vertex q, last = False\<rparr>) (filter (live vertex) qs)"
    using assms(3) duplicator_descriptors [OF assms(1,2), of vertex "(0, False)"] vd_dispatch_queries [of 0 pkg vertex qs]
    by simp_all
  note sched = sta_scheduled [OF assms(4) [symmetric, unfolded disp(1)]]
  have "updates_of outs = map (\<lambda>kq. update_of kq 0x80000000) (dead_queries vertex qs)"
    using updates_scheduled [of w 0 0 vertex qs outs masks] assms(4) by (simp add: disp(1) dead_queries_def)
  moreover have "map (\<lambda>v. (vdo_id (data v), vdo_start (data v), vdo_size (data v))) (requests_of outs) =
      map (\<lambda>r. (snd r, vd_start (current_vd vertex (fst r)), vd_size (current_vd vertex (fst r))))
        (map (\<lambda>r. (fst r, fst (snd r))) (requests vertex (query_id 0) 0 qs))"
    using sched by (simp add: request_vdo_def comp_def case_prod_unfold)
  then have "map (\<lambda>v. (vdo_id (data v), vdo_start (data v), vdo_size (data v))) (requests_of outs) =
      map (\<lambda>kq. (query_id (fst kq), vd_start (current_vd vertex (snd kq)), vd_size (current_vd vertex (snd kq))))
        (live_queries vertex qs)"
    by (simp only: requests_enumerate live_queries_def [symmetric] map_map comp_def fst_conv snd_conv)
  moreover have "map data lasts = map (\<lambda>kq. last_vd vertex (snd kq)) (live_queries vertex qs)"
    unfolding disp(2) map_snd_live [of vertex qs, symmetric] by (simp add: comp_def)
  moreover have "assert_filter_woe (snd (snd (step_duplicator qs))) masks = map (\<lambda>kq. duplicator_assert (snd kq)) (live_queries vertex qs)"
    using sched assert_filter_live [of duplicator_assert qs "live vertex"]
    by (simp add: step_duplicator_def map_snd_live [of vertex qs, symmetric] comp_def)
  moreover have "\<not> live vertex (srw_step_update q (fetch_next_instance (update_out (update_of kq 0x80000000))))" for q and kq :: "nat \<times> step_pkg"
    using flagged_dead [OF dead_update] by (simp add: update_out_def update_of_def)
  ultimately show ?thesis by blast
qed

theorem ended_walks_read_nothing_witness:
  "\<exists>currents lasts outs masks.
     (currents, lasts) = vd_dispatch 0 \<lparr>data = \<lparr>vd_start = 0, vd_size = 0\<rparr>, last = False\<rparr>
       (fst (vertex_loader sample_graph (0, False) (map Some (fst (step_duplicator sample_walks))))) \<and>
     (outs, masks) = sta_vd_scheduler 0 0 0 currents \<and>
     updates_of outs = [\<lparr>data = \<lparr>nvo_vertex = 0x80000000, nvo_id = 1\<rparr>, last = False\<rparr>] \<and>
     length (requests_of outs) = 1 \<and> map data lasts = [\<lparr>vd_start = 6, vd_size = 1\<rparr>] \<and>
     length (assert_filter_woe (snd (snd (step_duplicator sample_walks))) masks) = 1"
proof -
  let ?polls = "map Some (fst (step_duplicator sample_walks))" and ?pkg = "\<lparr>data = \<lparr>vd_start = 0, vd_size = 0\<rparr>, last = False\<rparr>"
  have polls: "arrivals ?polls = fst (step_duplicator sample_walks)" by simp
  obtain currents lasts where disp: "(currents, lasts) = vd_dispatch 0 ?pkg (fst (vertex_loader sample_graph (0, False) ?polls))"
    by (metis surj_pair)
  obtain outs masks where sched: "(outs, masks) = sta_vd_scheduler 0 0 0 currents" by (metis surj_pair)
  have dead: "dead_queries sample_graph sample_walks = [(1, sample_walks ! 1)]"
    by (simp add: sample_walks_def dead_queries_def live_def current_vd_def node_vd_def sample_graph_def)
  have "\<forall>q \<in> set sample_walks. \<not> last q" by (simp add: sample_walks_def)
  note facts = ended_walks_read_nothing [OF this polls disp sched]
  have "updates_of outs = [\<lparr>data = \<lparr>nvo_vertex = 0x80000000, nvo_id = 1\<rparr>, last = False\<rparr>]"
    using facts unfolding dead by (simp add: update_of_def query_id_def)
  moreover have "map data lasts = [\<lparr>vd_start = 6, vd_size = 1\<rparr>]"
    using facts by (simp add: sample_lists)
  moreover have "length (requests_of outs) = 1" "length (assert_filter_woe (snd (snd (step_duplicator sample_walks))) masks) = 1"
    using facts unfolding sample_lists(3) by (auto simp: map_eq_Cons_conv)
  ultimately show ?thesis using disp sched
    by (intro exI [of _ currents] exI [of _ lasts] exI [of _ outs] exI [of _ masks]) (simp only: simp_thms)
qed

end
