(* ===== verification/Vertex_Cache.thy ===== *)
theory Vertex_Cache
  imports Node2vec_Lists Lv_Pipeline
begin

text \<open>
  The cached vertex loader of \<open>app/metapath\<close> and the uniform walks (\<open>src/vdac_cache\<close>): \<open>vertex_loader\<close>
  looks a vertex up and writes a memory command, a dummy one after a hit; \<open>vcache_mem\<close> executes it,
  \<open>vcache_duplicate\<close> hands data and descriptor to \<open>vcache_vd\<close>, which merges them, and to
  \<open>vcache_update\<close>, which sends entries back to the loader.  The kernels run concurrently over bounded
  streams, one step here for every read or write of one of them.
\<close>

section \<open>The table\<close>

definition VCACHE_SIZE :: nat where "VCACHE_SIZE = 65536"
definition VDS_INVALID :: u16 where "VDS_INVALID = 0x8000"

definition V_CACHE_TAG :: "u64 \<Rightarrow> u64" where
  "V_CACHE_TAG v = v AND (of_nat VCACHE_SIZE - 1)"

text \<open>The fields of an item of \<open>vertex_descriptor_t\<close>.\<close>

definition vd_item :: "u64 \<Rightarrow> vertex_descriptor" where
  "vd_item w = \<lparr>vd_start = ucast (ap_range 31 0 w), vd_size = ucast (ap_range 63 32 w)\<rparr>"

definition vd_pack :: "u64 \<Rightarrow> u32 \<Rightarrow> u32 \<Rightarrow> u64" where
  "vd_pack w start sz = ap_set_range 63 32 (ucast sz) (ap_set_range 31 0 (ucast start) w)"

record vertex_descriptor_ws =
  vds_start :: u32
  vds_size :: u32
  vds_state :: u16

record vertex_descriptor_update =
  vdu_start :: u32
  vdu_size :: u32
  vdu_v :: u32

record vcache =
  vc_tag :: "u64 list"
  vc_data :: "u64 list"

definition vcache_init :: vcache where
  "vcache_init = \<lparr>vc_tag = replicate VCACHE_SIZE 0, vc_data = replicate VCACHE_SIZE 0\<rparr>"

text \<open>\<open>vertex_loader\<close>: the packages for \<open>vertex_cmd\<close> and \<open>output\<close>.\<close>

definition cache_lookup :: "vcache \<Rightarrow> u64 pkg \<Rightarrow> mem_access_cmd pkg \<times> vertex_descriptor_ws pkg" where
  "cache_lookup c nv_pkg =
     (let v = data nv_pkg;
          tag_id = unat (V_CACHE_TAG v);
          tag_value = vc_tag c ! tag_id;
          vd = vd_item (vc_data c ! tag_id);
          (v_item, mem_access_flag) =
            (if v AND 0x80000000 = 0x80000000
             then (\<lparr>vds_start = ucast v, vds_size = 0, vds_state = 0\<rparr>, False)
             else if ap_range 31 0 tag_value = v \<and> ap_range 63 63 tag_value = 1
             then (\<lparr>vds_start = vd_start vd, vds_size = vd_size vd, vds_state = 0\<rparr>, False)
             else (\<lparr>vds_start = ucast v, vds_size = vd_size vd, vds_state = VDS_INVALID\<rparr>, True));
          cmd_value = (if last nv_pkg then MM_STATE_MASK_END else 0);
          cmd_value = (if \<not> mem_access_flag then cmd_value OR MM_STATE_MASK_DUMMY else cmd_value)
      in (\<lparr>data = \<lparr>cmd_addr = v, cmd_state = cmd_value\<rparr>, last = False\<rparr>, \<lparr>data = v_item, last = last nv_pkg\<rparr>))"

text \<open>An update of the table; \<open>w\<close> and \<open>w'\<close> are the items before their fields are set.\<close>

definition cache_store :: "u64 \<Rightarrow> u64 \<Rightarrow> vcache \<Rightarrow> vertex_descriptor_update pkg \<Rightarrow> vcache" where
  "cache_store w w' c cu_pkg =
     (let v = vdu_v (data cu_pkg);
          tag_id = unat (V_CACHE_TAG (ucast v));
          new_tag_value = ap_set_range 31 0 (ucast v) (ap_set_range 63 63 1 w);
          vd = vd_pack w' (vdu_start (data cu_pkg)) (vdu_size (data cu_pkg))
      in \<lparr>vc_tag = (vc_tag c)[tag_id := new_tag_value], vc_data = (vc_data c)[tag_id := vd]\<rparr>)"

section \<open>The kernels after the loader\<close>

text \<open>\<open>vcache_mem\<close>: \<open>mem_access\<close> with width 64, bursts of 1 and dummy data 0.\<close>

definition vcache_mem :: "(u32 \<Rightarrow> u64) \<Rightarrow> mem_access_cmd pkg \<Rightarrow> u64 mem_item" where
  "vcache_mem mem cmd_pkg = hd (mem_access_read 1 0 mem (data cmd_pkg))"

definition vcache_vd :: "u64 mem_item \<Rightarrow> vertex_descriptor_ws pkg \<Rightarrow> vertex_descriptor pkg" where
  "vcache_vd data_pkg vds_pkg =
     \<lparr>data = (if vds_state (data vds_pkg) = VDS_INVALID then vd_item (mem_data data_pkg)
              else \<lparr>vd_start = vds_start (data vds_pkg), vd_size = vds_size (data vds_pkg)\<rparr>),
      last = last vds_pkg\<rparr>"

text \<open>The three variants of \<open>vcache_update\<close>: \<open>src/cache_dac_update\<close>, \<open>cache_direct_update\<close>, \<open>cache_none_update\<close>.\<close>

definition vd_update :: "vertex_descriptor \<Rightarrow> vertex_descriptor_ws pkg \<Rightarrow> vertex_descriptor_update pkg" where
  "vd_update new_vd vds_pkg =
     \<lparr>data = \<lparr>vdu_start = vd_start new_vd, vdu_size = vd_size new_vd, vdu_v = vds_start (data vds_pkg)\<rparr>, last = last vds_pkg\<rparr>"

definition vcache_update_dac :: "u64 mem_item \<Rightarrow> vertex_descriptor_ws pkg \<Rightarrow> vertex_descriptor_update pkg option" where
  "vcache_update_dac data_pkg vds_pkg =
     (if vds_state (data vds_pkg) = VDS_INVALID
      then let new_vd = vd_item (mem_data data_pkg)
           in if vd_size new_vd > vds_size (data vds_pkg) then Some (vd_update new_vd vds_pkg) else None
      else None)"

definition vcache_update_direct :: "u64 mem_item \<Rightarrow> vertex_descriptor_ws pkg \<Rightarrow> vertex_descriptor_update pkg option" where
  "vcache_update_direct data_pkg vds_pkg =
     (if vds_state (data vds_pkg) = VDS_INVALID
      then let new_vd = vd_item (mem_data data_pkg) in Some (vd_update new_vd vds_pkg)
      else None)"

definition vcache_update_none :: "u64 mem_item \<Rightarrow> vertex_descriptor_ws pkg \<Rightarrow> vertex_descriptor_update pkg option" where
  "vcache_update_none data_pkg vds_pkg =
     (if vds_state (data vds_pkg) = VDS_INVALID
      then let new_vd = vd_item (mem_data data_pkg)
           in if vd_size new_vd > 0xFFFFFFFF - 2 then Some (vd_update new_vd vds_pkg) else None
      else None)"

section \<open>The kernels together\<close>

text \<open>Where each kernel is in its loop, with what it holds.\<close>

datatype loader_pc =
    Polling
  | Command "mem_access_cmd pkg" "vertex_descriptor_ws pkg"
  | Output "vertex_descriptor_ws pkg"
  | Updating
  | Emptying

datatype engine_pc = Listening | Serving "u64 mem_item" | Returned

datatype 'a dup_pc = Idle | First 'a | Second 'a

datatype updater_pc = Watching | Holding "u64 mem_item" | Sending "vertex_descriptor_update pkg"

text \<open>The streams' depths.\<close>

record vcache_depths =
  dep_cmd :: nat
  dep_vds :: nat
  dep_data :: nat
  dep_data1 :: nat
  dep_data2 :: nat
  dep_vds1 :: nat
  dep_vds2 :: nat
  dep_update :: nat

record vcache_system =
  table :: vcache
  requests_in :: "u64 pkg list"
  loader :: loader_pc
  cmds :: "mem_access_cmd pkg stream"
  vdss :: "vertex_descriptor_ws pkg stream"
  engine :: engine_pc
  datas :: "u64 mem_item stream"
  dup_data :: "u64 mem_item dup_pc"
  data1 :: "u64 mem_item stream"
  data2 :: "u64 mem_item stream"
  dup_vds :: "vertex_descriptor_ws pkg dup_pc"
  vds1 :: "vertex_descriptor_ws pkg stream"
  vds2 :: "vertex_descriptor_ws pkg stream"
  merger :: "u64 mem_item option"
  out_vd :: "vertex_descriptor pkg list"
  updater :: updater_pc
  updates :: "vertex_descriptor_update pkg stream"

text \<open>
  One step.  A poll of \<open>input\<close> may or may not find the next request; after the request flagged \<open>last\<close>
  the loader empties \<open>cache_update\<close> and clears its table, and the engine returns until the host starts
  it again.
\<close>

inductive vcache_step ::
    "vcache_depths \<Rightarrow> (u64 mem_item \<Rightarrow> vertex_descriptor_ws pkg \<Rightarrow> vertex_descriptor_update pkg option) \<Rightarrow> (u32 \<Rightarrow> u64) \<Rightarrow>
     vcache_system \<Rightarrow> vcache_system \<Rightarrow> bool"
  for D policy mem where
  look_up: "loader s = Polling \<Longrightarrow> requests_in s = nv # rest \<Longrightarrow> cache_lookup (table s) nv = (cmd, vds) \<Longrightarrow>
    vcache_step D policy mem s (s\<lparr>requests_in := rest, loader := Command cmd vds\<rparr>)"
| no_request: "loader s = Polling \<Longrightarrow> vcache_step D policy mem s (s\<lparr>loader := Updating\<rparr>)"
| write_cmd: "loader s = Command cmd vds \<Longrightarrow> length (cmds s) < dep_cmd D \<Longrightarrow>
    vcache_step D policy mem s (s\<lparr>loader := Output vds, cmds := cmds s @ [cmd]\<rparr>)"
| write_vds: "loader s = Output vds \<Longrightarrow> length (vdss s) < dep_vds D \<Longrightarrow>
    vcache_step D policy mem s (s\<lparr>loader := (if last vds then Emptying else Updating), vdss := vdss s @ [vds]\<rparr>)"
| store: "loader s = Updating \<Longrightarrow> updates s = cu # rest \<Longrightarrow>
    vcache_step D policy mem s (s\<lparr>loader := Polling, updates := rest, table := cache_store w w' (table s) cu\<rparr>)"
| no_update: "loader s = Updating \<Longrightarrow> updates s = [] \<Longrightarrow> vcache_step D policy mem s (s\<lparr>loader := Polling\<rparr>)"
| drop_update: "loader s = Emptying \<Longrightarrow> updates s = cu # rest \<Longrightarrow> vcache_step D policy mem s (s\<lparr>updates := rest\<rparr>)"
| emptied: "loader s = Emptying \<Longrightarrow> updates s = [] \<Longrightarrow>
    vcache_step D policy mem s (s\<lparr>loader := Polling, table := vcache_init\<rparr>)"
| read_cmd: "engine s = Listening \<Longrightarrow> cmds s = cmd # rest \<Longrightarrow>
    vcache_step D policy mem s (s\<lparr>engine := Serving (vcache_mem mem cmd), cmds := rest\<rparr>)"
| write_data: "engine s = Serving d \<Longrightarrow> length (datas s) < dep_data D \<Longrightarrow>
    vcache_step D policy mem s (s\<lparr>engine := (if mem_last d then Returned else Listening), datas := datas s @ [d]\<rparr>)"
| restart: "engine s = Returned \<Longrightarrow> vcache_step D policy mem s (s\<lparr>engine := Listening\<rparr>)"
| read_data: "dup_data s = Idle \<Longrightarrow> datas s = d # rest \<Longrightarrow>
    vcache_step D policy mem s (s\<lparr>dup_data := First d, datas := rest\<rparr>)"
| write_data1: "dup_data s = First d \<Longrightarrow> length (data1 s) < dep_data1 D \<Longrightarrow>
    vcache_step D policy mem s (s\<lparr>dup_data := Second d, data1 := data1 s @ [d]\<rparr>)"
| write_data2: "dup_data s = Second d \<Longrightarrow> length (data2 s) < dep_data2 D \<Longrightarrow>
    vcache_step D policy mem s (s\<lparr>dup_data := Idle, data2 := data2 s @ [d]\<rparr>)"
| read_vds: "dup_vds s = Idle \<Longrightarrow> vdss s = v # rest \<Longrightarrow>
    vcache_step D policy mem s (s\<lparr>dup_vds := First v, vdss := rest\<rparr>)"
| write_vds1: "dup_vds s = First v \<Longrightarrow> length (vds1 s) < dep_vds1 D \<Longrightarrow>
    vcache_step D policy mem s (s\<lparr>dup_vds := Second v, vds1 := vds1 s @ [v]\<rparr>)"
| write_vds2: "dup_vds s = Second v \<Longrightarrow> length (vds2 s) < dep_vds2 D \<Longrightarrow>
    vcache_step D policy mem s (s\<lparr>dup_vds := Idle, vds2 := vds2 s @ [v]\<rparr>)"
| merge_data: "merger s = None \<Longrightarrow> data1 s = d # rest \<Longrightarrow>
    vcache_step D policy mem s (s\<lparr>merger := Some d, data1 := rest\<rparr>)"
| merge_vds: "merger s = Some d \<Longrightarrow> vds1 s = v # rest \<Longrightarrow>
    vcache_step D policy mem s (s\<lparr>merger := None, vds1 := rest, out_vd := out_vd s @ [vcache_vd d v]\<rparr>)"
| update_data: "updater s = Watching \<Longrightarrow> data2 s = d # rest \<Longrightarrow>
    vcache_step D policy mem s (s\<lparr>updater := Holding d, data2 := rest\<rparr>)"
| update_vds: "updater s = Holding d \<Longrightarrow> vds2 s = v # rest \<Longrightarrow>
    vcache_step D policy mem s (s\<lparr>updater := (case policy d v of None \<Rightarrow> Watching | Some u \<Rightarrow> Sending u), vds2 := rest\<rparr>)"
| write_update: "updater s = Sending u \<Longrightarrow> length (updates s) < dep_update D \<Longrightarrow>
    vcache_step D policy mem s (s\<lparr>updater := Watching, updates := updates s @ [u]\<rparr>)"

definition vcache_start :: "u64 pkg list \<Rightarrow> vcache_system" where
  "vcache_start nvs = \<lparr>table = vcache_init, requests_in = nvs, loader = Polling, cmds = [], vdss = [], engine = Listening,
     datas = [], dup_data = Idle, data1 = [], data2 = [], dup_vds = Idle, vds1 = [], vds2 = [], merger = None,
     out_vd = [], updater = Watching, updates = []\<rparr>"

abbreviation vcache_run where
  "vcache_run D policy mem \<equiv> (vcache_step D policy mem)\<^sup>*\<^sup>*"

inductive_cases vcache_step_cases: "vcache_step D policy mem s s'"


section \<open>The table keeps what memory holds\<close>

lemma V_CACHE_TAG_less: "unat (V_CACHE_TAG v) < VCACHE_SIZE"
proof -
  have "V_CACHE_TAG v = take_bit 16 v"
    by (simp add: V_CACHE_TAG_def VCACHE_SIZE_def take_bit_eq_mask mask_eq_exp_minus_1)
  then have "unat (V_CACHE_TAG v) = take_bit 16 (unat v)" by (simp add: unsigned_take_bit_eq)
  then show ?thesis by (simp add: VCACHE_SIZE_def take_bit_eq_mod)
qed

lemma vd_item_pack [simp]: "vd_item (vd_pack w start sz) = \<lparr>vd_start = start, vd_size = sz\<rparr>"
proof -
  have "ucast (ap_range 31 0 (vd_pack w start sz)) = start"
    by (intro bit_word_eqI) (auto simp: vd_pack_def range_bits)
  moreover have "ucast (ap_range 63 32 (vd_pack w start sz)) = sz"
    by (intro bit_word_eqI) (auto simp: vd_pack_def range_bits dest: bit_imp_le_length)
  ultimately show ?thesis by (simp add: vd_item_def)
qed

lemma tag_fields:
  fixes v :: u32 and w :: u64
  defines "t \<equiv> ap_set_range 31 0 (ucast v) (ap_set_range 63 63 1 w)"
  shows "ap_range 31 0 t = ucast v" and "ap_range 63 63 t = 1"
  unfolding t_def
  by (intro bit_word_eqI; auto simp: range_bits bit_1_iff dest: bit_imp_le_length)+

definition tag_valid :: "u64 \<Rightarrow> bool" where
  "tag_valid t \<longleftrightarrow> ap_range 63 63 t = 1"

definition tag_vertex :: "u64 \<Rightarrow> u32" where
  "tag_vertex t = ucast (ap_range 31 0 t)"

text \<open>Every entry in use is at the index of its vertex and holds the descriptor of memory.\<close>

definition vcache_sound :: "(u32 \<Rightarrow> u64) \<Rightarrow> vcache \<Rightarrow> bool" where
  "vcache_sound mem c \<longleftrightarrow> length (vc_tag c) = VCACHE_SIZE \<and> length (vc_data c) = VCACHE_SIZE \<and>
     (\<forall>i < VCACHE_SIZE. tag_valid (vc_tag c ! i) \<longrightarrow>
        unat (V_CACHE_TAG (ucast (tag_vertex (vc_tag c ! i)))) = i \<and>
        vd_item (vc_data c ! i) = vd_item (mem (tag_vertex (vc_tag c ! i))))"

definition update_sound :: "(u32 \<Rightarrow> u64) \<Rightarrow> vertex_descriptor_update pkg \<Rightarrow> bool" where
  "update_sound mem u \<longleftrightarrow>
     vd_item (mem (vdu_v (data u))) = \<lparr>vd_start = vdu_start (data u), vd_size = vdu_size (data u)\<rparr>"

lemma vcache_sound_init: "vcache_sound mem vcache_init"
proof -
  have "\<not> tag_valid 0" by (simp add: tag_valid_def ap_range_def)
  then show ?thesis by (simp add: vcache_sound_def vcache_init_def)
qed

lemma vcache_sound_store:
  assumes "vcache_sound mem c" and "update_sound mem u"
  shows "vcache_sound mem (cache_store w w' c u)"
proof -
  let ?i = "unat (V_CACHE_TAG (ucast (vdu_v (data u))))"
  let ?t = "ap_set_range 31 0 (ucast (vdu_v (data u))) (ap_set_range 63 63 1 w)"
  have "ucast (ucast (vdu_v (data u)) :: u64) = vdu_v (data u)" by (rule ucast_up_ucast_id) (simp add: is_up)
  then have t: "tag_valid ?t" "tag_vertex ?t = vdu_v (data u)"
    by (simp_all add: tag_valid_def tag_vertex_def tag_fields)
  have len: "length (vc_tag c) = VCACHE_SIZE" "length (vc_data c) = VCACHE_SIZE" "?i < VCACHE_SIZE"
    using assms(1) V_CACHE_TAG_less by (simp_all add: vcache_sound_def)
  then have here: "vc_tag (cache_store w w' c u) ! ?i = ?t"
    "vd_item (vc_data (cache_store w w' c u) ! ?i) = vd_item (mem (vdu_v (data u)))"
    using assms(2) by (simp_all add: cache_store_def Let_def update_sound_def)
  have there: "vc_tag (cache_store w w' c u) ! i = vc_tag c ! i" "vc_data (cache_store w w' c u) ! i = vc_data c ! i"
    if "i \<noteq> ?i" for i using that by (simp_all add: cache_store_def Let_def)
  show ?thesis
    unfolding vcache_sound_def
  proof (intro conjI allI impI)
    fix i assume i: "i < VCACHE_SIZE" and valid: "tag_valid (vc_tag (cache_store w w' c u) ! i)"
    show "unat (V_CACHE_TAG (ucast (tag_vertex (vc_tag (cache_store w w' c u) ! i)))) = i"
      "vd_item (vc_data (cache_store w w' c u) ! i) = vd_item (mem (tag_vertex (vc_tag (cache_store w w' c u) ! i)))"
      using i valid here there t assms(1) by (cases "i = ?i"; simp add: vcache_sound_def)+
  qed (use len in \<open>simp_all add: cache_store_def Let_def\<close>)
qed

lemma flag_bit_31:
  "(w :: u64) AND 0x80000000 = 0x80000000 \<longleftrightarrow> bit w 31" "(v :: u32) AND 0x80000000 = 0x80000000 \<longleftrightarrow> bit v 31"
proof -
  have flag: "w AND push_bit 31 1 = push_bit 31 1 \<longleftrightarrow> bit w 31" if "31 < LENGTH('a)" for w :: "'a::len word"
  proof
    assume "w AND push_bit 31 1 = push_bit 31 1"
    then have "bit (w AND push_bit 31 1) 31 = bit (push_bit 31 1 :: 'a word) 31" by simp
    with that show "bit w 31" by (simp add: bit_and_iff bit_push_bit_iff)
  next
    assume "bit w 31"
    moreover have "n = 31" if "bit (push_bit 31 1 :: 'a word) n" for n
      using that unfolding bit_push_bit_iff bit_1_iff by simp
    ultimately show "w AND push_bit 31 1 = push_bit 31 1"
      by (intro bit_word_eqI) (auto simp only: bit_and_iff)
  qed
  have e64: "(0x80000000 :: u64) = push_bit 31 1" by (simp add: push_bit_eq_mult)
  show "(w :: u64) AND 0x80000000 = 0x80000000 \<longleftrightarrow> bit w 31"
    unfolding e64 by (rule flag) simp
  have e32: "(0x80000000 :: u32) = push_bit 31 1" by (simp add: push_bit_eq_mult)
  show "(v :: u32) AND 0x80000000 = 0x80000000 \<longleftrightarrow> bit v 31"
    unfolding e32 by (rule flag) simp
qed

section \<open>A lookup followed by the memory access\<close>

text \<open>The reference: \<open>vertex_loader\<close> of \<open>src/vndirect\<close>, which reads every descriptor from memory.\<close>

abbreviation vd_direct :: "(u32 \<Rightarrow> u64) \<Rightarrow> u64 pkg \<Rightarrow> vertex_descriptor pkg" where
  "vd_direct mem \<equiv> load_vertex (\<lambda>v. vd_item (mem v))"

text \<open>What an entry says of itself: a miss carries its vertex, and its data is that of memory.\<close>

definition entry_sound :: "(u32 \<Rightarrow> u64) \<Rightarrow> u64 mem_item \<Rightarrow> vertex_descriptor_ws pkg \<Rightarrow> bool" where
  "entry_sound mem d v \<longleftrightarrow> (vds_state (data v) = VDS_INVALID \<longrightarrow> mem_data d = mem (vds_start (data v)))"

lemma vcache_mem_eq:
  "vcache_mem mem \<lparr>data = \<lparr>cmd_addr = a, cmd_state = st\<rparr>, last = l\<rparr> =
     \<lparr>mem_data = (if st AND MM_STATE_MASK_DUMMY = MM_STATE_MASK_DUMMY then 0 else mem (ucast a)),
      mem_dummy = (st AND MM_STATE_MASK_DUMMY = MM_STATE_MASK_DUMMY), mem_last = (st AND MM_STATE_MASK_END = MM_STATE_MASK_END)\<rparr>"
  by (simp add: vcache_mem_def mem_access_read_def Let_def)

lemma cache_lookup_sound:
  assumes "vcache_sound mem c" and "cache_lookup c nv = (cmd, vds)"
  shows "vcache_vd (vcache_mem mem cmd) vds = vd_direct mem nv" and "entry_sound mem (vcache_mem mem cmd) vds"
    and "mem_last (vcache_mem mem cmd) = last nv" and "last vds = last nv"
proof -
  let ?v = "data nv" and ?i = "unat (V_CACHE_TAG (data nv))"
  have i: "?i < VCACHE_SIZE" by (rule V_CACHE_TAG_less)
  have hit: "vd_item (vc_data c ! ?i) = vd_item (mem (ucast ?v))"
    if "ap_range 31 0 (vc_tag c ! ?i) = ?v" "ap_range 63 63 (vc_tag c ! ?i) = 1"
    using assms(1) i that by (simp add: vcache_sound_def tag_valid_def tag_vertex_def)
  have "(ucast ?v :: u32) AND 0x80000000 = 0x80000000 \<longleftrightarrow> ?v AND 0x80000000 = 0x80000000"
    by (simp add: flag_bit_31 bit_ucast)
  with hit assms(2)
  show "vcache_vd (vcache_mem mem cmd) vds = vd_direct mem nv" "entry_sound mem (vcache_mem mem cmd) vds"
    "mem_last (vcache_mem mem cmd) = last nv" "last vds = last nv"
    by (auto simp: cache_lookup_def Let_def vcache_mem_eq vcache_vd_def load_vertex_def entry_sound_def
        MM_STATE_MASK_DUMMY_def MM_STATE_MASK_END_def VDS_INVALID_def split: if_splits)
qed

section \<open>The contract of an update policy\<close>

text \<open>What the system needs of \<open>vcache_update\<close>: it sends only entries that memory holds.\<close>

locale update_policy =
  fixes policy :: "u64 mem_item \<Rightarrow> vertex_descriptor_ws pkg \<Rightarrow> vertex_descriptor_update pkg option"
  assumes policy_sound: "entry_sound mem d v \<Longrightarrow> policy d v = Some u \<Longrightarrow> update_sound mem u"

text \<open>What is on its way on the two branches behind the duplicator.\<close>

definition loader_vds :: "loader_pc \<Rightarrow> vertex_descriptor_ws pkg list" where
  "loader_vds pc = (case pc of Command cmd v \<Rightarrow> [v] | Output v \<Rightarrow> [v] | _ \<Rightarrow> [])"

definition loader_cmd :: "loader_pc \<Rightarrow> mem_access_cmd pkg list" where
  "loader_cmd pc = (case pc of Command cmd v \<Rightarrow> [cmd] | _ \<Rightarrow> [])"

definition engine_data :: "engine_pc \<Rightarrow> u64 mem_item list" where
  "engine_data pc = (case pc of Serving d \<Rightarrow> [d] | _ \<Rightarrow> [])"

definition dup_first :: "'a dup_pc \<Rightarrow> 'a list" where
  "dup_first pc = (case pc of First x \<Rightarrow> [x] | _ \<Rightarrow> [])"

definition dup_second :: "'a dup_pc \<Rightarrow> 'a list" where
  "dup_second pc = (case pc of Idle \<Rightarrow> [] | First x \<Rightarrow> [x] | Second x \<Rightarrow> [x])"

definition updater_data :: "updater_pc \<Rightarrow> u64 mem_item list" where
  "updater_data pc = (case pc of Holding d \<Rightarrow> [d] | _ \<Rightarrow> [])"

definition updater_sends :: "updater_pc \<Rightarrow> vertex_descriptor_update pkg list" where
  "updater_sends pc = (case pc of Sending u \<Rightarrow> [u] | _ \<Rightarrow> [])"

lemma pc_holds [simp]:
  "loader_vds Polling = []" "loader_vds (Command cmd v) = [v]" "loader_vds (Output v) = [v]" "loader_vds Updating = []"
  "loader_vds Emptying = []" "loader_cmd Polling = []" "loader_cmd (Command cmd v) = [cmd]" "loader_cmd (Output v) = []"
  "loader_cmd Updating = []" "loader_cmd Emptying = []"
  "engine_data Listening = []" "engine_data (Serving d) = [d]" "engine_data Returned = []"
  "dup_first Idle = []" "dup_first (First x) = [x]" "dup_first (Second x) = []"
  "dup_second Idle = []" "dup_second (First x) = [x]" "dup_second (Second x) = [x]"
  "updater_data Watching = []" "updater_data (Holding d) = [d]" "updater_data (Sending u) = []"
  "updater_sends Watching = []" "updater_sends (Holding d) = []" "updater_sends (Sending u) = [u]"
  by (simp_all add: loader_vds_def loader_cmd_def engine_data_def dup_first_def dup_second_def updater_data_def updater_sends_def)

definition datas_coming :: "(u32 \<Rightarrow> u64) \<Rightarrow> vcache_system \<Rightarrow> u64 mem_item list" where
  "datas_coming mem s = datas s @ engine_data (engine s) @ map (vcache_mem mem) (cmds s @ loader_cmd (loader s))"

definition vdss_coming :: "vcache_system \<Rightarrow> vertex_descriptor_ws pkg list" where
  "vdss_coming s = vdss s @ loader_vds (loader s)"

definition data_left1 :: "(u32 \<Rightarrow> u64) \<Rightarrow> vcache_system \<Rightarrow> u64 mem_item list" where
  "data_left1 mem s = (case merger s of None \<Rightarrow> [] | Some d \<Rightarrow> [d]) @ data1 s @ dup_first (dup_data s) @ datas_coming mem s"

definition vds_left1 :: "vcache_system \<Rightarrow> vertex_descriptor_ws pkg list" where
  "vds_left1 s = vds1 s @ dup_first (dup_vds s) @ vdss_coming s"

definition data_left2 :: "(u32 \<Rightarrow> u64) \<Rightarrow> vcache_system \<Rightarrow> u64 mem_item list" where
  "data_left2 mem s = updater_data (updater s) @ data2 s @ dup_second (dup_data s) @ datas_coming mem s"

definition vds_left2 :: "vcache_system \<Rightarrow> vertex_descriptor_ws pkg list" where
  "vds_left2 s = vds2 s @ dup_second (dup_vds s) @ vdss_coming s"

definition updates_left :: "vcache_system \<Rightarrow> vertex_descriptor_update pkg list" where
  "updates_left s = updates s @ updater_sends (updater s)"

lemmas left_defs = datas_coming_def vdss_coming_def data_left1_def vds_left1_def data_left2_def vds_left2_def updates_left_def

text \<open>The invariant: the table and everything that is on its way to it agree with memory.\<close>

definition vcache_inv :: "(u32 \<Rightarrow> u64) \<Rightarrow> u64 pkg list \<Rightarrow> vcache_system \<Rightarrow> bool" where
  "vcache_inv mem nvs s \<longleftrightarrow> vcache_sound mem (table s) \<and> (\<forall>u \<in> set (updates_left s). update_sound mem u) \<and>
     list_all2 (entry_sound mem) (data_left2 mem s) (vds_left2 s) \<and>
     length (data_left1 mem s) = length (vds_left1 s) \<and>
     out_vd s @ map2 vcache_vd (data_left1 mem s) (vds_left1 s) @ map (vd_direct mem) (requests_in s) = map (vd_direct mem) nvs"

lemma vcache_inv_start: "vcache_inv mem nvs (vcache_start nvs)"
  by (simp add: vcache_inv_def vcache_start_def left_defs vcache_sound_init)

context update_policy begin

lemma vcache_inv_step:
  assumes "vcache_step D policy mem s s'" and "vcache_inv mem nvs s"
  shows "vcache_inv mem nvs s'"
  using assms
proof (induction rule: vcache_step.induct)
  case (look_up s nv rest cmd vds)
  then have sound: "vcache_sound mem (table s)" by (simp add: vcache_inv_def)
  note facts = cache_lookup_sound [OF this look_up(3)]
  let ?s = "s\<lparr>requests_in := rest, loader := Command cmd vds\<rparr>" and ?d = "vcache_mem mem cmd"
  have left: "data_left1 mem ?s = data_left1 mem s @ [?d]" "vds_left1 ?s = vds_left1 s @ [vds]"
    "data_left2 mem ?s = data_left2 mem s @ [?d]" "vds_left2 ?s = vds_left2 s @ [vds]"
    using look_up(1) by (simp_all add: left_defs)
  have "updates_left ?s = updates_left s" by (simp add: left_defs)
  with look_up facts show ?case
    unfolding vcache_inv_def left by (auto simp: zip_append list_all2_appendI)
next
  case (update_vds s d v rest)
  then show ?case
    by (cases "policy d v") (auto simp: vcache_inv_def left_defs intro: policy_sound)
qed (auto simp: vcache_inv_def left_defs vcache_sound_init intro: vcache_sound_store split: option.splits)

lemma vcache_inv_run: "vcache_run D policy mem s s' \<Longrightarrow> vcache_inv mem nvs s \<Longrightarrow> vcache_inv mem nvs s'"
  by (induction rule: rtranclp_induct) (auto intro: vcache_inv_step)

end

interpretation dac: update_policy vcache_update_dac
  by unfold_locales (auto simp: vcache_update_dac_def entry_sound_def update_sound_def vd_update_def Let_def split: if_splits)

interpretation direct: update_policy vcache_update_direct
  by unfold_locales (auto simp: vcache_update_direct_def entry_sound_def update_sound_def vd_update_def Let_def split: if_splits)

interpretation no_cache: update_policy vcache_update_none
  by unfold_locales (auto simp: vcache_update_none_def entry_sound_def update_sound_def vd_update_def Let_def split: if_splits)

section \<open>The streams do not fill up\<close>

text \<open>
  Every turn of the loader's loop takes an update when there is one, so the updates to come, those on
  their way included, are never more than what fits between the loader and \<open>vcache_update\<close>.
\<close>

definition backlog :: "vcache_system \<Rightarrow> nat" where
  "backlog s = length (updates_left s) + length (updater_data (updater s)) + length (data2 s) + length (dup_second (dup_data s)) +
     length (datas s) + length (engine_data (engine s)) + length (cmds s) + length (loader_cmd (loader s))"

definition update_bound :: "vcache_depths \<Rightarrow> nat" where
  "update_bound D = dep_cmd D + dep_data D + dep_data2 D + 4"

definition vcache_room :: "vcache_depths \<Rightarrow> vcache_system \<Rightarrow> bool" where
  "vcache_room D s \<longleftrightarrow> length (cmds s) \<le> dep_cmd D \<and> length (vdss s) \<le> dep_vds D \<and> length (datas s) \<le> dep_data D \<and>
     length (data1 s) \<le> dep_data1 D \<and> length (data2 s) \<le> dep_data2 D \<and> length (vds1 s) \<le> dep_vds1 D \<and>
     length (vds2 s) \<le> dep_vds2 D \<and> length (updates s) \<le> dep_update D \<and>
     backlog s < update_bound D + (if loader s = Polling then 0 else 1)"

lemma vcache_room_start: "vcache_room D (vcache_start nvs)"
  by (simp add: vcache_room_def vcache_start_def backlog_def updates_left_def update_bound_def)

lemma holds_le: "length (engine_data e) \<le> 1" "length (dup_second p) \<le> 1"
  "length (updater_sends u) + length (updater_data u) \<le> 1"
  subgoal by (cases e) simp_all
  subgoal by (cases p) simp_all
  subgoal by (cases u) simp_all
  done

lemma vcache_room_step:
  assumes "vcache_step D policy mem s s'" and "vcache_room D s"
  shows "vcache_room D s'"
  using assms
proof (induction rule: vcache_step.induct)
  case (no_update s)
  with holds_le(1) [of "engine s"] holds_le(2) [of "dup_data s"] holds_le(3) [of "updater s"] show ?case
    by (simp add: vcache_room_def backlog_def update_bound_def updates_left_def)
next
  case (emptied s)
  with holds_le(1) [of "engine s"] holds_le(2) [of "dup_data s"] holds_le(3) [of "updater s"] show ?case
    by (simp add: vcache_room_def backlog_def update_bound_def updates_left_def)
qed (auto simp: vcache_room_def backlog_def updates_left_def split: if_splits option.splits)

lemma vcache_room_run: "vcache_run D policy mem s s' \<Longrightarrow> vcache_room D s \<Longrightarrow> vcache_room D s'"
  by (induction rule: rtranclp_induct) (auto intro: vcache_room_step)

section \<open>The kernels always finish\<close>

text \<open>The work ahead: every move that serves a request lowers it.\<close>

definition vcache_work :: "vcache_system \<Rightarrow> nat" where
  "vcache_work s = 23 * length (requests_in s)
     + (case loader s of Polling \<Rightarrow> 0 | Command cmd v \<Rightarrow> 22 | Output v \<Rightarrow> 9 | Updating \<Rightarrow> 1 | Emptying \<Rightarrow> 2)
     + 12 * length (cmds s) + 6 * length (vdss s)
     + (case engine s of Listening \<Rightarrow> 0 | Serving d \<Rightarrow> 11 | Returned \<Rightarrow> 1) + 9 * length (datas s)
     + (case dup_data s of Idle \<Rightarrow> 0 | First d \<Rightarrow> 8 | Second d \<Rightarrow> 5) + 2 * length (data1 s) + 4 * length (data2 s)
     + (case dup_vds s of Idle \<Rightarrow> 0 | First v \<Rightarrow> 5 | Second v \<Rightarrow> 3) + length (vds1 s) + length (vds2 s)
     + (case merger s of None \<Rightarrow> 0 | Some d \<Rightarrow> 1)
     + (case updater s of Watching \<Rightarrow> 0 | Holding d \<Rightarrow> 3 | Sending u \<Rightarrow> 2) + length (updates s)"

definition vcache_moves ::
    "vcache_depths \<Rightarrow> (u64 mem_item \<Rightarrow> vertex_descriptor_ws pkg \<Rightarrow> vertex_descriptor_update pkg option) \<Rightarrow> (u32 \<Rightarrow> u64) \<Rightarrow>
     vcache_system \<Rightarrow> bool" where
  "vcache_moves D policy mem s \<longleftrightarrow> (\<exists>s'. vcache_step D policy mem s s' \<and> vcache_work s' < vcache_work s)"

lemma vcache_movesI: "vcache_step D policy mem s s' \<Longrightarrow> vcache_work s' < vcache_work s \<Longrightarrow> vcache_moves D policy mem s"
  by (auto simp: vcache_moves_def)

lemma vcache_moves:
  "loader s = Polling \<Longrightarrow> requests_in s = nv # rest \<Longrightarrow> vcache_moves D policy mem s"
  "loader s = Command cmd v \<Longrightarrow> length (cmds s) < dep_cmd D \<Longrightarrow> vcache_moves D policy mem s"
  "loader s = Output v \<Longrightarrow> length (vdss s) < dep_vds D \<Longrightarrow> vcache_moves D policy mem s"
  "loader s = Updating \<Longrightarrow> vcache_moves D policy mem s"
  "loader s = Emptying \<Longrightarrow> vcache_moves D policy mem s"
  "engine s = Listening \<Longrightarrow> cmds s \<noteq> [] \<Longrightarrow> vcache_moves D policy mem s"
  "engine s = Serving d \<Longrightarrow> length (datas s) < dep_data D \<Longrightarrow> vcache_moves D policy mem s"
  "engine s = Returned \<Longrightarrow> vcache_moves D policy mem s"
  "dup_data s = Idle \<Longrightarrow> datas s \<noteq> [] \<Longrightarrow> vcache_moves D policy mem s"
  "dup_data s = First d \<Longrightarrow> length (data1 s) < dep_data1 D \<Longrightarrow> vcache_moves D policy mem s"
  "dup_data s = Second d \<Longrightarrow> length (data2 s) < dep_data2 D \<Longrightarrow> vcache_moves D policy mem s"
  "dup_vds s = Idle \<Longrightarrow> vdss s \<noteq> [] \<Longrightarrow> vcache_moves D policy mem s"
  "dup_vds s = First v \<Longrightarrow> length (vds1 s) < dep_vds1 D \<Longrightarrow> vcache_moves D policy mem s"
  "dup_vds s = Second v \<Longrightarrow> length (vds2 s) < dep_vds2 D \<Longrightarrow> vcache_moves D policy mem s"
  "merger s = None \<Longrightarrow> data1 s \<noteq> [] \<Longrightarrow> vcache_moves D policy mem s"
  "merger s = Some d \<Longrightarrow> vds1 s \<noteq> [] \<Longrightarrow> vcache_moves D policy mem s"
  "updater s = Watching \<Longrightarrow> data2 s \<noteq> [] \<Longrightarrow> vcache_moves D policy mem s"
  "updater s = Holding d \<Longrightarrow> vds2 s \<noteq> [] \<Longrightarrow> vcache_moves D policy mem s"
  "updater s = Sending u \<Longrightarrow> length (updates s) < dep_update D \<Longrightarrow> vcache_moves D policy mem s"
  subgoal by (rule prod.exhaust [of "cache_lookup (table s) nv"])
      (rule vcache_movesI [OF vcache_step.look_up], assumption+, simp add: vcache_work_def)
  subgoal by (rule vcache_movesI [OF vcache_step.write_cmd]) (assumption+, simp add: vcache_work_def)
  subgoal by (rule vcache_movesI [OF vcache_step.write_vds]) (assumption+, simp add: vcache_work_def)
  subgoal by (cases "updates s") (rule vcache_movesI [OF vcache_step.no_update], assumption+, simp add: vcache_work_def,
      rule vcache_movesI [OF vcache_step.store], assumption+, simp add: vcache_work_def)
  subgoal by (cases "updates s") (rule vcache_movesI [OF vcache_step.emptied], assumption+, simp add: vcache_work_def,
      rule vcache_movesI [OF vcache_step.drop_update], assumption+, simp add: vcache_work_def)
  subgoal by (cases "cmds s") (simp, rule vcache_movesI [OF vcache_step.read_cmd], assumption+, simp add: vcache_work_def)
  subgoal by (rule vcache_movesI [OF vcache_step.write_data]) (assumption+, simp add: vcache_work_def)
  subgoal by (rule vcache_movesI [OF vcache_step.restart]) (assumption+, simp add: vcache_work_def)
  subgoal by (cases "datas s") (simp, rule vcache_movesI [OF vcache_step.read_data], assumption+, simp add: vcache_work_def)
  subgoal by (rule vcache_movesI [OF vcache_step.write_data1]) (assumption+, simp add: vcache_work_def)
  subgoal by (rule vcache_movesI [OF vcache_step.write_data2]) (assumption+, simp add: vcache_work_def)
  subgoal by (cases "vdss s") (simp, rule vcache_movesI [OF vcache_step.read_vds], assumption+, simp add: vcache_work_def)
  subgoal by (rule vcache_movesI [OF vcache_step.write_vds1]) (assumption+, simp add: vcache_work_def)
  subgoal by (rule vcache_movesI [OF vcache_step.write_vds2]) (assumption+, simp add: vcache_work_def)
  subgoal by (cases "data1 s") (simp, rule vcache_movesI [OF vcache_step.merge_data], assumption+, simp add: vcache_work_def)
  subgoal by (cases "vds1 s") (simp, rule vcache_movesI [OF vcache_step.merge_vds], assumption+, simp add: vcache_work_def)
  subgoal by (cases "data2 s") (simp, rule vcache_movesI [OF vcache_step.update_data], assumption+, simp add: vcache_work_def)
  subgoal by (cases "vds2 s") (simp, rule vcache_movesI [OF vcache_step.update_vds], assumption+, simp add: vcache_work_def split: option.split)
  subgoal by (rule vcache_movesI [OF vcache_step.write_update]) (assumption+, simp add: vcache_work_def)
  done

definition vcache_depths_ok :: "vcache_depths \<Rightarrow> bool" where
  "vcache_depths_ok D \<longleftrightarrow> 0 < dep_cmd D \<and> 0 < dep_vds D \<and> 0 < dep_data D \<and> 0 < dep_data1 D \<and> 0 < dep_data2 D \<and>
     0 < dep_vds1 D \<and> 0 < dep_vds2 D \<and> update_bound D \<le> dep_update D"

text \<open>The counts of a state in which no kernel can move.\<close>

lemma stuck_counts:
  fixes a1 a2 b1 b2 c dt e f1 f2 g1 g2 h ld lv m v :: nat
  assumes "lv = 0 \<and> ld = 0 \<and> P \<or> lv = 1 \<and> ld = 1 \<and> 1 \<le> c \<or> lv = 1 \<and> ld = 0 \<and> 1 \<le> v"
    and "e = 0 \<and> c = 0 \<or> e = 1 \<and> 1 \<le> dt"
    and "f1 = 0 \<and> f2 = 0 \<and> dt = 0 \<or> f1 = 1 \<and> f2 = 1 \<and> 1 \<le> a1 \<or> f1 = 0 \<and> f2 = 1 \<and> 1 \<le> a2"
    and "g1 = 0 \<and> g2 = 0 \<and> v = 0 \<or> g1 = 1 \<and> g2 = 1 \<and> 1 \<le> b1 \<or> g1 = 0 \<and> g2 = 1 \<and> 1 \<le> b2"
    and "m = 0 \<and> a1 = 0 \<or> m = 1 \<and> b1 = 0" and "h = 0 \<and> a2 = 0 \<or> h = 1 \<and> b2 = 0"
    and "m + (a1 + (f1 + (dt + (e + (c + ld))))) = b1 + (g1 + (v + lv))"
    and "h + (a2 + (f2 + (dt + (e + (c + ld))))) = b2 + (g2 + (v + lv))"
  shows "b1 + (g1 + (v + lv)) = 0 \<and> P"
  using assms by (elim disjE conjE; linarith?; simp)

lemma vcache_progress:
  assumes "vcache_inv mem nvs s" and "vcache_room D s" and "vcache_depths_ok D"
    and "vds_left1 s \<noteq> [] \<or> requests_in s \<noteq> []"
  shows "vcache_moves D policy mem s"
proof (rule ccontr)
  assume stuck: "\<not> vcache_moves D policy mem s"
  have lens: "length (data_left1 mem s) = length (vds_left1 s)" "length (data_left2 mem s) = length (vds_left2 s)"
    using assms(1) by (auto simp: vcache_inv_def dest: list_all2_lengthD)
  have depths: "0 < dep_cmd D" "0 < dep_vds D" "0 < dep_data D" "0 < dep_data1 D" "0 < dep_data2 D" "0 < dep_vds1 D" "0 < dep_vds2 D"
    using assms(3) by (simp_all add: vcache_depths_ok_def)
  have sending: "updater s \<noteq> Sending u" for u
  proof
    assume u: "updater s = Sending u"
    with assms(2,3) have "length (updates s) < dep_update D"
      by (auto simp: vcache_room_def vcache_depths_ok_def backlog_def updates_left_def split: if_splits)
    with stuck vcache_moves(19) [OF u] show False by blast
  qed
  have st: "loader s = Polling \<Longrightarrow> requests_in s = []" "loader s = Command c v \<Longrightarrow> dep_cmd D \<le> length (cmds s)"
    "loader s = Output v \<Longrightarrow> dep_vds D \<le> length (vdss s)" "loader s \<noteq> Updating" "loader s \<noteq> Emptying"
    "engine s = Listening \<Longrightarrow> cmds s = []" "engine s = Serving d \<Longrightarrow> dep_data D \<le> length (datas s)" "engine s \<noteq> Returned"
    "dup_data s = Idle \<Longrightarrow> datas s = []" "dup_data s = First d \<Longrightarrow> dep_data1 D \<le> length (data1 s)"
    "dup_data s = Second d \<Longrightarrow> dep_data2 D \<le> length (data2 s)"
    "dup_vds s = Idle \<Longrightarrow> vdss s = []" "dup_vds s = First v \<Longrightarrow> dep_vds1 D \<le> length (vds1 s)"
    "dup_vds s = Second v \<Longrightarrow> dep_vds2 D \<le> length (vds2 s)"
    "merger s = None \<Longrightarrow> data1 s = []" "merger s = Some d \<Longrightarrow> vds1 s = []"
    "updater s = Watching \<Longrightarrow> data2 s = []" "updater s = Holding d \<Longrightarrow> vds2 s = []" for c v d
    using stuck vcache_moves [where s = s and D = D and policy = policy and mem = mem] by (meson list.exhaust not_less)+
  let ?ld = "length (loader_cmd (loader s))" and ?lv = "length (loader_vds (loader s))" and ?e = "length (engine_data (engine s))"
    and ?f1 = "length (dup_first (dup_data s))" and ?f2 = "length (dup_second (dup_data s))" and ?g1 = "length (dup_first (dup_vds s))"
    and ?g2 = "length (dup_second (dup_vds s))" and ?h = "length (updater_data (updater s))"
    and ?m = "case merger s of None \<Rightarrow> 0 | Some d \<Rightarrow> 1"
  have "?lv = 0 \<and> ?ld = 0 \<and> requests_in s = [] \<or> ?lv = 1 \<and> ?ld = 1 \<and> 1 \<le> length (cmds s) \<or> ?lv = 1 \<and> ?ld = 0 \<and> 1 \<le> length (vdss s)"
    using st(1-5) depths by (cases "loader s") (auto simp: Suc_le_eq dest!: order.strict_trans2 [OF depths(1)] order.strict_trans2 [OF depths(2)])
  moreover have "?e = 0 \<and> length (cmds s) = 0 \<or> ?e = 1 \<and> 1 \<le> length (datas s)"
    using st(6-8) depths(3) by (cases "engine s") (auto simp: Suc_le_eq dest!: order.strict_trans2 [OF depths(3)])
  moreover have "?f1 = 0 \<and> ?f2 = 0 \<and> length (datas s) = 0 \<or> ?f1 = 1 \<and> ?f2 = 1 \<and> 1 \<le> length (data1 s) \<or>
      ?f1 = 0 \<and> ?f2 = 1 \<and> 1 \<le> length (data2 s)"
    using st(9-11) by (cases "dup_data s") (auto simp: Suc_le_eq dest!: order.strict_trans2 [OF depths(4)] order.strict_trans2 [OF depths(5)])
  moreover have "?g1 = 0 \<and> ?g2 = 0 \<and> length (vdss s) = 0 \<or> ?g1 = 1 \<and> ?g2 = 1 \<and> 1 \<le> length (vds1 s) \<or>
      ?g1 = 0 \<and> ?g2 = 1 \<and> 1 \<le> length (vds2 s)"
    using st(12-14) by (cases "dup_vds s") (auto simp: Suc_le_eq dest!: order.strict_trans2 [OF depths(6)] order.strict_trans2 [OF depths(7)])
  moreover have "?m = 0 \<and> length (data1 s) = 0 \<or> ?m = 1 \<and> length (vds1 s) = 0"
    using st(15,16) by (cases "merger s") auto
  moreover have "?h = 0 \<and> length (data2 s) = 0 \<or> ?h = 1 \<and> length (vds2 s) = 0"
    using st(17,18) sending by (cases "updater s") auto
  moreover have "?m + (length (data1 s) + (?f1 + (length (datas s) + (?e + (length (cmds s) + ?ld))))) =
      length (vds1 s) + (?g1 + (length (vdss s) + ?lv))"
    using lens(1) by (simp add: left_defs split: option.splits)
  moreover have "?h + (length (data2 s) + (?f2 + (length (datas s) + (?e + (length (cmds s) + ?ld))))) =
      length (vds2 s) + (?g2 + (length (vdss s) + ?lv))"
    using lens(2) by (simp add: left_defs)
  ultimately have "length (vds1 s) + (?g1 + (length (vdss s) + ?lv)) = 0 \<and> requests_in s = []"
    by (rule stuck_counts)
  with assms(4) show False by (simp add: left_defs)
qed

context update_policy begin

lemma vcache_completes:
  assumes "vcache_inv mem nvs s" and "vcache_room D s" and "vcache_depths_ok D"
  shows "\<exists>s'. vcache_run D policy mem s s' \<and> out_vd s' = map (vd_direct mem) nvs"
  using assms(1,2)
proof (induction "vcache_work s" arbitrary: s rule: less_induct)
  case less
  show ?case
  proof (cases "vds_left1 s \<noteq> [] \<or> requests_in s \<noteq> []")
    case True
    from vcache_progress [OF less.prems assms(3) this] obtain t where
      t: "vcache_step D policy mem s t" "vcache_work t < vcache_work s" by (auto simp: vcache_moves_def)
    from less.hyps [OF t(2) vcache_inv_step [OF t(1) less.prems(1)] vcache_room_step [OF t(1) less.prems(2)]] t(1)
    show ?thesis by (blast intro: converse_rtranclp_into_rtranclp)
  next
    case False
    with less.prems(1) have "out_vd s = map (vd_direct mem) nvs" by (simp add: vcache_inv_def)
    then show ?thesis by blast
  qed
qed

lemma vcache_correct:
  assumes "vcache_depths_ok D" and "vcache_run D policy mem (vcache_start nvs) s"
  shows "prefix (out_vd s) (map (vd_direct mem) nvs)"
    and "\<exists>s'. vcache_run D policy mem s s' \<and> out_vd s' = map (vd_direct mem) nvs"
proof -
  have inv: "vcache_inv mem nvs s" by (rule vcache_inv_run [OF assms(2) vcache_inv_start])
  then have "map (vd_direct mem) nvs = out_vd s @ map2 vcache_vd (data_left1 mem s) (vds_left1 s) @ map (vd_direct mem) (requests_in s)"
    by (simp add: vcache_inv_def)
  then show "prefix (out_vd s) (map (vd_direct mem) nvs)" by (rule prefixI)
  show "\<exists>s'. vcache_run D policy mem s s' \<and> out_vd s' = map (vd_direct mem) nvs"
    by (rule vcache_completes [OF inv vcache_room_run [OF assms(2) vcache_room_start] assms(1)])
qed

end

lemma policies:
  "policy \<in> {vcache_update_dac, vcache_update_direct, vcache_update_none} \<Longrightarrow> update_policy policy"
  using dac.update_policy_axioms direct.update_policy_axioms no_cache.update_policy_axioms by blast

text \<open>
  C6: The cache is invisible.  With each of the three update policies, whatever the contents of memory, and
  however the six kernels interleave, the descriptors that have been written are a prefix of those that
  the loader without a cache (\<open>src/vndirect\<close>) writes for the same requests, and they can always be
  completed: no request is lost, none is reordered, and the kernels do not block each other for ever.
\<close>

theorem cached_loader_equals_direct:
  assumes "policy \<in> {vcache_update_dac, vcache_update_direct, vcache_update_none}" and "vcache_depths_ok D"
    and "vcache_run D policy mem (vcache_start nvs) s"
  shows "prefix (out_vd s) (map (load_vertex (\<lambda>v. vd_item (mem v))) nvs) \<and>
    (\<exists>s'. vcache_run D policy mem s s' \<and> out_vd s' = map (load_vertex (\<lambda>v. vd_item (mem v))) nvs)"
  using update_policy.vcache_correct [OF policies [OF assms(1)] assms(2,3)] by blast

text \<open>The depths of \<open>app/test/urw_u55c\<close>; streams without one are taken to hold two packages.\<close>

definition urw_depths :: vcache_depths where
  "urw_depths = \<lparr>dep_cmd = 16, dep_vds = 512, dep_data = 16, dep_data1 = 2, dep_data2 = 2, dep_vds1 = 2, dep_vds2 = 2,
     dep_update = 512\<rparr>"

lemma urw_depths_ok: "vcache_depths_ok urw_depths"
  by (simp add: vcache_depths_ok_def urw_depths_def update_bound_def)

theorem cached_loader_equals_direct_witness:
  "\<exists>s'. vcache_run urw_depths vcache_update_dac (\<lambda>v. vd_pack 0 (ucast v) 3)
       (vcache_start [\<lparr>data = 7, last = False\<rparr>, \<lparr>data = 7, last = False\<rparr>, \<lparr>data = 0x80000009, last = True\<rparr>]) s' \<and>
     out_vd s' = [\<lparr>data = \<lparr>vd_start = 7, vd_size = 3\<rparr>, last = False\<rparr>, \<lparr>data = \<lparr>vd_start = 7, vd_size = 3\<rparr>, last = False\<rparr>,
       \<lparr>data = \<lparr>vd_start = 0x80000009, vd_size = 0\<rparr>, last = True\<rparr>]"
proof -
  have "vcache_update_dac \<in> {vcache_update_dac, vcache_update_direct, vcache_update_none}" by simp
  from cached_loader_equals_direct [OF this urw_depths_ok rtranclp.rtrancl_refl] show ?thesis
    by (force simp: load_vertex_def)
qed

text \<open>
  C38: Well-formed states.  In every reachable state of the cached loader each stream holds at most as many
  packages as it is deep, the two arrays have all their entries and every index is inside them, an entry
  in use stands at the index of its vertex with the descriptor memory holds for it, and so does every
  update that is still to come.
\<close>

theorem vcache_well_formed:
  assumes "policy \<in> {vcache_update_dac, vcache_update_direct, vcache_update_none}"
    and "vcache_run D policy mem (vcache_start nvs) s"
  shows "vcache_sound mem (table s) \<and> (\<forall>u \<in> set (updates s). update_sound mem u) \<and> unat (V_CACHE_TAG v) < length (vc_tag (table s)) \<and>
    length (cmds s) \<le> dep_cmd D \<and> length (vdss s) \<le> dep_vds D \<and> length (datas s) \<le> dep_data D \<and>
    length (data1 s) \<le> dep_data1 D \<and> length (data2 s) \<le> dep_data2 D \<and> length (vds1 s) \<le> dep_vds1 D \<and>
    length (vds2 s) \<le> dep_vds2 D \<and> length (updates s) \<le> dep_update D"
  using update_policy.vcache_inv_run [OF policies [OF assms(1)] assms(2) vcache_inv_start]
    vcache_room_run [OF assms(2) vcache_room_start] V_CACHE_TAG_less [of v]
  by (simp add: vcache_inv_def vcache_room_def updates_left_def vcache_sound_def)

lemma sample_cached_run:
  "\<exists>s. vcache_run urw_depths vcache_update_dac (\<lambda>v. vd_pack 0 (ucast v) 3) (vcache_start [\<lparr>data = 7, last = False\<rparr>, \<lparr>data = 7, last = True\<rparr>]) s \<and>
     length (out_vd s) = 2"
proof -
  obtain s where "vcache_run urw_depths vcache_update_dac (\<lambda>v. vd_pack 0 (ucast v) 3) (vcache_start [\<lparr>data = 7, last = False\<rparr>, \<lparr>data = 7, last = True\<rparr>]) s"
    "out_vd s = map (vd_direct (\<lambda>v. vd_pack 0 (ucast v) 3)) [\<lparr>data = 7, last = False\<rparr>, \<lparr>data = 7, last = True\<rparr>]"
    using dac.vcache_correct(2) [OF urw_depths_ok rtranclp.rtrancl_refl] by blast
  then show ?thesis by auto
qed

theorem vcache_well_formed_witness:
  "\<exists>s. vcache_run urw_depths vcache_update_dac (\<lambda>v. vd_pack 0 (ucast v) 3)
      (vcache_start [\<lparr>data = 7, last = False\<rparr>, \<lparr>data = 7, last = True\<rparr>]) s \<and>
     length (out_vd s) = 2 \<and> vcache_sound (\<lambda>v. vd_pack 0 (ucast v) 3) (table s) \<and> length (cmds s) \<le> 16"
proof -
  obtain s where s: "vcache_run urw_depths vcache_update_dac (\<lambda>v. vd_pack 0 (ucast v) 3)
      (vcache_start [\<lparr>data = 7, last = False\<rparr>, \<lparr>data = 7, last = True\<rparr>]) s" "length (out_vd s) = 2"
    using sample_cached_run by blast
  have "vcache_update_dac \<in> {vcache_update_dac, vcache_update_direct, vcache_update_none}" by simp
  from vcache_well_formed [OF this s(1)] s show ?thesis by (intro exI [of _ s]) (simp add: urw_depths_def)
qed

text \<open>
  C39: The stream of updates never fills up.  Under every interleaving at most as many updates wait as fit,
  with their requests, between the loader and \<open>vcache_update\<close>, and \<open>vcache_update\<close> never has to wait to
  write one, if the stream is as deep as that; the loader and the update kernel wait for each other
  in a ring, so that the depth of this stream is what keeps the design free of deadlock.
\<close>

theorem update_stream_bounded:
  assumes "vcache_run D policy mem (vcache_start nvs) s"
  shows "length (updates s) \<le> dep_cmd D + dep_data D + dep_data2 D + 4 \<and>
    (updater s = Sending u \<longrightarrow> length (updates s) < dep_cmd D + dep_data D + dep_data2 D + 4)"
  using vcache_room_run [OF assms vcache_room_start]
  by (auto simp: vcache_room_def backlog_def updates_left_def update_bound_def split: if_splits)

theorem update_stream_bounded_witness:
  "\<exists>s. vcache_run urw_depths vcache_update_dac (\<lambda>v. vd_pack 0 (ucast v) 3)
      (vcache_start [\<lparr>data = 7, last = False\<rparr>, \<lparr>data = 7, last = True\<rparr>]) s \<and>
     length (out_vd s) = 2 \<and> length (updates s) \<le> 38"
proof -
  obtain s where s: "vcache_run urw_depths vcache_update_dac (\<lambda>v. vd_pack 0 (ucast v) 3)
      (vcache_start [\<lparr>data = 7, last = False\<rparr>, \<lparr>data = 7, last = True\<rparr>]) s" "length (out_vd s) = 2"
    using sample_cached_run by blast
  from update_stream_bounded [OF s(1)] s show ?thesis by (intro exI [of _ s]) (simp add: urw_depths_def)
qed

text \<open>
  C40: What has been stored is found.  After an update the next lookup of its vertex is a hit with the stored
  descriptor and a dummy command, lookups at other indices are as before, and a vertex with the same
  index that is not in the table still goes to memory.
\<close>

theorem stored_vertex_is_found:
  assumes "unat (V_CACHE_TAG (ucast (vdu_v u))) < length (vc_tag c)" and "length (vc_tag c) = length (vc_data c)"
    and "vdu_v u AND 0x80000000 \<noteq> 0x80000000"
  shows "snd (cache_lookup (cache_store w w' c \<lparr>data = u, last = l\<rparr>) \<lparr>data = ucast (vdu_v u), last = l'\<rparr>) =
      \<lparr>data = \<lparr>vds_start = vdu_start u, vds_size = vdu_size u, vds_state = 0\<rparr>, last = l'\<rparr> \<and>
    cmd_state (data (fst (cache_lookup (cache_store w w' c \<lparr>data = u, last = l\<rparr>) \<lparr>data = ucast (vdu_v u), last = l'\<rparr>)))
      AND MM_STATE_MASK_DUMMY = MM_STATE_MASK_DUMMY \<and>
    (V_CACHE_TAG v \<noteq> V_CACHE_TAG (ucast (vdu_v u)) \<longrightarrow>
      cache_lookup (cache_store w w' c \<lparr>data = u, last = l\<rparr>) \<lparr>data = v, last = l'\<rparr> = cache_lookup c \<lparr>data = v, last = l'\<rparr>) \<and>
    (v AND 0x80000000 \<noteq> 0x80000000 \<and> v \<noteq> ucast (vdu_v u) \<and> V_CACHE_TAG v = V_CACHE_TAG (ucast (vdu_v u)) \<longrightarrow>
      vds_state (data (snd (cache_lookup (cache_store w w' c \<lparr>data = u, last = l\<rparr>) \<lparr>data = v, last = l'\<rparr>))) = VDS_INVALID)"
proof -
  let ?i = "unat (V_CACHE_TAG (ucast (vdu_v u)))" and ?c = "cache_store w w' c \<lparr>data = u, last = l\<rparr>"
  let ?t = "ap_set_range 31 0 (ucast (vdu_v u)) (ap_set_range 63 63 1 w)"
  have here: "vc_tag ?c ! ?i = ?t" "vd_item (vc_data ?c ! ?i) = \<lparr>vd_start = vdu_start u, vd_size = vdu_size u\<rparr>"
    using assms(1,2) by (simp_all add: cache_store_def Let_def)
  have there: "vc_tag ?c ! j = vc_tag c ! j" "vc_data ?c ! j = vc_data c ! j" if "j \<noteq> ?i" for j
    using that by (simp_all add: cache_store_def Let_def)
  have "\<not> bit (ucast (vdu_v u) :: u64) 31" using assms(3) by (simp add: flag_bit_31 bit_ucast)
  then have unflagged: "(ucast (vdu_v u) :: u64) AND 0x80000000 \<noteq> 0x80000000" by (simp add: flag_bit_31)
  have "V_CACHE_TAG v \<noteq> V_CACHE_TAG (ucast (vdu_v u)) \<Longrightarrow> unat (V_CACHE_TAG v) \<noteq> ?i"
    by (simp add: word_unat_eq_iff)
  with there have "V_CACHE_TAG v \<noteq> V_CACHE_TAG (ucast (vdu_v u)) \<Longrightarrow>
      cache_lookup ?c \<lparr>data = v, last = l'\<rparr> = cache_lookup c \<lparr>data = v, last = l'\<rparr>"
    by (simp add: cache_lookup_def Let_def)
  moreover have "snd (cache_lookup ?c \<lparr>data = ucast (vdu_v u), last = l'\<rparr>) =
      \<lparr>data = \<lparr>vds_start = vdu_start u, vds_size = vdu_size u, vds_state = 0\<rparr>, last = l'\<rparr>"
    "cmd_state (data (fst (cache_lookup ?c \<lparr>data = ucast (vdu_v u), last = l'\<rparr>))) AND MM_STATE_MASK_DUMMY = MM_STATE_MASK_DUMMY"
    using unflagged by (simp_all add: cache_lookup_def Let_def here tag_fields MM_STATE_MASK_DUMMY_def MM_STATE_MASK_END_def)
  moreover have "vds_state (data (snd (cache_lookup ?c \<lparr>data = v, last = l'\<rparr>))) = VDS_INVALID"
    if "v AND 0x80000000 \<noteq> 0x80000000" "v \<noteq> ucast (vdu_v u)" "V_CACHE_TAG v = V_CACHE_TAG (ucast (vdu_v u))"
    using that by (auto simp: cache_lookup_def Let_def here tag_fields)
  ultimately show ?thesis by blast
qed

theorem stored_vertex_is_found_witness:
  "snd (cache_lookup (cache_store 0 0 vcache_init \<lparr>data = \<lparr>vdu_start = 40, vdu_size = 3, vdu_v = 9\<rparr>, last = False\<rparr>) \<lparr>data = 9, last = True\<rparr>) =
     \<lparr>data = \<lparr>vds_start = 40, vds_size = 3, vds_state = 0\<rparr>, last = True\<rparr>"
proof -
  let ?u = "\<lparr>vdu_start = 40, vdu_size = 3, vdu_v = 9\<rparr>"
  have "unat (V_CACHE_TAG (ucast (vdu_v ?u))) < length (vc_tag vcache_init)"
    using V_CACHE_TAG_less by (simp add: vcache_init_def)
  from stored_vertex_is_found [OF this] show ?thesis by (simp add: vcache_init_def)
qed

end
