(* ===== verification/Urw.thy ===== *)
theory Urw
  imports Vertex_Cache
begin

text \<open>
  A step of a uniform random walk (\<open>src/urw\<close>, \<open>app/test/urw_u55c\<close>): \<open>get_curr_v\<close>, the cached vertex
  loader (theory Vertex\_Cache), \<open>cal_sample_index\<close>, \<open>fetch_next\<close> with its memory engine, and
  \<open>step_update\<close>, which makes the query of the next step.
\<close>

section \<open>The kernels\<close>

definition get_curr_v_step :: "step_pkg \<Rightarrow> u64 pkg" where
  "get_curr_v_step v = \<lparr>data = ucast (curr_vertex (data v)), last = last v\<rparr>"

text \<open>The packages to \<open>origin\<close> and to \<open>curr_v\<close>.\<close>

definition get_curr_v :: "step_pkg list \<Rightarrow> step_pkg list \<times> u64 pkg list" where
  "get_curr_v vs = (vs, map get_curr_v_step vs)"

text \<open>\<open>(uint32_t)(((double)(degree)) * rn * inv_rand_max)\<close>, as in \<open>lv_sample\<close> but for a degree of 32 bits.\<close>

definition urw_selected_index :: "u32 \<Rightarrow> u32 \<Rightarrow> u32" where
  "urw_selected_index degree rn =
     (let product = round53 (round53 (unat degree) * round53 (unat rn))
      in of_nat (product div 2 ^ 32))"

definition cal_sample_index_step :: "vertex_descriptor pkg \<Rightarrow> u32 \<Rightarrow> u32 pkg" where
  "cal_sample_index_step pkg rn =
     (let degree = vd_size (data pkg); start = vd_start (data pkg);
          sampled_index = urw_selected_index degree rn + start
      in \<lparr>data = sampled_index, last = last pkg\<rparr>)"

text \<open>Over the polls; a package that has been found waits for its random number.\<close>

definition cal_sample_index :: "vertex_descriptor pkg option list \<Rightarrow> u32 list \<Rightarrow> u32 pkg list" where
  "cal_sample_index polls rng = map2 cal_sample_index_step (arrivals polls) rng"

definition sample_to_cmd_step :: "u32 pkg \<Rightarrow> mem_access_cmd pkg" where
  "sample_to_cmd_step in_pkg =
     (let sample_index = ucast (data in_pkg) :: u64;
          cmd_value = 0;
          cmd_value = (if sample_index AND 0x80000000 = 0x80000000 then cmd_value OR MM_STATE_MASK_DUMMY
                       else cmd_value AND NOT MM_STATE_MASK_DUMMY);
          cmd_value = (if last in_pkg then cmd_value OR MM_STATE_MASK_END else cmd_value AND NOT MM_STATE_MASK_END)
      in \<lparr>data = \<lparr>cmd_addr = sample_index, cmd_state = cmd_value\<rparr>, last = last in_pkg\<rparr>)"

definition sample_to_cmd :: "u32 pkg option list \<Rightarrow> mem_access_cmd pkg list" where
  "sample_to_cmd polls = map sample_to_cmd_step (arrivals polls)"

text \<open>\<open>fetch_next_mem\<close>: \<open>mem_access\<close> with width 32, bursts of 1 and the end mark as dummy data.\<close>

definition fetch_next_mem :: "(u32 \<Rightarrow> u32) \<Rightarrow> mem_access_cmd pkg \<Rightarrow> u32 mem_item" where
  "fetch_next_mem columns cmd_pkg = hd (mem_access_read 1 0x80000000 columns (data cmd_pkg))"

definition data_to_next_vertex_step :: "u32 mem_item \<Rightarrow> u64 pkg" where
  "data_to_next_vertex_step data_pkg = \<lparr>data = ucast (mem_data data_pkg), last = mem_last data_pkg\<rparr>"

definition data_to_next_vertex :: "u32 mem_item option list \<Rightarrow> u64 pkg list" where
  "data_to_next_vertex polls = map data_to_next_vertex_step (arrivals polls)"

definition urw_step_update_step :: "step_pkg \<Rightarrow> u64 pkg \<Rightarrow> step_pkg" where
  "urw_step_update_step origin_step update_vertex_pkg =
     (let update_vertex = data update_vertex_pkg; d = data origin_step
      in \<lparr>data = \<lparr>curr_vertex = (if update_vertex AND 0x80000000 = 0x80000000 then curr_vertex d OR 0x80000000
                                 else ucast update_vertex),
                  remain_step = remain_step d - 1, state = state d, ring_state = ring_state d,
                  inner_state = inner_state d, assert = assert d\<rparr>,
          last = last update_vertex_pkg\<rparr>)"

text \<open>Over the polls of \<open>origin\<close>; a query that has been found waits for its update.\<close>

definition urw_step_update :: "step_pkg option list \<Rightarrow> u64 pkg list \<Rightarrow> step_pkg list" where
  "urw_step_update polls update = map2 urw_step_update_step (arrivals polls) update"

section \<open>The step as a function\<close>

definition vertex_ended :: "u32 \<Rightarrow> bool" where
  "vertex_ended v \<longleftrightarrow> v AND 0x80000000 = 0x80000000"

text \<open>The neighbours of a vertex: the part of the columns its descriptor names.\<close>

definition urw_neighbours :: "(u32 \<Rightarrow> u64) \<Rightarrow> (u32 \<Rightarrow> u32) \<Rightarrow> u32 \<Rightarrow> u32 list" where
  "urw_neighbours mem columns v =
     (let d = vd_item (mem v) in map (\<lambda>i. columns (vd_start d + of_nat i)) [0..<unat (vd_size d)])"

definition urw_next :: "(u32 \<Rightarrow> u64) \<Rightarrow> (u32 \<Rightarrow> u32) \<Rightarrow> step_pkg \<Rightarrow> u32 \<Rightarrow> step_pkg" where
  "urw_next mem columns q rn =
     (let v = curr_vertex (data q);
          d = vd_item (mem v);
          i = urw_selected_index (vd_size d) rn + vd_start d
      in q\<lparr>data := (data q)\<lparr>
             curr_vertex := (if vertex_ended v \<or> vertex_ended i \<or> vertex_ended (columns i) then v OR 0x80000000 else columns i),
             remain_step := remain_step (data q) - 1\<rparr>\<rparr>)"

lemma urw_selected_index_less:
  assumes "degree \<noteq> 0"
  shows "unat (urw_selected_index degree rn) < unat degree"
proof -
  have d: "0 < unat degree" "unat degree < 2 ^ 32" "unat rn < 2 ^ 32"
    using assms unat_less_32 [of degree] unat_less_32 [of rn] by (auto simp: unat_gt_0)
  then have lt: "round53 (unat degree * unat rn) div 2 ^ 32 < unat degree" by (intro selected_below)
  have "round53 (unat degree) = unat degree" "round53 (unat rn) = unat rn"
    using d by (auto intro!: round53_small elim!: less_trans)
  then have "unat (urw_selected_index degree rn) = (round53 (unat degree * unat rn) div 2 ^ 32) mod 2 ^ 32"
    by (simp add: urw_selected_index_def unat_of_nat)
  also have "\<dots> < unat degree" using lt mod_less_eq_dividend le_less_trans by blast
  finally show ?thesis .
qed

lemma urw_selected_none: "urw_selected_index 0 rn = 0"
  by (simp add: urw_selected_index_def round53_small)

text \<open>The kernels one after the other on one query.\<close>

lemma ucast_flag: "(ucast (v :: u32) :: u64) AND 0x80000000 = 0x80000000 \<longleftrightarrow> vertex_ended v"
  by (simp add: vertex_ended_def flag_bit_31 bit_ucast)

lemma ucast_down: "(ucast (ucast (v :: u32) :: u64) :: u32) = v"
  by (rule ucast_up_ucast_id) (simp add: is_up)

lemma flag_ended: "vertex_ended 0x80000000"
  by (simp add: vertex_ended_def)

lemma fetch_item:
  "fetch_next_mem columns (sample_to_cmd_step \<lparr>data = i, last = l\<rparr>) =
     \<lparr>mem_data = (if vertex_ended i then 0x80000000 else columns i), mem_dummy = vertex_ended i, mem_last = l\<rparr>"
  by (simp add: fetch_next_mem_def sample_to_cmd_step_def mem_access_read_def Let_def ucast_flag ucast_down
      MM_STATE_MASK_END_def MM_STATE_MASK_DUMMY_def)

lemma urw_kernels:
  "urw_step_update_step q (data_to_next_vertex_step (fetch_next_mem columns (sample_to_cmd_step
     (cal_sample_index_step (vd_direct mem (get_curr_v_step q)) rn)))) = urw_next mem columns q rn"
proof -
  let ?v = "curr_vertex (data q)"
  have vd: "vd_direct mem (get_curr_v_step q) = \<lparr>data = node_vd (\<lambda>v. vd_item (mem v)) ?v, last = last q\<rparr>"
    unfolding get_curr_v_step_def by (rule load_vertex_eq)
  show ?thesis
  proof (cases "vertex_ended ?v")
    case True
    then have "node_vd (\<lambda>v. vd_item (mem v)) ?v = \<lparr>vd_start = ?v, vd_size = 0\<rparr>"
      by (simp add: node_vd_def vertex_ended_def)
    with True show ?thesis
      by (simp add: vd cal_sample_index_step_def urw_selected_none fetch_item data_to_next_vertex_step_def
          urw_step_update_step_def urw_next_def Let_def ucast_flag flag_ended)
  next
    case False
    then have "node_vd (\<lambda>v. vd_item (mem v)) ?v = vd_item (mem ?v)"
      by (simp add: node_vd_def vertex_ended_def)
    with False show ?thesis
      by (simp add: vd cal_sample_index_step_def fetch_item data_to_next_vertex_step_def
          urw_step_update_step_def urw_next_def Let_def ucast_flag ucast_down flag_ended)
  qed
qed

section \<open>The whole step\<close>

text \<open>The streams from the descriptors to the new queries.\<close>

definition urw_wired :: "(u32 \<Rightarrow> u32) \<Rightarrow> step_pkg list \<Rightarrow> u32 list \<Rightarrow> vertex_descriptor pkg list \<Rightarrow> step_pkg list \<Rightarrow> bool" where
  "urw_wired columns qs rng vds news \<longleftrightarrow>
     (\<exists>p1 p2 p3 p4. arrivals p1 = vds \<and> arrivals p2 = cal_sample_index p1 rng \<and>
        arrivals p3 = map (fetch_next_mem columns) (sample_to_cmd p2) \<and>
        arrivals p4 = fst (get_curr_v qs) \<and> news = urw_step_update p4 (data_to_next_vertex p3))"

lemma urw_wired_eq:
  "urw_wired columns qs rng vds news \<longleftrightarrow>
     news = map2 urw_step_update_step qs (map data_to_next_vertex_step (map (fetch_next_mem columns) (map sample_to_cmd_step
       (map2 cal_sample_index_step vds rng))))"
proof
  assume "urw_wired columns qs rng vds news"
  then show "news = map2 urw_step_update_step qs (map data_to_next_vertex_step (map (fetch_next_mem columns) (map sample_to_cmd_step
       (map2 cal_sample_index_step vds rng))))"
    unfolding urw_wired_def cal_sample_index_def sample_to_cmd_def data_to_next_vertex_def urw_step_update_def get_curr_v_def
    by (elim exE conjE) (simp only: fst_conv)
next
  assume "news = map2 urw_step_update_step qs (map data_to_next_vertex_step (map (fetch_next_mem columns) (map sample_to_cmd_step
       (map2 cal_sample_index_step vds rng))))"
  then show "urw_wired columns qs rng vds news"
    unfolding urw_wired_def cal_sample_index_def sample_to_cmd_def data_to_next_vertex_def urw_step_update_def get_curr_v_def
    by (intro exI [of _ "map Some vds"] exI [of _ "map Some (map2 cal_sample_index_step vds rng)"]
        exI [of _ "map Some (map (fetch_next_mem columns) (map sample_to_cmd_step (map2 cal_sample_index_step vds rng)))"]
        exI [of _ "map Some qs"]) (simp only: arrivals_Some fst_conv simp_thms)
qed

lemma urw_wired_whole:
  assumes "length rng = length qs"
  shows "urw_wired columns qs rng (map (vd_direct mem) (snd (get_curr_v qs))) news \<longleftrightarrow> news = map2 (urw_next mem columns) qs rng"
proof -
  have "map2 urw_step_update_step qs (map data_to_next_vertex_step (map (fetch_next_mem columns) (map sample_to_cmd_step
      (map2 cal_sample_index_step (map (vd_direct mem) (snd (get_curr_v qs))) rng)))) = map2 (urw_next mem columns) qs rng"
    using assms by (induction rng qs rule: list_induct2) (simp_all add: get_curr_v_def urw_kernels)
  then show ?thesis by (simp only: urw_wired_eq)
qed

lemma prefix_zip: "prefix as as' \<Longrightarrow> prefix (zip as bs) (zip as' bs)" "prefix bs bs' \<Longrightarrow> prefix (zip as bs) (zip as bs')"
proof -
  show "prefix as as' \<Longrightarrow> prefix (zip as bs) (zip as' bs)"
  proof (induction as arbitrary: as' bs)
    case (Cons a as)
    then show ?case by (cases as'; cases bs) auto
  qed simp
  show "prefix bs bs' \<Longrightarrow> prefix (zip as bs) (zip as bs')"
  proof (induction bs arbitrary: bs' as)
    case (Cons b bs)
    then show ?case by (cases bs'; cases as) auto
  qed simp
qed

lemma urw_wired_prefix:
  assumes "prefix vds vds'" and "urw_wired columns qs rng vds news" and "urw_wired columns qs rng vds' news'"
  shows "prefix news news'"
  using assms(2,3) unfolding urw_wired_eq by (auto intro!: map_mono_prefix prefix_zip assms(1))

text \<open>A query at a vertex with neighbours moves to one of them.\<close>

lemma urw_next_neighbour:
  assumes "\<not> vertex_ended (curr_vertex (data q))" and "vd_size (vd_item (mem (curr_vertex (data q)))) \<noteq> 0"
    and "unat (vd_start (vd_item (mem (curr_vertex (data q))))) + unat (vd_size (vd_item (mem (curr_vertex (data q))))) \<le> 2 ^ 31"
    and "\<forall>v \<in> set (urw_neighbours mem columns (curr_vertex (data q))). \<not> vertex_ended v"
  shows "curr_vertex (data (urw_next mem columns q rn)) =
      urw_neighbours mem columns (curr_vertex (data q)) ! unat (urw_selected_index (vd_size (vd_item (mem (curr_vertex (data q))))) rn)"
    and "curr_vertex (data (urw_next mem columns q rn)) \<in> set (urw_neighbours mem columns (curr_vertex (data q)))"
proof -
  let ?d = "vd_item (mem (curr_vertex (data q)))"
  let ?i = "urw_selected_index (vd_size ?d) rn"
  have i: "unat ?i < unat (vd_size ?d)" by (rule urw_selected_index_less [OF assms(2)])
  then have "unat (?i + vd_start ?d) < 2 ^ 31"
    using assms(3) by (simp add: unat_word_ariths)
  then have "take_bit 31 (?i + vd_start ?d) = ?i + vd_start ?d"
    by (simp only: word_unat_eq_iff unsigned_take_bit_eq take_bit_nat_eq_self)
  then have unended: "\<not> vertex_ended (?i + vd_start ?d)"
    by (metis vertex_ended_def flag_bit_31(2) bit_take_bit_iff less_irrefl)
  have nth: "urw_neighbours mem columns (curr_vertex (data q)) ! unat ?i = columns (?i + vd_start ?d)"
    using i by (simp add: urw_neighbours_def Let_def add.commute)
  have "urw_neighbours mem columns (curr_vertex (data q)) ! unat ?i \<in> set (urw_neighbours mem columns (curr_vertex (data q)))"
    using i by (intro nth_mem) (simp add: urw_neighbours_def Let_def)
  with assms(1,4) unended nth show
    "curr_vertex (data (urw_next mem columns q rn)) = urw_neighbours mem columns (curr_vertex (data q)) ! unat ?i"
    "curr_vertex (data (urw_next mem columns q rn)) \<in> set (urw_neighbours mem columns (curr_vertex (data q)))"
    by (auto simp: urw_next_def Let_def)
qed

text \<open>
  C4: A step of a uniform random walk with the cached vertex loader.  For each update policy, under every
  interleaving of the loader's kernels and whatever the others find when they poll, the new queries
  written so far are a prefix of those of the step as a function of the graph, which can always be
  completed; a walk at a vertex with neighbours moves to the neighbour its random number selects, and one
  that has ended stays where it is.
\<close>

theorem urw_step_moves_walks:
  assumes "policy \<in> {vcache_update_dac, vcache_update_direct, vcache_update_none}" and "vcache_depths_ok D"
    and "vcache_run D policy mem (vcache_start (snd (get_curr_v qs))) s" and "length rng = length qs"
    and "urw_wired columns qs rng (out_vd s) news"
  shows "prefix news (map2 (urw_next mem columns) qs rng) \<and>
    (\<exists>s'. vcache_run D policy mem s s' \<and> urw_wired columns qs rng (out_vd s') (map2 (urw_next mem columns) qs rng)) \<and>
    (\<forall>q \<in> set qs. \<forall>rn. vertex_ended (curr_vertex (data q)) \<longrightarrow>
       curr_vertex (data (urw_next mem columns q rn)) = curr_vertex (data q)) \<and>
    (\<forall>q \<in> set qs. \<forall>rn. \<not> vertex_ended (curr_vertex (data q)) \<and> vd_size (vd_item (mem (curr_vertex (data q)))) \<noteq> 0 \<and>
       unat (vd_start (vd_item (mem (curr_vertex (data q))))) + unat (vd_size (vd_item (mem (curr_vertex (data q))))) \<le> 2 ^ 31 \<and>
       (\<forall>v \<in> set (urw_neighbours mem columns (curr_vertex (data q))). \<not> vertex_ended v) \<longrightarrow>
       curr_vertex (data (urw_next mem columns q rn)) =
         urw_neighbours mem columns (curr_vertex (data q)) ! unat (urw_selected_index (vd_size (vd_item (mem (curr_vertex (data q))))) rn) \<and>
       curr_vertex (data (urw_next mem columns q rn)) \<in> set (urw_neighbours mem columns (curr_vertex (data q))))"
proof -
  note loader = update_policy.vcache_correct [OF policies [OF assms(1)] assms(2,3)]
  have whole: "urw_wired columns qs rng (map (vd_direct mem) (snd (get_curr_v qs))) (map2 (urw_next mem columns) qs rng)"
    by (simp add: urw_wired_whole [OF assms(4)])
  from urw_wired_prefix [OF loader(1) assms(5) this] have "prefix news (map2 (urw_next mem columns) qs rng)" .
  moreover from loader(2) whole
  have "\<exists>s'. vcache_run D policy mem s s' \<and> urw_wired columns qs rng (out_vd s') (map2 (urw_next mem columns) qs rng)" by metis
  moreover have "curr_vertex (data (urw_next mem columns q rn)) = curr_vertex (data q)" if "vertex_ended (curr_vertex (data q))" for q rn
    using that by (simp add: urw_next_def Let_def) (metis vertex_ended_def word_ao_absorbs(6) or.commute and.commute)
  ultimately show ?thesis using urw_next_neighbour by blast
qed

text \<open>A graph in which vertex 7 has the neighbours 5 and 9.\<close>

definition urw_graph :: "u32 \<Rightarrow> u64" where
  "urw_graph v = (if v = 7 then vd_pack 0 100 2 else 0)"

definition urw_columns :: "u32 \<Rightarrow> u32" where
  "urw_columns i = (if i = 100 then 5 else 9)"

definition urw_queries :: "step_pkg list" where
  "urw_queries =
     [\<lparr>data = \<lparr>curr_vertex = 7, remain_step = 6, state = 0, ring_state = 0, inner_state = 0, assert = 0\<rparr>, last = False\<rparr>,
      \<lparr>data = \<lparr>curr_vertex = 0x80000003, remain_step = 2, state = 0, ring_state = 1, inner_state = 0, assert = 0\<rparr>, last = False\<rparr>]"

theorem urw_step_moves_walks_witness:
  "\<exists>s'. vcache_run urw_depths vcache_update_dac urw_graph (vcache_start (snd (get_curr_v urw_queries))) s' \<and>
     urw_wired urw_columns urw_queries [0x80000000, 5] (out_vd s')
       [\<lparr>data = \<lparr>curr_vertex = 9, remain_step = 5, state = 0, ring_state = 0, inner_state = 0, assert = 0\<rparr>, last = False\<rparr>,
        \<lparr>data = \<lparr>curr_vertex = 0x80000003, remain_step = 1, state = 0, ring_state = 1, inner_state = 0, assert = 0\<rparr>, last = False\<rparr>]"
proof -
  have policy: "vcache_update_dac \<in> {vcache_update_dac, vcache_update_direct, vcache_update_none}" by simp
  have wired: "urw_wired urw_columns urw_queries [0x80000000, 5] (out_vd (vcache_start (snd (get_curr_v urw_queries)))) []"
    by (simp add: urw_wired_eq vcache_start_def)
  have "map2 (urw_next urw_graph urw_columns) urw_queries [0x80000000, 5] =
       [\<lparr>data = \<lparr>curr_vertex = 9, remain_step = 5, state = 0, ring_state = 0, inner_state = 0, assert = 0\<rparr>, last = False\<rparr>,
        \<lparr>data = \<lparr>curr_vertex = 0x80000003, remain_step = 1, state = 0, ring_state = 1, inner_state = 0, assert = 0\<rparr>, last = False\<rparr>]"
    by (simp add: urw_queries_def urw_next_def urw_graph_def urw_columns_def Let_def vertex_ended_def urw_selected_index_def round53_small)
  moreover have "length [0x80000000, 5 :: u32] = length urw_queries" by (simp add: urw_queries_def)
  ultimately show ?thesis
    using urw_step_moves_walks [OF policy urw_depths_ok rtranclp.rtrancl_refl _ wired] by metis
qed

end
