(* ===== verification/Metapath_Reader.thy ===== *)
theory Metapath_Reader
  imports Walk_Order
begin

text \<open>
  The scheduler, the burst reader and the two merges of \<open>app/metapath\<close> together: all lists with neighbours
  are read, and their rows leave \<open>inter_merge\<close> in the order of the requests.  A list is followed through
  the identifiers it gets, and the entry that the sampler selects from its rows has the label.
\<close>

section \<open>The burst reader as it is connected\<close>

definition update_pkgs :: "scheduled list \<Rightarrow> next_vertex_ordered pkg list" where
  "update_pkgs outs = concat (map (\<lambda>x. case x of Update u \<Rightarrow> [u] | _ \<Rightarrow> []) outs)"

definition single_pkgs :: "scheduled list \<Rightarrow> burst_cmd pkg list" where
  "single_pkgs outs = concat (map (\<lambda>x. case x of Single_Burst c \<Rightarrow> [c] | _ \<Rightarrow> []) outs)"

definition dynamic_pkgs :: "scheduled list \<Rightarrow> vertex_descriptor_ordered pkg list" where
  "dynamic_pkgs outs = concat (map (\<lambda>x. case x of Dynamic_Burst v \<Rightarrow> [v] | _ \<Rightarrow> []) outs)"

fun is_single :: "scheduled \<Rightarrow> bool" where
  "is_single (Single_Burst c) = True"
| "is_single _ = False"

fun is_burst_pkg :: "scheduled \<Rightarrow> bool" where
  "is_burst_pkg (Update u) = False"
| "is_burst_pkg _ = True"

text \<open>\<open>mid\<close> has left \<open>intra_merge\<close> and \<open>rows\<close> have left \<open>inter_merge\<close> when all commands are executed.\<close>

definition burst_reader_wired :: "(u32 \<Rightarrow> weight_item) \<Rightarrow> scheduled list \<Rightarrow> (burst_sync pkg \<times> weight_item) list \<Rightarrow> bool" where
  "burst_reader_wired mem outs rows \<longleftrightarrow>
     (\<exists>bursts cmds p0 p1 p2 rows0 rows1 rows2 mid s s'.
        bursts = filter is_burst_pkg outs \<and> cmd_main 0 (dynamic_pkgs bursts) = Some cmds \<and>
        arrivals p0 = map snd (filter (Not \<circ> fst) cmds) \<and> rows0 = fst (burst_loop (dynamic_burst_1 mem) (0, False) p0) \<and>
        arrivals p1 = map snd (filter fst cmds) \<and> rows1 = fst (burst_loop (dynamic_burst_32 mem) (0, False) p1) \<and>
        arrivals p2 = single_pkgs bursts \<and> rows2 = fst (burst_loop (single_burst mem) (0, False) p2) \<and>
        (merge_run intra_merge_step intra_recv1 intra_recv2 dyn_end)\<^sup>*\<^sup>*
          (intra_init, annotate dyn_end (places (Not \<circ> fst) cmds) rows0, annotate dyn_end (places fst cmds) rows1, [])
          (s, [], [], mid) \<and> length mid = length rows0 + length rows1 \<and>
        (merge_run inter_merge_step inter_recv1 inter_recv2 burst_end)\<^sup>*\<^sup>*
          (inter_init, annotate burst_end (places is_single bursts) rows2, annotate burst_end (places (Not \<circ> is_single) bursts) mid, [])
          (s', [], [], rows) \<and> length rows = length rows2 + length mid)"

section \<open>The requests of the scheduler\<close>

text \<open>The requests for the lists that are not empty, with the identifiers they get.\<close>

definition commands_in :: "u16 \<Rightarrow> scheduled \<Rightarrow> nat" where
  "commands_in d out = (case out of Dynamic_Burst v \<Rightarrow> length (fst (the (cmd_generator d v))) | _ \<Rightarrow> 0)"

fun read_requests :: "nat \<Rightarrow> nat \<Rightarrow> nat \<Rightarrow> (nat \<Rightarrow> weight_item list) \<Rightarrow> (vertex_descriptor pkg \<times> u16) list \<Rightarrow> request list" where
  "read_requests n g d rnd [] = []"
| "read_requests n g d rnd (x # ins) =
     (if vd_size (data (fst x)) = 0 then read_requests (Suc n) g d rnd ins
      else (query_id n, query_id g, of_nat d, x, rnd n) # read_requests (Suc n) (Suc g)
        (d + commands_in (of_nat d) (fst (vd_scheduler_step (query_id n) (query_id g) x))) rnd ins)"

definition sched_of :: "request \<Rightarrow> scheduled" where
  "sched_of q = (case q of (i, b, d, inp, rs) \<Rightarrow> fst (vd_scheduler_step i b inp))"

definition request_rows :: "(u32 \<Rightarrow> weight_item) \<Rightarrow> request \<Rightarrow> (burst_sync pkg \<times> weight_item) list" where
  "request_rows mem q = (case q of (i, b, d, inp, rs) \<Rightarrow> scheduled_rows mem d (fst (vd_scheduler_step i b inp)))"

lemma step_shape:
  "vd_size (data (fst x)) = 0 \<Longrightarrow> vd_scheduler_step i b x =
     (Update \<lparr>data = \<lparr>nvo_vertex = 0x80000000, nvo_id = i\<rparr>, last = last (fst x)\<rparr>, False)"
  "vd_size (data (fst x)) \<noteq> 0 \<Longrightarrow> is_burst_pkg (fst (vd_scheduler_step i b x)) \<and> snd (vd_scheduler_step i b x)"
  by (cases x; simp add: vd_scheduler_step_def Let_def)+

lemma scheduler_requests:
  assumes "\<forall>x \<in> set ins. \<not> last (fst x)" and "outs = vd_scheduler (query_id n) (query_id g) ins"
  shows "filter is_burst_pkg outs = map sched_of (read_requests n g d rnd ins)"
    and "update_pkgs outs = map (\<lambda>kq. update_of kq 0x80000000) (filter (\<lambda>kq. vd_size (data (fst (snd kq))) = 0) (enumerate n ins))"
proof -
  have "filter is_burst_pkg outs = map sched_of (read_requests n g d rnd ins) \<and>
    update_pkgs outs = map (\<lambda>kq. update_of kq 0x80000000) (filter (\<lambda>kq. vd_size (data (fst (snd kq))) = 0) (enumerate n ins))"
    using assms
  proof (induction ins arbitrary: n g d outs)
    case (Cons x ins)
    show ?case
    proof (cases "vd_size (data (fst x)) = 0")
      case True
      with Cons.prems Cons.IH [OF _ refl, of "Suc n" g] show ?thesis
        by (simp add: step_shape update_pkgs_def update_of_def)
    next
      case False
      obtain out where step: "vd_scheduler_step (query_id n) (query_id g) x = (out, True)" "is_burst_pkg out"
        using step_shape(2) [OF False] by (metis prod.collapse)
      with False Cons.prems Cons.IH [OF _ refl, of "Suc n" "Suc g" "d + commands_in (of_nat d) out"] show ?thesis
        by (cases out) (simp_all add: update_pkgs_def sched_of_def)
    qed
  qed (simp add: update_pkgs_def)
  then show "filter is_burst_pkg outs = map sched_of (read_requests n g d rnd ins)"
    "update_pkgs outs = map (\<lambda>kq. update_of kq 0x80000000) (filter (\<lambda>kq. vd_size (data (fst (snd kq))) = 0) (enumerate n ins))"
    by blast+
qed

text \<open>The single bursts.\<close>

lemma singles_read:
  "\<forall>q \<in> set reqs. is_burst_pkg (sched_of q) \<Longrightarrow>
     concat (map (single_burst mem) (single_pkgs (map sched_of reqs))) =
       concat (map (request_rows mem) (filter (is_single \<circ> sched_of) reqs))"
proof (induction reqs)
  case (Cons q reqs)
  then show ?case
    by (cases "sched_of q") (auto simp: single_pkgs_def request_rows_def sched_of_def scheduled_rows_def split: prod.splits)
qed (simp add: single_pkgs_def)

text \<open>The lists that are read in bursts.  The list of a request does not depend on its identifiers.\<close>

definition input_list :: "vertex_descriptor pkg \<times> u16 \<Rightarrow> vertex_descriptor_ordered" where
  "input_list x = data (neighbour_list 0 0 x)"

lemma neighbour_list_bounds:
  "list_start (data (neighbour_list i b x)) = list_start (input_list x)"
  "list_end (data (neighbour_list i b x)) = list_end (input_list x)"
  "word_start (data (neighbour_list i b x)) = word_start (input_list x)"
  "word_end (data (neighbour_list i b x)) = word_end (input_list x)"
  "no_masked_burst (data (neighbour_list i b x)) = no_masked_burst (input_list x)"
  by (simp_all add: input_list_def neighbour_list_def list_start_def list_end_def word_start_def word_end_def no_masked_burst_def)

definition input_ok :: "vertex_descriptor pkg \<times> u16 \<Rightarrow> weight_item list \<Rightarrow> bool" where
  "input_ok x rs \<longleftrightarrow> list_end (input_list x) + 512 \<le> 2 ^ 32 \<and> no_masked_burst (input_list x) \<and> snd x \<noteq> 0 \<and>
     length rs = (word_end (input_list x) - word_start (input_list x)) div 16"

definition inputs_ok :: "nat \<Rightarrow> (nat \<Rightarrow> weight_item list) \<Rightarrow> (vertex_descriptor pkg \<times> u16) list \<Rightarrow> bool" where
  "inputs_ok n rnd ins \<longleftrightarrow> (\<forall>x \<in> set ins. \<not> last (fst x)) \<and>
     (\<forall>(k, x) \<in> set (enumerate n ins). vd_size (data (fst x)) \<noteq> 0 \<longrightarrow> input_ok x (rnd k))"

lemma inputs_ok_Cons:
  "inputs_ok n rnd (x # ins) \<longleftrightarrow> \<not> last (fst x) \<and> (vd_size (data (fst x)) \<noteq> 0 \<longrightarrow> input_ok x (rnd n)) \<and> inputs_ok (Suc n) rnd ins"
  by (auto simp: inputs_ok_def)

lemma input_list_nonempty: "vd_size (data (fst x)) \<noteq> 0 \<Longrightarrow> list_start (input_list x) < list_end (input_list x)"
  by (simp add: input_list_def neighbour_list_def list_start_def list_end_def unat_gt_0)

lemma dynamic_shape: "fst (vd_scheduler_step i b x) = Dynamic_Burst v \<Longrightarrow> v = neighbour_list i b x"
  by (cases x) (auto simp: vd_scheduler_step_def neighbour_list_def Let_def split: if_splits)

lemma query_id_flag: "query_id n AND 0x8000 = 0" "query_id n AND 0x7fff = query_id n"
  by (simp_all only: query_id_def low_id)

lemma dynamics_read:
  "inputs_ok n rnd ins \<Longrightarrow> \<exists>cmds. cmd_main (of_nat d) (dynamic_pkgs (map sched_of (read_requests n g d rnd ins))) = Some cmds \<and>
     list_rows mem cmds = concat (map (request_rows mem) (filter (Not \<circ> (is_single \<circ> sched_of)) (read_requests n g d rnd ins))) \<and>
     ids_from d cmds \<and> (\<forall>c \<in> set cmds. bc_id (data (snd c)) AND 0x8000 = 0)"
proof (induction ins arbitrary: n g d)
  case (Cons x ins)
  show ?case
  proof (cases "vd_size (data (fst x)) = 0")
    case True
    with Cons show ?thesis by (simp add: inputs_ok_Cons)
  next
    case False
    define out where "out = fst (vd_scheduler_step (query_id n) (query_id g) x)"
    have prems: "input_ok x (rnd n)" "inputs_ok (Suc n) rnd ins" using Cons.prems False by (simp_all add: inputs_ok_Cons)
    obtain rest where rest: "cmd_main (of_nat (d + commands_in (of_nat d) out))
          (dynamic_pkgs (map sched_of (read_requests (Suc n) (Suc g) (d + commands_in (of_nat d) out) rnd ins))) = Some rest"
      "list_rows mem rest = concat (map (request_rows mem) (filter (Not \<circ> (is_single \<circ> sched_of))
          (read_requests (Suc n) (Suc g) (d + commands_in (of_nat d) out) rnd ins)))"
      "ids_from (d + commands_in (of_nat d) out) rest" "\<forall>c \<in> set rest. bc_id (data (snd c)) AND 0x8000 = 0"
      using Cons.IH [OF prems(2)] by blast
    have reqs: "read_requests n g d rnd (x # ins) = (query_id n, query_id g, of_nat d, x, rnd n) #
        read_requests (Suc n) (Suc g) (d + commands_in (of_nat d) out) rnd ins"
      using False by (simp add: out_def)
    have here: "sched_of (query_id n, query_id g, of_nat d, x, rnd n) = out" by (simp add: sched_of_def out_def)
    consider (single) c where "out = Single_Burst c" | (dynamic) v where "out = Dynamic_Burst v"
      using step_shape(2) [OF False, of "query_id n" "query_id g"] by (cases out) (auto simp: out_def)
    then show ?thesis
    proof cases
      case single
      with rest here show ?thesis
        unfolding reqs by (simp add: dynamic_pkgs_def commands_in_def comp_def)
    next
      case dynamic
      then have v: "v = neighbour_list (query_id n) (query_id g) x" by (simp add: out_def dynamic_shape)
      then have ok: "descriptor_ok v"
        using prems(1) by (simp add: descriptor_ok_def neighbour_list_bounds input_ok_def)
          (simp add: neighbour_list_def query_id_flag)
      obtain cmds where cmds: "cmd_generator (of_nat d) v = Some (cmds, of_nat (d + length cmds))" "ids_from d cmds"
        using ok by (rule cmd_generator_ids)
      have "commands_in (of_nat d) out = length cmds" by (simp add: commands_in_def dynamic cmds(1))
      note rest = rest [unfolded this]
      have "cmd_main (of_nat d) [v] = Some cmds" by (simp add: cmds(1))
      from cmd_main_bc_id [OF _ this] ok have "\<forall>c \<in> set cmds. bc_id (data (snd c)) AND 0x8000 = 0" by simp
      moreover have "request_rows mem (query_id n, query_id g, of_nat d, x, rnd n) = list_rows mem cmds"
        using dynamic cmds(1) by (simp add: request_rows_def scheduled_rows_def out_def)
      ultimately show ?thesis
        using rest cmds here dynamic unfolding reqs \<open>commands_in (of_nat d) out = length cmds\<close>
        by (intro exI [of _ "cmds @ rest"]) (auto simp: dynamic_pkgs_def list_rows_eq ids_from_append comp_def)
    qed
  qed
qed (simp add: dynamic_pkgs_def list_rows_def ids_from_def)

section \<open>The rows of a request\<close>

lemma send_dynamic_cmd_fields:
  "bc_burst_id (data (fst (send_dynamic_cmd n pkg end' e d c))) AND 0x7fff = vdo_burst_id (data pkg) AND 0x7fff"
  "last (fst (send_dynamic_cmd n pkg end' e d c)) \<Longrightarrow> last pkg"
  unfolding send_dynamic_cmd_def burst_cmd_gen_def Let_def
  by (intro bit_word_eqI, auto simp: range_bits bit_and_iff bit_0x7fff simp del: bit_numeral_word_iff)

lemma commands_fields:
  "c \<in> set (commands pkg end' e d p) \<Longrightarrow>
     bc_burst_id (data (snd c)) AND 0x7fff = vdo_burst_id (data pkg) AND 0x7fff \<and> (last (snd c) \<longrightarrow> last pkg)"
  by (induction pkg end' e d p rule: commands.induct) (auto simp: send_dynamic_cmd_fields)

lemma command_rows_fields:
  "r \<in> set (command_rows mem c) \<Longrightarrow> burst_tag r = bc_burst_id (data (snd c)) AND 0x7fff \<and> last (fst r) = last (snd c)"
  by (auto simp: command_rows_def dynamic_burst_32_def dynamic_burst_1_def Let_def burst_tag_def split: if_splits)

lemma request_rows_fields:
  assumes "q = (query_id n, query_id g, d, x, rs)" and "vd_size (data (fst x)) \<noteq> 0" and "input_ok x rs"
    and "r \<in> set (request_rows mem q)"
  shows "burst_tag r = query_id g" and "last (fst r) \<Longrightarrow> last (fst x)"
proof -
  let ?pkg = "neighbour_list (query_id n) (query_id g) x"
  have "burst_tag r = query_id g \<and> (last (fst r) \<longrightarrow> last (fst x))"
  proof (cases "fst (vd_scheduler_step (query_id n) (query_id g) x)")
    case (Update u)
    with step_shape(2) [OF assms(2), of "query_id n" "query_id g"] show ?thesis by simp
  next
    case (Single_Burst c)
    then have "bc_burst_id (data c) = query_id g \<and> last c = last (fst x)"
      by (cases x) (auto simp: vd_scheduler_step_def burst_cmd_gen_def Let_def query_id_flag split: if_splits)
    with assms(1,4) Single_Burst show ?thesis
      by (auto simp: request_rows_def scheduled_rows_def single_burst_def Let_def burst_tag_def or_flag query_id_flag)
  next
    case (Dynamic_Burst v)
    have v: "v = ?pkg" using dynamic_shape Dynamic_Burst by blast
    have e: "list_end (data v) + 512 \<le> 2 ^ 32" using assms(3) by (simp add: v neighbour_list_bounds input_ok_def)
    from assms(4) obtain c where c: "r \<in> set (command_rows mem c)" "c \<in> set (fst (the (cmd_generator d v)))"
      by (auto simp: assms(1) request_rows_def scheduled_rows_def Dynamic_Burst list_rows_eq cmd_generator_plan(1) [OF e] Let_def)
    from commands_fields c(2) have "bc_burst_id (data (snd c)) AND 0x7fff = vdo_burst_id (data v) AND 0x7fff \<and> (last (snd c) \<longrightarrow> last v)"
      by (simp add: cmd_generator_plan(1) [OF e] Let_def)
    with command_rows_fields [OF c(1)] show ?thesis by (simp add: v neighbour_list_def query_id_flag)
  qed
  then show "burst_tag r = query_id g" "last (fst r) \<Longrightarrow> last (fst x)" by blast+
qed

lemma input_request_ok:
  assumes "vd_size (data (fst x)) \<noteq> 0" and "input_ok x rs"
  shows "request_ok mem (query_id n, query_id g, d, x, rs)"
    and "length (request_rows mem (query_id n, query_id g, d, x, rs)) = length rs"
proof -
  note ok = assms(2) [unfolded input_ok_def]
  let ?vd = "data (neighbour_list (query_id n) (query_id g) x)"
  have "list_end ?vd + 512 \<le> 2 ^ 32" "list_start ?vd < list_end ?vd" "no_masked_burst ?vd"
    using ok input_list_nonempty [OF assms(1)] by (simp_all add: neighbour_list_bounds)
  from arg_cong [OF scheduled_list(2) [OF refl this refl, where mem = mem and d = d], of length]
  show len: "length (request_rows mem (query_id n, query_id g, d, x, rs)) = length rs"
    using ok by (simp add: request_rows_def rows_info_def neighbour_list_bounds)
  then show "request_ok mem (query_id n, query_id g, d, x, rs)"
    using ok input_list_nonempty [OF assms(1)]
    by (simp add: request_ok_def request_list_def neighbour_list_bounds request_rows_def)
qed

lemma request_groups_rows: "request_groups mem q = filtered (request_rows mem q) (snd (snd (snd (snd q))))"
  by (cases q) (simp add: request_groups_def request_rows_def)

lemma group_ends: "group burst_end rows \<longleftrightarrow> group ends (map fst rows)"
proof
  have end': "burst_end r \<longleftrightarrow> ends (fst r)" for r :: "burst_sync pkg \<times> 'a" by (simp add: burst_end_def ends_def)
  show "group ends (map fst rows)" if "group burst_end rows"
    using that by (auto simp: group_def end')
  assume "group ends (map fst rows)"
  then obtain ys y where ys: "map fst rows = ys @ [y]" "\<forall>x \<in> set ys. \<not> ends x" "ends y" by (auto simp: group_def)
  then obtain rs r where "rows = rs @ [r]" by (cases rows rule: rev_cases) auto
  with ys show "group burst_end rows" by (force simp: group_def end')
qed

lemma request_groups_fst:
  "length (request_rows mem (i, b, d, x, rs)) = length rs \<Longrightarrow>
     map fst (request_groups mem (i, b, d, x, rs)) = map fst (request_rows mem (i, b, d, x, rs))"
  by (auto simp: request_groups_rows filtered_def label_filter_step_def split_beta intro!: nth_equalityI)

lemma request_rows_group:
  assumes "vd_size (data (fst x)) \<noteq> 0" and "input_ok x rs" and "q = (query_id n, query_id g, d, x, rs)"
  shows "group burst_end (request_rows mem q)"
proof -
  have "is_burst (request_groups mem q)"
    using request_burst(1) [OF input_request_ok(1) [OF assms(1,2)] refl] by (simp add: assms(3))
  moreover have "map fst (request_groups mem q) = map fst (request_rows mem q)"
    unfolding assms(3) by (rule request_groups_fst [OF input_request_ok(2) [OF assms(1,2)]])
  moreover have "is_burst gs \<Longrightarrow> group ends (map fst gs)" for gs :: "group list"
    by (cases gs rule: rev_cases) (auto simp: is_burst_def group_def)
  ultimately show ?thesis unfolding group_ends by metis
qed

lemma read_requests_nth:
  "inputs_ok n rnd ins \<Longrightarrow> j < length (read_requests n g d rnd ins) \<Longrightarrow>
     \<exists>k d' x. read_requests n g d rnd ins ! j = (query_id k, query_id (g + j), d', x, rnd k) \<and>
       vd_size (data (fst x)) \<noteq> 0 \<and> input_ok x (rnd k) \<and> \<not> last (fst x)"
proof (induction ins arbitrary: n g d j)
  case (Cons x ins)
  show ?case
  proof (cases "vd_size (data (fst x)) = 0")
    case True
    with Cons show ?thesis by (simp add: inputs_ok_Cons)
  next
    case False
    with Cons show ?thesis by (cases j) (fastforce simp: inputs_ok_Cons)+
  qed
qed simp

lemma read_requests_live:
  "map (\<lambda>(i, b, d, x, rs). (i, x, rs)) (read_requests n g d rnd ins) =
     map (\<lambda>(k, x). (query_id k, x, rnd k)) (filter (\<lambda>kx. vd_size (data (fst (snd kx))) \<noteq> 0) (enumerate n ins))"
  by (induction ins arbitrary: n g d) simp_all

lemma read_requests_facts:
  assumes "inputs_ok 0 rnd ins" and "reqs = read_requests 0 0 0 rnd ins"
  shows "\<forall>q \<in> set reqs. group burst_end (request_rows mem q)"
    and "tagged burst_tag burst_end (concat (map (request_rows mem) reqs))"
    and "\<forall>q \<in> set reqs. request_ok mem q" and "\<forall>q \<in> set reqs. is_burst_pkg (sched_of q)"
    and "\<forall>q \<in> set reqs. \<forall>r \<in> set (request_rows mem q). \<not> last (fst r)"
    and "\<forall>c \<in> set (single_pkgs (map sched_of reqs)). bc_id (data c) AND 0x8000 = 0"
proof -
  have nth: "\<exists>k d x. reqs ! j = (query_id k, query_id j, d, x, rnd k) \<and> vd_size (data (fst x)) \<noteq> 0 \<and> input_ok x (rnd k) \<and> \<not> last (fst x)"
    if "j < length reqs" for j
    using read_requests_nth [OF assms(1), of j 0 0] that by (simp add: assms(2))
  then have all: "\<exists>k j d x. q = (query_id k, query_id j, d, x, rnd k) \<and> vd_size (data (fst x)) \<noteq> 0 \<and> input_ok x (rnd k) \<and> \<not> last (fst x)"
    if "q \<in> set reqs" for q
    using that by (metis in_set_conv_nth)
  show groups: "\<forall>q \<in> set reqs. group burst_end (request_rows mem q)"
    using all request_rows_group by metis
  show "\<forall>q \<in> set reqs. request_ok mem q" using all input_request_ok(1) by metis
  show "\<forall>q \<in> set reqs. is_burst_pkg (sched_of q)"
    using all step_shape(2) by (fastforce simp: sched_of_def)
  show "\<forall>q \<in> set reqs. \<forall>r \<in> set (request_rows mem q). \<not> last (fst r)"
    using all request_rows_fields(2) by metis
  have "burst_tag r = of_nat (j mod 2 ^ 15)" if "j < length reqs" "r \<in> set (request_rows mem (reqs ! j))" for j r
    using nth [OF that(1)] request_rows_fields(1) that(2) by (metis query_id_def)
  then show "tagged burst_tag burst_end (concat (map (request_rows mem) reqs))"
    using groups by (intro tagged_groups) simp_all
  have "bc_id (data c) AND 0x8000 = 0" if "q \<in> set reqs" "sched_of q = Single_Burst c" for q c
    using all [OF that(1)] that(2)
    by (auto simp: sched_of_def vd_scheduler_step_def burst_cmd_gen_def Let_def query_id_flag split: if_splits prod.splits)
  then show "\<forall>c \<in> set (single_pkgs (map sched_of reqs)). bc_id (data c) AND 0x8000 = 0"
    by (auto simp: single_pkgs_def split: scheduled.splits)
qed

section \<open>The reader hands on the rows of all requests\<close>

lemma prefix_whole: "prefix xs ys \<Longrightarrow> length xs = length ys \<Longrightarrow> xs = ys"
  by (auto simp: prefix_def)

text \<open>What the engines write, with the numbers of their commands.\<close>

lemma engine_branches:
  fixes cmds :: "(bool \<times> burst_cmd pkg) list"
  assumes "ids_from 0 cmds" and "\<forall>c \<in> set cmds. bc_id (data (snd c)) AND 0x8000 = 0"
    and "arrivals p0 = map snd (filter (Not \<circ> fst) cmds)" and "rows0 = fst (burst_loop (dynamic_burst_1 mem) (0, False) p0)"
    and "arrivals p1 = map snd (filter fst cmds)" and "rows1 = fst (burst_loop (dynamic_burst_32 mem) (0, False) p1)"
  shows "annotate dyn_end (places (Not \<circ> fst) cmds) rows0 = branch (\<lambda>j. \<not> fst (cmds ! j)) dyn_end 0 (list_rows mem cmds)"
    and "annotate dyn_end (places fst cmds) rows1 = branch (\<lambda>j. \<not> \<not> fst (cmds ! j)) dyn_end 0 (list_rows mem cmds)"
    and "length rows0 + length rows1 = length (list_rows mem cmds)"
    and "tagged dyn_tag dyn_end (list_rows mem cmds)"
proof -
  have rows0: "rows0 = concat (map (command_rows mem) (filter (Not \<circ> fst) cmds))"
    unfolding assms(4) by (subst burst_loop_eq)
      (use assms(2) in \<open>auto simp: assms(3) command_rows_def intro!: arg_cong [where f = concat]\<close>)
  have rows1: "rows1 = concat (map (command_rows mem) (filter fst cmds))"
    unfolding assms(6) by (subst burst_loop_eq)
      (use assms(2) in \<open>auto simp: assms(5) command_rows_def intro!: arg_cong [where f = concat]\<close>)
  have groups: "\<forall>c \<in> set cmds. group dyn_end (command_rows mem c)"
  proof
    fix c assume "c \<in> set cmds"
    then obtain j where "j < length cmds" "c = cmds ! j" by (auto simp: in_set_conv_nth)
    then have "bc_dynamic_id (data (snd c)) = map (\<lambda>c. bc_dynamic_id (data (snd c))) cmds ! j" by simp
    with \<open>j < length cmds\<close> have "bc_dynamic_id (data (snd c)) = of_nat (j mod 2 ^ 15)"
      using assms(1) by (simp only: ids_from_def) simp
    then obtain xs y where "command_rows mem c = xs @ [y]" "\<forall>x \<in> set xs. \<not> dyn_end x" "dyn_end y"
      by (rule command_rows_group [where mem = mem])
    then show "group dyn_end (command_rows mem c)" by (auto simp: group_def)
  qed
  show "annotate dyn_end (places (Not \<circ> fst) cmds) rows0 = branch (\<lambda>j. \<not> fst (cmds ! j)) dyn_end 0 (list_rows mem cmds)"
    using places_branch [OF groups, of "Not \<circ> fst"] by (simp add: rows0 list_rows_eq)
  show "annotate dyn_end (places fst cmds) rows1 = branch (\<lambda>j. \<not> \<not> fst (cmds ! j)) dyn_end 0 (list_rows mem cmds)"
    using places_branch [OF groups, of fst] by (simp add: rows1 list_rows_eq)
  show "length rows0 + length rows1 = length (list_rows mem cmds)"
    using length_split [of "command_rows mem" fst cmds] by (simp add: rows0 rows1 list_rows_eq)
  show "tagged dyn_tag dyn_end (list_rows mem cmds)"
    using numbered_rows [OF assms(1), of mem] by (simp add: tagged_def)
qed

text \<open>The two inputs of \<open>inter_merge\<close>.\<close>

lemma inter_branches:
  assumes "inputs_ok 0 rnd ins" and "reqs = read_requests 0 0 0 rnd ins"
    and "arrivals p2 = single_pkgs (map sched_of reqs)" and "rows2 = fst (burst_loop (single_burst mem) (0, False) p2)"
    and "mid = concat (map (request_rows mem) (filter (Not \<circ> (is_single \<circ> sched_of)) reqs))"
    and "whole = concat (map (request_rows mem) reqs)"
  shows "annotate burst_end (places is_single (map sched_of reqs)) rows2 = branch (\<lambda>j. is_single (sched_of (reqs ! j))) burst_end 0 whole"
    and "annotate burst_end (places (Not \<circ> is_single) (map sched_of reqs)) mid = branch (\<lambda>j. \<not> is_single (sched_of (reqs ! j))) burst_end 0 whole"
    and "length rows2 + length mid = length whole"
proof -
  note facts = read_requests_facts [OF assms(1,2)]
  have rows2: "rows2 = concat (map (request_rows mem) (filter (is_single \<circ> sched_of) reqs))"
    using burst_loop_eq [of p2 "single_burst mem"] facts(6) singles_read [OF facts(4)] by (simp add: assms(3,4))
  show "annotate burst_end (places is_single (map sched_of reqs)) rows2 = branch (\<lambda>j. is_single (sched_of (reqs ! j))) burst_end 0 whole"
    using places_branch [OF facts(1), of "is_single \<circ> sched_of"] by (simp add: rows2 places_map assms(6))
  show "annotate burst_end (places (Not \<circ> is_single) (map sched_of reqs)) mid = branch (\<lambda>j. \<not> is_single (sched_of (reqs ! j))) burst_end 0 whole"
    using places_branch [OF facts(1), of "Not \<circ> (is_single \<circ> sched_of)"] by (simp add: assms(5,6) places_map comp_assoc)
  show "length rows2 + length mid = length whole"
    using length_split [of "request_rows mem" "is_single \<circ> sched_of" reqs] by (simp add: rows2 assms(5,6))
qed

lemma burst_reader_correct:
  assumes "inputs_ok 0 rnd ins" and "reqs = read_requests 0 0 0 rnd ins"
  shows "burst_reader_wired mem (vd_scheduler 0 0 ins) rows \<Longrightarrow> rows = concat (map (request_rows mem) reqs)"
    and "burst_reader_wired mem (vd_scheduler 0 0 ins) (concat (map (request_rows mem) reqs))"
proof -
  have flags: "\<forall>x \<in> set ins. \<not> last (fst x)" using assms(1) by (simp add: inputs_ok_def)
  have bursts: "filter is_burst_pkg (vd_scheduler 0 0 ins) = map sched_of reqs"
    using scheduler_requests(1) [OF flags refl, of 0 0 0 rnd] by (simp add: assms(2))
  obtain cmds where cmds: "cmd_main 0 (dynamic_pkgs (map sched_of reqs)) = Some cmds"
    "list_rows mem cmds = concat (map (request_rows mem) (filter (Not \<circ> (is_single \<circ> sched_of)) reqs))"
    "ids_from 0 cmds" "\<forall>c \<in> set cmds. bc_id (data (snd c)) AND 0x8000 = 0"
    using dynamics_read [OF assms(1), of 0 0 mem] by (auto simp: assms(2))
  note tagged = read_requests_facts(2) [OF assms, of mem]
  note engines = engine_branches [OF cmds(3,4)] and inter = inter_branches [OF assms _ _ cmds(2) refl]
  show "rows = concat (map (request_rows mem) reqs)" if wired: "burst_reader_wired mem (vd_scheduler 0 0 ins) rows"
  proof -
    from wired obtain p0 p1 p2 rows0 rows1 rows2 mid s s' where w:
      "arrivals p0 = map snd (filter (Not \<circ> fst) cmds)" "rows0 = fst (burst_loop (dynamic_burst_1 mem) (0, False) p0)"
      "arrivals p1 = map snd (filter fst cmds)" "rows1 = fst (burst_loop (dynamic_burst_32 mem) (0, False) p1)"
      "arrivals p2 = single_pkgs (map sched_of reqs)" "rows2 = fst (burst_loop (single_burst mem) (0, False) p2)"
      "(merge_run intra_merge_step intra_recv1 intra_recv2 dyn_end)\<^sup>*\<^sup>*
        (intra_init, annotate dyn_end (places (Not \<circ> fst) cmds) rows0, annotate dyn_end (places fst cmds) rows1, []) (s, [], [], mid)"
      "length mid = length rows0 + length rows1"
      "(merge_run inter_merge_step inter_recv1 inter_recv2 burst_end)\<^sup>*\<^sup>*
        (inter_init, annotate burst_end (places is_single (map sched_of reqs)) rows2,
          annotate burst_end (places (Not \<circ> is_single) (map sched_of reqs)) mid, []) (s', [], [], rows)"
      "length rows = length rows2 + length mid"
      unfolding burst_reader_wired_def bursts using cmds(1) by auto
    note e = engines [OF w(1-4)]
    from intra_merged [OF e(4) w(7) [unfolded e(1,2)]] w(8) e(3) have mid: "mid = list_rows mem cmds"
      by (auto intro: prefix_whole)
    note i = inter [OF w(5,6)]
    from inter_merge_in_order [OF tagged w(9) [unfolded mid i(1,2)]] w(10) i(3) mid show ?thesis
      by (auto intro: prefix_whole)
  qed
  show "burst_reader_wired mem (vd_scheduler 0 0 ins) (concat (map (request_rows mem) reqs))"
  proof -
    define p0 where "p0 = map Some (map snd (filter (Not \<circ> fst) cmds))"
    define p1 where "p1 = map Some (map snd (filter fst cmds))"
    define p2 where "p2 = map Some (single_pkgs (map sched_of reqs))"
    have p: "arrivals p0 = map snd (filter (Not \<circ> fst) cmds)" "arrivals p1 = map snd (filter fst cmds)"
      "arrivals p2 = single_pkgs (map sched_of reqs)"
      by (simp_all only: p0_def p1_def p2_def arrivals_Some)
    note e = engines [OF p(1) refl p(2) refl] and i = inter [OF p(3) refl]
    from intra_merged [OF e(4) rtranclp.rtrancl_refl] obtain s where s:
      "(merge_run intra_merge_step intra_recv1 intra_recv2 dyn_end)\<^sup>*\<^sup>*
        (intra_init, branch (\<lambda>j. \<not> fst (cmds ! j)) dyn_end 0 (list_rows mem cmds),
          branch (\<lambda>j. \<not> \<not> fst (cmds ! j)) dyn_end 0 (list_rows mem cmds), []) (s, [], [], list_rows mem cmds)" by blast
    from inter_merge_in_order [OF tagged rtranclp.rtrancl_refl] obtain s' where s':
      "(merge_run inter_merge_step inter_recv1 inter_recv2 burst_end)\<^sup>*\<^sup>*
        (inter_init, branch (\<lambda>j. is_single (sched_of (reqs ! j))) burst_end 0 (concat (map (request_rows mem) reqs)),
          branch (\<lambda>j. \<not> is_single (sched_of (reqs ! j))) burst_end 0 (concat (map (request_rows mem) reqs)), [])
        (s', [], [], concat (map (request_rows mem) reqs))" by blast
    show ?thesis
      unfolding burst_reader_wired_def bursts
      by (intro exI conjI) (rule refl cmds(1) p s [folded e(1,2)] s' [folded i(1,2)] sym [OF e(3)] sym [OF i(3)])+
  qed
qed

section \<open>The selected entry\<close>

text \<open>The address of the entry that reservoir sampling selects from the entries with the label.\<close>

definition label_weights :: "(u32 \<Rightarrow> weight_item) \<Rightarrow> vertex_descriptor pkg \<times> u16 \<Rightarrow> nat list" where
  "label_weights mem x =
     (let vd = input_list x
      in map (\<lambda>e. if e = ucast (snd x) then 1 else 0)
           (masked_entries mem (list_start vd) (list_end vd) (word_start vd) (word_end vd)))"

definition label_choice :: "(u32 \<Rightarrow> weight_item) \<Rightarrow> vertex_descriptor pkg \<times> u16 \<Rightarrow> weight_item list \<Rightarrow> u32" where
  "label_choice mem x rs =
     (case reservoir 0 0 (zip (label_weights mem x) (map unat (entries rs))) None of
        None \<Rightarrow> 0x80000000 | Some k \<Rightarrow> of_nat (word_start (input_list x) + k))"

lemma request_choice:
  assumes "vd_size (data (fst x)) \<noteq> 0" and "input_ok x rs" and "q = (query_id n, query_id g, d, x, rs)"
  shows "chosen_address (request_groups mem q) = label_choice mem x rs"
proof -
  note ok = assms(2) [unfolded input_ok_def]
  let ?vd = "data (neighbour_list (query_id n) (query_id g) x)" and ?gs = "request_groups mem q"
  have b: "list_end ?vd + 512 \<le> 2 ^ 32" "list_start ?vd < list_end ?vd" "no_masked_burst ?vd"
    using ok input_list_nonempty [OF assms(1)] by (simp_all add: neighbour_list_bounds)
  have rows: "request_rows mem q = scheduled_rows mem d (fst (vd_scheduler_step (query_id n) (query_id g) x))"
    by (simp add: request_rows_def assms(3))
  note list = scheduled_list [OF refl b rows]
  have rs: "snd (snd (snd (snd q))) = rs" by (simp add: assms(3))
  have len: "length rs = length (request_rows mem q)" using input_request_ok(2) [OF assms(1,2)] by (simp add: assms(3))
  have info: "row_info (request_rows mem q ! j) = (of_nat (word_start (input_list x) + 16 * j), word_start (input_list x) + 16 * j + 16 = word_end (input_list x), snd x, query_id n)"
    if "j < length rs" for j
  proof -
    have "row_info (request_rows mem q ! j) = map row_info (request_rows mem q) ! j" using that len by simp
    also have "\<dots> = (of_nat (word_start (input_list x) + 16 * j), word_start (input_list x) + 16 * j + 16 = word_end (input_list x), snd x, query_id n)"
      unfolding list(2) using that ok by (simp add: rows_info_def neighbour_list_bounds)
    finally show ?thesis .
  qed
  have "bs_state (data (fst r)) = snd x" if "r \<in> set (request_rows mem q)" for r
    using that info len by (auto simp: in_set_conv_nth row_info_def Let_def)
  then have weights: "weights_of ?gs = label_weights mem x"
    using weights_filtered [OF len, of "snd x"] list(1)
    by (simp add: request_groups_rows rs label_weights_def Let_def neighbour_list_bounds)
  have gs: "?gs = zip (map fst (request_rows mem q)) (zip (map (snd \<circ> label_filter_step) (request_rows mem q)) rs)"
    using len by (auto simp: request_groups_rows filtered_def rs label_filter_step_def split_beta intro!: nth_equalityI)
  have randoms: "randoms_of ?gs = map unat (entries rs)"
    unfolding gs by (rule groups_of(2)) (simp_all add: len)
  have lgs: "length ?gs = length rs" using len by (simp add: gs)
  show ?thesis
  proof (cases "burst_choice ?gs")
    case None
    then show ?thesis
      by (simp add: chosen_address_def label_choice_def burst_choice_def weights randoms)
  next
    case (Some k)
    from burst_choice_Some [OF Some] lgs have k: "k div 16 < length rs" by (simp add: less_mult_imp_div_less mult.commute)
    then have "bs_addr (data (fst (?gs ! (k div 16)))) = of_nat (word_start (input_list x) + 16 * (k div 16))"
      using info [OF k] len by (simp add: gs row_info_def Let_def)
    then have "chosen_address ?gs = of_nat (word_start (input_list x) + 16 * (k div 16)) + of_nat (k mod 16)"
      by (simp add: chosen_address_def Some)
    also have "\<dots> = of_nat (word_start (input_list x) + k)"
      by (simp only: add.assoc mult_div_mod_eq flip: of_nat_add)
    finally show ?thesis
      using Some by (simp add: label_choice_def burst_choice_def weights randoms)
  qed
qed

text \<open>It has the label, unless none has.\<close>

definition labelled_entries :: "(u32 \<Rightarrow> weight_item) \<Rightarrow> vertex_descriptor pkg \<times> u16 \<Rightarrow> nat set" where
  "labelled_entries mem x =
     {a. list_start (input_list x) \<le> a \<and> a < list_end (input_list x) \<and> entry mem a = ucast (snd x)}"

lemma label_choice_labelled:
  assumes "vd_size (data (fst x)) \<noteq> 0" and "input_ok x rs"
  shows "labelled_entries mem x = {} \<Longrightarrow> label_choice mem x rs = 0x80000000"
    and "labelled_entries mem x \<noteq> {} \<Longrightarrow> \<exists>a \<in> labelled_entries mem x. label_choice mem x rs = of_nat a"
proof -
  let ?q = "(query_id 0, query_id 0, 0, x, rs)"
  have choice: "chosen_address (request_groups mem ?q) = label_choice mem x rs"
    by (rule request_choice [OF assms refl])
  have lab: "labelled mem ?q a \<longleftrightarrow> a \<in> labelled_entries mem x" for a
    by (simp add: labelled_def labelled_entries_def request_list_def neighbour_list_bounds) (simp add: neighbour_list_def)
  from request_burst(4) [OF input_request_ok(1) [OF assms] refl, of mem 0 0 0]
  have "label_choice mem x rs = 0x80000000 \<and> labelled_entries mem x = {} \<or> (\<exists>a \<in> labelled_entries mem x. label_choice mem x rs = of_nat a)"
    unfolding choice lab by blast
  then show "labelled_entries mem x = {} \<Longrightarrow> label_choice mem x rs = 0x80000000"
    "labelled_entries mem x \<noteq> {} \<Longrightarrow> \<exists>a \<in> labelled_entries mem x. label_choice mem x rs = of_nat a"
    by blast+
qed

end
