(* ===== verification/Metapath_Walk.thy ===== *)
theory Metapath_Walk
  imports Metapath_Reader Vertex_Cache
begin

text \<open>
  A whole step of a metapath walk (\<open>app/metapath\<close>), from the queries to the queries of the next step:
  \<open>metapath_sm\<close> looks up the label of the step, the lists are loaded through the cache and read by the
  dynamic burst reader, and \<open>src/mrw\<close> makes the queries of the next step from what \<open>msample\<close> selects.
\<close>

section \<open>metapath\_sm\<close>

definition LUT_SIZE :: nat where "LUT_SIZE = 512"

text \<open>One query: the query handed on and the label; the kernel does not set \<open>assert\<close>, \<open>w\<close> is what is there.\<close>

definition metapath_sm_step :: "u32 \<Rightarrow> u16 list \<Rightarrow> step_pkg \<Rightarrow> step_pkg \<times> u32 pkg" where
  "metapath_sm_step w state_table v =
     (let remain = remain_step (data v) AND 0x1ff;
          updated_state = state_table ! unat remain
      in (\<lparr>data = \<lparr>curr_vertex = curr_vertex (data v), remain_step = remain, state = updated_state,
              ring_state = ring_state (data v), inner_state = inner_state (data v), assert = w\<rparr>, last = last v\<rparr>,
          \<lparr>data = ucast updated_state, last = last v\<rparr>))"

text \<open>The loop, which returns after the query flagged \<open>last\<close>; \<open>ws\<close> are the values of \<open>assert\<close>.\<close>

fun metapath_sm_loop :: "u32 list \<Rightarrow> u16 list \<Rightarrow> step_pkg list \<Rightarrow> step_pkg list \<times> u32 pkg list" where
  "metapath_sm_loop (w # ws) state_table (v # vs) =
     (let (new_v, state_pkg) = metapath_sm_step w state_table v;
          (out, state_out) = (if last v then ([], []) else metapath_sm_loop ws state_table vs)
      in (new_v # out, state_pkg # state_out))"
| "metapath_sm_loop ws state_table vs = ([], [])"

definition metapath_sm :: "u32 list \<Rightarrow> (nat \<Rightarrow> u16) \<Rightarrow> step_pkg list \<Rightarrow> step_pkg list \<times> u32 pkg list" where
  "metapath_sm ws lut vs = metapath_sm_loop ws (map lut [0..<LUT_SIZE]) vs"

section \<open>src/mrw\<close>

definition mrw_query :: "step_pkg \<Rightarrow> u64 pkg" where
  "mrw_query v = \<lparr>data = ucast (curr_vertex (data v)), last = last v\<rparr>"

text \<open>The packages to \<open>query\<close> and to \<open>origin\<close>.\<close>

definition mrw_step_duplicator :: "step_pkg list \<Rightarrow> u64 pkg list \<times> step_pkg list" where
  "mrw_step_duplicator vs = (map mrw_query vs, vs)"

fun mrw_fetch_next_instance :: "(u32 \<Rightarrow> u32) \<Rightarrow> u32 pkg list \<Rightarrow> u64 pkg list" where
  "mrw_fetch_next_instance vertex [] = []"
| "mrw_fetch_next_instance vertex (in_pkg # input) =
     (let sample_index = data in_pkg;
          v = (if sample_index AND 0x80000000 = 0x80000000 then sample_index else vertex sample_index)
      in \<lparr>data = ucast v, last = last in_pkg\<rparr> # (if last in_pkg then [] else mrw_fetch_next_instance vertex input))"

definition mrw_new_step :: "u32 \<Rightarrow> step_pkg \<Rightarrow> u64 pkg \<Rightarrow> step_pkg" where
  "mrw_new_step w origin_step update_vertex_pkg =
     (let update_vertex = data update_vertex_pkg; d = data origin_step;
          new_vertex = (if update_vertex AND 0x80000000 = 0x80000000 then curr_vertex d OR 0x80000000 else ucast update_vertex)
      in \<lparr>data = \<lparr>curr_vertex = (if remain_step d = 2 then ucast (update_vertex OR 0x80000000) else new_vertex),
                  remain_step = remain_step d - 1, state = state d, ring_state = ring_state d,
                  inner_state = inner_state d, assert = w\<rparr>,
          last = last update_vertex_pkg\<rparr>)"

text \<open>The new queries, and what is written to \<open>mem[0]\<close> when the loop ends.\<close>

fun mrw_step_update :: "u32 list \<Rightarrow> int \<Rightarrow> step_pkg list \<Rightarrow> u64 pkg list \<Rightarrow> step_pkg list \<times> int option" where
  "mrw_step_update (w # ws) cnt (origin_step # origin) (update_vertex_pkg # update) =
     (let new_step_pkg = mrw_new_step w origin_step update_vertex_pkg; cnt = cnt + 1;
          (new_query, mem) = (if last update_vertex_pkg then ([], Some cnt) else mrw_step_update ws cnt origin update)
      in (new_step_pkg # new_query, mem))"
| "mrw_step_update ws cnt origin update = ([], None)"

definition mrw_fetch_next :: "u32 list \<Rightarrow> (u32 \<Rightarrow> u32) \<Rightarrow> u32 pkg list \<Rightarrow> step_pkg list \<Rightarrow> step_pkg list \<times> int option" where
  "mrw_fetch_next ws vertex input origin = mrw_step_update ws 0 origin (mrw_fetch_next_instance vertex input)"

section \<open>The step as a function\<close>

definition step_label :: "(nat \<Rightarrow> u16) \<Rightarrow> step_pkg \<Rightarrow> u16" where
  "step_label lut q = lut (unat (remain_step (data q) AND 0x1ff))"

text \<open>The list of a query with its label.\<close>

definition walk_input :: "(u32 \<Rightarrow> u64) \<Rightarrow> (nat \<Rightarrow> u16) \<Rightarrow> step_pkg \<Rightarrow> vertex_descriptor pkg \<times> u16" where
  "walk_input vmem lut q = (\<lparr>data = current_vd (\<lambda>v. vd_item (vmem v)) q, last = last q\<rparr>, step_label lut q)"

text \<open>What the step selects: an address, or the flag.\<close>

definition walk_selects :: "(u32 \<Rightarrow> u64) \<Rightarrow> (u32 \<Rightarrow> weight_item) \<Rightarrow> (nat \<Rightarrow> u16) \<Rightarrow> (nat \<Rightarrow> weight_item list) \<Rightarrow> nat \<times> step_pkg \<Rightarrow> u32" where
  "walk_selects vmem mem lut rnd kq =
     (let x = walk_input vmem lut (snd kq)
      in if vd_size (data (fst x)) = 0 then 0x80000000 else label_choice mem x (rnd (fst kq)))"

definition metapath_next :: "(u32 \<Rightarrow> u64) \<Rightarrow> (u32 \<Rightarrow> weight_item) \<Rightarrow> (u32 \<Rightarrow> u32) \<Rightarrow> (nat \<Rightarrow> u16) \<Rightarrow> (nat \<Rightarrow> weight_item list) \<Rightarrow>
    u32 \<Rightarrow> nat \<times> step_pkg \<Rightarrow> step_pkg" where
  "metapath_next vmem mem vertex lut rnd w kq =
     (let d = data (snd kq); a = walk_selects vmem mem lut rnd kq;
          v = (if a AND 0x80000000 = 0x80000000 then a else vertex a);
          remain = remain_step d AND 0x1ff
      in \<lparr>data = \<lparr>curr_vertex = (if remain = 2 then v OR 0x80000000
                                 else if v AND 0x80000000 = 0x80000000 then curr_vertex d OR 0x80000000 else v),
                  remain_step = remain - 1, state = step_label lut (snd kq), ring_state = ring_state d,
                  inner_state = inner_state d, assert = w\<rparr>, last = False\<rparr>)"

definition metapath_ok :: "(u32 \<Rightarrow> u64) \<Rightarrow> (nat \<Rightarrow> u16) \<Rightarrow> (nat \<Rightarrow> weight_item list) \<Rightarrow> step_pkg list \<Rightarrow> bool" where
  "metapath_ok vmem lut rnd qs \<longleftrightarrow> inputs_ok 0 rnd (map (walk_input vmem lut) qs)"

text \<open>The queries with a list and those without, by number.\<close>

definition listed :: "(u32 \<Rightarrow> u64) \<Rightarrow> nat \<times> step_pkg \<Rightarrow> bool" where
  "listed vmem kq \<longleftrightarrow> live (\<lambda>v. vd_item (vmem v)) (snd kq)"

section \<open>The streams of the step\<close>

definition queries_of :: "u32 list \<Rightarrow> (nat \<Rightarrow> u16) \<Rightarrow> step_pkg list \<Rightarrow> u64 pkg list" where
  "queries_of ws lut qs = fst (mrw_step_duplicator (fst (metapath_sm ws lut qs)))"

definition origins_of :: "u32 list \<Rightarrow> (nat \<Rightarrow> u16) \<Rightarrow> step_pkg list \<Rightarrow> step_pkg list" where
  "origins_of ws lut qs = snd (mrw_step_duplicator (fst (metapath_sm ws lut qs)))"

text \<open>\<open>vd_scheduler\<close> reads the descriptors of the cached loader with the labels of \<open>metapath_sm\<close>.\<close>

definition scheduler_wired :: "u32 list \<Rightarrow> (nat \<Rightarrow> u16) \<Rightarrow> step_pkg list \<Rightarrow> vertex_descriptor pkg list \<Rightarrow> scheduled list \<Rightarrow> bool" where
  "scheduler_wired ws lut qs vds outs \<longleftrightarrow>
     (\<exists>polls. arrivals polls = zip vds (map (\<lambda>p. ucast (data p)) (snd (metapath_sm ws lut qs))) \<and>
        outs = vd_scheduler 0 0 (arrivals polls))"

definition label_sampler_wired :: "(burst_sync pkg \<times> weight_item) list \<Rightarrow> weight_item list \<Rightarrow> next_vertex_ordered pkg list \<Rightarrow> bool" where
  "label_sampler_wired rows randoms sampled \<longleftrightarrow>
     (\<exists>p1 p2 p3 p4 p5. wrs_connected (filtered rows randoms) p1 p2 p3 p4 \<and>
        arrivals p5 = zip (map fst (filtered rows randoms)) (reservoir_mask p4) \<and> sampled = msample p5)"

lemma metapath_sm_loop_eq:
  "\<forall>q \<in> set qs. \<not> last q \<Longrightarrow> length ws = length qs \<Longrightarrow>
     metapath_sm_loop ws tab qs = (map2 (\<lambda>w q. fst (metapath_sm_step w tab q)) ws qs, map (\<lambda>q. snd (metapath_sm_step 0 tab q)) qs)"
  by (induction ws tab qs rule: metapath_sm_loop.induct) (auto simp: metapath_sm_step_def Let_def)

lemma low_9: "unat (w AND 0x1ff :: u32) < 512"
proof -
  have "(w AND 0x1ff) = take_bit 9 w" by (simp add: take_bit_eq_mask mask_eq_exp_minus_1)
  then have "unat (w AND 0x1ff) = take_bit 9 (unat w)" by (simp only: unsigned_take_bit_eq)
  also have "\<dots> < 512" by (simp add: take_bit_eq_mod)
  finally show ?thesis .
qed

lemma queries_streams:
  assumes "\<forall>q \<in> set qs. \<not> last q" and "length ws = length qs"
  shows "queries_of ws lut qs = map (\<lambda>q. \<lparr>data = ucast (curr_vertex (data q)), last = False\<rparr>) qs"
    and "map (\<lambda>p. ucast (data p)) (snd (metapath_sm ws lut qs)) = map (step_label lut) qs"
    and "origins_of ws lut qs = map2 (\<lambda>w q. \<lparr>data = (data q)\<lparr>remain_step := remain_step (data q) AND 0x1ff,
      state := step_label lut q, assert := w\<rparr>, last = False\<rparr>) ws qs"
proof -
  have sm: "metapath_sm ws lut qs = (map2 (\<lambda>w q. fst (metapath_sm_step w (map lut [0..<LUT_SIZE]) q)) ws qs,
      map (\<lambda>q. snd (metapath_sm_step 0 (map lut [0..<LUT_SIZE]) q)) qs)"
    unfolding metapath_sm_def by (rule metapath_sm_loop_eq [OF assms])
  have step: "metapath_sm_step w (map lut [0..<LUT_SIZE]) q =
      (\<lparr>data = (data q)\<lparr>remain_step := remain_step (data q) AND 0x1ff, state := step_label lut q, assert := w\<rparr>, last = last q\<rparr>,
       \<lparr>data = ucast (step_label lut q), last = last q\<rparr>)" for w q
    using low_9 [of "remain_step (data q)"] by (simp add: metapath_sm_step_def step_label_def Let_def LUT_SIZE_def)
  have down: "ucast (ucast l :: u32) = (l :: u16)" for l by (rule ucast_up_ucast_id) (simp add: is_up)
  show "queries_of ws lut qs = map (\<lambda>q. \<lparr>data = ucast (curr_vertex (data q)), last = False\<rparr>) qs"
    using assms(2,1) unfolding queries_of_def mrw_step_duplicator_def sm fst_conv step
    by (induction ws qs rule: list_induct2) (simp_all add: mrw_query_def)
  show "map (\<lambda>p. ucast (data p)) (snd (metapath_sm ws lut qs)) = map (step_label lut) qs"
    by (simp add: sm step down)
  show "origins_of ws lut qs = map2 (\<lambda>w q. \<lparr>data = (data q)\<lparr>remain_step := remain_step (data q) AND 0x1ff,
      state := step_label lut q, assert := w\<rparr>, last = False\<rparr>) ws qs"
    using assms(2,1) unfolding origins_of_def mrw_step_duplicator_def sm snd_conv fst_conv step
    by (induction ws qs rule: list_induct2) simp_all
qed

lemma walk_input_queries:
  assumes "\<forall>q \<in> set qs. \<not> last q" and "length ws = length qs"
    and "vds = map (vd_direct vmem) (queries_of ws lut qs)" and "scheduler_wired ws lut qs vds outs"
  shows "outs = vd_scheduler 0 0 (map (walk_input vmem lut) qs)"
proof -
  have "zip vds (map (step_label lut) qs) = map (walk_input vmem lut) qs"
    unfolding assms(3) queries_streams(1) [OF assms(1,2)] using assms(1)
    by (auto simp: load_vertex_eq walk_input_def current_vd_def intro!: nth_equalityI)
  with assms(4) show ?thesis
    by (auto simp: scheduler_wired_def queries_streams(2) [OF assms(1,2)])
qed

text \<open>What \<open>msample\<close> writes.\<close>

lemma filtered_append: "length rows = length rs \<Longrightarrow> filtered (rows @ rows') (rs @ rs') = filtered rows rs @ filtered rows' rs'"
  by (simp add: filtered_def)

lemma filtered_concat:
  "(\<And>q. q \<in> set reqs \<Longrightarrow> length (f q) = length (g q)) \<Longrightarrow>
     filtered (concat (map f reqs)) (concat (map g reqs)) = concat (map (\<lambda>q. filtered (f q) (g q)) reqs)"
proof (induction reqs)
  case (Cons q reqs)
  then show ?case by (simp add: filtered_append)
qed (simp add: filtered_def)

lemma sampled_labels:
  assumes "inputs_ok 0 rnd ins" and "burst_reader_wired mem (vd_scheduler 0 0 ins) rows"
    and "lives = filter (\<lambda>kx. vd_size (data (fst (snd kx))) \<noteq> 0) (enumerate 0 ins)"
    and "label_sampler_wired rows (concat (map (rnd \<circ> fst) lives)) sampled"
  shows "sampled = map (\<lambda>kx. update_of kx (label_choice mem (snd kx) (rnd (fst kx)))) lives"
proof -
  define reqs where "reqs = read_requests 0 0 0 rnd ins"
  note facts = read_requests_facts [OF assms(1) reqs_def]
  have live: "map (\<lambda>(i, b, d, x, rs). (i, x, rs)) reqs = map (\<lambda>(k, x). (query_id k, x, rnd k)) lives"
    using read_requests_live [of 0 0 0 rnd ins] by (simp add: reqs_def assms(3))
  have shape: "\<exists>k j d x. q = (query_id k, query_id j, d, x, rnd k) \<and> vd_size (data (fst x)) \<noteq> 0 \<and> input_ok x (rnd k)"
    if "q \<in> set reqs" for q
    using that read_requests_nth [OF assms(1), of _ 0 0] by (metis in_set_conv_nth reqs_def)
  have "map (\<lambda>q. snd (snd (snd (snd q)))) reqs = map (\<lambda>p. snd (snd p)) (map (\<lambda>(i, b, d, x, rs). (i, x, rs)) reqs)"
    by (simp add: split_beta)
  also have "\<dots> = map (rnd \<circ> fst) lives" unfolding live by (simp add: split_beta)
  finally have rnds: "map (rnd \<circ> fst) lives = map (\<lambda>q. snd (snd (snd (snd q)))) reqs" ..
  have "length (request_rows mem q) = length (snd (snd (snd (snd q))))" if "q \<in> set reqs" for q
  proof -
    from shape [OF that] obtain k j d x where q: "q = (query_id k, query_id j, d, x, rnd k)" "vd_size (data (fst x)) \<noteq> 0" "input_ok x (rnd k)"
      by blast
    from input_request_ok(2) [OF q(2,3)] show ?thesis by (simp add: q(1))
  qed
  then have groups: "filtered rows (concat (map (rnd \<circ> fst) lives)) = concat (map (request_groups mem) reqs)"
    unfolding burst_reader_correct(1) [OF assms(1) reqs_def assms(2)] rnds
    by (subst filtered_concat) (simp_all add: request_groups_rows [abs_def])
  obtain p1 p2 p3 p4 p5 where p: "wrs_connected (concat (map (request_groups mem) reqs)) p1 p2 p3 p4"
    "arrivals p5 = zip (map fst (concat (map (request_groups mem) reqs))) (reservoir_mask p4)" "sampled = msample p5"
    using assms(4) unfolding label_sampler_wired_def groups by blast
  have "\<forall>gs \<in> set (map (request_groups mem) reqs). is_burst gs \<and> sum_list (weights_of gs) < 2 ^ 32"
    using request_burst(1,2) facts(3) by auto
  note out = msample_bursts [OF this p(1,2)]
  have each: "\<lparr>data = \<lparr>nvo_vertex = chosen_address (request_groups mem q), nvo_id = bs_id (data (fst (List.last (request_groups mem q))))\<rparr>,
        last = last (fst (List.last (request_groups mem q)))\<rparr> =
      (\<lambda>(i, x, rs). \<lparr>data = \<lparr>nvo_vertex = label_choice mem x rs, nvo_id = i\<rparr>, last = False\<rparr>) ((\<lambda>(i, b, d, x, rs). (i, x, rs)) q)"
    if "q \<in> set reqs" for q
  proof -
    from shape [OF that] obtain k j d x where q: "q = (query_id k, query_id j, d, x, rnd k)" "vd_size (data (fst x)) \<noteq> 0" "input_ok x (rnd k)"
      by blast
    have "request_ok mem q" using facts(3) that by blast
    note burst = request_burst(1,3) [OF this refl]
    have "request_groups mem q \<noteq> []" using burst(1) by (simp add: is_burst_def)
    then have "fst (List.last (request_groups mem q)) \<in> set (map fst (request_groups mem q))" by simp
    also have "map fst (request_groups mem q) = map fst (request_rows mem q)"
      unfolding q(1) by (rule request_groups_fst [OF input_request_ok(2) [OF q(2,3)]])
    finally have "\<not> last (fst (List.last (request_groups mem q)))" using facts(5) [of mem] that by force
    with burst(2) request_choice [OF q(2,3,1)] show ?thesis by (simp add: q(1))
  qed
  have "sampled = map (\<lambda>(i, x, rs). \<lparr>data = \<lparr>nvo_vertex = label_choice mem x rs, nvo_id = i\<rparr>, last = False\<rparr>)
      (map (\<lambda>(i, b, d, x, rs). (i, x, rs)) reqs)"
    unfolding p(3) out map_map using each by (intro map_cong) simp_all
  also have "\<dots> = map (\<lambda>kx. update_of kx (label_choice mem (snd kx) (rnd (fst kx)))) lives"
    unfolding live by (simp add: split_beta update_of_def)
  finally show ?thesis .
qed

text \<open>\<open>fetch_next\<close> on the updates in the order of the queries.\<close>

lemma mrw_fetch_next_prefix:
  "prefix out out' \<Longrightarrow> prefix (fst (mrw_fetch_next ws vertex out origin)) (fst (mrw_fetch_next ws vertex out' origin))"
proof -
  have fetch: "prefix out out' \<Longrightarrow> prefix (mrw_fetch_next_instance vertex out) (mrw_fetch_next_instance vertex out')" for out out'
  proof (induction out arbitrary: out')
    case (Cons p out)
    from Cons.prems obtain out'' where "out' = p # out''" "prefix out out''" by (cases out') auto
    with Cons.IH show ?case by (simp add: Let_def)
  qed simp
  have "prefix us us' \<Longrightarrow> prefix (fst (mrw_step_update ws n origin us)) (fst (mrw_step_update ws n origin us'))" for n us us'
  proof (induction ws arbitrary: n origin us us')
    case (Cons w ws)
    show ?case
    proof (cases us)
      case Nil
      then show ?thesis by (cases origin) simp_all
    next
      case (Cons u us0)
      with Cons.prems obtain us0' where "us' = u # us0'" "prefix us0 us0'" by (cases us') auto
      with Cons.IH Cons show ?thesis by (cases origin) (simp_all add: Let_def split_beta)
    qed
  qed simp
  with fetch show "prefix out out' \<Longrightarrow> ?thesis" by (simp add: mrw_fetch_next_def)
qed

lemma mrw_fetch_next_unflagged:
  "\<forall>p \<in> set out. \<not> last p \<Longrightarrow> length ws = length origin \<Longrightarrow> length out = length origin \<Longrightarrow>
     mrw_fetch_next ws vertex out origin = (map2 (\<lambda>(w, q) p. mrw_new_step w q (hd (mrw_fetch_next_instance vertex [p]))) (zip ws origin) out, None)"
proof -
  have "\<forall>p \<in> set out. \<not> last p \<Longrightarrow> length ws = length origin \<Longrightarrow> length out = length origin \<Longrightarrow>
     mrw_step_update ws n origin (mrw_fetch_next_instance vertex out) =
       (map2 (\<lambda>(w, q) p. mrw_new_step w q (hd (mrw_fetch_next_instance vertex [p]))) (zip ws origin) out, None)" for n
  proof (induction ws arbitrary: origin out n)
    case (Cons w ws)
    then show ?case by (cases origin; cases out) (simp_all add: Let_def)
  qed simp
  then show "\<forall>p \<in> set out. \<not> last p \<Longrightarrow> length ws = length origin \<Longrightarrow> length out = length origin \<Longrightarrow> ?thesis"
    by (simp add: mrw_fetch_next_def)
qed

lemma mrw_step_eq:
  "mrw_new_step w' \<lparr>data = (data q)\<lparr>remain_step := remain_step (data q) AND 0x1ff, state := step_label lut q, assert := w\<rparr>, last = False\<rparr>
     (hd (mrw_fetch_next_instance vertex [update_out (update_of (k, q) (walk_selects vmem mem lut rnd (k, q)))])) =
   metapath_next vmem mem vertex lut rnd w' (k, q)"
proof -
  have down: "ucast (ucast v :: u64) = (v :: u32)" for v by (rule ucast_up_ucast_id) (simp add: is_up)
  have up: "(ucast v :: u64) AND 0x80000000 = 0x80000000 \<longleftrightarrow> v AND 0x80000000 = (0x80000000 :: u32)" for v
    by (simp add: flag_bit_31 bit_ucast)
  have or: "ucast ((ucast v :: u64) OR 0x80000000) = (v OR 0x80000000 :: u32)" for v
  proof (rule bit_word_eqI)
    fix i assume "i < LENGTH(32)"
    then show "bit (ucast ((ucast v :: u64) OR 0x80000000) :: u32) i = bit (v OR 0x80000000) i"
      by (simp only: bit_ucast_iff bit_or_iff) (auto simp: bit_or_iff bit_ucast)
  qed
  show ?thesis
    by (simp add: mrw_new_step_def metapath_next_def update_out_def update_of_def Let_def down up or)
qed

lemma mrw_fetch_next_all:
  assumes "\<forall>q \<in> set qs. \<not> last q" and "length ws = length qs" and "length ws' = length qs"
  shows "mrw_fetch_next ws' vertex (map (\<lambda>kq. update_out (update_of kq (walk_selects vmem mem lut rnd kq))) (enumerate 0 qs))
      (origins_of ws lut qs) = (map2 (metapath_next vmem mem vertex lut rnd) ws' (enumerate 0 qs), None)"
proof -
  let ?out = "map (\<lambda>kq. update_out (update_of kq (walk_selects vmem mem lut rnd kq))) (enumerate 0 qs)"
  have "mrw_fetch_next ws' vertex ?out (origins_of ws lut qs) =
      (map2 (\<lambda>(w, q) p. mrw_new_step w q (hd (mrw_fetch_next_instance vertex [p]))) (zip ws' (origins_of ws lut qs)) ?out, None)"
    by (rule mrw_fetch_next_unflagged) (auto simp: update_out_def update_of_def queries_streams(3) [OF assms(1,2)] assms)
  also have "map2 (\<lambda>(w, q) p. mrw_new_step w q (hd (mrw_fetch_next_instance vertex [p]))) (zip ws' (origins_of ws lut qs)) ?out =
      map2 (metapath_next vmem mem vertex lut rnd) ws' (enumerate 0 qs)"
    using assms(2,3) by (intro nth_equalityI)
      (simp_all add: queries_streams(3) [OF assms(1,2)] nth_enumerate_eq mrw_step_eq del: mrw_fetch_next_instance.simps)
  finally show ?thesis .
qed

text \<open>The numbered queries with a list, and those without.\<close>

definition listed_queries :: "(u32 \<Rightarrow> u64) \<Rightarrow> step_pkg list \<Rightarrow> (nat \<times> step_pkg) list" where
  "listed_queries vmem qs = filter (listed vmem) (enumerate 0 qs)"

definition unlisted_queries :: "(u32 \<Rightarrow> u64) \<Rightarrow> step_pkg list \<Rightarrow> (nat \<times> step_pkg) list" where
  "unlisted_queries vmem qs = filter (\<lambda>kq. \<not> listed vmem kq) (enumerate 0 qs)"

lemma filter_enumerate_map:
  "filter (\<lambda>kx. P (snd kx)) (enumerate n (map f qs)) = map (apsnd f) (filter (\<lambda>kq. P (f (snd kq))) (enumerate n qs))"
  by (induction qs arbitrary: n) auto

lemma step_updates:
  assumes "metapath_ok vmem lut rnd qs" and "outs = vd_scheduler 0 0 (map (walk_input vmem lut) qs)"
    and "burst_reader_wired mem outs rows"
    and "label_sampler_wired rows (concat (map (rnd \<circ> fst) (listed_queries vmem qs))) sampled"
  shows "zip (map fst (unlisted_queries vmem qs)) (update_pkgs outs) =
      map (\<lambda>kq. (fst kq, update_of kq (walk_selects vmem mem lut rnd kq))) (unlisted_queries vmem qs)"
    and "zip (map fst (listed_queries vmem qs)) sampled =
      map (\<lambda>kq. (fst kq, update_of kq (walk_selects vmem mem lut rnd kq))) (listed_queries vmem qs)"
proof -
  have listed: "listed vmem kq \<longleftrightarrow> vd_size (data (fst (walk_input vmem lut (snd kq)))) \<noteq> 0" for kq
    by (simp add: listed_def live_def walk_input_def)
  have ok: "inputs_ok 0 rnd (map (walk_input vmem lut) qs)" using assms(1) by (simp add: metapath_ok_def)
  then have "\<forall>x \<in> set (map (walk_input vmem lut) qs). \<not> last (fst x)" by (simp add: inputs_ok_def)
  then have "update_pkgs outs = map (\<lambda>kq. update_of kq 0x80000000)
      (filter (\<lambda>kx. vd_size (data (fst (snd kx))) = 0) (enumerate 0 (map (walk_input vmem lut) qs)))"
    using scheduler_requests(2) [of "map (walk_input vmem lut) qs" outs 0 0] by (simp add: assms(2))
  also have "filter (\<lambda>kx. vd_size (data (fst (snd kx))) = 0) (enumerate 0 (map (walk_input vmem lut) qs)) =
      map (apsnd (walk_input vmem lut)) (unlisted_queries vmem qs)"
    using filter_enumerate_map [of "\<lambda>x. vd_size (data (fst x)) = 0" 0 "walk_input vmem lut" qs]
    by (simp only: unlisted_queries_def listed not_not)
  finally have "update_pkgs outs = map (\<lambda>kq. update_of kq 0x80000000) (unlisted_queries vmem qs)"
    by (simp add: update_of_def comp_def)
  moreover have "walk_selects vmem mem lut rnd kq = 0x80000000" if "kq \<in> set (unlisted_queries vmem qs)" for kq
    using that by (simp add: unlisted_queries_def walk_selects_def listed Let_def)
  ultimately show "zip (map fst (unlisted_queries vmem qs)) (update_pkgs outs) =
      map (\<lambda>kq. (fst kq, update_of kq (walk_selects vmem mem lut rnd kq))) (unlisted_queries vmem qs)"
    by (simp add: zip_numbers)
  have lives: "map (apsnd (walk_input vmem lut)) (listed_queries vmem qs) =
      filter (\<lambda>kx. vd_size (data (fst (snd kx))) \<noteq> 0) (enumerate 0 (map (walk_input vmem lut) qs))"
    using filter_enumerate_map [of "\<lambda>x. vd_size (data (fst x)) \<noteq> 0" 0 "walk_input vmem lut" qs]
    by (simp only: listed_queries_def listed [abs_def])
  have "map (rnd \<circ> fst) (listed_queries vmem qs) = map (rnd \<circ> fst) (map (apsnd (walk_input vmem lut)) (listed_queries vmem qs))"
    by simp
  from sampled_labels [OF ok assms(3) [unfolded assms(2)] lives assms(4) [unfolded this]]
  have "sampled = map (\<lambda>kq. update_of kq (label_choice mem (walk_input vmem lut (snd kq)) (rnd (fst kq)))) (listed_queries vmem qs)"
    by (simp add: update_of_def comp_def)
  moreover have "walk_selects vmem mem lut rnd kq = label_choice mem (walk_input vmem lut (snd kq)) (rnd (fst kq))"
    if "kq \<in> set (listed_queries vmem qs)" for kq
    using that by (simp add: listed_queries_def walk_selects_def listed Let_def)
  ultimately show "zip (map fst (listed_queries vmem qs)) sampled =
      map (\<lambda>kq. (fst kq, update_of kq (walk_selects vmem mem lut rnd kq))) (listed_queries vmem qs)"
    by (simp add: zip_numbers)
qed

text \<open>A query moves to a neighbour with the label, or ends.\<close>

lemma metapath_next_moves:
  assumes "metapath_ok vmem lut rnd qs" and "kq \<in> set (enumerate 0 qs)" and "x = walk_input vmem lut (snd kq)"
    and "remain_step (data (snd kq)) AND 0x1ff \<noteq> 2"
  shows "labelled_entries mem x = {} \<Longrightarrow>
      curr_vertex (data (metapath_next vmem mem vertex lut rnd w kq)) = curr_vertex (data (snd kq)) OR 0x80000000"
    and "labelled_entries mem x \<noteq> {} \<Longrightarrow> list_end (input_list x) \<le> 2 ^ 31 \<Longrightarrow>
      \<forall>a \<in> labelled_entries mem x. vertex (of_nat a) AND 0x80000000 \<noteq> 0x80000000 \<Longrightarrow>
      curr_vertex (data (metapath_next vmem mem vertex lut rnd w kq)) \<in> (\<lambda>a. vertex (of_nat a)) ` labelled_entries mem x"
proof -
  have empty: "labelled_entries mem x = {}" if "vd_size (data (fst x)) = 0"
    using that by (auto simp: labelled_entries_def input_list_def neighbour_list_def list_start_def list_end_def)
  have ok: "input_ok x (rnd (fst kq))" if "vd_size (data (fst x)) \<noteq> 0"
  proof -
    from assms(2) have "fst kq < length qs" "snd kq = qs ! fst kq" by (auto simp: in_set_enumerate_eq)
    then have "(fst kq, x) \<in> set (enumerate 0 (map (walk_input vmem lut) qs))"
      by (simp add: assms(3) in_set_enumerate_eq)
    with assms(1) that show ?thesis by (auto simp: metapath_ok_def inputs_ok_def)
  qed
  show "curr_vertex (data (metapath_next vmem mem vertex lut rnd w kq)) = curr_vertex (data (snd kq)) OR 0x80000000"
    if none: "labelled_entries mem x = {}"
  proof -
    have "walk_selects vmem mem lut rnd kq = 0x80000000"
      using label_choice_labelled(1) [OF _ ok none] assms(3) by (auto simp: walk_selects_def Let_def)
    with assms(4) show ?thesis by (simp add: metapath_next_def Let_def)
  qed
  show "curr_vertex (data (metapath_next vmem mem vertex lut rnd w kq)) \<in> (\<lambda>a. vertex (of_nat a)) ` labelled_entries mem x"
    if some: "labelled_entries mem x \<noteq> {}" and low: "list_end (input_list x) \<le> 2 ^ 31"
      and ids: "\<forall>a \<in> labelled_entries mem x. vertex (of_nat a) AND 0x80000000 \<noteq> 0x80000000"
  proof -
    from empty some have ne: "vd_size (data (fst x)) \<noteq> 0" by blast
    from label_choice_labelled(2) [OF ne ok [OF ne] some]
    obtain a where a: "a \<in> labelled_entries mem x" "label_choice mem x (rnd (fst kq)) = of_nat a" by blast
    then have "a < 2 ^ 31" using low by (simp add: labelled_entries_def)
    then have "take_bit 31 (of_nat a :: u32) = of_nat a"
      by (simp only: word_unat_eq_iff unsigned_take_bit_eq) (simp add: unat_of_nat take_bit_nat_eq_self)
    then have "(of_nat a :: u32) AND 0x80000000 \<noteq> 0x80000000"
      by (metis flag_bit_31(2) bit_take_bit_iff less_irrefl)
    moreover have "walk_selects vmem mem lut rnd kq = of_nat a"
      using a(2) ne assms(3) by (simp add: walk_selects_def Let_def)
    ultimately show ?thesis using assms(4) a(1) ids by (simp add: metapath_next_def Let_def)
  qed
qed

text \<open>
  C2: A step of a metapath walk, from the queries to the queries of the next step.  For queries whose lists
  end at least 512 entries below the top of the address space and need no masking of a long burst, with
  labels other than 0, and however the cached loader's kernels, the engines' polls, the merges and the
  sampler interleave, what \<open>fetch_next\<close> has written is a prefix of the queries of the next step, which it
  can always complete.  A walk moves to a neighbour with the label of its step, the one reservoir
  sampling selects among these, and ends if there is none.
\<close>

theorem metapath_walk_step:
  assumes "metapath_ok vmem lut rnd qs" and "length ws = length qs" and "length ws' = length qs"
    and "policy \<in> {vcache_update_dac, vcache_update_direct, vcache_update_none}" and "vcache_depths_ok D"
    and "vcache_run D policy vmem (vcache_start (queries_of ws lut qs)) v" and "length (out_vd v) = length qs"
    and "scheduler_wired ws lut qs (out_vd v) outs" and "burst_reader_wired mem outs rows"
    and "label_sampler_wired rows (concat (map (rnd \<circ> fst) (listed_queries vmem qs))) sampled"
    and "(merge_run update_merge_step update_recv1 update_recv2 (\<lambda>_. True))\<^sup>*\<^sup>*
      (update_init, zip (map fst (unlisted_queries vmem qs)) (update_pkgs outs), zip (map fst (listed_queries vmem qs)) sampled, [])
      (s, f1, f2, out)"
  shows "prefix (fst (mrw_fetch_next ws' vertex out (origins_of ws lut qs)))
      (map2 (metapath_next vmem mem vertex lut rnd) ws' (enumerate 0 qs)) \<and>
    (\<exists>s' out'. (merge_run update_merge_step update_recv1 update_recv2 (\<lambda>_. True))\<^sup>*\<^sup>* (s, f1, f2, out) (s', [], [], out') \<and>
       fst (mrw_fetch_next ws' vertex out' (origins_of ws lut qs)) = map2 (metapath_next vmem mem vertex lut rnd) ws' (enumerate 0 qs)) \<and>
    (\<forall>kq \<in> set (enumerate 0 qs). \<forall>w. remain_step (data (snd kq)) AND 0x1ff \<noteq> 2 \<longrightarrow>
       (let x = walk_input vmem lut (snd kq); c = curr_vertex (data (metapath_next vmem mem vertex lut rnd w kq))
        in if labelled_entries mem x = {} then c = curr_vertex (data (snd kq)) OR 0x80000000
           else list_end (input_list x) \<le> 2 ^ 31 \<and> (\<forall>a \<in> labelled_entries mem x. vertex (of_nat a) AND 0x80000000 \<noteq> 0x80000000) \<longrightarrow>
             c \<in> (\<lambda>a. vertex (of_nat a)) ` labelled_entries mem x))"
proof -
  have flags: "\<forall>q \<in> set qs. \<not> last q"
    using assms(1) by (simp add: metapath_ok_def inputs_ok_def walk_input_def)
  note loader = update_policy.vcache_correct [OF policies [OF assms(4)] assms(5,6)]
  have "out_vd v = map (vd_direct vmem) (queries_of ws lut qs)"
    using prefix_whole [OF loader(1)] assms(7) by (simp add: queries_streams(1) [OF flags assms(2)])
  from walk_input_queries [OF flags assms(2) this assms(8)]
  have outs: "outs = vd_scheduler 0 0 (map (walk_input vmem lut) qs)" .
  note updates = step_updates [OF assms(1) outs assms(9,10)]
  note run = updates_in_order [OF assms(11) [unfolded updates, unfolded listed_queries_def unlisted_queries_def]]
  note all = mrw_fetch_next_all [OF flags assms(2,3), of vertex vmem mem lut rnd]
  have "prefix (fst (mrw_fetch_next ws' vertex out (origins_of ws lut qs)))
      (map2 (metapath_next vmem mem vertex lut rnd) ws' (enumerate 0 qs))"
    using mrw_fetch_next_prefix [OF run(1), of ws' vertex "origins_of ws lut qs"] by (simp only: all fst_conv)
  moreover have "\<exists>s' out'. (merge_run update_merge_step update_recv1 update_recv2 (\<lambda>_. True))\<^sup>*\<^sup>* (s, f1, f2, out) (s', [], [], out') \<and>
       fst (mrw_fetch_next ws' vertex out' (origins_of ws lut qs)) = map2 (metapath_next vmem mem vertex lut rnd) ws' (enumerate 0 qs)"
  proof -
    from run(2) obtain s' where "(merge_run update_merge_step update_recv1 update_recv2 (\<lambda>_. True))\<^sup>*\<^sup>* (s, f1, f2, out)
      (s', [], [], map (\<lambda>kq. update_out (update_of kq (walk_selects vmem mem lut rnd kq))) (enumerate 0 qs))" ..
    then show ?thesis by (intro exI conjI) (assumption, simp only: all fst_conv)
  qed
  moreover have "let x = walk_input vmem lut (snd kq); c = curr_vertex (data (metapath_next vmem mem vertex lut rnd w kq))
        in if labelled_entries mem x = {} then c = curr_vertex (data (snd kq)) OR 0x80000000
           else list_end (input_list x) \<le> 2 ^ 31 \<and> (\<forall>a \<in> labelled_entries mem x. vertex (of_nat a) AND 0x80000000 \<noteq> 0x80000000) \<longrightarrow>
             c \<in> (\<lambda>a. vertex (of_nat a)) ` labelled_entries mem x"
    if "kq \<in> set (enumerate 0 qs)" "remain_step (data (snd kq)) AND 0x1ff \<noteq> 2" for kq w
    unfolding Let_def using metapath_next_moves [OF assms(1) that(1) refl that(2)] by simp
  ultimately show ?thesis by blast
qed

text \<open>All kernels can be run so.\<close>

lemma metapath_inputs:
  assumes "metapath_ok vmem lut rnd qs" and "length ws = length qs"
    and "policy \<in> {vcache_update_dac, vcache_update_direct, vcache_update_none}" and "vcache_depths_ok D"
  obtains v outs rows sampled where "vcache_run D policy vmem (vcache_start (queries_of ws lut qs)) v" "length (out_vd v) = length qs"
    "scheduler_wired ws lut qs (out_vd v) outs" "burst_reader_wired mem outs rows"
    "label_sampler_wired rows (concat (map (rnd \<circ> fst) (listed_queries vmem qs))) sampled"
proof -
  have flags: "\<forall>q \<in> set qs. \<not> last q"
    using assms(1) by (simp add: metapath_ok_def inputs_ok_def walk_input_def)
  from update_policy.vcache_correct(2) [OF policies [OF assms(3)] assms(4) rtranclp.rtrancl_refl] obtain v where
    v: "vcache_run D policy vmem (vcache_start (queries_of ws lut qs)) v" "out_vd v = map (vd_direct vmem) (queries_of ws lut qs)"
    by blast
  have len: "length (out_vd v) = length qs" by (simp add: v(2) queries_streams(1) [OF flags assms(2)])
  let ?outs = "vd_scheduler 0 0 (zip (out_vd v) (map (\<lambda>p. ucast (data p)) (snd (metapath_sm ws lut qs))))"
  have outs: "scheduler_wired ws lut qs (out_vd v) ?outs"
    unfolding scheduler_wired_def by (metis arrivals_Some)
  have "inputs_ok 0 rnd (map (walk_input vmem lut) qs)" using assms(1) by (simp add: metapath_ok_def)
  from burst_reader_correct(2) [OF this refl] walk_input_queries [OF flags assms(2) v(2) outs] obtain rows where
    rows: "burst_reader_wired mem ?outs rows" by metis
  obtain p1 p2 p3 p4 p5 where "wrs_connected (filtered rows (concat (map (rnd \<circ> fst) (listed_queries vmem qs)))) p1 p2 p3 p4"
    "arrivals p5 = zip (map fst (filtered rows (concat (map (rnd \<circ> fst) (listed_queries vmem qs))))) (reservoir_mask p4)"
    by (rule connected_inputs)
  then have "label_sampler_wired rows (concat (map (rnd \<circ> fst) (listed_queries vmem qs))) (msample p5)"
    unfolding label_sampler_wired_def by blast
  with that v(1) len outs rows show ?thesis by blast
qed

text \<open>Vertex 7 has the neighbours 40, 50 and 60; the edge to 50 has label 2.\<close>

definition label_graph :: "u32 \<Rightarrow> u64" where
  "label_graph v = (if v = 7 then vd_pack 0 4 3 else 0)"

definition sample_memory :: "u32 \<Rightarrow> weight_item" where
  "sample_memory a = (if a = 0 then pack_lanes [2, 2, 2, 2, 1, 2, 3, 2, 2, 2, 2, 2, 2, 2, 2, 2] else 0)"

definition label_columns :: "u32 \<Rightarrow> u32" where
  "label_columns a = a * 10"

definition label_queries :: "step_pkg list" where
  "label_queries =
     [\<lparr>data = \<lparr>curr_vertex = 7, remain_step = 6, state = 0, ring_state = 0, inner_state = 0, assert = 0\<rparr>, last = False\<rparr>,
      \<lparr>data = \<lparr>curr_vertex = 0x80000003, remain_step = 4, state = 0, ring_state = 1, inner_state = 0, assert = 0\<rparr>, last = False\<rparr>]"

lemma label_inputs:
  "walk_input label_graph (\<lambda>_. 2) (label_queries ! 0) = (\<lparr>data = \<lparr>vd_start = 4, vd_size = 3\<rparr>, last = False\<rparr>, 2)"
  "walk_input label_graph (\<lambda>_. 2) (label_queries ! 1) = (\<lparr>data = \<lparr>vd_start = 0x80000003, vd_size = 0\<rparr>, last = False\<rparr>, 2)"
  "metapath_ok label_graph (\<lambda>_. 2) (\<lambda>_. [0]) label_queries"
proof -
  show inputs: "walk_input label_graph (\<lambda>_. 2) (label_queries ! 0) = (\<lparr>data = \<lparr>vd_start = 4, vd_size = 3\<rparr>, last = False\<rparr>, 2)"
    "walk_input label_graph (\<lambda>_. 2) (label_queries ! 1) = (\<lparr>data = \<lparr>vd_start = 0x80000003, vd_size = 0\<rparr>, last = False\<rparr>, 2)"
    by (simp_all add: walk_input_def label_queries_def label_graph_def current_vd_def node_vd_def step_label_def)
  have "map (walk_input label_graph (\<lambda>_. 2)) label_queries =
      [walk_input label_graph (\<lambda>_. 2) (label_queries ! 0), walk_input label_graph (\<lambda>_. 2) (label_queries ! 1)]"
    by (simp add: label_queries_def)
  then show "metapath_ok label_graph (\<lambda>_. 2) (\<lambda>_. [0]) label_queries"
    unfolding metapath_ok_def inputs
    by (simp add: inputs_ok_def input_ok_def input_list_def neighbour_list_def list_end_def list_start_def no_masked_burst_def
        word_start_def word_end_def round_up_def)
qed

lemma label_entries:
  "labelled_entries sample_memory (\<lparr>data = \<lparr>vd_start = 4, vd_size = 3\<rparr>, last = False\<rparr>, 2) = {5}"
  "labelled_entries sample_memory (\<lparr>data = \<lparr>vd_start = 0x80000003, vd_size = 0\<rparr>, last = False\<rparr>, 2) = {}"
proof -
  have "x \<in> labelled_entries sample_memory (\<lparr>data = \<lparr>vd_start = 4, vd_size = 3\<rparr>, last = False\<rparr>, 2) \<longleftrightarrow> x = 5" for x
  proof -
    consider "x = 4" | "x = 5" | "x = 6" | "x < 4 \<or> 7 \<le> x" by linarith
    then show ?thesis
      by cases (auto simp: labelled_entries_def input_list_def neighbour_list_def list_start_def list_end_def entry_def sample_memory_def)
  qed
  then show "labelled_entries sample_memory (\<lparr>data = \<lparr>vd_start = 4, vd_size = 3\<rparr>, last = False\<rparr>, 2) = {5}" by blast
  show "labelled_entries sample_memory (\<lparr>data = \<lparr>vd_start = 0x80000003, vd_size = 0\<rparr>, last = False\<rparr>, 2) = {}"
    by (simp add: labelled_entries_def input_list_def neighbour_list_def list_start_def list_end_def)
qed

theorem metapath_walk_step_witness:
  "\<exists>out. map (curr_vertex \<circ> data) (fst (mrw_fetch_next [0, 0] label_columns out (origins_of [0, 0] (\<lambda>_. 2) label_queries))) = [50, 0x80000003]"
proof -
  note ok = label_inputs(3)
  have len: "length [0, 0 :: u32] = length label_queries" by (simp add: label_queries_def)
  have policy: "vcache_update_dac \<in> {vcache_update_dac, vcache_update_direct, vcache_update_none}" by simp
  obtain v outs rows sampled where w: "vcache_run urw_depths vcache_update_dac label_graph (vcache_start (queries_of [0, 0] (\<lambda>_. 2) label_queries)) v"
    "length (out_vd v) = length label_queries" "scheduler_wired [0, 0] (\<lambda>_. 2) label_queries (out_vd v) outs"
    "burst_reader_wired sample_memory outs rows"
    "label_sampler_wired rows (concat (map ((\<lambda>_. [0]) \<circ> fst) (listed_queries label_graph label_queries))) sampled"
    by (rule metapath_inputs [OF ok len policy urw_depths_ok])
  note step = metapath_walk_step [OF ok len len policy urw_depths_ok w rtranclp.rtrancl_refl, of label_columns]
  have qs: "enumerate 0 label_queries = [(0, label_queries ! 0), (1, label_queries ! 1)]" by (simp add: label_queries_def)
  let ?next = "metapath_next label_graph sample_memory label_columns (\<lambda>_. 2) (\<lambda>_. [0]) 0"
  have remain: "remain_step (data (label_queries ! 0)) AND 0x1ff \<noteq> 2" "remain_step (data (label_queries ! 1)) AND 0x1ff \<noteq> 2"
    by (simp_all add: label_queries_def)
  note moves = conjunct2 [OF conjunct2 [OF step], rule_format, unfolded Let_def]
  have "curr_vertex (data (?next (0, label_queries ! 0))) = 50"
    using moves [of "(0, label_queries ! 0)" 0] remain(1) unfolding qs snd_conv label_inputs label_entries
    by (simp add: input_list_def neighbour_list_def list_end_def label_columns_def)
  moreover have "curr_vertex (data (?next (1, label_queries ! 1))) = 0x80000003"
    using moves [of "(1, label_queries ! 1)" 0] remain(2) unfolding qs snd_conv label_inputs label_entries
    by simp (simp add: label_queries_def)
  moreover obtain out where "fst (mrw_fetch_next [0, 0] label_columns out (origins_of [0, 0] (\<lambda>_. 2) label_queries)) =
      map2 (metapath_next label_graph sample_memory label_columns (\<lambda>_. 2) (\<lambda>_. [0])) [0, 0] (enumerate 0 label_queries)"
    using step by blast
  ultimately show ?thesis by (intro exI [of _ out]) (simp add: qs)
qed

end
