(* ===== verification/Coalesce.thy ===== *)
theory Coalesce
  imports Lanes Stream_Ops "HOL-Library.Sublist"
begin

text \<open>
  Request coalescing (\<open>src/coalesce/coalesce.cpp\<close>): the vertices of a row become indices of cache lines,
  a chain of fifteen \<open>merge_same_item\<close> kernels joins the sixteen lanes of a row and drops an index equal
  to the one before it, \<open>filter_same_item\<close> does so from row to row, and \<open>single_to_cmd\<close> makes commands.
  The chain is a step relation over bounded streams: source, kernels and the reader of the last stream
  take their steps in any order.
\<close>

definition LOG2_SIZE_BY_INT :: nat where "LOG2_SIZE_BY_INT = 4"

record cache_command =
  cc_idx :: u32
  cc_size :: u32

section \<open>The kernels\<close>

text \<open>\<open>src_to_address\<close>: what lane \<open>i\<close> gets for a row; \<open>b\<close> is \<open>LOG_CACHEUPDATEBURST\<close>.\<close>

definition address_item :: "nat \<Rightarrow> weight_item \<Rightarrow> nat \<Rightarrow> u32 pkg" where
  "address_item b src_item i = \<lparr>data = drop_bit (b + LOG2_SIZE_BY_INT) (lanes src_item ! i), last = True\<rparr>"

text \<open>\<open>merge_same_item\<close>: where it is in its loop, the two registers and \<open>curr_state\<close> (\<open>ST_SRC2\<close> or not).\<close>

datatype merge_at = At_In1 | At_In2 | At_Switch

record merge_same =
  ms_at :: merge_at
  ms_src1 :: "u32 pkg option"
  ms_src2 :: "u32 option"
  ms_second :: bool

definition merge_init :: merge_same where
  "merge_init = \<lparr>ms_at = At_In1, ms_src1 = None, ms_src2 = None, ms_second = False\<rparr>"

text \<open>The two polls: the kernel and the stream afterwards.\<close>

definition merge_poll1 :: "merge_same \<Rightarrow> u32 pkg list \<Rightarrow> merge_same \<times> u32 pkg list" where
  "merge_poll1 k in1 =
     (case (ms_src1 k, in1) of
        (None, src1 # rest) \<Rightarrow> (k\<lparr>ms_src1 := Some src1, ms_at := At_In2\<rparr>, rest)
      | _ \<Rightarrow> (k\<lparr>ms_at := At_In2\<rparr>, in1))"

definition merge_poll2 :: "merge_same \<Rightarrow> u32 pkg list \<Rightarrow> merge_same \<times> u32 pkg list" where
  "merge_poll2 k in2 =
     (case (ms_src2 k, in2) of
        (None, src2 # rest) \<Rightarrow> (k\<lparr>ms_src2 := Some (data src2), ms_at := At_Switch\<rparr>, rest)
      | _ \<Rightarrow> (k\<lparr>ms_at := At_Switch\<rparr>, in2))"

text \<open>The \<open>switch\<close>: the kernel afterwards and what it writes.\<close>

definition merge_switch :: "merge_same \<Rightarrow> merge_same \<times> u32 pkg list" where
  "merge_switch k =
     (if \<not> ms_second k then
        (case (ms_src1 k, ms_src2 k) of
           (Some src1, Some src2_data) \<Rightarrow>
             (if \<not> last src1
              then (k\<lparr>ms_src1 := None, ms_second := False, ms_at := At_In1\<rparr>, [\<lparr>data = data src1, last = False\<rparr>])
              else if data src1 = src2_data
              then (k\<lparr>ms_src1 := None, ms_src2 := None, ms_second := False, ms_at := At_In1\<rparr>, [\<lparr>data = data src1, last = True\<rparr>])
              else (k\<lparr>ms_src1 := None, ms_second := True, ms_at := At_In1\<rparr>, [\<lparr>data = data src1, last = False\<rparr>]))
         | _ \<Rightarrow> (k\<lparr>ms_at := At_In1\<rparr>, []))
      else
        (case ms_src2 k of
           Some src2_data \<Rightarrow> (k\<lparr>ms_src2 := None, ms_second := False, ms_at := At_In1\<rparr>, [\<lparr>data = src2_data, last = True\<rparr>])
         | None \<Rightarrow> (k\<lparr>ms_at := At_In1\<rparr>, [])))"

text \<open>\<open>filter_same_item\<close> over its polls; \<open>last_item\<close> is \<open>None\<close> in \<open>ST_INIT\<close>.\<close>

fun filter_loop :: "u32 option \<Rightarrow> u32 pkg option list \<Rightarrow> u32 pkg list" where
  "filter_loop last_item [] = []"
| "filter_loop last_item (None # polls) = filter_loop last_item polls"
| "filter_loop None (Some x # polls) = x # filter_loop (Some (data x)) polls"
| "filter_loop (Some last_item) (Some item # polls) =
     (if data item \<noteq> last_item then item # filter_loop (Some (data item)) polls
      else filter_loop (Some last_item) polls)"

definition filter_same_item :: "u32 pkg option list \<Rightarrow> u32 pkg list" where
  "filter_same_item polls = filter_loop None polls"

definition single_to_cmd :: "u32 pkg list \<Rightarrow> cache_command list" where
  "single_to_cmd inp = map (\<lambda>src_frp. \<lparr>cc_idx = data src_frp, cc_size = 1\<rparr>) inp"

section \<open>The chain\<close>

text \<open>
  \<open>co_line 0\<close> is \<open>single[0]\<close>, \<open>co_side i\<close> is \<open>single[i + 1]\<close> and \<open>co_line (i + 1)\<close> is \<open>inner_stream[i]\<close>, so
  that kernel \<open>i\<close> reads \<open>co_line i\<close> and \<open>co_side i\<close> and writes \<open>co_line (i + 1)\<close>.  \<open>co_row\<close> is the row that
  \<open>src_to_address\<close> has read, with the lane it writes next, and \<open>co_out\<close> is what has been read from the
  last stream.
\<close>

record coalescer =
  co_rows :: "weight_item list"
  co_row :: "(weight_item \<times> nat) option"
  co_line :: "nat \<Rightarrow> u32 pkg list"
  co_side :: "nat \<Rightarrow> u32 pkg list"
  co_merge :: "nat \<Rightarrow> merge_same"
  co_out :: "u32 pkg list"

text \<open>Streams of depth \<open>d\<close>, \<open>m\<close> kernels.\<close>

inductive coalesce_step :: "nat \<Rightarrow> nat \<Rightarrow> nat \<Rightarrow> coalescer \<Rightarrow> coalescer \<Rightarrow> bool" for d m b where
  read_row: "co_row s = None \<Longrightarrow> co_rows s = r # rs \<Longrightarrow>
    coalesce_step d m b s (s\<lparr>co_row := Some (r, 0), co_rows := rs\<rparr>)"
| write_first: "co_row s = Some (r, 0) \<Longrightarrow> length (co_line s 0) < d \<Longrightarrow>
    coalesce_step d m b s (s\<lparr>co_line := (co_line s)(0 := co_line s 0 @ [address_item b r 0]),
      co_row := (if m = 0 then None else Some (r, 1))\<rparr>)"
| write_lane: "co_row s = Some (r, Suc i) \<Longrightarrow> length (co_side s i) < d \<Longrightarrow>
    coalesce_step d m b s (s\<lparr>co_side := (co_side s)(i := co_side s i @ [address_item b r (Suc i)]),
      co_row := (if Suc i = m then None else Some (r, Suc (Suc i)))\<rparr>)"
| poll1: "i < m \<Longrightarrow> ms_at (co_merge s i) = At_In1 \<Longrightarrow> merge_poll1 (co_merge s i) (co_line s i) = (k, rest) \<Longrightarrow>
    coalesce_step d m b s (s\<lparr>co_merge := (co_merge s)(i := k), co_line := (co_line s)(i := rest)\<rparr>)"
| poll2: "i < m \<Longrightarrow> ms_at (co_merge s i) = At_In2 \<Longrightarrow> merge_poll2 (co_merge s i) (co_side s i) = (k, rest) \<Longrightarrow>
    coalesce_step d m b s (s\<lparr>co_merge := (co_merge s)(i := k), co_side := (co_side s)(i := rest)\<rparr>)"
| switch: "i < m \<Longrightarrow> ms_at (co_merge s i) = At_Switch \<Longrightarrow> merge_switch (co_merge s i) = (k, new) \<Longrightarrow>
    length (co_line s (Suc i)) + length new \<le> d \<Longrightarrow>
    coalesce_step d m b s (s\<lparr>co_merge := (co_merge s)(i := k), co_line := (co_line s)(Suc i := co_line s (Suc i) @ new)\<rparr>)"
| take_out: "co_line s m = x # rest \<Longrightarrow>
    coalesce_step d m b s (s\<lparr>co_line := (co_line s)(m := rest), co_out := co_out s @ [x]\<rparr>)"

definition coalesce_start :: "weight_item list \<Rightarrow> coalescer" where
  "coalesce_start rows = \<lparr>co_rows = rows, co_row = None, co_line = (\<lambda>_. []), co_side = (\<lambda>_. []),
     co_merge = (\<lambda>_. merge_init), co_out = []\<rparr>"

abbreviation coalesce_run where
  "coalesce_run d m b \<equiv> (coalesce_step d m b)\<^sup>*\<^sup>*"

inductive_cases coalesce_step_cases: "coalesce_step d m b s s'"

section \<open>What is still to come\<close>

text \<open>The items a kernel still writes, given what it still reads.\<close>

fun same_merge :: "bool \<Rightarrow> u32 pkg list \<Rightarrow> u32 list \<Rightarrow> u32 pkg list" where
  "same_merge True xs (y # ys) = \<lparr>data = y, last = True\<rparr> # same_merge False xs ys"
| "same_merge False (x # xs) (y # ys) =
     (if \<not> last x then \<lparr>data = data x, last = False\<rparr> # same_merge False xs (y # ys)
      else if data x = y then \<lparr>data = data x, last = True\<rparr> # same_merge False xs ys
      else \<lparr>data = data x, last = False\<rparr> # same_merge True xs (y # ys))"
| "same_merge second xs ys = []"

definition the_held :: "'a option \<Rightarrow> 'a list" where
  "the_held p = (case p of None \<Rightarrow> [] | Some x \<Rightarrow> [x])"

lemma the_held_simps [simp]: "the_held None = []" "the_held (Some x) = [x]"
  by (simp_all add: the_held_def)

text \<open>The items of a lane that the source has still to write.\<close>

definition lane_rest :: "nat \<Rightarrow> coalescer \<Rightarrow> nat \<Rightarrow> u32 pkg list" where
  "lane_rest b s l =
     (case co_row s of None \<Rightarrow> [] | Some (r, k) \<Rightarrow> if k \<le> l then [address_item b r l] else []) @
     map (\<lambda>r. address_item b r l) (co_rows s)"

text \<open>What is still to arrive in \<open>co_line j\<close>.\<close>

primrec arriving :: "nat \<Rightarrow> coalescer \<Rightarrow> nat \<Rightarrow> u32 pkg list" where
  "arriving b s 0 = lane_rest b s 0"
| "arriving b s (Suc i) = same_merge (ms_second (co_merge s i))
     (the_held (ms_src1 (co_merge s i)) @ co_line s i @ arriving b s i)
     (the_held (ms_src2 (co_merge s i)) @ map data (co_side s i @ lane_rest b s (Suc i)))"

definition stream_of :: "nat \<Rightarrow> coalescer \<Rightarrow> nat \<Rightarrow> u32 pkg list" where
  "stream_of b s j = co_line s j @ arriving b s j"

lemma arriving_below:
  assumes "\<And>l. l \<le> j \<Longrightarrow> lane_rest b s' l = lane_rest b s l"
    and "\<And>i. i < j \<Longrightarrow> co_merge s' i = co_merge s i \<and> co_side s' i = co_side s i \<and> co_line s' i = co_line s i"
  shows "arriving b s' j = arriving b s j"
  using assms by (induction j) auto

lemma stream_above:
  assumes "j0 \<le> j" and "stream_of b s' j0 = stream_of b s j0" and "\<And>l. lane_rest b s' l = lane_rest b s l"
    and "\<And>i. j0 \<le> i \<Longrightarrow> co_merge s' i = co_merge s i \<and> co_side s' i = co_side s i \<and> co_line s' (Suc i) = co_line s (Suc i)"
  shows "stream_of b s' j = stream_of b s j"
  using assms(1)
proof (induction rule: dec_induct)
  case (step i)
  with assms(4) [of i] show ?case by (simp add: stream_of_def assms(3))
qed (rule assms(2))

lemma stream_source:
  assumes "co_line s' 0 @ lane_rest b s' 0 = co_line s 0 @ lane_rest b s 0"
    and "\<And>i. i < j \<Longrightarrow> co_side s' i @ lane_rest b s' (Suc i) = co_side s i @ lane_rest b s (Suc i)"
    and "\<And>i. co_merge s' i = co_merge s i \<and> co_line s' (Suc i) = co_line s (Suc i)"
  shows "stream_of b s' j = stream_of b s j"
  using assms(2)
proof (induction j)
  case (Suc j)
  then show ?case using assms(3) [of j] Suc.prems [of j] by (simp add: stream_of_def flip: map_append)
qed (simp add: stream_of_def assms(1))

lemma merge_switch_merges:
  assumes "merge_switch k = (k', new)"
  shows "new @ same_merge (ms_second k') (the_held (ms_src1 k') @ xs) (the_held (ms_src2 k') @ ys) =
    same_merge (ms_second k) (the_held (ms_src1 k) @ xs) (the_held (ms_src2 k) @ ys)"
  using assms by (auto simp: merge_switch_def split: if_splits option.splits)

lemma merge_poll1_keeps:
  "merge_poll1 k xs = (k', rest) \<Longrightarrow> the_held (ms_src1 k') @ rest @ zs = the_held (ms_src1 k) @ xs @ zs \<and>
     ms_second k' = ms_second k \<and> ms_src2 k' = ms_src2 k"
  by (auto simp: merge_poll1_def split: option.splits list.splits)

lemma merge_poll2_keeps:
  "merge_poll2 k xs = (k', rest) \<Longrightarrow> the_held (ms_src2 k') @ map data (rest @ zs) = the_held (ms_src2 k) @ map data (xs @ zs) \<and>
     ms_second k' = ms_second k \<and> ms_src1 k' = ms_src1 k"
  by (auto simp: merge_poll2_def split: option.splits list.splits)

text \<open>What kernel \<open>j\<close> has still to join: the items of its line, and those of its lane.\<close>

definition to_join :: "nat \<Rightarrow> coalescer \<Rightarrow> nat \<Rightarrow> u32 pkg list" where
  "to_join b s j = the_held (ms_src1 (co_merge s j)) @ stream_of b s j"

definition lane_to_join :: "nat \<Rightarrow> coalescer \<Rightarrow> nat \<Rightarrow> u32 list" where
  "lane_to_join b s j = the_held (ms_src2 (co_merge s j)) @ map data (co_side s j @ lane_rest b s (Suc j))"

lemma arriving_Suc: "arriving b s (Suc i) = same_merge (ms_second (co_merge s i)) (to_join b s i) (lane_to_join b s i)"
  by (simp add: to_join_def lane_to_join_def stream_of_def)

declare arriving.simps(2) [simp del]

lemma stream_below:
  assumes "\<And>l. lane_rest b s' l = lane_rest b s l" and "co_line s' j = co_line s j"
    and "\<And>i. i < j \<Longrightarrow> co_merge s' i = co_merge s i \<and> co_side s' i = co_side s i \<and> co_line s' i = co_line s i"
  shows "stream_of b s' j = stream_of b s j"
  using arriving_below [of j b s' s] assms by (simp add: stream_of_def)

text \<open>A step that is not a \<open>switch\<close> changes neither; a \<open>switch\<close> those of its own kernel only.\<close>

definition same_work :: "nat \<Rightarrow> coalescer \<Rightarrow> coalescer \<Rightarrow> nat \<Rightarrow> bool" where
  "same_work b s s' j \<longleftrightarrow> to_join b s' j = to_join b s j \<and> lane_to_join b s' j = lane_to_join b s j \<and>
     ms_second (co_merge s' j) = ms_second (co_merge s j)"

lemma source_step:
  assumes "co_line s' 0 @ lane_rest b s' 0 = co_line s 0 @ lane_rest b s 0"
    and "\<And>i. i < m \<Longrightarrow> co_side s' i @ lane_rest b s' (Suc i) = co_side s i @ lane_rest b s (Suc i)"
    and "\<And>i. co_merge s' i = co_merge s i \<and> co_line s' (Suc i) = co_line s (Suc i)"
  shows "\<And>j. j < m \<Longrightarrow> same_work b s s' j" and "stream_of b s' m = stream_of b s m"
  using assms stream_source [of s' b s]
  by (auto simp: same_work_def to_join_def lane_to_join_def simp flip: map_append)

lemma kernel_step:
  assumes rest: "\<And>l. lane_rest b s' l = lane_rest b s l"
    and "\<And>l. l \<noteq> i \<Longrightarrow> co_merge s' l = co_merge s l \<and> co_side s' l = co_side s l"
    and "\<And>l. l \<noteq> i \<Longrightarrow> l \<noteq> Suc i \<Longrightarrow> co_line s' l = co_line s l"
    and "stream_of b s' (Suc i) = stream_of b s (Suc i)" and "i < m"
  shows "\<And>j. j \<noteq> i \<Longrightarrow> same_work b s s' j" and "stream_of b s' m = stream_of b s m"
proof -
  have stream: "stream_of b s' j = stream_of b s j" if "j \<noteq> i" for j
  proof (cases "j < i")
    case True
    show ?thesis
    proof (rule stream_below [OF rest])
      show "co_line s' j = co_line s j" using True assms(3) by simp
      show "co_merge s' l = co_merge s l \<and> co_side s' l = co_side s l \<and> co_line s' l = co_line s l" if "l < j" for l
        using that True assms(2) [of l] assms(3) [of l] by simp
    qed
  next
    case False
    then have "Suc i \<le> j" using that by simp
    moreover have "co_merge s' l = co_merge s l \<and> co_side s' l = co_side s l \<and> co_line s' (Suc l) = co_line s (Suc l)"
      if "Suc i \<le> l" for l using assms(2) [of l] assms(3) [of "Suc l"] that by simp
    ultimately show ?thesis by (intro stream_above [OF _ assms(4) rest])
  qed
  show "stream_of b s' m = stream_of b s m" using stream assms(5) by simp
  show "same_work b s s' j" if "j \<noteq> i" for j
    using stream [OF that] assms(2) [OF that] rest by (simp add: same_work_def to_join_def lane_to_join_def)
qed

lemma poll1_step:
  assumes "i < m" and "merge_poll1 (co_merge s i) (co_line s i) = (k, rest)"
    and s': "s' = s\<lparr>co_merge := (co_merge s)(i := k), co_line := (co_line s)(i := rest)\<rparr>"
  shows "same_work b s s' j" and "stream_of b s' m = stream_of b s m"
proof -
  note keeps = merge_poll1_keeps [OF assms(2), of "arriving b s i"]
  have rest: "lane_rest b s' l = lane_rest b s l" for l using s' by (simp add: lane_rest_def)
  have arriving: "arriving b s' i = arriving b s i" using rest s' by (intro arriving_below) simp_all
  have own: "same_work b s s' i"
    using rest arriving by (simp add: same_work_def to_join_def lane_to_join_def stream_of_def s' keeps del: map_append)
  then have suc: "stream_of b s' (Suc i) = stream_of b s (Suc i)"
    by (simp add: stream_of_def arriving_Suc same_work_def s')
  have "same_work b s s' j" if "j \<noteq> i" using that rest suc assms(1) by (intro kernel_step(1)) (simp_all add: s')
  with own show "same_work b s s' j" by blast
  show "stream_of b s' m = stream_of b s m" using rest suc assms(1) by (rule_tac kernel_step(2)) (simp_all add: s')
qed

lemma poll2_step:
  assumes "i < m" and "merge_poll2 (co_merge s i) (co_side s i) = (k, rest)"
    and s': "s' = s\<lparr>co_merge := (co_merge s)(i := k), co_side := (co_side s)(i := rest)\<rparr>"
  shows "same_work b s s' j" and "stream_of b s' m = stream_of b s m"
proof -
  note keeps = merge_poll2_keeps [OF assms(2), of "lane_rest b s (Suc i)"]
  have rest: "lane_rest b s' l = lane_rest b s l" for l using s' by (simp add: lane_rest_def)
  have arriving: "arriving b s' i = arriving b s i" using rest s' by (intro arriving_below) simp_all
  have own: "same_work b s s' i"
    using rest arriving by (simp add: same_work_def to_join_def lane_to_join_def stream_of_def s' keeps del: map_append)
  then have suc: "stream_of b s' (Suc i) = stream_of b s (Suc i)"
    by (simp add: stream_of_def arriving_Suc same_work_def s')
  have "same_work b s s' j" if "j \<noteq> i" using that rest suc assms(1) by (intro kernel_step(1)) (simp_all add: s')
  with own show "same_work b s s' j" by blast
  show "stream_of b s' m = stream_of b s m" using rest suc assms(1) by (rule_tac kernel_step(2)) (simp_all add: s')
qed

lemma switch_step:
  assumes "i < m" and "merge_switch (co_merge s i) = (k, new)"
    and s': "s' = s\<lparr>co_merge := (co_merge s)(i := k), co_line := (co_line s)(Suc i := co_line s (Suc i) @ new)\<rparr>"
  shows "j \<noteq> i \<Longrightarrow> same_work b s s' j" and "stream_of b s' m = stream_of b s m"
    and "to_join b s' i = the_held (ms_src1 k) @ stream_of b s i"
    and "lane_to_join b s' i = the_held (ms_src2 k) @ map data (co_side s i @ lane_rest b s (Suc i))"
proof -
  have rest: "lane_rest b s' l = lane_rest b s l" for l using s' by (simp add: lane_rest_def)
  have arriving: "arriving b s' i = arriving b s i" using rest s' by (intro arriving_below) simp_all
  show own: "to_join b s' i = the_held (ms_src1 k) @ stream_of b s i"
    "lane_to_join b s' i = the_held (ms_src2 k) @ map data (co_side s i @ lane_rest b s (Suc i))"
    by (simp_all add: to_join_def lane_to_join_def stream_of_def s' arriving [unfolded s'] rest [unfolded s'])
  have suc: "stream_of b s' (Suc i) = stream_of b s (Suc i)"
    using merge_switch_merges [OF assms(2), of "stream_of b s i" "map data (co_side s i @ lane_rest b s (Suc i))"]
    by (simp only: stream_of_def [of b s' "Suc i"] stream_of_def [of b s "Suc i"] arriving_Suc own)
      (simp add: s' to_join_def lane_to_join_def)
  show "j \<noteq> i \<Longrightarrow> same_work b s s' j" using rest suc assms(1) by (intro kernel_step(1)) (simp_all add: s')
  show "stream_of b s' m = stream_of b s m" using rest suc assms(1) by (rule_tac kernel_step(2)) (simp_all add: s')
qed

lemma take_step:
  assumes "co_line s m = x # rest" and s': "s' = s\<lparr>co_line := (co_line s)(m := rest), co_out := co_out s @ [x]\<rparr>"
  shows "j < m \<Longrightarrow> same_work b s s' j" and "stream_of b s m = x # stream_of b s' m"
proof -
  have rest: "lane_rest b s' l = lane_rest b s l" for l using s' by (simp add: lane_rest_def)
  have below: "stream_of b s' j = stream_of b s j" if "j < m" for j using that rest by (intro stream_below) (simp_all add: s')
  show "j < m \<Longrightarrow> same_work b s s' j"
    using below rest by (simp add: same_work_def to_join_def lane_to_join_def s')
  have "arriving b s' m = arriving b s m" using rest s' by (intro arriving_below) simp_all
  then show "stream_of b s m = x # stream_of b s' m" by (simp add: stream_of_def s' assms(1))
qed

section \<open>What keeps the chain from deadlock\<close>

definition flags :: "u32 pkg list \<Rightarrow> nat" where
  "flags xs = length (filter last xs)"

lemma flags_simps [simp]: "flags [] = 0" "flags (x # xs) = of_bool (last x) + flags xs"
  "flags (xs @ ys) = flags xs + flags ys"
  by (simp_all add: flags_def)

lemma flags_all: "\<forall>x\<in>set xs. last x \<Longrightarrow> flags xs = length xs"
  by (simp add: flags_def)

text \<open>The items that have reached kernel \<open>j\<close>.\<close>

definition reached :: "coalescer \<Rightarrow> nat \<Rightarrow> u32 pkg list" where
  "reached s j = the_held (ms_src1 (co_merge s j)) @ co_line s j"

text \<open>
  A kernel in \<open>ST_SRC2\<close> holds a vertex; the rows that end in what a kernel has to join are as many as the
  vertices of its lane; a kernel whose output stops within a row holds the vertex of that row.
\<close>

definition kernel_ok :: "nat \<Rightarrow> coalescer \<Rightarrow> nat \<Rightarrow> bool" where
  "kernel_ok b s j \<longleftrightarrow>
     (ms_second (co_merge s j) \<longrightarrow> ms_src2 (co_merge s j) \<noteq> None) \<and>
     flags (to_join b s j) + of_bool (ms_second (co_merge s j)) = length (lane_to_join b s j)"

definition holds_open :: "coalescer \<Rightarrow> nat \<Rightarrow> bool" where
  "holds_open s j \<longleftrightarrow> reached s (Suc j) \<noteq> [] \<longrightarrow> \<not> last (List.last (reached s (Suc j))) \<longrightarrow> ms_src2 (co_merge s j) \<noteq> None"

definition coalesce_ok :: "nat \<Rightarrow> nat \<Rightarrow> coalescer \<Rightarrow> bool" where
  "coalesce_ok m b s \<longleftrightarrow>
     (case co_row s of None \<Rightarrow> True | Some (r, k) \<Rightarrow> k \<le> m) \<and> (\<forall>x\<in>set (to_join b s 0). last x) \<and>
     (\<forall>j<m. kernel_ok b s j) \<and> (\<forall>j. Suc j < m \<longrightarrow> holds_open s j)"

lemma kernel_ok_same:
  "kernel_ok b s j \<Longrightarrow> same_work b s s' j \<Longrightarrow> (ms_src2 (co_merge s j) \<noteq> None \<Longrightarrow> ms_src2 (co_merge s' j) \<noteq> None) \<Longrightarrow>
     kernel_ok b s' j"
  by (simp add: kernel_ok_def same_work_def)

lemma holds_open_same:
  "holds_open s j \<Longrightarrow> reached s' (Suc j) = reached s (Suc j) \<Longrightarrow>
     (ms_src2 (co_merge s j) \<noteq> None \<Longrightarrow> ms_src2 (co_merge s' j) \<noteq> None) \<Longrightarrow> holds_open s' j"
  by (simp add: holds_open_def)

lemma coalesce_ok_same:
  assumes "coalesce_ok m b s" and "case co_row s' of None \<Rightarrow> True | Some (r, k) \<Rightarrow> k \<le> m"
    and "set (to_join b s' 0) \<subseteq> set (to_join b s 0)" and "\<And>j. j < m \<Longrightarrow> same_work b s s' j"
    and "\<And>j. Suc j < m \<Longrightarrow> reached s' (Suc j) = reached s (Suc j)"
    and "\<And>j. ms_src2 (co_merge s j) \<noteq> None \<Longrightarrow> ms_src2 (co_merge s' j) \<noteq> None"
  shows "coalesce_ok m b s'"
  unfolding coalesce_ok_def
proof (intro conjI allI impI ballI)
  fix j assume "j < m"
  then show "kernel_ok b s' j" using assms(1,4,6) kernel_ok_same [of b s j s'] by (simp add: coalesce_ok_def)
next
  fix j assume "Suc j < m"
  then show "holds_open s' j" using assms(1,5,6) holds_open_same [of s j s'] by (simp add: coalesce_ok_def)
next
  fix x assume "x \<in> set (to_join b s' 0)"
  then show "last x" using assms(1,3) by (auto simp: coalesce_ok_def)
qed (use assms(2) in simp)

lemma merge_switch_ok:
  assumes "merge_switch k = (k', new)" and "ms_second k \<longrightarrow> ms_src2 k \<noteq> None"
    and "flags (the_held (ms_src1 k) @ xs) + of_bool (ms_second k) = length (the_held (ms_src2 k) @ ys)"
  shows "(ms_second k' \<longrightarrow> ms_src2 k' \<noteq> None) \<and>
    flags (the_held (ms_src1 k') @ xs) + of_bool (ms_second k') = length (the_held (ms_src2 k') @ ys)"
  using assms by (auto simp: merge_switch_def split: if_splits option.splits)

lemma merge_switch_open:
  assumes "merge_switch k = (k', new)"
  shows "new = [] \<and> ms_src2 k' = ms_src2 k \<or> (\<exists>x. new = [x] \<and> (last x \<or> ms_src2 k' \<noteq> None))"
    and "ms_src1 k' = ms_src1 k \<or> ms_src1 k' = None"
  using assms by (auto simp: merge_switch_def split: if_splits option.splits)

lemma switch_keeps_ok:
  assumes ok: "coalesce_ok m b s" and "i < m" and sw: "merge_switch (co_merge s i) = (k, new)"
    and s': "s' = s\<lparr>co_merge := (co_merge s)(i := k), co_line := (co_line s)(Suc i := co_line s (Suc i) @ new)\<rparr>"
  shows "coalesce_ok m b s'"
  unfolding coalesce_ok_def
proof (intro conjI allI impI ballI)
  note step = switch_step [OF assms(2) sw s', where b = b]
  show "case co_row s' of None \<Rightarrow> True | Some (r, k) \<Rightarrow> k \<le> m" using ok by (simp add: coalesce_ok_def s')
  fix j assume "j < m"
  show "kernel_ok b s' j"
  proof (cases "j = i")
    case True
    have "kernel_ok b s i" using ok assms(2) by (simp add: coalesce_ok_def)
    then show ?thesis using merge_switch_ok [OF sw, of "stream_of b s i" "map data (co_side s i @ lane_rest b s (Suc i))"] True
      by (simp add: kernel_ok_def step(3,4)) (auto simp: s' to_join_def lane_to_join_def)
  next
    case False
    have "kernel_ok b s j" using ok \<open>j < m\<close> by (simp add: coalesce_ok_def)
    then show ?thesis using False step(1) by (rule_tac kernel_ok_same) (auto simp: s')
  qed
next
  note step = switch_step [OF assms(2) sw s', where b = b]
  fix x assume "x \<in> set (to_join b s' 0)"
  moreover have "set (to_join b s' 0) \<subseteq> set (to_join b s 0)"
    using step(1) [of 0] step(3) merge_switch_open(2) [OF sw] by (cases "i = 0") (auto simp: same_work_def to_join_def)
  ultimately show "last x" using ok by (auto simp: coalesce_ok_def)
next
  fix j assume "Suc j < m"
  then have open_j: "holds_open s j" using ok by (simp add: coalesce_ok_def)
  consider "j = i" | "Suc j = i" | "j \<noteq> i \<and> Suc j \<noteq> i" by blast
  then show "holds_open s' j"
  proof cases
    case 1
    have same: "reached s' (Suc i) = reached s (Suc i) @ new" by (simp add: reached_def s')
    from merge_switch_open(1) [OF sw] open_j 1 show ?thesis by (auto simp: holds_open_def same) (auto simp: s')
  next
    case 2
    have "reached s' (Suc j) = reached s (Suc j) \<or>
      reached s' (Suc j) = co_line s (Suc j) \<and> (\<exists>x. reached s (Suc j) = x # co_line s (Suc j))"
      using merge_switch_open(2) [OF sw] 2 by (cases "ms_src1 (co_merge s i)") (auto simp: reached_def s')
    then show ?thesis using open_j 2 by (auto simp: holds_open_def s' split: if_splits)
  next
    case 3
    then show ?thesis using open_j by (rule_tac holds_open_same) (auto simp: s' reached_def)
  qed
qed

lemma coalesce_step_ok:
  assumes "coalesce_step d m b s s'" and ok: "coalesce_ok m b s"
  shows "coalesce_ok m b s'"
  using assms(1)
proof cases
  case (read_row r rs)
  then show ?thesis using source_step(1) [where b = b and s' = s' and s = s and m = m]
    by (intro coalesce_ok_same [OF ok]) (auto simp: lane_rest_def reached_def to_join_def stream_of_def)
next
  case (write_first r)
  then show ?thesis using source_step(1) [where b = b and s' = s' and s = s and m = m] ok
    by (intro coalesce_ok_same [OF ok]) (auto simp: lane_rest_def reached_def to_join_def stream_of_def)
next
  case (write_lane r i)
  then have "case co_row s' of None \<Rightarrow> True | Some (r, k) \<Rightarrow> k \<le> m" using ok by (auto simp: coalesce_ok_def)
  with write_lane show ?thesis using source_step(1) [where b = b and s' = s' and s = s and m = m]
    by (intro coalesce_ok_same [OF ok]) (auto simp: lane_rest_def reached_def to_join_def stream_of_def)
next
  case (poll1 i k rest)
  note step = poll1_step [OF poll1(2,4,1), where b = b]
  have "reached s' l = reached s l" for l
    using merge_poll1_keeps [OF poll1(4), of "[]"] by (simp add: reached_def poll1(1))
  moreover have "ms_src2 (co_merge s' l) = ms_src2 (co_merge s l)" for l
    using merge_poll1_keeps [OF poll1(4), of "[]"] by (simp add: poll1(1))
  moreover have "to_join b s' 0 = to_join b s 0" using step(1) by (simp add: same_work_def)
  moreover have "co_row s' = co_row s" by (simp add: poll1(1))
  ultimately show ?thesis using step(1) ok by (intro coalesce_ok_same [OF ok]) (auto simp: coalesce_ok_def)
next
  case (poll2 i k rest)
  note step = poll2_step [OF poll2(2,4,1), where b = b]
  have k: "ms_src1 k = ms_src1 (co_merge s i)"  "ms_src2 (co_merge s i) \<noteq> None \<Longrightarrow> ms_src2 k \<noteq> None"
    using poll2(4) by (auto simp: merge_poll2_def split: option.splits list.splits)
  have "reached s' l = reached s l" for l by (simp add: reached_def poll2(1) k)
  moreover have "ms_src2 (co_merge s' l) \<noteq> None" if "ms_src2 (co_merge s l) \<noteq> None" for l
    using k(2) that by (cases "l = i") (simp_all add: poll2(1))
  moreover have "to_join b s' 0 = to_join b s 0" using step(1) by (simp add: same_work_def)
  moreover have "co_row s' = co_row s" by (simp add: poll2(1))
  ultimately show ?thesis using step(1) ok by (intro coalesce_ok_same [OF ok]) (auto simp: coalesce_ok_def)
next
  case (switch i k new)
  show ?thesis by (rule switch_keeps_ok [OF ok switch(2,4,1)])
next
  case (take_out x rest)
  note step = take_step [OF take_out(2,1), where b = b]
  have "set (to_join b s' 0) \<subseteq> set (to_join b s 0)"
    using step(1) [of 0] step(2) by (cases "m = 0") (auto simp: same_work_def to_join_def take_out(1))
  with step(1) ok show ?thesis
    by (intro coalesce_ok_same [OF ok]) (auto simp: take_out(1) coalesce_ok_def reached_def)
qed

section \<open>The chain comes to an end\<close>

definition source_work :: "nat \<Rightarrow> coalescer \<Rightarrow> nat" where
  "source_work m s = length (co_rows s) * (m + 3) + (case co_row s of None \<Rightarrow> 0 | Some (r, k) \<Rightarrow> m + 2 - k)"

definition join_work :: "nat \<Rightarrow> coalescer \<Rightarrow> nat \<Rightarrow> nat" where
  "join_work b s j = length (to_join b s j) + length (lane_to_join b s j)"

definition coalesce_work :: "nat \<Rightarrow> nat \<Rightarrow> coalescer \<Rightarrow> nat" where
  "coalesce_work m b s = source_work m s + length (stream_of b s m) + (\<Sum>j<m. join_work b s j)"

lemma same_join_work: "same_work b s s' j \<Longrightarrow> join_work b s' j = join_work b s j"
  by (simp add: same_work_def join_work_def)

lemma merge_switch_work:
  assumes "merge_switch k = (k', new)"
  shows "length (the_held (ms_src1 k')) + length (the_held (ms_src2 k')) \<le> length (the_held (ms_src1 k)) + length (the_held (ms_src2 k))"
    and "new \<noteq> [] \<Longrightarrow>
      length (the_held (ms_src1 k')) + length (the_held (ms_src2 k')) < length (the_held (ms_src1 k)) + length (the_held (ms_src2 k))"
  using assms by (auto simp: merge_switch_def split: if_splits option.splits)

lemma switch_work:
  assumes "i < m" and sw: "merge_switch (co_merge s i) = (k, new)"
    and s': "s' = s\<lparr>co_merge := (co_merge s)(i := k), co_line := (co_line s)(Suc i := co_line s (Suc i) @ new)\<rparr>"
  shows "coalesce_work m b s' \<le> coalesce_work m b s" and "new \<noteq> [] \<Longrightarrow> coalesce_work m b s' < coalesce_work m b s"
proof -
  note step = switch_step [OF assms, where b = b]
  have own: "join_work b s' i \<le> join_work b s i" "new \<noteq> [] \<Longrightarrow> join_work b s' i < join_work b s i"
    using merge_switch_work [OF sw] unfolding join_work_def step(3,4) by (auto simp: to_join_def lane_to_join_def)
  have all: "join_work b s' j \<le> join_work b s j" for j
    using own(1) same_join_work [OF step(1)] by (cases "j = i") simp_all
  have src: "source_work m s' = source_work m s" by (simp add: source_work_def s')
  show "coalesce_work m b s' \<le> coalesce_work m b s"
    using sum_mono [of "{..<m}" "join_work b s'" "join_work b s"] all by (simp add: coalesce_work_def step(2) src)
  show "coalesce_work m b s' < coalesce_work m b s" if "new \<noteq> []"
    using sum_strict_mono_ex1 [of "{..<m}" "join_work b s'" "join_work b s"] all own(2) [OF that] assms(1)
    by (auto simp: coalesce_work_def step(2) src)
qed

lemma work_others:
  assumes "\<And>j. j < m \<Longrightarrow> same_work b s s' j"
  shows "(\<Sum>j<m. join_work b s' j) = (\<Sum>j<m. join_work b s j)"
  using assms by (intro sum.cong) (simp_all add: same_join_work)

lemma source_works:
  assumes "co_line s' 0 @ lane_rest b s' 0 = co_line s 0 @ lane_rest b s 0"
    and "\<And>i. i < m \<Longrightarrow> co_side s' i @ lane_rest b s' (Suc i) = co_side s i @ lane_rest b s (Suc i)"
    and "\<And>i. co_merge s' i = co_merge s i \<and> co_line s' (Suc i) = co_line s (Suc i)"
  shows "(\<Sum>j<m. join_work b s' j) = (\<Sum>j<m. join_work b s j) \<and> stream_of b s' m = stream_of b s m"
  using work_others source_step [OF assms] by blast

lemma coalesce_step_work:
  assumes "coalesce_step d m b s s'"
  shows "coalesce_work m b s' \<le> coalesce_work m b s"
  using assms
proof cases
  case (read_row r rs)
  then have "(\<Sum>j<m. join_work b s' j) = (\<Sum>j<m. join_work b s j) \<and> stream_of b s' m = stream_of b s m"
    by (intro source_works) (auto simp: lane_rest_def)
  with read_row show ?thesis by (simp add: coalesce_work_def source_work_def)
next
  case (write_first r)
  then have "(\<Sum>j<m. join_work b s' j) = (\<Sum>j<m. join_work b s j) \<and> stream_of b s' m = stream_of b s m"
    by (intro source_works) (auto simp: lane_rest_def)
  with write_first show ?thesis by (simp add: coalesce_work_def source_work_def)
next
  case (write_lane r i)
  then have "(\<Sum>j<m. join_work b s' j) = (\<Sum>j<m. join_work b s j) \<and> stream_of b s' m = stream_of b s m"
    by (intro source_works) (auto simp: lane_rest_def)
  with write_lane show ?thesis by (simp add: coalesce_work_def source_work_def diff_le_mono)
next
  case (poll1 i k rest)
  note step = poll1_step [OF poll1(2,4,1), where b = b]
  show ?thesis using work_others [OF step(1)] by (simp add: coalesce_work_def source_work_def step(2)) (simp add: poll1(1))
next
  case (poll2 i k rest)
  note step = poll2_step [OF poll2(2,4,1), where b = b]
  show ?thesis using work_others [OF step(1)] by (simp add: coalesce_work_def source_work_def step(2)) (simp add: poll2(1))
next
  case (switch i k new)
  show ?thesis by (rule switch_work(1) [OF switch(2,4,1)])
next
  case (take_out x rest)
  note step = take_step [OF take_out(2,1), where b = b]
  show ?thesis using work_others [OF step(1)] by (simp add: coalesce_work_def source_work_def step(2)) (simp add: take_out(1))
qed

lemma coalesce_step_out:
  assumes "coalesce_step d m b s s'"
  shows "co_out s' @ stream_of b s' m = co_out s @ stream_of b s m"
  using assms
proof cases
  case (poll1 i k rest)
  show ?thesis by (simp add: poll1_step(2) [OF poll1(2,4,1)]) (simp add: poll1(1))
next
  case (poll2 i k rest)
  show ?thesis by (simp add: poll2_step(2) [OF poll2(2,4,1)]) (simp add: poll2(1))
next
  case (switch i k new)
  show ?thesis by (simp add: switch_step(2) [OF switch(2,4,1)]) (simp add: switch(1))
next
  case (take_out x rest)
  show ?thesis by (simp add: take_step(2) [OF take_out(2,1)]) (simp add: take_out(1))
next
  case (read_row r rs)
  then have "stream_of b s' m = stream_of b s m" by (intro stream_source) (simp_all add: lane_rest_def)
  with read_row show ?thesis by simp
next
  case (write_first r)
  then have "stream_of b s' m = stream_of b s m" by (intro stream_source) (auto simp: lane_rest_def)
  with write_first show ?thesis by simp
next
  case (write_lane r i)
  then have "stream_of b s' m = stream_of b s m" by (intro stream_source) (auto simp: lane_rest_def)
  with write_lane show ?thesis by simp
qed

definition gets_on :: "nat \<Rightarrow> nat \<Rightarrow> nat \<Rightarrow> coalescer \<Rightarrow> bool" where
  "gets_on d m b s \<longleftrightarrow> (\<exists>s'. coalesce_run d m b s s' \<and> coalesce_work m b s' < coalesce_work m b s)"

lemma gets_on_step: "coalesce_step d m b s s' \<Longrightarrow> gets_on d m b s' \<Longrightarrow> gets_on d m b s"
  unfolding gets_on_def using coalesce_step_work by (meson converse_rtranclp_into_rtranclp le_trans less_le_trans)

lemma gets_on_now: "coalesce_step d m b s s' \<Longrightarrow> coalesce_work m b s' < coalesce_work m b s \<Longrightarrow> gets_on d m b s"
  unfolding gets_on_def by blast

text \<open>A kernel with something to join gets on when its output has room.\<close>

definition joins :: "coalescer \<Rightarrow> nat \<Rightarrow> bool" where
  "joins s i \<longleftrightarrow> (ms_second (co_merge s i) \<and> ms_src2 (co_merge s i) \<noteq> None \<or>
     \<not> ms_second (co_merge s i) \<and> reached s i \<noteq> [] \<and> (ms_src2 (co_merge s i) \<noteq> None \<or> co_side s i \<noteq> [])) \<and> co_line s (Suc i) = []"

lemma switch_writes:
  assumes "ms_second k \<and> ms_src2 k \<noteq> None \<or> \<not> ms_second k \<and> ms_src1 k \<noteq> None \<and> ms_src2 k \<noteq> None"
  obtains k' x where "merge_switch k = (k', [x])"
  using assms by (cases "merge_switch k") (auto simp: merge_switch_def split: if_splits option.splits)

lemma gets_on_full:
  assumes "i < m" and "1 \<le> d" and "ms_at (co_merge s i) = At_Switch" and "joins s i"
    and "ms_second (co_merge s i) \<or> ms_src1 (co_merge s i) \<noteq> None" and "ms_src2 (co_merge s i) \<noteq> None"
  shows "gets_on d m b s"
proof -
  obtain k x where sw: "merge_switch (co_merge s i) = (k, [x])"
    using assms(5,6) by (rule_tac switch_writes [of "co_merge s i"]) auto
  let ?s' = "s\<lparr>co_merge := (co_merge s)(i := k), co_line := (co_line s)(Suc i := co_line s (Suc i) @ [x])\<rparr>"
  have "coalesce_step d m b s ?s'" using assms(2,4) by (intro coalesce_step.switch [OF assms(1,3) sw]) (simp add: joins_def)
  then show ?thesis using switch_work(2) [OF assms(1) sw refl] by (rule gets_on_now) simp
qed

lemma gets_on_polled:
  assumes "i < m" and "1 \<le> d" and at: "ms_at (co_merge s i) = At_In2" and joins: "joins s i"
    and later: "\<And>s'. ms_at (co_merge s' i) = At_Switch \<Longrightarrow> joins s' i \<Longrightarrow> ms_src2 (co_merge s' i) \<noteq> None \<Longrightarrow>
      ms_src1 (co_merge s' i) = ms_src1 (co_merge s i) \<Longrightarrow> ms_second (co_merge s' i) = ms_second (co_merge s i) \<Longrightarrow> gets_on d m b s'"
  shows "gets_on d m b s"
proof -
  obtain k rest where poll: "merge_poll2 (co_merge s i) (co_side s i) = (k, rest)" by (cases "merge_poll2 (co_merge s i) (co_side s i)")
  let ?s' = "s\<lparr>co_merge := (co_merge s)(i := k), co_side := (co_side s)(i := rest)\<rparr>"
  have k: "ms_src1 k = ms_src1 (co_merge s i)" "ms_second k = ms_second (co_merge s i)" "ms_at k = At_Switch" "ms_src2 k \<noteq> None"
    using poll joins by (auto simp: merge_poll2_def joins_def split: option.splits list.splits)
  then have "joins ?s' i" using joins by (auto simp: joins_def reached_def)
  with k have "gets_on d m b ?s'" by (intro later) simp_all
  then show ?thesis by (rule gets_on_step [OF coalesce_step.poll2 [OF assms(1) at poll]])
qed

lemma gets_on_start:
  assumes "i < m" and "1 \<le> d" and at: "ms_at (co_merge s i) = At_In1" and joins: "joins s i"
  shows "gets_on d m b s"
proof -
  obtain k rest where poll: "merge_poll1 (co_merge s i) (co_line s i) = (k, rest)" by (cases "merge_poll1 (co_merge s i) (co_line s i)")
  let ?s' = "s\<lparr>co_merge := (co_merge s)(i := k), co_line := (co_line s)(i := rest)\<rparr>"
  have k: "ms_second k = ms_second (co_merge s i)" "ms_src2 k = ms_src2 (co_merge s i)" "ms_at k = At_In2" "ms_second k \<or> ms_src1 k \<noteq> None"
    "the_held (ms_src1 k) @ rest = reached s i"
    using poll joins by (auto simp: merge_poll1_def joins_def reached_def split: option.splits list.splits)
  have joins': "joins ?s' i" using joins k(1,2,5) by (simp add: joins_def reached_def)
  have "gets_on d m b ?s'"
  proof (rule gets_on_polled [OF assms(1,2) _ joins'])
    fix s2
    assume "ms_at (co_merge s2 i) = At_Switch" "joins s2 i" "ms_src2 (co_merge s2 i) \<noteq> None"
      "ms_src1 (co_merge s2 i) = ms_src1 (co_merge ?s' i)" "ms_second (co_merge s2 i) = ms_second (co_merge ?s' i)"
    then show "gets_on d m b s2" using k(4) by (intro gets_on_full [OF assms(1,2)]) simp_all
  qed (simp add: k(3))
  then show ?thesis by (rule gets_on_step [OF coalesce_step.poll1 [OF assms(1) at poll]])
qed

lemma gets_on_switch:
  assumes "i < m" and "1 \<le> d" and at: "ms_at (co_merge s i) = At_Switch" and joins: "joins s i"
  shows "gets_on d m b s"
proof (cases "(ms_second (co_merge s i) \<or> ms_src1 (co_merge s i) \<noteq> None) \<and> ms_src2 (co_merge s i) \<noteq> None")
  case True
  then show ?thesis using gets_on_full [OF assms] by blast
next
  case False
  then have sw: "merge_switch (co_merge s i) = ((co_merge s i)\<lparr>ms_at := At_In1\<rparr>, [])"
    using joins by (auto simp: merge_switch_def joins_def split: option.splits)
  have "co_line s (Suc i) = []" using joins by (simp add: joins_def)
  then have "coalesce_step d m b s (s\<lparr>co_merge := (co_merge s)(i := (co_merge s i)\<lparr>ms_at := At_In1\<rparr>),
      co_line := (co_line s)(Suc i := co_line s (Suc i) @ [])\<rparr>)"
    by (intro coalesce_step.switch [OF assms(1) at sw]) simp
  moreover have "gets_on d m b (s\<lparr>co_merge := (co_merge s)(i := (co_merge s i)\<lparr>ms_at := At_In1\<rparr>),
      co_line := (co_line s)(Suc i := co_line s (Suc i) @ [])\<rparr>)"
    using joins by (intro gets_on_start [OF assms(1,2)]) (simp_all add: joins_def reached_def)
  ultimately show ?thesis by (rule gets_on_step)
qed

lemma gets_on_joins:
  assumes "i < m" and "1 \<le> d" and "joins s i"
  shows "gets_on d m b s"
proof (cases "ms_at (co_merge s i)")
  case At_In1
  then show ?thesis using gets_on_start assms by blast
next
  case At_In2
  show ?thesis by (rule gets_on_polled [OF assms(1,2) At_In2 assms(3)]) (rule gets_on_switch [OF assms(1,2)])
next
  case At_Switch
  then show ?thesis using gets_on_switch assms by blast
qed

text \<open>So does the source, when the stream it is at has room.\<close>

lemma gets_on_write:
  assumes "coalesce_ok m b s" and "co_row s = Some (r, k)" and "1 \<le> d"
    and "k = 0 \<Longrightarrow> co_line s 0 = []" and "\<And>i. k = Suc i \<Longrightarrow> co_side s i = []"
  shows "gets_on d m b s"
proof -
  have "k \<le> m" using assms(1,2) by (simp add: coalesce_ok_def)
  show ?thesis
  proof (cases k)
    case 0
    let ?s' = "s\<lparr>co_line := (co_line s)(0 := co_line s 0 @ [address_item b r 0]), co_row := (if m = 0 then None else Some (r, 1))\<rparr>"
    have "coalesce_step d m b s ?s'" using assms 0 by (intro coalesce_step.write_first) simp_all
    moreover have "(\<Sum>j<m. join_work b ?s' j) = (\<Sum>j<m. join_work b s j) \<and> stream_of b ?s' m = stream_of b s m"
      using assms(2) 0 by (intro source_works) (auto simp: lane_rest_def)
    ultimately show ?thesis using assms(2) 0 by (rule_tac gets_on_now) (auto simp: coalesce_work_def source_work_def)
  next
    case (Suc i)
    let ?s' = "s\<lparr>co_side := (co_side s)(i := co_side s i @ [address_item b r (Suc i)]),
      co_row := (if Suc i = m then None else Some (r, Suc (Suc i)))\<rparr>"
    have "coalesce_step d m b s ?s'" using assms Suc by (intro coalesce_step.write_lane) simp_all
    moreover have "(\<Sum>j<m. join_work b ?s' j) = (\<Sum>j<m. join_work b s j) \<and> stream_of b ?s' m = stream_of b s m"
      using assms(2) Suc by (intro source_works) (auto simp: lane_rest_def)
    ultimately show ?thesis using assms(2) Suc \<open>k \<le> m\<close>
      by (rule_tac gets_on_now) (auto simp: coalesce_work_def source_work_def)
  qed
qed

lemma gets_on_read:
  assumes "co_row s = None" and "co_rows s = r # rs"
  shows "gets_on d m b s"
proof -
  let ?s' = "s\<lparr>co_row := Some (r, 0), co_rows := rs\<rparr>"
  have "(\<Sum>j<m. join_work b ?s' j) = (\<Sum>j<m. join_work b s j) \<and> stream_of b ?s' m = stream_of b s m"
    using assms by (intro source_works) (auto simp: lane_rest_def)
  with coalesce_step.read_row [OF assms] show ?thesis
    using assms by (rule_tac gets_on_now) (auto simp: coalesce_work_def source_work_def)
qed

text \<open>When nothing can get on, everything has left the chain.\<close>

lemma flags_same_merge: "flags xs + of_bool second = length ys \<Longrightarrow> flags (same_merge second xs ys) = length ys"
proof (induction second xs ys rule: same_merge.induct)
  case (2 x xs y ys)
  then show ?case by (cases "last x"; cases "data x = y") simp_all
qed simp_all

lemma same_merge_Nil [simp]: "same_merge second xs [] = []"
  by (cases second; cases xs) simp_all

lemma length_lane_rest: "length (lane_rest b s l) =
    length (co_rows s) + (case co_row s of None \<Rightarrow> 0 | Some (r, k) \<Rightarrow> of_bool (k \<le> l))"
  by (simp add: lane_rest_def split: option.splits prod.splits)

lemma flags_lane_rest: "flags (lane_rest b s l) = length (lane_rest b s l)"
  by (rule flags_all) (auto simp: lane_rest_def address_item_def split: option.splits if_splits)

lemma flags_to_join: "flags (to_join b s j) = flags (reached s j) + flags (arriving b s j)"
  by (simp add: to_join_def reached_def stream_of_def)

lemma flags_arriving:
  assumes "coalesce_ok m b s" and "i < m"
  shows "flags (arriving b s (Suc i)) = length (lane_to_join b s i)"
  using assms by (simp add: arriving_Suc coalesce_ok_def kernel_ok_def flags_same_merge)

lemma source_is_next:
  assumes "length (lane_rest b s j) < length (lane_rest b s (Suc j))"
  obtains r where "co_row s = Some (r, Suc j)"
proof (cases "co_row s")
  case (Some p)
  then obtain r k where p: "co_row s = Some (r, k)" by (cases p) simp
  with assms have "k \<le> Suc j \<and> \<not> k \<le> j" by (simp add: length_lane_rest split: if_splits)
  then have "k = Suc j" by simp
  with p that show ?thesis by simp
qed (use assms in \<open>simp add: length_lane_rest\<close>)

lemma flags_0_open: "flags xs = 0 \<Longrightarrow> xs \<noteq> [] \<Longrightarrow> \<not> last (List.last xs)"
  by (auto simp: flags_def filter_empty_conv)

lemma lane_runs_ahead:
  assumes ok: "coalesce_ok m b s" and "j < m" and "\<not> ms_second (co_merge s j)" and "reached s j \<noteq> []"
    and "ms_src2 (co_merge s j) = None" and "co_side s j = []"
  shows "length (lane_rest b s j) < length (lane_rest b s (Suc j))"
proof -
  have "flags (to_join b s j) = length (lane_rest b s (Suc j))"
  proof -
    have "kernel_ok b s j" using ok assms(2) by (simp add: coalesce_ok_def)
    then show ?thesis using assms(3,5,6) by (simp add: kernel_ok_def lane_to_join_def)
  qed
  then have sum: "flags (reached s j) + flags (arriving b s j) = length (lane_rest b s (Suc j))" by (simp add: flags_to_join)
  show ?thesis
  proof (cases j)
    case 0
    have "\<forall>x\<in>set (reached s 0). last x" using ok by (auto simp: coalesce_ok_def to_join_def reached_def stream_of_def)
    then have "0 < flags (reached s 0)" using assms(4) 0 by (simp add: flags_all)
    with sum 0 show ?thesis by (simp add: flags_lane_rest)
  next
    case (Suc i)
    then have arriving: "flags (arriving b s j) = length (lane_to_join b s i)" using flags_arriving [OF ok, of i] assms(2) by simp
    have "holds_open s i" using ok assms(2) Suc by (simp add: coalesce_ok_def)
    then have "0 < flags (reached s j) \<or> ms_src2 (co_merge s i) \<noteq> None"
      using flags_0_open [of "reached s j"] assms(4) Suc by (auto simp: holds_open_def)
    with sum show ?thesis unfolding arriving by (auto simp: lane_to_join_def Suc)
  qed
qed

lemma nothing_left_lengths:
  assumes ok: "coalesce_ok m b s" and empty: "\<And>j. j < m \<Longrightarrow> reached s j = [] \<and> \<not> ms_second (co_merge s j)" and "j < m"
  shows "length (lane_to_join b s j) = length (lane_rest b s 0)"
  using \<open>j < m\<close>
proof (induction j)
  case 0
  then have "kernel_ok b s 0" using ok by (simp add: coalesce_ok_def)
  then show ?case using empty [OF 0] by (simp add: kernel_ok_def flags_to_join flags_lane_rest)
next
  case (Suc j)
  then have "kernel_ok b s (Suc j)" using ok by (simp add: coalesce_ok_def)
  then show ?case using empty [OF Suc.prems] Suc flags_arriving [OF ok, of j] by (simp add: kernel_ok_def flags_to_join)
qed

lemma coalesce_gets_on:
  assumes ok: "coalesce_ok m b s" and "1 \<le> d"
  shows "gets_on d m b s \<or> stream_of b s m = []"
proof (cases "co_line s m")
  case (Cons x rest)
  let ?s' = "s\<lparr>co_line := (co_line s)(m := rest), co_out := co_out s @ [x]\<rparr>"
  have "(\<Sum>j<m. join_work b ?s' j) = (\<Sum>j<m. join_work b s j)" by (rule work_others) (rule take_step(1) [OF Cons refl])
  moreover have "stream_of b s m = x # stream_of b ?s' m" by (rule take_step(2) [OF Cons refl])
  ultimately have "gets_on d m b s"
    using coalesce_step.take_out [OF Cons] by (rule_tac gets_on_now) (auto simp: coalesce_work_def source_work_def)
  then show ?thesis ..
next
  case Nil
  define busy where "busy j = (j < m \<and> (reached s j \<noteq> [] \<or> ms_second (co_merge s j)))" for j
  show ?thesis
  proof (cases "\<exists>j. busy j")
    case True
    have bound: "\<forall>j. busy j \<longrightarrow> j \<le> m" by (simp add: busy_def)
    then obtain j where j: "busy j" "\<And>i. busy i \<Longrightarrow> i \<le> j" using True GreatestI_ex_nat Greatest_le_nat by metis
    then have "j < m" by (simp add: busy_def)
    have "co_line s (Suc j) = []"
      using j(2) [of "Suc j"] Nil \<open>j < m\<close> by (cases "Suc j = m") (auto simp: busy_def reached_def)
    show ?thesis
    proof (cases "joins s j")
      case True
      then show ?thesis using gets_on_joins [OF \<open>j < m\<close> assms(2)] by simp
    next
      case False
      have "kernel_ok b s j" using ok \<open>j < m\<close> by (simp add: coalesce_ok_def)
      then have stuck: "\<not> ms_second (co_merge s j)" "reached s j \<noteq> []" "ms_src2 (co_merge s j) = None" "co_side s j = []"
        using False j(1) \<open>co_line s (Suc j) = []\<close> by (auto simp: joins_def busy_def kernel_ok_def)
      obtain r where "co_row s = Some (r, Suc j)" using source_is_next [OF lane_runs_ahead [OF ok \<open>j < m\<close> stuck]] .
      then show ?thesis using gets_on_write [OF ok _ assms(2)] stuck(4) by simp
    qed
  next
    case False
    then have empty: "reached s j = [] \<and> \<not> ms_second (co_merge s j)" if "j < m" for j using that by (auto simp: busy_def)
    note lengths = nothing_left_lengths [OF ok empty]
    show ?thesis
    proof (cases "co_row s")
      case None
      show ?thesis
      proof (cases "co_rows s")
        case (Cons r rs)
        then show ?thesis using gets_on_read [OF None] by blast
      next
        case rows: Nil
        then have "length (lane_rest b s 0) = 0" using None by (simp add: length_lane_rest)
        then have "arriving b s m = []" using lengths by (cases m) (simp_all add: arriving_Suc)
        then show ?thesis using Nil by (simp add: stream_of_def)
      qed
    next
      case (Some p)
      then obtain r k where p: "co_row s = Some (r, k)" by (cases p) simp
      then have "k \<le> m" using ok by (simp add: coalesce_ok_def)
      have "k = 0"
      proof (cases k)
        case (Suc i)
        then have "length (lane_rest b s (Suc i)) \<le> length (lane_rest b s 0)"
          using lengths [of i] \<open>k \<le> m\<close> by (simp add: lane_to_join_def)
        then show ?thesis using p Suc by (simp add: length_lane_rest)
      qed
      moreover have "co_line s 0 = []" using empty [of 0] Nil by (cases m) (auto simp: reached_def)
      ultimately show ?thesis using gets_on_write [OF ok p assms(2)] by simp
    qed
  qed
qed

lemma coalesce_finishes:
  assumes "coalesce_ok m b s" and "1 \<le> d"
  shows "\<exists>s'. coalesce_run d m b s s' \<and> stream_of b s' m = []"
  using assms(1)
proof (induction "coalesce_work m b s" arbitrary: s rule: less_induct)
  case less
  show ?case
  proof (cases "stream_of b s m = []")
    case False
    then obtain s1 where s1: "coalesce_run d m b s s1" "coalesce_work m b s1 < coalesce_work m b s"
      using coalesce_gets_on [OF less.prems assms(2)] by (auto simp: gets_on_def)
    have "coalesce_ok m b s1" using s1(1) less.prems by (induction rule: rtranclp_induct) (auto intro: coalesce_step_ok)
    then obtain s2 where "coalesce_run d m b s1 s2" "stream_of b s2 m = []" using less.hyps [OF s1(2)] by blast
    with s1(1) show ?thesis by (blast intro: rtranclp_trans)
  qed blast
qed

section \<open>What the commands are\<close>

text \<open>The cache lines of the vertices of the rows, one after another, without the repeats that follow each other.\<close>

definition line_indices :: "nat \<Rightarrow> weight_item \<Rightarrow> u32 list" where
  "line_indices b row = map (drop_bit (b + LOG2_SIZE_BY_INT)) (lanes row)"

definition coalesced :: "nat \<Rightarrow> weight_item list \<Rightarrow> cache_command list" where
  "coalesced b rows = map (\<lambda>v. \<lparr>cc_idx = v, cc_size = 1\<rparr>) (remdups_adj (concat (map (line_indices b) rows)))"

lemma remdups_adj_idem_append: "remdups_adj (remdups_adj xs @ ys) = remdups_adj (xs @ ys)"
proof (induction xs rule: remdups_adj.induct)
  case (3 x y xs)
  have "remdups_adj (y # xs) = y # tl (remdups_adj (y # xs))" by simp
  then obtain zs where "remdups_adj (y # xs) = y # zs" ..
  with 3 show ?case by (cases "x = y") simp_all
qed simp_all

lemma remdups_adj_append_idem: "remdups_adj (xs @ remdups_adj ys) = remdups_adj (xs @ ys)"
proof (induction xs)
  case Nil
  show ?case using remdups_adj_idem_append [of ys "[]"] by simp
qed (simp add: remdups_adj_Cons)

lemma remdups_adj_concat: "remdups_adj (concat (map remdups_adj xss)) = remdups_adj (concat xss)"
proof (induction xss)
  case (Cons xs xss)
  have "remdups_adj (xs @ concat (map remdups_adj xss)) = remdups_adj (xs @ concat xss)"
    using remdups_adj_append_idem [of xs] Cons.IH by metis
  then show ?case by (simp add: remdups_adj_idem_append)
qed simp

lemma remdups_adj_snoc: "xs \<noteq> [] \<Longrightarrow>
    remdups_adj (xs @ [y]) = (if List.last xs = y then remdups_adj xs else remdups_adj xs @ [y])"
  by (cases xs rule: rev_cases) (simp_all add: remdups_adj_append_two)

lemma remdups_adj_prefix: "remdups_adj (xs @ ys) = remdups_adj xs @ (if xs = [] then remdups_adj ys else tl (remdups_adj (List.last xs # ys)))"
proof (cases "xs = []")
  case False
  then obtain zs z where "xs = zs @ [z]" by (cases xs rule: rev_cases) simp_all
  then show ?thesis using remdups_adj_append [of zs z ys] by simp
qed simp

text \<open>A row as it leaves a kernel: its items, the last of them flagged.\<close>

fun flagged :: "u32 list \<Rightarrow> u32 pkg list" where
  "flagged [] = []"
| "flagged (x # xs) = \<lparr>data = x, last = (xs = [])\<rparr> # flagged xs"

lemma data_flagged [simp]: "map data (flagged xs) = xs"
  by (induction xs) simp_all

lemma same_merge_row:
  "xs \<noteq> [] \<Longrightarrow> same_merge False (flagged xs @ rest) (y # ys) =
     flagged (if List.last xs = y then xs else xs @ [y]) @ same_merge False rest ys"
proof (induction xs)
  case (Cons x xs)
  then show ?case by (cases "xs = []") simp_all
qed simp

definition joined_row :: "nat \<Rightarrow> nat \<Rightarrow> weight_item \<Rightarrow> u32 list" where
  "joined_row b i row = remdups_adj (take (Suc i) (line_indices b row))"

lemma take_line_indices:
  "i < 15 \<Longrightarrow> take (Suc (Suc i)) (line_indices b row) = take (Suc i) (line_indices b row) @ [data (address_item b row (Suc i))]"
  by (subst take_Suc_conv_app_nth) (simp_all add: line_indices_def address_item_def)

lemma same_merge_rows:
  "i < 15 \<Longrightarrow> same_merge False (concat (map (\<lambda>r. flagged (joined_row b i r)) rows)) (map (\<lambda>r. data (address_item b r (Suc i))) rows) =
     concat (map (\<lambda>r. flagged (joined_row b (Suc i) r)) rows)"
proof (induction rows)
  case (Cons r rows)
  have ne: "take (Suc i) (line_indices b r) \<noteq> []" by (simp add: line_indices_def)
  have "joined_row b (Suc i) r = (if List.last (joined_row b i r) = data (address_item b r (Suc i)) then joined_row b i r
      else joined_row b i r @ [data (address_item b r (Suc i))])"
    using remdups_adj_snoc [OF ne] Cons.prems by (simp only: joined_row_def take_line_indices last_remdups_adj)
  moreover have "joined_row b i r \<noteq> []" using ne by (simp add: joined_row_def)
  ultimately show ?case using Cons by (simp add: same_merge_row)
qed simp

lemma arriving_start: "i < 16 \<Longrightarrow> arriving b (coalesce_start rows) i = concat (map (\<lambda>r. flagged (joined_row b i r)) rows)"
proof (induction i)
  case 0
  have "joined_row b 0 r = [drop_bit (b + LOG2_SIZE_BY_INT) (lanes r ! 0)]" for r
    by (cases "lanes r") (simp_all add: joined_row_def line_indices_def)
  then show ?case by (induction rows) (simp_all add: coalesce_start_def lane_rest_def address_item_def)
next
  case (Suc i)
  then show ?case
    by (simp add: arriving_Suc to_join_def lane_to_join_def stream_of_def same_merge_rows [symmetric] comp_def)
      (simp add: coalesce_start_def merge_init_def lane_rest_def comp_def)
qed

lemma filter_loop_data:
  fixes x :: "u32 pkg"
  shows "data x # map data (filter_loop (Some (data x)) polls) = remdups_adj (data x # map data (concat (map the_held polls)))"
proof (induction polls arbitrary: x)
  case (Cons p polls)
  show ?case
  proof (cases p)
    case (Some y)
    show ?thesis using Cons.IH [of y] Cons.IH [of x] Some by (cases "data y = data x") simp_all
  qed (simp add: Cons.IH)
qed simp

lemma filter_same_data: "map data (filter_same_item polls) = remdups_adj (map data (concat (map the_held polls)))"
proof -
  have "map data (filter_loop None polls) = remdups_adj (map data (concat (map the_held polls)))"
  proof (induction polls)
    case (Cons p polls)
    then show ?case by (cases p) (simp_all add: filter_loop_data)
  qed simp
  then show ?thesis by (simp add: filter_same_item_def)
qed

lemma single_to_cmd_data: "single_to_cmd inp = map (\<lambda>v. \<lparr>cc_idx = v, cc_size = 1\<rparr>) (map data inp)"
  by (simp add: single_to_cmd_def)

lemma coalesced_rows:
  "coalesced b rows = map (\<lambda>v. \<lparr>cc_idx = v, cc_size = 1\<rparr>)
     (remdups_adj (map data (arriving b (coalesce_start rows) 15)))"
proof -
  have "joined_row b 15 r = remdups_adj (line_indices b r)" for r by (simp add: joined_row_def line_indices_def)
  then have "map data (concat (map (\<lambda>r. flagged (joined_row b 15 r)) rows)) = concat (map remdups_adj (map (line_indices b) rows))"
    by (simp add: map_concat comp_def)
  then show ?thesis by (simp add: coalesced_def arriving_start remdups_adj_concat del: map_map)
qed

lemma length_arriving_start: "flags (arriving b (coalesce_start rows) j) = length rows"
proof (induction j)
  case 0
  show ?case by (simp add: flags_lane_rest) (simp add: coalesce_start_def lane_rest_def)
next
  case (Suc j)
  have "flags (to_join b (coalesce_start rows) j) = length rows"
    using Suc by (simp add: flags_to_join reached_def) (simp add: coalesce_start_def merge_init_def)
  moreover have "length (lane_to_join b (coalesce_start rows) j) = length rows"
    by (simp add: lane_to_join_def lane_rest_def coalesce_start_def merge_init_def)
  ultimately show ?case
    by (simp add: arriving_Suc) (subst flags_same_merge; simp add: coalesce_start_def merge_init_def)
qed

lemma coalesce_start_ok: "coalesce_ok m b (coalesce_start rows)"
proof -
  have "kernel_ok b (coalesce_start rows) j" for j
    using length_arriving_start [of b rows j]
    by (simp add: kernel_ok_def flags_to_join) (simp add: reached_def lane_to_join_def lane_rest_def coalesce_start_def merge_init_def)
  moreover have "\<forall>x\<in>set (to_join b (coalesce_start rows) 0). last x"
    by (simp add: to_join_def stream_of_def coalesce_start_def merge_init_def lane_rest_def address_item_def)
  moreover have "holds_open (coalesce_start rows) j" for j
    by (simp add: holds_open_def reached_def coalesce_start_def merge_init_def)
  moreover have "co_row (coalesce_start rows) = None" by (simp add: coalesce_start_def)
  ultimately show ?thesis by (simp add: coalesce_ok_def)
qed

lemma coalesce_run_views:
  assumes "coalesce_run d m b (coalesce_start rows) s"
  shows "coalesce_ok m b s" and "co_out s @ stream_of b s m = arriving b (coalesce_start rows) m"
proof -
  show "coalesce_ok m b s" using assms by (induction rule: rtranclp_induct) (auto intro: coalesce_start_ok coalesce_step_ok)
  have "co_out s @ stream_of b s m = co_out (coalesce_start rows) @ stream_of b (coalesce_start rows) m"
    using assms by (induction rule: rtranclp_induct) (simp_all add: coalesce_step_out)
  then show "co_out s @ stream_of b s m = arriving b (coalesce_start rows) m" by (simp add: stream_of_def coalesce_start_def)
qed

definition coalesce_commands :: "u32 pkg option list \<Rightarrow> cache_command list" where
  "coalesce_commands polls = single_to_cmd (filter_same_item polls)"

lemma coalesce_commands_data: "coalesce_commands polls =
    map (\<lambda>v. \<lparr>cc_idx = v, cc_size = 1\<rparr>) (remdups_adj (map data (concat (map the_held polls))))"
  by (simp only: coalesce_commands_def single_to_cmd_data filter_same_data)

lemma commands_so_far:
  assumes "coalesce_run d 15 b (coalesce_start rows) s" and "concat (map the_held polls) = co_out s"
  shows "prefix (coalesce_commands polls) (coalesced b rows)"
  unfolding coalesce_commands_data coalesced_rows assms(2) coalesce_run_views(2) [OF assms(1), symmetric]
  by (simp add: remdups_adj_prefix)

lemma commands_at_end:
  assumes "coalesce_run d 15 b (coalesce_start rows) s" and "stream_of b s 15 = []" and "concat (map the_held polls) = co_out s"
  shows "coalesce_commands polls = coalesced b rows"
  unfolding coalesce_commands_data coalesced_rows assms(3) coalesce_run_views(2) [OF assms(1), symmetric] assms(2)
  by simp

text \<open>
  C10: Whatever the order in which the source, the fifteen kernels and the reader of the last stream take
  their steps, and whatever the depth of the streams, the commands sent so far are the first of those for
  the cache lines of the rows' vertices in order, each line that follows itself asked for once; and the
  chain never deadlocks: it can always go on until all of them have been sent.
\<close>

theorem coalesce_requests:
  assumes "1 \<le> d" and "coalesce_run d 15 b (coalesce_start rows) s"
  shows "(\<forall>polls. concat (map the_held polls) = co_out s \<longrightarrow> prefix (coalesce_commands polls) (coalesced b rows)) \<and>
    (\<exists>s'. coalesce_run d 15 b s s' \<and>
      (\<forall>polls. concat (map the_held polls) = co_out s' \<longrightarrow> coalesce_commands polls = coalesced b rows))"
proof (intro conjI)
  show "\<forall>polls. concat (map the_held polls) = co_out s \<longrightarrow> prefix (coalesce_commands polls) (coalesced b rows)"
    using commands_so_far [OF assms(2)] by blast
  obtain s' where s': "coalesce_run d 15 b s s'" "stream_of b s' 15 = []"
    using coalesce_finishes [OF coalesce_run_views(1) [OF assms(2)] assms(1)] by blast
  then have "coalesce_run d 15 b (coalesce_start rows) s'" using assms(2) by (blast intro: rtranclp_trans)
  with s' show "\<exists>s'. coalesce_run d 15 b s s' \<and>
      (\<forall>polls. concat (map the_held polls) = co_out s' \<longrightarrow> coalesce_commands polls = coalesced b rows)"
    using commands_at_end by blast
qed

text \<open>Lines of 16 vertices (\<open>b = 0\<close>): the vertices 3, 20, 21, 40 and 41 of a row are in three lines.\<close>

theorem coalesce_requests_witness:
  "\<exists>s. coalesce_run 16 15 0 (coalesce_start [pack_lanes ([3, 20, 21, 40] @ replicate 12 41)]) s \<and>
     map cc_idx (coalesce_commands (map Some (co_out s))) = [0, 1, 2]"
proof -
  have spec: "coalesced 0 [pack_lanes ([3, 20, 21, 40] @ replicate 12 41)] = map (\<lambda>v. \<lparr>cc_idx = v, cc_size = 1\<rparr>) [0, 1, 2]"
    by (simp add: coalesced_def line_indices_def LOG2_SIZE_BY_INT_def) (simp add: eval_nat_numeral)
  have all_read: "concat (map the_held (map Some xs)) = xs" for xs :: "u32 pkg list"
    by (induction xs) simp_all
  obtain s where "coalesce_run 16 15 0 (coalesce_start [pack_lanes ([3, 20, 21, 40] @ replicate 12 41)]) s"
    and "coalesce_commands (map Some (co_out s)) = map (\<lambda>v. \<lparr>cc_idx = v, cc_size = 1\<rparr>) [0, 1, 2]"
    using conjunct2 [OF coalesce_requests [of 16 0 "[pack_lanes ([3, 20, 21, 40] @ replicate 12 41)]"
      "coalesce_start [pack_lanes ([3, 20, 21, 40] @ replicate 12 41)]"]] all_read unfolding spec by auto
  then show ?thesis by auto
qed

end
