(* ===== verification/Spec2Isabelle.thy ===== *)
theory Spec2Isabelle
  imports Rng_Instance Lv_Router Node2vec_Step Urw Metapath_Walk Coalesce
begin

text \<open>
  A verification development for RidgeWalker, an accelerator for random walks on graphs written in
  HLS C++.  Queries are loaded by \<open>src/step_loader\<close>, kept running by \<open>src/ring_manager\<close>, and every
  step of a walk passes through a pipeline of kernels: row pointer access (\<open>src/lv_rpa_router\<close>,
  \<open>src/lv_rpa_access\<close>), sampling (\<open>src/lv_sample\<close>, with random numbers of \<open>src/irsgu\<close> and
  \<open>src/lv_sou\<close>) and column access (\<open>src/lv_cla_router\<close>, \<open>src/lv_cla_access\<close>).  The kernels are
  connected by streams and by butterfly switches (\<open>src/switch_butterfly\<close>).  Weighted walks
  (\<open>app/metapath\<close>) read the neighbour lists in bursts (\<open>src/sdyburst\<close>), give every neighbour a
  weight (\<open>src/metapath\<close>) and select one by reservoir sampling (\<open>src/wrs\<close>, \<open>src/msample\<close>).
  Second-order walks (\<open>app/node2vec\<close>) also read the list of the vertex the walk came from
  (\<open>src/siburst\<close>) and weigh by the intersection (\<open>src/isne_x16\<close>, \<open>src/setintersetion\<close>).
  The uniform walks of \<open>app/test/urw_u55c\<close> (\<open>src/urw\<close>) load the descriptors of their vertices
  through a cache (\<open>src/vdac_cache\<close>).

  Theories.
  Prelude: words of the code's widths, packages \<open>pkg\<close> of a stream (\<open>data\<close>, \<open>last\<close>), collections.
  Linear32: linear functions on 32-bit words as matrices, evaluated in the logic.
  Rng: \<open>sou_function.h\<close>, and \<open>irsgu.cpp\<close> as a step relation over its nine generators and the merge
  with their depth-2 streams; it emits the sequential generator's output and never stalls.
  Xor32_Table, Xor32_Jump, Xor32_Chain: the seeds of \<open>irsgu/xor32s.h\<close>, the order of the xorshift
  step and the distance between consecutive seeds; their streams are disjoint.
  Rng_Instance: \<open>lv_sou/rng_instance.cpp\<close>, the closed form of its outputs.
  Places: the specification of the networks, items moving through places in first-in first-out
  order; conservation and order of flows are proved there once, in locales.
  Network: the stages of \<open>butterfly_network.hpp\<close> (one \<open>decide\<close> per loop iteration) and the step
  relation of a network of such stages, each blocking by itself on full streams.
  Network\_Flow: a network of stages refines Places; locales for well-wired networks give
  progress, bounded runs, conservation, delivery and order.
  Switch\_Net: the eight switches of \<open>butterfly_switch.hpp\<close> and \<open>butterfly_work_stealing.hpp\<close> as
  lists of stages, the interpretations of the locales, the properties of the 16x16 switches.
  Ap\_Range: \<open>ap_uint::range\<close> and the field macros of \<open>rw_type.h\<close>; packing laws as locales.
  Stream\_Ops: the stream adapters of \<open>stream_operation.h\<close>.
  Lv\_Pipeline: one iteration of every kernel of a walk step, and their composition \<open>walk_step\<close>.
  Lv\_Router: the router kernels, the converters around the 8x8 switch.
  Ring: the loader, the step counter and the ring manager as a step relation.
  Lanes: the 512-bit items of sixteen 32-bit lanes.
  Wrs: the kernels of \<open>src/wrs\<close> and the samplers \<open>msample\<close> and \<open>ssample\<close>, over their polls.
  Reservoir: the specification, reservoir sampling of a list of weights; both samplers share the
  locale \<open>sampler\<close>.  The weights of a list must sum to less than \<open>2 ^ 32\<close>.
  Burst: the command generator, the engines, the mask table and the label filter.
  Burst\_Tiling: the plan of a list as natural numbers; the commands tile the list.
  Burst\_Read: what the engines read for the commands, and where their masks are wrong.
  Merge: \<open>intra_merge\<close>, \<open>inter_merge\<close> and \<open>update_merge\<close>, a step relation \<open>merge_run\<close> of one
  iteration against arrivals at either input, and the locale \<open>ordered_merge\<close> of the contract that
  restores the order of identifiers.  The identifiers count modulo \<open>2 ^ 15\<close>, so \<open>merge_run\<close> lets an
  element arrive only while fewer than \<open>2 ^ 15\<close> groups are under way, as the streams' depths ensure.
  Merge\_Order: the contract on the three kernels.
  Metapath: \<open>vd_scheduler\<close>, and what the sampler selects from the rows of a list.
  Burst\_Flow: command generator, engines and \<open>intra_merge\<close> together.
  Polling: kernels with two input streams that decide their own pace, \<open>feed_run\<close>; the locales
  \<open>fed_kernel\<close> and \<open>polling_kernel\<close> show that what they write does not depend on the interleaving.
  Neighbor\_Mask: \<open>isne_x16/neighbor_mask.cpp\<close>, the intersection of two sorted lists, and where it errs.
  Set\_Weights, Node2vec: the kernels of \<open>src/setintersetion\<close>, the weights of a node2vec walk.
  Static\_Burst: \<open>src/staburst\<close> and \<open>src/siburst\<close>, the readers that read a list word by word.
  Node2vec\_Lists, Node2vec\_Step: \<open>src/srw\<close>, \<open>src/vndirect\<close> and the other kernels of
  \<open>app/node2vec\<close>; a step of the walk, from the queries to the queries of the next step.  The streams
  between the kernels are relations (\<open>lists_wired\<close>, \<open>readers_run\<close>, \<open>weights_wired\<close>, \<open>sampler_wired\<close>)
  that say who reads what; the polls of every kernel and the interleaving of those with two inputs
  are left open.
  Walk\_Order: identifiers of queries and groups of rows, and the order \<open>update_merge\<close> restores.
  Vertex\_Cache: the cached vertex loader, \<open>src/vdac_cache\<close> with one of the three update policies
  \<open>src/cache_dac_update\<close>, \<open>cache_direct_update\<close> and \<open>cache_none_update\<close>, as a step relation over
  bounded streams whose depths are parameters.  The locale \<open>update_policy\<close> shows that the cache is
  invisible and that the ring of loader and update kernel does not block if \<open>vcache_depths_ok\<close>.
  Urw: \<open>src/urw\<close>, a step of a uniform walk with the cached loader.
  Metapath\_Reader: scheduler, burst reader, \<open>intra_merge\<close> and \<open>inter_merge\<close> as they are connected.
  Metapath\_Walk: \<open>metapath_sm\<close> and \<open>src/mrw\<close>; a step of a metapath walk from the queries to the
  queries of the next step.  As in Node2vec\_Step the streams are relations (\<open>scheduler_wired\<close>,
  \<open>burst_reader_wired\<close>, \<open>label_sampler_wired\<close>); no query of the step is flagged \<open>last\<close>.
  Coalesce: \<open>src/coalesce/coalesce.cpp\<close>, the chain of kernels that joins the lanes of a row and drops
  repeated cache lines, as a step relation over bounded streams; what it sends, and that it never
  deadlocks.

  Modelling conventions.  Machine integers are words of their width.  An HLS process is its loop
  body; where concurrency matters it is a step relation in which every interleaving of the bodies
  and of the environment is a run, otherwise a function from the values read to the values written.
  A stream is a list, its depth a bound that blocks its writers.  Kernels that poll with \<open>read_nb\<close>
  do nothing in an iteration that finds nothing.  Items declared without an initial value start as
  an argument \<open>w\<close> of the definition, and properties hold for every such value.  Recursion is
  structural or has a measure; the loops that may not end, \<open>clear_stream\<close>, \<open>empty_stream\<close>,
  \<open>cmd_decomposition\<close>, \<open>static_decomposition\<close> and \<open>mask_gen\<close>, are
  \<open>partial_function (option)\<close>, so that \<open>None\<close> is a loop that never returns.  The counter of
  \<open>step_loader\<close> is an \<open>int\<close> of 32 bits: \<open>None\<close> where it overflows.  That lists end 512 entries below the top of the address space is a
  hypothesis where the code needs it; Burst\_Tiling says what happens otherwise.  The step of a
  node2vec walk excludes vertex 0, which the kernels take for a masked lane, and lists whose last four
  lanes meet the fault of \<open>neighbor_mask\<close> (\<open>last_lanes_exact\<close>; theory Neighbor\_Mask).

  Memory contents, the arrival of queries and the availability of stream space are arguments.
  Not modelled: the HLS pragmas, vendor IP and drivers, host programs, build automation; the other
  caches and the network framing are listed in the manifest.
\<close>

end
